(* ===== verification/Prelude.thy ===== *)
theory Prelude
  imports Main "HOL-Library.AList" "HOL-Library.Sublist" "HOL-Library.Signed_Division"
begin

text \<open>
  Shared vocabulary of the development: byte strings and the string operations
  of Rust's standard library that the modelled code calls, hash maps as
  association lists, saturating and wrapping 64-bit arithmetic, and the generic
  lemmas about them that the component theories use.

  Rust's \<open>str\<close> is UTF-8; a \<open>string\<close> here is the list of its bytes, so the
  operations below (substring search, prefix and suffix tests) are the byte
  operations that Rust performs.  A \<open>HashMap\<close> is an association list with
  distinct keys: the order of the list stands for the unspecified iteration
  order, and no result of the development depends on where a new key lands.
\<close>

named_theorems string_ops
  \<open>unfolding of the string operations, for evaluation on literals\<close>
named_theorems alist_laws
  \<open>lookup, domain and distinctness laws of association lists\<close>

section \<open>Strings\<close>

definition starts_with :: "string \<Rightarrow> string \<Rightarrow> bool" where
  [string_ops]: "starts_with s p \<longleftrightarrow> take (length p) s = p"

definition ends_with :: "string \<Rightarrow> string \<Rightarrow> bool" where
  [string_ops]: "ends_with s p \<longleftrightarrow> length p \<le> length s \<and> drop (length s - length p) s = p"

definition strip_prefix :: "string \<Rightarrow> string \<Rightarrow> string option" where
  [string_ops]: "strip_prefix s p = (if starts_with s p then Some (drop (length p) s) else None)"

definition strip_suffix :: "string \<Rightarrow> string \<Rightarrow> string option" where
  [string_ops]: "strip_suffix s p =
     (if ends_with s p then Some (take (length s - length p) s) else None)"

text \<open>\<open>str::contains\<close> with a string pattern.\<close>

fun contains :: "string \<Rightarrow> string \<Rightarrow> bool" where
  "contains [] n \<longleftrightarrow> n = []"
| "contains (c # cs) n \<longleftrightarrow> starts_with (c # cs) n \<or> contains cs n"

definition has_any :: "string \<Rightarrow> string list \<Rightarrow> bool" where
  "has_any haystack needles \<longleftrightarrow> list_ex (\<lambda>n. contains haystack n) needles"

text \<open>ASCII lower case, byte by byte.\<close>

definition char_lower :: "char \<Rightarrow> char" where
  "char_lower c = (let n = (of_char c :: nat) in
     if 65 \<le> n \<and> n \<le> 90 then char_of (n + 32) else c)"

definition to_lowercase :: "string \<Rightarrow> string" where
  "to_lowercase s = map char_lower s"

text \<open>\<open>str::split\<close> at one character: always at least one part.\<close>

fun split_on :: "char \<Rightarrow> string \<Rightarrow> string list" where
  "split_on d [] = [[]]"
| "split_on d (c # cs) =
     (if c = d then [] # split_on d cs
      else (case split_on d cs of [] \<Rightarrow> [[c]] | p # ps \<Rightarrow> (c # p) # ps))"

text \<open>\<open>str::split_once\<close>: cut at the first occurrence of a character.\<close>

fun split_once :: "char \<Rightarrow> string \<Rightarrow> (string \<times> string) option" where
  "split_once d [] = None"
| "split_once d (c # cs) =
     (if c = d then Some ([], cs)
      else (case split_once d cs of None \<Rightarrow> None | Some (a, b) \<Rightarrow> Some (c # a, b)))"

text \<open>\<open>[String]::join\<close>.\<close>

fun join_with :: "string \<Rightarrow> string list \<Rightarrow> string" where
  "join_with sep [] = []"
| "join_with sep [p] = p"
| "join_with sep (p # q # ps) = p @ sep @ join_with sep (q # ps)"

text \<open>\<open>char::is_whitespace\<close>, \<open>str::trim\<close> and \<open>str::split_whitespace\<close> on ASCII text.\<close>

definition ascii_whitespace :: "char \<Rightarrow> bool" where
  "ascii_whitespace c \<longleftrightarrow> (let n = (of_char c :: nat) in n = 32 \<or> 9 \<le> n \<and> n \<le> 13)"

definition trim_start :: "string \<Rightarrow> string" where
  "trim_start s = dropWhile ascii_whitespace s"

definition trim_ws :: "string \<Rightarrow> string" where
  "trim_ws s = rev (trim_start (rev (trim_start s)))"

fun words_acc :: "string \<Rightarrow> string \<Rightarrow> string list" where
  "words_acc w [] = (if w = [] then [] else [w])"
| "words_acc w (c # cs) =
     (if ascii_whitespace c then (if w = [] then words_acc [] cs else w # words_acc [] cs)
      else words_acc (w @ [c]) cs)"

definition split_whitespace :: "string \<Rightarrow> string list" where
  "split_whitespace s = words_acc [] s"

text \<open>Decimal display of an unsigned integer.\<close>

fun show_nat :: "nat \<Rightarrow> string" where
  "show_nat n =
     (if n < 10 then [char_of (48 + n)] else show_nat (n div 10) @ [char_of (48 + n mod 10)])"

declare show_nat.simps [simp del]

lemma show_nat_digits: "c \<in> set (show_nat n) \<Longrightarrow> of_char c \<in> {48..57::nat}"
proof (induction n rule: show_nat.induct)
  case (1 n)
  then show ?case by (subst (asm) show_nat.simps) (auto split: if_splits)
qed

lemma show_nat_decode: "foldl (\<lambda>a c. a * 10 + (of_char c - 48)) 0 (show_nat n) = n"
proof (induction n rule: show_nat.induct)
  case (1 n)
  then show ?case by (subst show_nat.simps) (auto simp: Let_def)
qed

lemma show_nat_inj: "show_nat m = show_nat n \<Longrightarrow> m = n"
  by (metis show_nat_decode)

lemma starts_with_append [simp]: "starts_with (p @ s) p"
  by (simp add: starts_with_def)

lemma starts_with_Nil [simp]: "starts_with s []"
  by (simp add: starts_with_def)

lemma starts_with_iff: "starts_with s p \<longleftrightarrow> (\<exists>t. s = p @ t)"
  unfolding starts_with_def by (metis append_eq_conv_conj append_take_drop_id)

lemma starts_with_refl [simp]: "starts_with s s"
  by (simp add: starts_with_def)

lemma starts_with_trans: "starts_with a b \<Longrightarrow> starts_with b c \<Longrightarrow> starts_with a c"
  by (auto simp: starts_with_iff)

lemma ends_with_iff: "ends_with s p \<longleftrightarrow> (\<exists>t. s = t @ p)"
proof
  assume "ends_with s p"
  then have "s = take (length s - length p) s @ p"
    unfolding ends_with_def by (metis append_take_drop_id)
  then show "\<exists>t. s = t @ p" by blast
qed (auto simp: ends_with_def)

lemma strip_suffix_Some: "strip_suffix s p = Some t \<longleftrightarrow> s = t @ p"
  by (auto simp: strip_suffix_def ends_with_iff split: if_splits)

lemma strip_prefix_Some: "strip_prefix s p = Some t \<longleftrightarrow> s = p @ t"
  by (auto simp: strip_prefix_def starts_with_iff split: if_splits)

lemma cut_unique:
  "d \<notin> set a \<Longrightarrow> d \<notin> set b \<Longrightarrow> a @ d # x = b @ d # y \<Longrightarrow> a = b \<and> x = y"
proof (induction a arbitrary: b)
  case Nil
  then show ?case by (cases b) auto
next
  case (Cons c cs)
  then show ?case by (cases b) auto
qed

lemma split_on_nonempty [simp]: "split_on d s \<noteq> []"
  by (induction s) (auto split: list.splits)

lemma split_on_no_delim: "d \<notin> set s \<Longrightarrow> split_on d s = [s]"
  by (induction s) auto

lemma split_on_append:
  "d \<notin> set p \<Longrightarrow> split_on d (p @ d # s) = p # split_on d s"
  by (induction p) auto

lemma split_on_parts: "p \<in> set (split_on d s) \<Longrightarrow> d \<notin> set p"
proof (induction s arbitrary: p)
  case (Cons c cs)
  then show ?case by (cases "split_on d cs") (auto split: if_splits)
qed simp

lemma split_on_join:
  "ps \<noteq> [] \<Longrightarrow> \<forall>p\<in>set ps. d \<notin> set p \<Longrightarrow> split_on d (join_with [d] ps) = ps"
proof (induction "[d]" ps rule: join_with.induct)
  case (2 p)
  then show ?case by (simp add: split_on_no_delim)
next
  case (3 p q ps)
  then show ?case by (simp add: split_on_append)
qed simp

section \<open>Hash maps\<close>

type_synonym ('k, 'v) hmap = "('k \<times> 'v) list"

definition hm_wf :: "('k, 'v) hmap \<Rightarrow> bool" where
  "hm_wf m \<longleftrightarrow> distinct (map fst m)"

abbreviation hm_get :: "('k, 'v) hmap \<Rightarrow> 'k \<Rightarrow> 'v option" where
  "hm_get \<equiv> map_of"

abbreviation hm_insert :: "'k \<Rightarrow> 'v \<Rightarrow> ('k, 'v) hmap \<Rightarrow> ('k, 'v) hmap" where
  "hm_insert \<equiv> AList.update"

abbreviation hm_remove :: "'k \<Rightarrow> ('k, 'v) hmap \<Rightarrow> ('k, 'v) hmap" where
  "hm_remove \<equiv> AList.delete"

text \<open>\<open>HashMap::retain\<close>.\<close>

definition hm_retain :: "('k \<Rightarrow> 'v \<Rightarrow> bool) \<Rightarrow> ('k, 'v) hmap \<Rightarrow> ('k, 'v) hmap" where
  "hm_retain P m = filter (\<lambda>(k, v). P k v) m"

lemma hm_wf_Nil [simp, alist_laws]: "hm_wf []"
  by (simp add: hm_wf_def)

lemma hm_wf_insert [simp, alist_laws]: "hm_wf m \<Longrightarrow> hm_wf (hm_insert k v m)"
  by (simp add: hm_wf_def distinct_update)

lemma hm_wf_remove [simp, alist_laws]: "hm_wf m \<Longrightarrow> hm_wf (hm_remove k m)"
  by (simp add: hm_wf_def distinct_delete)

lemma hm_wf_retain [simp, alist_laws]: "hm_wf m \<Longrightarrow> hm_wf (hm_retain P m)"
  by (simp add: hm_wf_def hm_retain_def distinct_map_filter)

lemma hm_get_insert [simp, alist_laws]:
  "hm_get (hm_insert k v m) k' = (if k' = k then Some v else hm_get m k')"
  by (simp add: update_conv')

lemma hm_get_remove [simp, alist_laws]:
  "hm_get (hm_remove k m) k' = (if k' = k then None else hm_get m k')"
  by (simp add: delete_conv')

lemma hm_get_mem: "hm_wf m \<Longrightarrow> hm_get m k = Some v \<longleftrightarrow> (k, v) \<in> set m"
  by (simp add: hm_wf_def)

lemma hm_get_retain [alist_laws]:
  "hm_wf m \<Longrightarrow> hm_get (hm_retain P m) k =
     (case hm_get m k of None \<Rightarrow> None | Some v \<Rightarrow> if P k v then Some v else None)"
proof (induction m)
  case (Cons a m)
  obtain k' v' where a: "a = (k', v')" by (cases a)
  from Cons.prems a have "hm_wf m" and new: "k' \<notin> fst ` set m"
    by (auto simp: hm_wf_def)
  moreover from new have "hm_get m k' = None"
    by (simp add: map_of_eq_None_iff)
  ultimately show ?case
    using Cons.IH a by (auto simp: hm_retain_def split: option.splits)
qed (simp add: hm_retain_def)

lemma hm_length_insert:
  "hm_wf m \<Longrightarrow> length (hm_insert k v m) = (if hm_get m k = None then Suc (length m) else length m)"
  by (induction m) (auto simp: hm_wf_def map_of_eq_None_iff image_iff split: if_splits)

lemma hm_length_remove:
  "hm_wf m \<Longrightarrow> hm_get m k = Some v \<Longrightarrow> length (hm_remove k m) = length m - 1"
proof (induction m)
  case (Cons a m)
  then have "hm_wf m" by (simp add: hm_wf_def)
  show ?case
  proof (cases "fst a = k")
    case True
    with Cons.prems have "k \<notin> fst ` set m" by (simp add: hm_wf_def)
    then have "hm_remove k m = m" by (simp add: delete_id)
    with True show ?thesis by (cases a) simp
  next
    case False
    then have "length m > 0" using Cons.prems by (cases m) (auto split: if_splits)
    with False Cons \<open>hm_wf m\<close> show ?thesis by (cases a) (auto split: if_splits)
  qed
qed simp

lemma hm_length_retain: "length (hm_retain P m) \<le> length m"
  by (simp add: hm_retain_def)

lemma hm_retain_subset: "set (hm_retain P m) \<subseteq> set m"
  by (auto simp: hm_retain_def)

lemma hm_remove_subset: "set (hm_remove k m) \<subseteq> set m"
  by (induction m) (auto split: if_splits)

lemma hm_length_remove_le: "length (hm_remove k m) \<le> length m"
  by (induction m) auto

lemma hm_all_insert:
  "\<forall>e\<in>set m. P (fst e) (snd e) \<Longrightarrow> P k v \<Longrightarrow> e \<in> set (hm_insert k v m) \<Longrightarrow> P (fst e) (snd e)"
  by (induction m) (auto split: if_splits)

section \<open>64-bit arithmetic\<close>

text \<open>
  An \<open>Instant\<close> is its distance in nanoseconds from an arbitrary origin;
  \<open>duration_since\<close> and \<open>elapsed\<close> saturate at zero, as natural subtraction does.
\<close>

type_synonym instant = nat

definition as_secs :: "nat \<Rightarrow> nat" where
  "as_secs d = d div 10 ^ 9"

definition as_micros :: "nat \<Rightarrow> nat" where
  "as_micros d = d div 10 ^ 3"

definition u64_max :: nat where
  "u64_max = 2 ^ 64 - 1"

definition sat_add_u64 :: "nat \<Rightarrow> nat \<Rightarrow> nat" where
  "sat_add_u64 a b = min (a + b) u64_max"

definition sat_mul_u64 :: "nat \<Rightarrow> nat \<Rightarrow> nat" where
  "sat_mul_u64 a b = min (a * b) u64_max"

definition wrap_u64 :: "nat \<Rightarrow> nat" where
  "wrap_u64 n = n mod 2 ^ 64"

definition wrap_u32 :: "nat \<Rightarrow> nat" where
  "wrap_u32 n = n mod 2 ^ 32"

lemma wrap_u32_id: "n < 2 ^ 32 \<Longrightarrow> wrap_u32 n = n"
  by (simp add: wrap_u32_def)

definition i64_max :: int where
  "i64_max = 2 ^ 63 - 1"

definition i64_min :: int where
  "i64_min = - (2 ^ 63)"

definition in_i64 :: "int \<Rightarrow> bool" where
  "in_i64 x \<longleftrightarrow> i64_min \<le> x \<and> x \<le> i64_max"

definition sat_i64 :: "int \<Rightarrow> int" where
  "sat_i64 x = max i64_min (min x i64_max)"

definition wrap_i64 :: "int \<Rightarrow> int" where
  "wrap_i64 x = (x + 2 ^ 63) mod 2 ^ 64 - 2 ^ 63"

lemma sat_add_u64_le [simp]: "sat_add_u64 a b \<le> u64_max"
  by (simp add: sat_add_u64_def)

lemma sat_mul_u64_le [simp]: "sat_mul_u64 a b \<le> u64_max"
  by (simp add: sat_mul_u64_def)

lemma wrap_u64_le [simp]: "wrap_u64 n \<le> u64_max"
  by (simp add: wrap_u64_def u64_max_def flip: less_Suc_eq_le)

lemma wrap_u64_id: "n \<le> u64_max \<Longrightarrow> wrap_u64 n = n"
  by (simp add: wrap_u64_def u64_max_def)

lemma wrap_i64_id: "in_i64 x \<Longrightarrow> wrap_i64 x = x"
  by (simp add: wrap_i64_def in_i64_def i64_min_def i64_max_def)

lemma in_i64_wrap [simp]: "in_i64 (wrap_i64 x)"
proof -
  have "0 \<le> (x + 2 ^ 63) mod 2 ^ 64" "(x + 2 ^ 63) mod 2 ^ 64 < 2 ^ 64"
    by simp_all
  then show ?thesis
    by (simp add: in_i64_def wrap_i64_def i64_min_def i64_max_def)
qed

lemma in_i64_sat [simp]: "in_i64 (sat_i64 x)"
  by (simp add: in_i64_def sat_i64_def i64_min_def i64_max_def)

lemma sat_i64_id: "in_i64 x \<Longrightarrow> sat_i64 x = x"
  by (auto simp: in_i64_def sat_i64_def)

section \<open>Lists\<close>

lemma fold_invariant:
  assumes "P s" and "\<And>x s. x \<in> set xs \<Longrightarrow> P s \<Longrightarrow> P (f x s)"
  shows "P (fold f xs s)"
  using assms by (induction xs arbitrary: s) auto

text \<open>\<open>Vec::remove(position(p))\<close>: drop the first element that satisfies \<open>p\<close>.\<close>

fun remove_first :: "('a \<Rightarrow> bool) \<Rightarrow> 'a list \<Rightarrow> 'a list" where
  "remove_first p [] = []"
| "remove_first p (x # xs) = (if p x then xs else x # remove_first p xs)"

lemma length_remove_first:
  "length (remove_first p xs) = (if \<exists>x\<in>set xs. p x then length xs - 1 else length xs)"
proof (induction xs)
  case (Cons x xs)
  then show ?case by (cases xs) auto
qed simp

lemma count_remove_first:
  "length (filter p (remove_first p xs)) = length (filter p xs) - 1"
  by (induction xs) auto

lemma set_remove_first: "set (remove_first p xs) \<subseteq> set xs"
  by (induction xs) auto

lemma filter_remove_first_other:
  "(\<And>x. p x \<Longrightarrow> \<not> q x) \<Longrightarrow> filter q (remove_first p xs) = filter q xs"
  by (induction xs) auto

lemma in_set_tl: "x \<in> set (tl xs) \<Longrightarrow> x \<in> set xs"
  by (cases xs) auto

lemma find_None_D: "List.find P xs = None \<Longrightarrow> x \<in> set xs \<Longrightarrow> \<not> P x"
  by (auto simp: find_None_iff)

lemma length_filter_filter_le: "length (filter P (filter Q xs)) \<le> length (filter P xs)"
  by (induction xs) auto

lemma successively_transp:
  "transp R \<Longrightarrow> successively R xs \<Longrightarrow> sorted_wrt R xs"
  by (simp add: successively_conv_sorted_wrt)

end
