(* ===== verification/Interfaces.thy ===== *)
theory Interfaces
  imports Prelude
begin

text \<open>
  The contracts that several components of the gateway share, stated once as
  locales: what a taint label lattice promises the trackers that accumulate
  labels, what a store with expiring entries promises after a sweep, what
  deny-wins rule evaluation promises, what a keyed store promises about two
  different keys, and what an attenuation order promises along a delegation
  chain.  Each provider theory interprets the locale on its own functions.
\<close>

named_theorems contract_facts \<open>facts obtained from the interpretations\<close>

section \<open>Label lattices and taint accumulation\<close>

locale taint_lattice =
  fixes jn :: "'l \<Rightarrow> 'l \<Rightarrow> 'l"
    and bot :: 'l
    and le :: "'l \<Rightarrow> 'l \<Rightarrow> bool"
  assumes le_refl: "le a a"
    and le_trans: "le a b \<Longrightarrow> le b c \<Longrightarrow> le a c"
    and le_antisym: "le a b \<Longrightarrow> le b a \<Longrightarrow> a = b"
    and bot_le: "le bot a"
    and jn_ub1: "le a (jn a b)"
    and jn_ub2: "le b (jn a b)"
    and jn_lub: "le a c \<Longrightarrow> le b c \<Longrightarrow> le (jn a b) c"
begin

lemma jn_le_iff: "le (jn a b) c \<longleftrightarrow> le a c \<and> le b c"
  using jn_ub1 jn_ub2 jn_lub le_trans by blast

lemma jn_idem: "jn a a = a"
  using jn_le_iff le_antisym le_refl by meson

lemma jn_comm: "jn a b = jn b a"
  by (rule le_antisym) (auto simp: jn_le_iff intro: jn_ub1 jn_ub2)

lemma jn_assoc: "jn (jn a b) c = jn a (jn b c)"
proof -
  have "le (jn (jn a b) c) d \<longleftrightarrow> le (jn a (jn b c)) d" for d
    by (auto simp: jn_le_iff)
  then show ?thesis using le_antisym le_refl by meson
qed

lemma jn_bot: "jn bot a = a" "jn a bot = a"
  using jn_le_iff le_antisym le_refl bot_le by meson+

lemma fold_le_iff: "le (foldl jn x ls) c \<longleftrightarrow> le x c \<and> (\<forall>l\<in>set ls. le l c)"
  by (induction ls arbitrary: x) (auto simp: jn_le_iff)

lemma fold_raises: "le x (foldl jn x ls)"
  using fold_le_iff le_refl by blast

lemma fold_covers: "l \<in> set ls \<Longrightarrow> le l (foldl jn x ls)"
  using fold_le_iff le_refl by blast

text \<open>The accumulated label depends only on which labels were seen.\<close>

lemma fold_set_cong:
  assumes "set ls = set ms"
  shows "foldl jn x ls = foldl jn x ms"
proof -
  have "le (foldl jn x ls) c \<longleftrightarrow> le (foldl jn x ms) c" for c
    using assms by (simp add: fold_le_iff)
  then show ?thesis using le_antisym le_refl by meson
qed

lemma fold_mono: "set ls \<subseteq> set ms \<Longrightarrow> le (foldl jn x ls) (foldl jn x ms)"
  by (auto simp: fold_le_iff fold_raises fold_covers)

lemma fold_bot_append: "foldl jn x ls = jn x (foldl jn bot ls)"
proof -
  have "le (foldl jn x ls) c \<longleftrightarrow> le (jn x (foldl jn bot ls)) c" for c
    by (auto simp: fold_le_iff jn_le_iff bot_le)
  then show ?thesis using le_antisym le_refl by meson
qed

end

section \<open>Stores whose entries expire\<close>

locale expiring_store =
  fixes sweep :: "nat \<Rightarrow> 'e list \<Rightarrow> 'e list"
    and live :: "nat \<Rightarrow> 'e \<Rightarrow> bool"
  assumes sweep_live: "sweep t es = filter (live t) es"
    and expiry_final: "live t' e \<Longrightarrow> t \<le> t' \<Longrightarrow> live t e"
begin

lemma sweep_mem: "e \<in> set (sweep t es) \<longleftrightarrow> e \<in> set es \<and> live t e"
  by (simp add: sweep_live)

text \<open>An early sweep loses nothing a later one keeps.\<close>

lemma sweep_sweep: "t \<le> t' \<Longrightarrow> sweep t' (sweep t es) = sweep t' es"
  by (auto simp: sweep_live intro!: filter_cong dest: expiry_final)

lemma sweep_idem: "sweep t (sweep t es) = sweep t es"
  by (rule sweep_sweep) simp

lemma expired_stays_out: "\<not> live t e \<Longrightarrow> t \<le> t' \<Longrightarrow> e \<notin> set (sweep t' es)"
  using expiry_final by (auto simp: sweep_mem)

lemma sweep_append: "sweep t (xs @ ys) = sweep t xs @ sweep t ys"
  by (simp add: sweep_live)

lemma sweep_all_live: "(\<And>e. e \<in> set es \<Longrightarrow> live t e) \<Longrightarrow> sweep t es = es"
  by (simp add: sweep_live)

end

section \<open>Deny-wins evaluation\<close>

locale deny_wins =
  fixes add_deny :: "'d \<Rightarrow> 'r \<Rightarrow> 'r"
    and covers :: "'d \<Rightarrow> 'q \<Rightarrow> bool"
    and grants :: "'r \<Rightarrow> 'q \<Rightarrow> bool"
  assumes add_deny: "grants (add_deny d r) q \<longleftrightarrow> grants r q \<and> \<not> covers d q"
begin

lemma add_denies:
  "grants (fold add_deny ds r) q \<longleftrightarrow> grants r q \<and> (\<forall>d\<in>set ds. \<not> covers d q)"
  by (induction ds arbitrary: r) (auto simp: add_deny)

lemma deny_never_widens: "grants (fold add_deny ds r) q \<Longrightarrow> grants r q"
  by (simp add: add_denies)

lemma deny_covers_blocks: "d \<in> set ds \<Longrightarrow> covers d q \<Longrightarrow> \<not> grants (fold add_deny ds r) q"
  by (auto simp: add_denies)

lemma deny_order_irrelevant:
  "set ds = set es \<Longrightarrow> grants (fold add_deny ds r) q = grants (fold add_deny es r) q"
  by (simp add: add_denies)

end

section \<open>Keyed stores\<close>

text \<open>
  A store of independent slots: an operation addressed to key \<open>k\<close> acts on the
  slot of \<open>k\<close> by a local function and on no other slot.  A run of operations
  then leaves in each slot what the operations addressed to it alone would have.
\<close>

locale keyed_store =
  fixes slot :: "'s \<Rightarrow> 'k \<Rightarrow> 'v"
    and act :: "'k \<Rightarrow> 'op \<Rightarrow> 's \<Rightarrow> 's"
    and local_act :: "'k \<Rightarrow> 'op \<Rightarrow> 'v \<Rightarrow> 'v"
  assumes slot_same: "slot (act k a s) k = local_act k a (slot s k)"
    and slot_other: "k' \<noteq> k \<Longrightarrow> slot (act k a s) k' = slot s k'"
begin

lemma run_projection:
  "slot (fold (\<lambda>(k, a). act k a) tr s) k =
     fold (local_act k) (map snd (filter (\<lambda>e. fst e = k) tr)) (slot s k)"
  by (induction tr arbitrary: s) (auto simp: slot_same slot_other)

lemma noninterference:
  assumes "filter (\<lambda>e. fst e = k) tr = filter (\<lambda>e. fst e = k) tr'"
    and "slot s k = slot s' k"
  shows "slot (fold (\<lambda>(k, a). act k a) tr s) k = slot (fold (\<lambda>(k, a). act k a) tr' s') k"
  using assms by (simp add: run_projection)

lemma untouched:
  "k \<notin> fst ` set tr \<Longrightarrow> slot (fold (\<lambda>(k, a). act k a) tr s) k = slot s k"
proof -
  assume "k \<notin> fst ` set tr"
  then have "filter (\<lambda>e. fst e = k) tr = []" by (auto simp: filter_empty_conv)
  then show ?thesis by (simp add: run_projection)
qed

end

section \<open>Attenuation along delegation chains\<close>

locale attenuation =
  fixes att :: "'c \<Rightarrow> 'c \<Rightarrow> bool"
  assumes att_trans: "att p c \<Longrightarrow> att c g \<Longrightarrow> att p g"
begin

lemma chain_sorted: "successively att cs \<Longrightarrow> sorted_wrt att cs"
  by (rule successively_transp) (auto intro: transpI att_trans)

lemma chain_attenuates:
  "successively att (root # cs) \<Longrightarrow> c \<in> set cs \<Longrightarrow> att root c"
  using chain_sorted by fastforce

end

end
