(* ===== verification/Labels.thy ===== *)
theory Labels
  imports Interfaces
begin

text \<open>
  Data labels of \<open>navra-protocol/src/label.rs\<close>: the two security dimensions, the
  label, its lattice join and the two Bell-LaPadula tests, next to the ghost
  specification that the same file states in its \<open>verus!\<close> block.  The join
  is shown to implement that specification and to form a bounded lattice, which
  interprets \<open>taint_lattice\<close> for every component that accumulates labels.
\<close>

section \<open>Levels\<close>

datatype integrity = Trusted | Untrusted

datatype confidentiality = Public | Sensitive | Pii | Secret

fun integrity_ord :: "integrity \<Rightarrow> nat" where
  "integrity_ord Trusted = 0"
| "integrity_ord Untrusted = 1"

fun conf_ord :: "confidentiality \<Rightarrow> nat" where
  "conf_ord Public = 0"
| "conf_ord Sensitive = 1"
| "conf_ord Pii = 2"
| "conf_ord Secret = 3"

lemma integrity_ord_inj [simp]: "integrity_ord a = integrity_ord b \<longleftrightarrow> a = b"
  by (cases a; cases b) simp_all

lemma conf_ord_inj [simp]: "conf_ord a = conf_ord b \<longleftrightarrow> a = b"
  by (cases a; cases b) simp_all

text \<open>The derived \<open>Ord\<close> of a fieldless Rust enum compares declaration positions.\<close>

instantiation integrity :: linorder
begin

definition less_eq_integrity :: "integrity \<Rightarrow> integrity \<Rightarrow> bool" where
  "less_eq_integrity a b \<longleftrightarrow> integrity_ord a \<le> integrity_ord b"

definition less_integrity :: "integrity \<Rightarrow> integrity \<Rightarrow> bool" where
  "less_integrity a b \<longleftrightarrow> integrity_ord a < integrity_ord b"

instance
  by standard (auto simp: less_eq_integrity_def less_integrity_def)

end

instantiation confidentiality :: linorder
begin

definition less_eq_confidentiality :: "confidentiality \<Rightarrow> confidentiality \<Rightarrow> bool" where
  "less_eq_confidentiality a b \<longleftrightarrow> conf_ord a \<le> conf_ord b"

definition less_confidentiality :: "confidentiality \<Rightarrow> confidentiality \<Rightarrow> bool" where
  "less_confidentiality a b \<longleftrightarrow> conf_ord a < conf_ord b"

instance
  by standard (auto simp: less_eq_confidentiality_def less_confidentiality_def)

end

lemmas level_order =
  less_eq_integrity_def less_integrity_def less_eq_confidentiality_def less_confidentiality_def

lemma Public_least [simp]: "Public \<le> c" and Secret_greatest [simp]: "c \<le> Secret"
  by (cases c; simp add: level_order)+

lemma Trusted_least [simp]: "Trusted \<le> i" and Untrusted_greatest [simp]: "i \<le> Untrusted"
  by (cases i; simp add: level_order)+

lemma Secret_le [simp]: "Secret \<le> c \<longleftrightarrow> c = Secret"
  by (cases c) (simp_all add: level_order)

lemma le_Public [simp]: "c \<le> Public \<longleftrightarrow> c = Public"
  by (cases c) (simp_all add: level_order)

lemma Untrusted_le [simp]: "Untrusted \<le> i \<longleftrightarrow> i = Untrusted"
  by (cases i) (simp_all add: level_order)

section \<open>Labels\<close>

record data_label =
  integrity :: integrity
  confidentiality :: confidentiality

definition TRUSTED_PUBLIC :: data_label where
  "TRUSTED_PUBLIC = \<lparr>integrity = Trusted, confidentiality = Public\<rparr>"

definition UNTRUSTED_PUBLIC :: data_label where
  "UNTRUSTED_PUBLIC = \<lparr>integrity = Untrusted, confidentiality = Public\<rparr>"

definition UNTRUSTED_SENSITIVE :: data_label where
  "UNTRUSTED_SENSITIVE = \<lparr>integrity = Untrusted, confidentiality = Sensitive\<rparr>"

definition UNTRUSTED_PII :: data_label where
  "UNTRUSTED_PII = \<lparr>integrity = Untrusted, confidentiality = Pii\<rparr>"

definition TRUSTED_SECRET :: data_label where
  "TRUSTED_SECRET = \<lparr>integrity = Trusted, confidentiality = Secret\<rparr>"

lemmas label_consts =
  TRUSTED_PUBLIC_def UNTRUSTED_PUBLIC_def UNTRUSTED_SENSITIVE_def UNTRUSTED_PII_def
  TRUSTED_SECRET_def

definition join :: "data_label \<Rightarrow> data_label \<Rightarrow> data_label" where
  "join a b =
     \<lparr>integrity = (if integrity a > integrity b then integrity a else integrity b),
      confidentiality =
        (if confidentiality a > confidentiality b then confidentiality a
         else confidentiality b)\<rparr>"

definition can_write_to :: "data_label \<Rightarrow> confidentiality \<Rightarrow> bool" where
  "can_write_to l target \<longleftrightarrow> confidentiality l \<le> target"

definition can_read_from :: "confidentiality \<Rightarrow> confidentiality \<Rightarrow> bool" where
  "can_read_from clearance classification \<longleftrightarrow> clearance \<ge> classification"

text \<open>\<open>Debug\<close> of the enums and \<open>Display\<close> of the label.\<close>

fun integrity_debug :: "integrity \<Rightarrow> string" where
  "integrity_debug Trusted = ''Trusted''"
| "integrity_debug Untrusted = ''Untrusted''"

fun confidentiality_debug :: "confidentiality \<Rightarrow> string" where
  "confidentiality_debug Public = ''Public''"
| "confidentiality_debug Sensitive = ''Sensitive''"
| "confidentiality_debug Pii = ''Pii''"
| "confidentiality_debug Secret = ''Secret''"

definition label_display :: "data_label \<Rightarrow> string" where
  "label_display l =
     integrity_debug (integrity l) @ ''+'' @ confidentiality_debug (confidentiality l)"

section \<open>The specification stated in the source\<close>

definition spec_join :: "data_label \<Rightarrow> data_label \<Rightarrow> data_label" where
  "spec_join a b =
     \<lparr>integrity = (if integrity_ord (integrity a) > integrity_ord (integrity b)
                   then integrity a else integrity b),
      confidentiality = (if conf_ord (confidentiality a) > conf_ord (confidentiality b)
                         then confidentiality a else confidentiality b)\<rparr>"

definition spec_can_write_to :: "data_label \<Rightarrow> confidentiality \<Rightarrow> bool" where
  "spec_can_write_to l target \<longleftrightarrow> conf_ord (confidentiality l) \<le> conf_ord target"

definition spec_can_read_from :: "confidentiality \<Rightarrow> confidentiality \<Rightarrow> bool" where
  "spec_can_read_from clearance classification \<longleftrightarrow> conf_ord clearance \<ge> conf_ord classification"

lemma join_implements_spec: "join = spec_join"
  by (intro ext) (simp add: join_def spec_join_def level_order)

lemma flow_checks_implement_spec:
  "can_write_to = spec_can_write_to" "can_read_from = spec_can_read_from"
  by (intro ext, simp add: can_write_to_def spec_can_write_to_def can_read_from_def
        spec_can_read_from_def level_order)+

section \<open>The lattice\<close>

definition label_le :: "data_label \<Rightarrow> data_label \<Rightarrow> bool" where
  "label_le a b \<longleftrightarrow> integrity a \<le> integrity b \<and> confidentiality a \<le> confidentiality b"

lemma join_max:
  "integrity (join a b) = max (integrity a) (integrity b)"
  "confidentiality (join a b) = max (confidentiality a) (confidentiality b)"
  by (auto simp: join_def max_def)

interpretation labels: taint_lattice join TRUSTED_PUBLIC label_le
proof
  fix a b :: data_label
  show "label_le a b \<Longrightarrow> label_le b a \<Longrightarrow> a = b"
    by (auto simp: label_le_def intro!: data_label.equality)
qed (auto simp: label_le_def join_max TRUSTED_PUBLIC_def)

lemmas [contract_facts] = labels.fold_le_iff labels.fold_raises labels.fold_covers

lemma label_le_UNTRUSTED:
  "integrity a = Untrusted \<Longrightarrow> label_le a b \<Longrightarrow> integrity b = Untrusted"
  by (simp add: label_le_def)

text \<open>No-write-down in terms of the order: writing is antitone in the label.\<close>

lemma can_write_to_antimono: "label_le a b \<Longrightarrow> can_write_to b t \<Longrightarrow> can_write_to a t"
  by (auto simp: label_le_def can_write_to_def)

lemma can_write_to_mono_target: "can_write_to l t \<Longrightarrow> t \<le> t' \<Longrightarrow> can_write_to l t'"
  by (auto simp: can_write_to_def)

lemma can_write_to_join: "can_write_to (join a b) t \<longleftrightarrow> can_write_to a t \<and> can_write_to b t"
  by (simp add: can_write_to_def join_max)

lemma can_write_to_foldl:
  "can_write_to (foldl join x ls) t \<longleftrightarrow> can_write_to x t \<and> (\<forall>l\<in>set ls. can_write_to l t)"
  by (induction ls arbitrary: x) (auto simp: can_write_to_join)

lemma debug_no_plus: "CHR ''+'' \<notin> set (integrity_debug i)"
  by (cases i) simp_all

lemma label_display_inj: "label_display a = label_display b \<longleftrightarrow> a = b"
proof
  assume eq: "label_display a = label_display b"
  have "integrity a = integrity b \<and> confidentiality a = confidentiality b"
    using eq by (cases "integrity a"; cases "integrity b"; cases "confidentiality a";
        cases "confidentiality b") (simp_all add: label_display_def)
  then show "a = b" by (auto intro!: data_label.equality)
qed simp

end
