(* ===== verification/Paths.thy ===== *)
theory Paths
  imports Prelude
begin

text \<open>
  Lexical path handling shared by the access-control engine
  (\<open>navra-auth/src/permissions/acl.rs\<close>) and the trusted-path test of
  \<open>navra-auth/src/ifc/mod.rs\<close>: the components of a Unix path as
  \<open>std::path::Path::components\<close> yields them, their collection back into a
  \<open>PathBuf\<close>, the lexical normalisation of the two files, tilde expansion, and
  glob matching.  The \<open>glob\<close> crate is a parameter: \<open>glob pat\<close> is
  \<open>None\<close> when \<open>Pattern::new\<close> rejects the pattern and otherwise the
  matcher; so is the home directory.
\<close>

type_synonym glob_engine = "string \<Rightarrow> (string \<Rightarrow> bool) option"

definition glob_accepts :: "glob_engine \<Rightarrow> string \<Rightarrow> string \<Rightarrow> bool" where
  "glob_accepts glob pat s = (case glob pat of None \<Rightarrow> False | Some matches \<Rightarrow> matches s)"

section \<open>Components\<close>

datatype component = RootDir | CurDir | ParentDir | Normal string

fun part_component :: "string \<Rightarrow> component list" where
  "part_component p =
     (if p = [] \<or> p = ''.'' then [] else if p = ''..'' then [ParentDir] else [Normal p])"

definition components :: "string \<Rightarrow> component list" where
  "components s =
     (case s of
        [] \<Rightarrow> []
      | c # cs \<Rightarrow>
          if c = CHR ''/'' then RootDir # concat (map part_component (split_on (CHR ''/'') cs))
          else (case split_on (CHR ''/'') s of
                  [] \<Rightarrow> []
                | p # ps \<Rightarrow> (if p = ''.'' then [CurDir] else part_component p)
                           @ concat (map part_component ps)))"

text \<open>\<open>PathBuf::push\<close> of one component, and \<open>collect\<close>.\<close>

fun component_text :: "component \<Rightarrow> string" where
  "component_text RootDir = ''/''"
| "component_text CurDir = ''.''"
| "component_text ParentDir = ''..''"
| "component_text (Normal s) = s"

definition path_push :: "string \<Rightarrow> component \<Rightarrow> string" where
  "path_push buf c =
     (if c = RootDir then ''/''
      else if buf = [] \<or> last buf = CHR ''/'' then buf @ component_text c
      else buf @ ''/'' @ component_text c)"

definition collect_path :: "component list \<Rightarrow> string" where
  "collect_path cs = foldl path_push [] cs"

section \<open>Normalisation\<close>

text \<open>
  The loop body: \<open>..\<close> pops the last component, \<open>.\<close> is dropped, anything else
  is pushed.  Popping the root component is possible, as in the code.
\<close>

fun normalize_step :: "component list \<Rightarrow> component \<Rightarrow> component list" where
  "normalize_step acc ParentDir = butlast acc"
| "normalize_step acc CurDir = acc"
| "normalize_step acc c = acc @ [c]"

definition normalize_components :: "component list \<Rightarrow> component list" where
  "normalize_components cs = foldl normalize_step [] cs"

definition normalize_path :: "string \<Rightarrow> string" where
  "normalize_path p = collect_path (normalize_components (components p))"

definition expand_tilde :: "string option \<Rightarrow> string \<Rightarrow> string" where
  "expand_tilde home pat =
     (case home of
        Some h \<Rightarrow> if starts_with pat ''~/'' then h @ drop 1 pat else pat
      | None \<Rightarrow> pat)"

definition glob_matches :: "glob_engine \<Rightarrow> string \<Rightarrow> string \<Rightarrow> bool" where
  "glob_matches glob pat path =
     (if glob_accepts glob pat path then True
      else (case strip_suffix pat ''/**'' of
              Some pre \<Rightarrow> path = pre \<or> path = pre @ ''/''
            | None \<Rightarrow> False))"

section \<open>Facts\<close>

lemma glob_matches_iff:
  "glob_matches glob pat path \<longleftrightarrow> glob_accepts glob pat path \<or>
     (case strip_suffix pat ''/**'' of
        Some pre \<Rightarrow> path = pre \<or> path = pre @ ''/''
      | None \<Rightarrow> False)"
  by (simp add: glob_matches_def)

text \<open>Well-formed component lists: what \<open>components\<close> yields.\<close>

fun plain_part :: "component \<Rightarrow> bool" where
  "plain_part (Normal s) \<longleftrightarrow> s \<noteq> [] \<and> s \<noteq> ''.'' \<and> s \<noteq> ''..'' \<and> CHR ''/'' \<notin> set s"
| "plain_part ParentDir \<longleftrightarrow> True"
| "plain_part _ \<longleftrightarrow> False"

definition clean :: "component \<Rightarrow> bool" where
  "clean c \<longleftrightarrow> c \<noteq> ParentDir \<and> c \<noteq> CurDir"

lemma part_component_plain: "CHR ''/'' \<notin> set p \<Longrightarrow> \<forall>c\<in>set (part_component p). plain_part c"
  by auto

lemma concat_parts_plain:
  "\<forall>p\<in>set ps. CHR ''/'' \<notin> set p \<Longrightarrow> c \<in> set (concat (map part_component ps)) \<Longrightarrow> plain_part c"
  using part_component_plain by (auto simp del: part_component.simps)

lemma normalize_keeps:
  "c \<in> set (foldl normalize_step acc cs) \<Longrightarrow> c \<in> set acc \<or> c \<in> set cs \<and> clean c"
proof (induction cs arbitrary: acc)
  case (Cons d cs)
  then have "c \<in> set (normalize_step acc d) \<or> c \<in> set cs \<and> clean c" by simp
  then show ?case
    by (cases d) (auto simp: clean_def dest: in_set_butlastD)
qed simp

lemma normalize_components_clean: "c \<in> set (normalize_components cs) \<Longrightarrow> c \<in> set cs \<and> clean c"
  unfolding normalize_components_def using normalize_keeps by fastforce

lemma normalize_step_clean: "clean c \<Longrightarrow> normalize_step acc c = acc @ [c]"
  by (cases c) (auto simp: clean_def)

lemma normalize_clean_id: "\<forall>c\<in>set cs. clean c \<Longrightarrow> foldl normalize_step acc cs = acc @ cs"
  by (induction cs arbitrary: acc) (auto simp: normalize_step_clean)

lemma normalize_components_idem:
  "normalize_components (normalize_components cs) = normalize_components cs"
proof -
  have "\<forall>c\<in>set (normalize_components cs). clean c"
    using normalize_components_clean by blast
  then have "foldl normalize_step [] (normalize_components cs) = [] @ normalize_components cs"
    by (rule normalize_clean_id)
  then show ?thesis by (simp add: normalize_components_def)
qed

text \<open>The root can only be the first component.\<close>

definition rooted_wf :: "component list \<Rightarrow> bool" where
  "rooted_wf cs \<longleftrightarrow>
     (case cs of [] \<Rightarrow> True
      | c # cs' \<Rightarrow> (c = RootDir \<or> plain_part c) \<and> (\<forall>d\<in>set cs'. plain_part d))"

lemma rooted_wf_snoc: "rooted_wf cs \<Longrightarrow> plain_part c \<Longrightarrow> rooted_wf (cs @ [c])"
  by (cases cs) (auto simp: rooted_wf_def)

lemma rooted_wf_butlast: "rooted_wf cs \<Longrightarrow> rooted_wf (butlast cs)"
  by (cases cs) (auto simp: rooted_wf_def dest: in_set_butlastD)

lemma normalize_rooted:
  "rooted_wf acc \<Longrightarrow> \<forall>c\<in>set cs. plain_part c \<Longrightarrow> rooted_wf (foldl normalize_step acc cs)"
proof (induction cs arbitrary: acc)
  case (Cons c cs)
  then have "rooted_wf (normalize_step acc c)"
    by (cases c) (auto intro: rooted_wf_snoc rooted_wf_butlast)
  with Cons show ?case by simp
qed simp

lemma components_shape:
  "\<exists>h t. components s = h @ t \<and> (h = [] \<or> h = [RootDir] \<or> h = [CurDir])
     \<and> (\<forall>c\<in>set t. plain_part c)"
proof (cases s)
  case Nil
  then show ?thesis by (intro exI[of _ "[]"]) (simp add: components_def)
next
  case (Cons c cs)
  show ?thesis
  proof (cases "c = CHR ''/''")
    case True
    let ?t = "concat (map part_component (split_on (CHR ''/'') cs))"
    have "\<forall>c\<in>set ?t. plain_part c"
      using concat_parts_plain split_on_parts by blast
    with Cons True show ?thesis
      by (intro exI[of _ "[RootDir]"] exI[of _ ?t]) (simp add: components_def)
  next
    case False
    obtain p ps where sp: "split_on (CHR ''/'') s = p # ps"
      using split_on_nonempty by (cases "split_on (CHR ''/'') s") auto
    have "\<forall>q\<in>set (p # ps). CHR ''/'' \<notin> set q"
      using split_on_parts sp by metis
    then have "CHR ''/'' \<notin> set p" "\<forall>q\<in>set ps. CHR ''/'' \<notin> set q" by simp_all
    then have "\<forall>c\<in>set (part_component p). plain_part c"
      and "\<forall>c\<in>set (concat (map part_component ps)). plain_part c"
      using part_component_plain concat_parts_plain by blast+
    then show ?thesis
      using Cons False sp
      by (intro exI[of _ "if p = ''.'' then [CurDir] else []"]
           exI[of _ "(if p = ''.'' then [] else part_component p) @ concat (map part_component ps)"])
         (auto simp: components_def simp del: part_component.simps)
  qed
qed

lemma normalize_components_rooted: "rooted_wf (normalize_components (components s))"
proof -
  obtain h t where ht: "components s = h @ t" "h = [] \<or> h = [RootDir] \<or> h = [CurDir]"
    "\<forall>c\<in>set t. plain_part c" using components_shape by blast
  then have "rooted_wf (foldl normalize_step [] h)"
    by (auto simp: rooted_wf_def)
  with ht show ?thesis
    by (simp add: normalize_components_def normalize_rooted)
qed

lemma normalized_normals:
  assumes "cs = normalize_components (components s)"
  shows "\<exists>h ns. cs = h @ map Normal ns \<and> (h = [] \<or> h = [RootDir])
    \<and> (\<forall>n\<in>set ns. plain_part (Normal n))"
proof -
  have wf: "rooted_wf cs" and cl: "\<forall>c\<in>set cs. clean c"
    using assms normalize_components_rooted normalize_components_clean by blast+
  have *: "\<exists>ns. ds = map Normal ns \<and> (\<forall>n\<in>set ns. plain_part (Normal n))"
    if "\<forall>d\<in>set ds. plain_part d" "\<forall>d\<in>set ds. clean d" for ds
    using that
  proof (induction ds)
    case (Cons d ds)
    then obtain ns where "ds = map Normal ns" "\<forall>n\<in>set ns. plain_part (Normal n)" by auto
    moreover obtain n where "d = Normal n" using Cons.prems by (cases d) (auto simp: clean_def)
    ultimately show ?case using Cons.prems by (intro exI[of _ "n # ns"]) auto
  qed simp
  show ?thesis
  proof (cases "\<exists>cs'. cs = RootDir # cs'")
    case True
    then obtain cs' where "cs = RootDir # cs'" by blast
    with *[of cs'] wf cl show ?thesis
      by (intro exI[of _ "[RootDir]"]) (auto simp: rooted_wf_def)
  next
    case False
    then have "\<forall>d\<in>set cs. plain_part d" using wf by (cases cs) (auto simp: rooted_wf_def)
    with *[of cs] cl obtain ns where "cs = map Normal ns" "\<forall>n\<in>set ns. plain_part (Normal n)"
      by blast
    then show ?thesis by (intro exI[of _ "[]"] exI[of _ ns]) simp
  qed
qed

lemma collect_normals:
  "buf \<noteq> [] \<Longrightarrow> last buf \<noteq> CHR ''/'' \<Longrightarrow> \<forall>n\<in>set ns. plain_part (Normal n) \<Longrightarrow>
    foldl path_push buf (map Normal ns) = join_with ''/'' (buf # ns)"
proof (induction ns arbitrary: buf)
  case (Cons n ns)
  let ?b = "buf @ ''/'' @ n"
  have n: "n \<noteq> []" "CHR ''/'' \<notin> set n" using Cons.prems by auto
  then have "last n \<noteq> CHR ''/''" by (metis last_in_set)
  with n have "?b \<noteq> []" "last ?b \<noteq> CHR ''/''" by simp_all
  then have "foldl path_push ?b (map Normal ns) = join_with ''/'' (?b # ns)"
    using Cons by simp
  moreover have "path_push buf (Normal n) = ?b"
    using Cons.prems by (simp add: path_push_def)
  ultimately show ?case by (cases ns) simp_all
qed simp

lemma collect_from_start:
  assumes "\<forall>n\<in>set ns. plain_part (Normal n)" and "buf = [] \<or> last buf = CHR ''/''"
  shows "foldl path_push buf (map Normal ns) = buf @ join_with ''/'' ns"
proof (cases ns)
  case (Cons n ns')
  have "plain_part (Normal n)" using assms(1) Cons by simp
  then have n: "n \<noteq> []" "CHR ''/'' \<notin> set n" by simp_all
  then have "last n \<noteq> CHR ''/''" by (metis last_in_set)
  have "foldl path_push (buf @ n) (map Normal ns') = join_with ''/'' ((buf @ n) # ns')"
    using assms(1) n \<open>last n \<noteq> CHR ''/''\<close> by (intro collect_normals) (simp_all add: Cons)
  moreover have "path_push buf (Normal n) = buf @ n"
    using assms by (auto simp: path_push_def)
  moreover have "join_with ''/'' ((buf @ n) # ns') = buf @ join_with ''/'' (n # ns')"
    by (cases ns') simp_all
  ultimately show ?thesis using Cons by simp
qed simp

lemma part_component_plain_Normal:
  "\<forall>n\<in>set ns. plain_part (Normal n) \<Longrightarrow> concat (map part_component ns) = map Normal ns"
  by (induction ns) auto

lemma components_join:
  assumes "\<forall>n\<in>set ns. plain_part (Normal n)"
  shows "components (join_with ''/'' ns) = map Normal ns"
proof (cases ns)
  case Nil
  then show ?thesis by (simp add: components_def)
next
  case (Cons n ns')
  have noslash: "\<forall>p\<in>set ns. CHR ''/'' \<notin> set p" using assms by auto
  have sp: "split_on (CHR ''/'') (join_with ''/'' ns) = ns"
    by (rule split_on_join[OF _ noslash]) (simp add: Cons)
  have "plain_part (Normal n)" using assms Cons by simp
  then obtain c n' where n: "n = c # n'" "c \<noteq> CHR ''/''" by (cases n) auto
  have "\<exists>cs. join_with ''/'' ns = c # cs" unfolding Cons n(1) by (cases ns') simp_all
  then obtain cs where s: "join_with ''/'' ns = c # cs" by blast
  have "n \<noteq> ''.''" using assms Cons by simp
  moreover have "split_on (CHR ''/'') (c # cs) = n # ns'" using sp s Cons by metis
  moreover have "part_component n @ concat (map part_component ns') = map Normal ns"
    using part_component_plain_Normal[OF assms] Cons by simp
  ultimately show ?thesis
    unfolding components_def s using n(2) by (simp del: part_component.simps split_on.simps)
qed

lemma components_root_join:
  assumes "\<forall>n\<in>set ns. plain_part (Normal n)"
  shows "components (''/'' @ join_with ''/'' ns) = RootDir # map Normal ns"
proof (cases ns)
  case Nil
  then show ?thesis by (simp add: components_def)
next
  case (Cons n ns')
  have noslash: "\<forall>p\<in>set ns. CHR ''/'' \<notin> set p" using assms by auto
  have "split_on (CHR ''/'') (join_with ''/'' ns) = ns"
    using split_on_join[OF _ noslash] Cons by simp
  then show ?thesis
    using part_component_plain_Normal[OF assms]
    by (simp add: components_def del: part_component.simps)
qed

text \<open>Reading a normalised path back gives the components that were collected.\<close>

lemma components_collect_normalized:
  "components (normalize_path s) = normalize_components (components s)"
proof -
  obtain h ns where hn: "normalize_components (components s) = h @ map Normal ns"
    "h = [] \<or> h = [RootDir]" and pl: "\<forall>n\<in>set ns. plain_part (Normal n)"
    using normalized_normals by blast
  from hn(2) show ?thesis
  proof
    assume "h = []"
    with hn pl show ?thesis
      by (simp add: normalize_path_def collect_path_def collect_from_start components_join)
  next
    assume "h = [RootDir]"
    with hn pl show ?thesis
      using components_root_join[OF pl]
      by (simp add: normalize_path_def collect_path_def path_push_def collect_from_start)
  qed
qed

lemma normalize_path_idem: "normalize_path (normalize_path s) = normalize_path s"
proof -
  have "normalize_path (normalize_path s)
      = collect_path (normalize_components (normalize_components (components s)))"
    unfolding normalize_path_def[of "normalize_path s"] components_collect_normalized ..
  then show ?thesis by (simp add: normalize_components_idem normalize_path_def)
qed

lemma normalize_path_no_dots:
  "ParentDir \<notin> set (components (normalize_path s))" "CurDir \<notin> set (components (normalize_path s))"
  unfolding components_collect_normalized
  using normalize_components_clean by (auto simp: clean_def)

section \<open>Walking a path\<close>

text \<open>
  What a path means on a tree of directories without links, told without the normalisation: the
  names from the root (or from the directory a relative path starts in) to the place reached, where
  \<open>..\<close> leaves a directory.  A path \<open>descends\<close> when no \<open>..\<close> climbs above that start.
\<close>

fun walk_step :: "string list \<Rightarrow> component \<Rightarrow> string list" where
  "walk_step here RootDir = []"
| "walk_step here CurDir = here"
| "walk_step here ParentDir = butlast here"
| "walk_step here (Normal name) = here @ [name]"

definition walk :: "string \<Rightarrow> string list" where
  "walk s = foldl walk_step [] (components s)"

fun descends_from :: "nat \<Rightarrow> component list \<Rightarrow> bool" where
  "descends_from d [] \<longleftrightarrow> True"
| "descends_from d (ParentDir # cs) \<longleftrightarrow> 0 < d \<and> descends_from (d - 1) cs"
| "descends_from d (Normal _ # cs) \<longleftrightarrow> descends_from (Suc d) cs"
| "descends_from d (c # cs) \<longleftrightarrow> descends_from d cs"

definition descends :: "string \<Rightarrow> bool" where
  "descends s \<longleftrightarrow> descends_from 0 (components s)"

lemma normalize_walks:
  assumes "\<forall>c\<in>set cs. plain_part c" "descends_from (length ns) cs"
  shows "foldl normalize_step (h @ map Normal ns) cs = h @ map Normal (foldl walk_step ns cs)"
  using assms
proof (induction cs arbitrary: ns)
  case (Cons c cs)
  show ?case
  proof (cases c)
    case ParentDir
    then have "ns \<noteq> []" "descends_from (length (butlast ns)) cs" using Cons.prems by auto
    then show ?thesis
      using Cons.IH[of "butlast ns"] Cons.prems(1) ParentDir by (simp add: butlast_append map_butlast)
  next
    case (Normal n)
    then show ?thesis using Cons.IH[of "ns @ [n]"] Cons.prems by simp
  qed (use Cons.prems in auto)
qed simp

lemma components_shape_rooted:
  "\<exists>h t. components s = h @ t \<and> h = (if starts_with s ''/'' then [RootDir] else if \<exists>u. components s = CurDir # u then [CurDir] else [])
     \<and> (\<forall>c\<in>set t. plain_part c)"
proof -
  obtain h t where ht: "components s = h @ t" "h = [] \<or> h = [RootDir] \<or> h = [CurDir]"
    "\<forall>c\<in>set t. plain_part c" using components_shape by blast
  have root: "(\<exists>u. components s = RootDir # u) \<longleftrightarrow> starts_with s ''/''"
  proof (cases s)
    case (Cons c cs)
    show ?thesis
    proof (cases "c = CHR ''/''")
      case False
      obtain p ps where sp: "split_on (CHR ''/'') (c # cs) = p # ps"
        using split_on_nonempty[of "CHR ''/''" "c # cs"] by (meson neq_Nil_conv)
      have no: "RootDir \<notin> set (concat (map part_component (p # ps)))" for p ps
        by (auto split: if_splits)
      have "components s = (if p = ''.'' then [CurDir] else part_component p) @ concat (map part_component ps)"
        using Cons False sp by (simp add: components_def)
      then have "RootDir \<notin> set (components s)" using no[of p ps] by (auto split: if_splits)
      then show ?thesis using Cons False by (auto simp: starts_with_def)
    qed (simp add: Cons components_def starts_with_def)
  qed (simp add: components_def starts_with_def)
  let ?h = "if starts_with s ''/'' then [RootDir] else if \<exists>u. components s = CurDir # u then [CurDir] else []"
  from ht(2) have "h = ?h"
  proof (elim disjE)
    assume "h = []"
    have "components s \<noteq> c # u" if "c = RootDir \<or> c = CurDir" for c u
      using that ht(1,3) \<open>h = []\<close> by (cases t) auto
    then show ?thesis using \<open>h = []\<close> root by metis
  next
    assume "h = [RootDir]"
    then show ?thesis using root ht(1) by auto
  next
    assume "h = [CurDir]"
    then show ?thesis using root ht(1) by auto
  qed
  with ht show ?thesis by blast
qed

lemma normalize_path_walk:
  assumes "descends s"
  shows "normalize_path s = (if starts_with s ''/'' then ''/'' else []) @ join_with ''/'' (walk s)"
    "walk (normalize_path s) = walk s"
proof -
  let ?r = "if starts_with s ''/'' then [RootDir] else []"
  obtain h t where ht: "components s = h @ t"
      "h = (if starts_with s ''/'' then [RootDir] else if \<exists>u. components s = CurDir # u then [CurDir] else [])"
      "\<forall>c\<in>set t. plain_part c" using components_shape_rooted by blast
  have "h = ?r \<and> h \<noteq> [CurDir] \<or> h = [CurDir] \<and> ?r = []"
    unfolding ht(2) by (cases "starts_with s ''/''"; cases "\<exists>u. components s = CurDir # u") simp_all
  then have start: "foldl normalize_step [] h = ?r" "foldl walk_step [] h = []"
    "descends_from 0 (h @ t) = descends_from 0 t" by (auto split: if_splits)
  have nc: "normalize_components (components s) = ?r @ map Normal (walk s)"
    using normalize_walks[OF ht(3), of "[]" ?r] assms start ht(1)
    by (simp add: normalize_components_def walk_def descends_def)
  obtain h' ns where hn: "normalize_components (components s) = h' @ map Normal ns"
    "h' = [] \<or> h' = [RootDir]" "\<forall>n\<in>set ns. plain_part (Normal n)"
    using normalized_normals[OF refl] by blast
  have "map Normal (walk s) = map Normal ns"
    using hn(1,2) unfolding nc by (cases ns; cases "walk s"; cases "starts_with s ''/''") auto
  then have "walk s = ns" by (simp add: inj_map_eq_map inj_def)
  then have pl: "\<forall>n\<in>set (walk s). plain_part (Normal n)" using hn(3) by simp
  show "normalize_path s = (if starts_with s ''/'' then ''/'' else []) @ join_with ''/'' (walk s)"
    using collect_from_start[OF pl] by (simp add: normalize_path_def nc collect_path_def path_push_def)
  have "foldl walk_step [] (map Normal ns) = ns" for ns
    by (induction ns rule: rev_induct) simp_all
  then show "walk (normalize_path s) = walk s"
    by (simp add: walk_def[of "normalize_path s"] components_collect_normalized nc)
qed

text \<open>Climbing above the root loses the root: the path becomes a relative one.\<close>

lemma climbing_loses_root: "normalize_path ''/../etc'' = ''etc''"
  by code_simp

section \<open>Properties\<close>

text \<open>
  C16: lexical normalisation yields a path without dot components, and normalising it again changes
  nothing.  A path in which no \<open>..\<close> climbs above its start becomes the text of the place it walks to
  (\<open>walk\<close>, where \<open>..\<close> leaves a directory), absolute exactly when the path is, and walks to that place.
\<close>

theorem normalized_path_canonical:
  "normalize_path (normalize_path s) = normalize_path s \<and>
     ParentDir \<notin> set (components (normalize_path s)) \<and>
     CurDir \<notin> set (components (normalize_path s)) \<and>
     (descends s \<longrightarrow>
        normalize_path s = (if starts_with s ''/'' then ''/'' else []) @ join_with ''/'' (walk s) \<and>
        walk (normalize_path s) = walk s)"
  using normalize_path_idem normalize_path_no_dots normalize_path_walk by blast

theorem normalized_path_canonical_witness:
  "descends ''/safe/./a/../../etc/x'' \<and> normalize_path ''/safe/./a/../../etc/x'' = ''/etc/x''"
proof -
  have d: "descends ''/safe/./a/../../etc/x''" by code_simp
  have w: "walk ''/safe/./a/../../etc/x'' = [''etc'', ''x'']" by code_simp
  show ?thesis
    using normalized_path_canonical[of "''/safe/./a/../../etc/x''"] d
    by (simp add: w starts_with_def)
qed

end
