(* ===== verification/Taint.thy ===== *)
theory Taint
  imports Labels Paths "HOL-Library.Word"
begin

text \<open>
  Information flow control of \<open>navra-auth/src/ifc/mod.rs\<close> and the signed
  declassification records of \<open>navra-auth/src/ifc/witness.rs\<close>: the session
  taint tracker, the tainted-write policies, read clearances, tool
  classification and the trusted-path test.  Signing (\<open>CapSigner\<close> of
  \<open>identity.rs\<close>), the CBOR and JSON encoders, the file system's
  \<open>canonicalize\<close>, globs and the clock are arguments.
\<close>

section \<open>Signers and witnesses\<close>

type_synonym bytes = "8 word list"

record cap_signer =
  algorithm :: string
  did :: string
  sign :: "bytes \<Rightarrow> bytes"
  verify :: "bytes \<Rightarrow> bytes \<Rightarrow> bool"
  public_key_bytes :: bytes

record declassification_witness =
  original_label :: data_label
  new_label :: data_label
  declassifier :: string
  timestamp :: int
  justification :: string
  signature :: "bytes option"

record canonical_payload =
  cp_declassifier :: string
  cp_justification :: string
  cp_new_label :: data_label
  cp_original_label :: data_label
  cp_timestamp :: int

definition canonical_payload_of :: "declassification_witness \<Rightarrow> canonical_payload" where
  "canonical_payload_of w =
     \<lparr>cp_declassifier = declassifier w, cp_justification = justification w,
      cp_new_label = new_label w, cp_original_label = original_label w,
      cp_timestamp = timestamp w\<rparr>"

text \<open>The two serialisers of third-party crates.\<close>

record encoders =
  cbor :: "canonical_payload \<Rightarrow> bytes"
  legacy_json :: "canonical_payload \<Rightarrow> bytes"

definition witness_sign ::
  "encoders \<Rightarrow> cap_signer \<Rightarrow> declassification_witness \<Rightarrow> declassification_witness" where
  "witness_sign enc s w = w\<lparr>signature := Some (sign s (cbor enc (canonical_payload_of w)))\<rparr>"

definition witness_verify ::
  "encoders \<Rightarrow> cap_signer \<Rightarrow> declassification_witness \<Rightarrow> bool" where
  "witness_verify enc s w =
     (case signature w of
        None \<Rightarrow> False
      | Some sig \<Rightarrow>
          if verify s (cbor enc (canonical_payload_of w)) sig then True
          else verify s (legacy_json enc (canonical_payload_of w)) sig)"

record declassification_authority =
  da_name :: string
  da_signer :: cap_signer

section \<open>The session taint tracker\<close>

record taint_tracker =
  current :: data_label
  witnesses :: "declassification_witness list"

definition new_tracker :: taint_tracker where
  "new_tracker = \<lparr>current = TRUSTED_PUBLIC, witnesses = []\<rparr>"

definition absorb :: "data_label \<Rightarrow> taint_tracker \<Rightarrow> taint_tracker" where
  "absorb l t = t\<lparr>current := join (current t) l\<rparr>"

definition level :: "taint_tracker \<Rightarrow> data_label" where
  "level t = current t"

definition declassify ::
  "encoders \<Rightarrow> int \<Rightarrow> confidentiality \<Rightarrow> declassification_authority \<Rightarrow> string \<Rightarrow> taint_tracker
     \<Rightarrow> taint_tracker \<times> declassification_witness option" where
  "declassify enc now new_confidentiality authority why t =
     (if new_confidentiality < confidentiality (current t) then
        (let lowered = (current t)\<lparr>confidentiality := new_confidentiality\<rparr>;
             w = witness_sign enc (da_signer authority)
                   \<lparr>original_label = current t, new_label = lowered,
                    declassifier = da_name authority, timestamp = now,
                    justification = why, signature = None\<rparr>
         in (t\<lparr>current := lowered, witnesses := witnesses t @ [w]\<rparr>, Some w))
      else (t, None))"

definition is_untrusted :: "taint_tracker \<Rightarrow> bool" where
  "is_untrusted t \<longleftrightarrow> integrity (current t) = Untrusted"

definition is_sensitive :: "taint_tracker \<Rightarrow> bool" where
  "is_sensitive t \<longleftrightarrow> confidentiality (current t) \<ge> Sensitive"

definition is_pii :: "taint_tracker \<Rightarrow> bool" where
  "is_pii t \<longleftrightarrow> confidentiality (current t) \<ge> Pii"

section \<open>Policies and clearances\<close>

datatype tainted_write_policy = TW_Allow | TW_Approve | TW_Deny

datatype ifc_config_error = UnknownWritePolicy string | UnknownClearance string

definition tainted_write_policy_from_str ::
  "string \<Rightarrow> ifc_config_error + tainted_write_policy" where
  "tainted_write_policy_from_str s =
     (let l = to_lowercase s in
      if l = ''allow'' then Inr TW_Allow
      else if l = ''approve'' then Inr TW_Approve
      else if l = ''deny'' then Inr TW_Deny
      else Inl (UnknownWritePolicy s))"

record read_clearance =
  clearance_level :: confidentiality
  clearance_policy :: tainted_write_policy

definition permissive_clearance :: read_clearance where
  "permissive_clearance = \<lparr>clearance_level = Secret, clearance_policy = TW_Allow\<rparr>"

definition clearance_from_config ::
  "string \<Rightarrow> string \<Rightarrow> ifc_config_error + read_clearance" where
  "clearance_from_config lvl policy =
     (let l = to_lowercase lvl;
          parsed = (if l = ''public'' then Some Public
                    else if l = ''sensitive'' then Some Sensitive
                    else if l = ''pii'' then Some Pii
                    else if l = ''secret'' then Some Secret else None)
      in (case parsed of
            None \<Rightarrow> Inl (UnknownClearance lvl)
          | Some c \<Rightarrow>
              (case tainted_write_policy_from_str policy of
                 Inl e \<Rightarrow> Inl e
               | Inr p \<Rightarrow> Inr \<lparr>clearance_level = c, clearance_policy = p\<rparr>)))"

section \<open>Tool and path classification\<close>

text \<open>The two hints of MCP's \<open>ToolAnnotations\<close> that the gateway reads.\<close>

record tool_annotations =
  read_only_hint :: "bool option"
  destructive_hint :: "bool option"

definition obvious_read_words :: "string list" where
  "obvious_read_words =
     [''read'', ''search'', ''list'', ''get'', ''query'', ''status'', ''diff'', ''log'']"

definition is_write_tool :: "string \<Rightarrow> tool_annotations option \<Rightarrow> bool" where
  "is_write_tool tool_name annotations =
     (let by_name = \<not> list_ex (contains tool_name) obvious_read_words in
      case annotations of
        Some ann \<Rightarrow>
          (case read_only_hint ann of
             Some read_only \<Rightarrow> \<not> read_only
           | None \<Rightarrow>
               (case destructive_hint ann of
                  Some destructive \<Rightarrow> destructive
                | None \<Rightarrow> by_name))
      | None \<Rightarrow> by_name)"

definition is_external_read_tool :: "string \<Rightarrow> bool" where
  "is_external_read_tool tool_name =
     (if starts_with tool_name ''navra_var_'' \<or> starts_with tool_name ''navra_'' then False
      else True)"

definition ifc_normalize_path :: "string \<Rightarrow> string" where
  "ifc_normalize_path p = collect_path (foldl normalize_step [] (components p))"

definition ifc_expand_tilde :: "string option \<Rightarrow> string \<Rightarrow> string" where
  "ifc_expand_tilde home pat =
     (if starts_with pat ''~/'' then (case home of Some h \<Rightarrow> h @ drop 1 pat | None \<Rightarrow> pat)
      else pat)"

definition is_trusted_path ::
  "glob_engine \<Rightarrow> string option \<Rightarrow> (string \<Rightarrow> string option) \<Rightarrow> string \<Rightarrow> string list \<Rightarrow> bool"
where
  "is_trusted_path glob home canonicalize path patterns =
     (let normalized = (case canonicalize path of Some p \<Rightarrow> p | None \<Rightarrow> ifc_normalize_path path)
      in list_ex (\<lambda>pat.
           let expanded = ifc_expand_tilde home pat in
           glob_accepts glob expanded normalized \<or>
           (case strip_suffix expanded ''/**'' of
              Some pre \<Rightarrow> normalized = pre \<or> normalized = pre @ ''/''
            | None \<Rightarrow> False)) patterns)"

section \<open>Sessions as sequences of operations\<close>

datatype taint_op =
    Absorb data_label
  | Declassify int confidentiality declassification_authority string

fun taint_step :: "encoders \<Rightarrow> taint_op \<Rightarrow> taint_tracker \<Rightarrow> taint_tracker" where
  "taint_step enc (Absorb l) t = absorb l t"
| "taint_step enc (Declassify now c auth why) t = fst (declassify enc now c auth why t)"

definition taint_run :: "encoders \<Rightarrow> taint_op list \<Rightarrow> taint_tracker \<Rightarrow> taint_tracker" where
  "taint_run enc ops t = fold (taint_step enc) ops t"

fun op_authority :: "taint_op \<Rightarrow> declassification_authority option" where
  "op_authority (Absorb l) = None"
| "op_authority (Declassify now c auth why) = Some auth"

text \<open>What a recorded declassification must look like.\<close>

definition step_down :: "declassification_witness \<Rightarrow> bool" where
  "step_down w \<longleftrightarrow>
     confidentiality (new_label w) < confidentiality (original_label w) \<and>
     integrity (new_label w) = integrity (original_label w)"

definition honest_signer :: "cap_signer \<Rightarrow> bool" where
  "honest_signer s \<longleftrightarrow> (\<forall>m. verify s m (sign s m))"

lemma absorb_facts [simp]:
  "current (absorb l t) = join (current t) l" "witnesses (absorb l t) = witnesses t"
  by (simp_all add: absorb_def)

lemma signed_witness_verifies:
  "honest_signer s \<Longrightarrow> witness_verify enc s (witness_sign enc s w)"
  by (simp add: honest_signer_def witness_verify_def witness_sign_def canonical_payload_of_def)

lemma declassify_cases:
  obtains (kept) "declassify enc now c auth why t = (t, None)"
      and "confidentiality (current t) \<le> c"
    | (lowered) w where "declassify enc now c auth why t =
          (t\<lparr>current := (current t)\<lparr>confidentiality := c\<rparr>, witnesses := witnesses t @ [w]\<rparr>, Some w)"
      and "c < confidentiality (current t)" and "step_down w"
      and "original_label w = current t" and "new_label w = (current t)\<lparr>confidentiality := c\<rparr>"
      and "declassifier w = da_name auth"
      and "honest_signer (da_signer auth) \<Longrightarrow> witness_verify enc (da_signer auth) w"
proof (cases "c < confidentiality (current t)")
  case True
  then show ?thesis
    by (intro lowered)
       (auto simp: declassify_def Let_def step_down_def witness_sign_def[of _ _ "_\<lparr>signature := _\<rparr>"]
         intro: signed_witness_verifies, simp_all add: witness_sign_def)
next
  case False
  then show ?thesis by (intro kept) (auto simp: declassify_def)
qed

lemma taint_step_integrity: "integrity (current t) \<le> integrity (current (taint_step enc a t))"
proof (cases a)
  case (Declassify now c auth why)
  then show ?thesis
    by (cases rule: declassify_cases[of enc now c auth why t]) simp_all
qed (simp add: join_max)

lemma taint_run_Cons [simp]: "taint_run enc (a # ops) t = taint_run enc ops (taint_step enc a t)"
  by (simp add: taint_run_def)

lemma taint_run_Nil [simp]: "taint_run enc [] t = t"
  by (simp add: taint_run_def)

lemma taint_run_integrity: "integrity (current t) \<le> integrity (current (taint_run enc ops t))"
proof (induction ops arbitrary: t)
  case (Cons a ops)
  from taint_step_integrity[of t enc a] Cons[of "taint_step enc a t"] show ?case by simp
qed simp

lemma taint_run_absorbs:
  "taint_run enc (map Absorb ls) t = t\<lparr>current := foldl join (current t) ls\<rparr>"
  by (induction ls arbitrary: t) (simp_all add: absorb_def)

text \<open>Every record a run appends is a step down by one of the run's authorities.\<close>

definition accountable :: "encoders \<Rightarrow> taint_op list \<Rightarrow> declassification_witness \<Rightarrow> bool" where
  "accountable enc ops w \<longleftrightarrow> step_down w \<and>
     (\<exists>a\<in>set ops. \<exists>auth. op_authority a = Some auth \<and> declassifier w = da_name auth \<and>
        (honest_signer (da_signer auth) \<longrightarrow> witness_verify enc (da_signer auth) w))"

lemma taint_step_witnesses:
  "\<exists>ws. witnesses (taint_step enc a t) = witnesses t @ ws \<and>
     (\<forall>w\<in>set ws. accountable enc [a] w) \<and>
     (ws = [] \<longrightarrow> label_le (current t) (current (taint_step enc a t)))"
proof (cases a)
  case (Absorb l)
  then show ?thesis by (simp add: labels.jn_ub1)
next
  case (Declassify now c auth why)
  then show ?thesis
    by (cases rule: declassify_cases[of enc now c auth why t])
       (auto simp: accountable_def labels.le_refl)
qed

text \<open>
  The records of a log account for the label: between two records it only rises, and each record
  starts at a label at or above the one reached and continues at the label it names as new.
\<close>

fun falls :: "data_label \<Rightarrow> declassification_witness list \<Rightarrow> data_label \<Rightarrow> bool" where
  "falls l [] l' \<longleftrightarrow> label_le l l'"
| "falls l (w # ws) l' \<longleftrightarrow> label_le l (original_label w) \<and> falls (new_label w) ws l'"

lemma falls_rise: "label_le l m \<Longrightarrow> falls m ws l' \<Longrightarrow> falls l ws l'"
  by (cases ws) (auto intro: labels.le_trans)

text \<open>One operation keeps the log and does not lower the label, or appends the record of its fall.\<close>

definition accounts_for :: "encoders \<Rightarrow> taint_op \<Rightarrow> taint_tracker \<Rightarrow> taint_tracker \<Rightarrow> bool" where
  "accounts_for enc a t t' \<longleftrightarrow>
     witnesses t' = witnesses t \<and> label_le (current t) (current t') \<or>
     (\<exists>w. witnesses t' = witnesses t @ [w] \<and> accountable enc [a] w \<and>
        original_label w = current t \<and> new_label w = current t')"

lemma taint_step_accounts: "accounts_for enc a t (taint_step enc a t)"
proof (cases a)
  case (Absorb l)
  then show ?thesis by (simp add: accounts_for_def labels.jn_ub1)
next
  case (Declassify now c auth why)
  then show ?thesis
    by (cases rule: declassify_cases[of enc now c auth why t])
       (auto simp: accounts_for_def accountable_def labels.le_refl)
qed

lemma taint_run_witnesses:
  "\<exists>ws. witnesses (taint_run enc ops t) = witnesses t @ ws \<and>
     (\<forall>w\<in>set ws. accountable enc ops w) \<and> falls (current t) ws (current (taint_run enc ops t))"
proof (induction ops arbitrary: t)
  case Nil
  show ?case by (simp add: labels.le_refl)
next
  case (Cons a ops)
  let ?t = "taint_step enc a t"
  obtain vs where vs: "witnesses (taint_run enc ops ?t) = witnesses ?t @ vs"
    "\<forall>w\<in>set vs. accountable enc ops w" "falls (current ?t) vs (current (taint_run enc ops ?t))"
    using Cons by blast
  from vs(2) have later: "\<forall>w\<in>set vs. accountable enc (a # ops) w"
    unfolding accountable_def by auto
  from taint_step_accounts[of enc a t] show ?case unfolding accounts_for_def
  proof (elim disjE conjE exE)
    assume "witnesses ?t = witnesses t" "label_le (current t) (current ?t)"
    then show ?thesis using vs(1,3) later by (intro exI[of _ vs]) (simp add: falls_rise)
  next
    fix w
    assume w: "witnesses ?t = witnesses t @ [w]" "accountable enc [a] w"
      "original_label w = current t" "new_label w = current ?t"
    then have "accountable enc (a # ops) w" unfolding accountable_def by auto
    then show ?thesis using w vs(1,3) later by (intro exI[of _ "w # vs"]) (simp add: labels.le_refl)
  qed
qed

lemma untainted_write_safe:
  "\<forall>l\<in>set ls. can_write_to l c \<Longrightarrow> can_write_to (current t) c \<Longrightarrow>
     can_write_to (current (taint_run enc (map Absorb ls) t)) c"
  by (simp add: taint_run_absorbs can_write_to_foldl)

lemma ifc_normalize_path_same: "ifc_normalize_path = normalize_path"
  by (intro ext) (simp add: ifc_normalize_path_def normalize_path_def normalize_components_def)

lemma ifc_expand_tilde_same: "ifc_expand_tilde = expand_tilde"
  by (intro ext) (simp add: ifc_expand_tilde_def expand_tilde_def split: option.split)

lemma is_trusted_path_eq:
  "is_trusted_path glob home canon path pats \<longleftrightarrow>
     (\<exists>pat\<in>set pats. glob_matches glob (expand_tilde home pat)
        (case canon path of Some p \<Rightarrow> p | None \<Rightarrow> normalize_path path))"
  unfolding is_trusted_path_def ifc_normalize_path_same ifc_expand_tilde_same
  by (simp add: glob_matches_iff list_ex_iff Let_def)

section \<open>Properties\<close>

text \<open>A signer and encoders for concrete runs.\<close>

definition sample_signer :: cap_signer where
  "sample_signer = \<lparr>algorithm = ''copy'', did = ''did:key:zroot'', sign = (\<lambda>m. m),
     verify = (\<lambda>m s. s = m), public_key_bytes = []\<rparr>"

definition sample_encoders :: encoders where
  "sample_encoders = \<lparr>cbor = (\<lambda>_. [1]), legacy_json = (\<lambda>_. [2])\<rparr>"

definition sample_session :: "taint_op list" where
  "sample_session = [Absorb UNTRUSTED_PII,
     Declassify 7 Public \<lparr>da_name = ''officer'', da_signer = sample_signer\<rparr> ''reviewed'']"

text \<open>
  C1: in every session of absorptions and declassifications integrity never recovers and the witness
  log only grows.  Every new record lowers the confidentiality strictly and keeps the integrity,
  names one of the session's authorities and verifies under its signer when that signer is honest.
  The new records account for the label: between them it only rises, each starts at or above the
  label reached and the session goes on at the label the record names as new; and each operation
  either keeps the log and does not lower the label, or appends the one record of exactly its fall.
\<close>

theorem taint_run_accountable:
  "(\<exists>ws. witnesses (taint_run enc ops t) = witnesses t @ ws \<and>
      list_all (accountable enc ops) ws \<and>
      falls (current t) ws (current (taint_run enc ops t))) \<and>
   integrity (current t) \<le> integrity (current (taint_run enc ops t)) \<and>
   (ops = before @ a # after \<longrightarrow>
      accounts_for enc a (taint_run enc before t) (taint_run enc (before @ [a]) t))"
proof -
  have "accounts_for enc a (taint_run enc before t) (taint_run enc (before @ [a]) t)"
    using taint_step_accounts[of enc a "taint_run enc before t"] by (simp add: taint_run_def)
  then show ?thesis
    using taint_run_witnesses[of enc ops t] taint_run_integrity[of t enc ops]
    by (simp add: list_all_iff)
qed

theorem taint_run_accountable_witness:
  "\<exists>w. witnesses (taint_run sample_encoders sample_session new_tracker) = [w] \<and>
     original_label w = UNTRUSTED_PII \<and> step_down w"
proof -
  let ?run = "\<lambda>ops. taint_run sample_encoders ops new_tracker"
  let ?down = "Declassify 7 Public \<lparr>da_name = ''officer'', da_signer = sample_signer\<rparr> ''reviewed''"
  have "?run [Absorb UNTRUSTED_PII] = \<lparr>current = UNTRUSTED_PII, witnesses = []\<rparr>"
    by (simp add: new_tracker_def absorb_def join_def label_consts level_order)
  moreover have "witnesses (?run sample_session) \<noteq> []"
    by (auto simp: sample_session_def new_tracker_def declassify_def absorb_def join_def Let_def
        label_consts level_order)
  ultimately show ?thesis
    using taint_run_accountable[of sample_encoders sample_session new_tracker
        "[Absorb UNTRUSTED_PII]" ?down "[]"]
    by (auto simp: sample_session_def accounts_for_def accountable_def)
qed

text \<open>
  a session that has only absorbed labels its clearance dominates can still
  write to that clearance, and one that has absorbed a label above it cannot.
\<close>

theorem absorbed_write_check:
  "can_write_to (current (taint_run enc (map Absorb ls) new_tracker)) c \<longleftrightarrow>
     list_all (\<lambda>l. can_write_to l c) ls"
  unfolding taint_run_absorbs
  by (simp add: can_write_to_foldl list_all_iff) (simp add: new_tracker_def can_write_to_def label_consts)

end
