(* ===== verification/ValueStore.thy ===== *)
theory ValueStore
  imports Labels
begin

text \<open>
  The per-value variable store of \<open>navra-auth/src/ifc/value_store.rs\<close>: labelled
  tool results with a time to live and a capacity, the map of per-session
  stores (whose entries are shared \<open>Arc\<close> handles, hence an explicit heap), and
  the resolution of \<open>var://\<close> references in tool arguments with label
  propagation.  Contents are of any type \<open>'c\<close>; \<open>as_text\<close> is the accessor of
  the protocol crate.  \<open>now\<close> is the reading of the clock.
\<close>

section \<open>The store\<close>

record 'c stored_value =
  sv_id :: string
  sv_content :: "'c list"
  sv_label :: data_label
  sv_source_tool :: string
  sv_created_at :: nat
  sv_is_error :: bool

record stored_value_summary =
  sum_id :: string
  sum_label :: data_label
  sum_source_tool :: string
  sum_created_at :: nat
  sum_is_error :: bool

definition summary_of :: "'c stored_value \<Rightarrow> stored_value_summary" where
  "summary_of v =
     \<lparr>sum_id = sv_id v, sum_label = sv_label v, sum_source_tool = sv_source_tool v,
      sum_created_at = sv_created_at v, sum_is_error = sv_is_error v\<rparr>"

record 'c value_store =
  vs_values :: "(string, 'c stored_value) hmap"
  vs_max_entries :: nat
  vs_ttl :: nat

definition vs_new :: "'c value_store" where
  "vs_new = \<lparr>vs_values = [], vs_max_entries = 1000, vs_ttl = 3600\<rparr>"

definition vs_with_limits :: "nat \<Rightarrow> nat \<Rightarrow> 'c value_store" where
  "vs_with_limits max_entries ttl =
     \<lparr>vs_values = [], vs_max_entries = max_entries, vs_ttl = ttl\<rparr>"

text \<open>\<open>Instant::duration_since\<close> saturates at zero, as natural subtraction does.\<close>

definition vs_live :: "nat \<Rightarrow> nat \<Rightarrow> 'c stored_value \<Rightarrow> bool" where
  "vs_live ttl now v \<longleftrightarrow> now - sv_created_at v < ttl"

text \<open>\<open>min_by_key\<close>: the first entry with the least creation time.\<close>

fun oldest :: "'c stored_value list \<Rightarrow> 'c stored_value option" where
  "oldest [] = None"
| "oldest (v # vs) =
     (case oldest vs of
        None \<Rightarrow> Some v
      | Some w \<Rightarrow> if sv_created_at w < sv_created_at v then Some w else Some v)"

definition vs_store :: "nat \<Rightarrow> 'c stored_value \<Rightarrow> 'c value_store \<Rightarrow> 'c value_store \<times> string" where
  "vs_store now value st =
     (let kept = hm_retain (\<lambda>_. vs_live (vs_ttl st) now) (vs_values st);
          room = (if length kept \<ge> vs_max_entries st then
                    (case oldest (map snd kept) of
                       Some v \<Rightarrow> hm_remove (sv_id v) kept
                     | None \<Rightarrow> kept)
                  else kept)
      in (st\<lparr>vs_values := hm_insert (sv_id value) value room\<rparr>, sv_id value))"

definition vs_get :: "nat \<Rightarrow> string \<Rightarrow> 'c value_store \<Rightarrow> 'c stored_value option" where
  "vs_get now vid st =
     (case hm_get (vs_values st) vid of
        Some v \<Rightarrow> if vs_live (vs_ttl st) now v then Some v else None
      | None \<Rightarrow> None)"

definition vs_update ::
  "string \<Rightarrow> 'c list \<Rightarrow> data_label \<Rightarrow> 'c value_store \<Rightarrow> 'c value_store \<times> bool" where
  "vs_update vid content label st =
     (case hm_get (vs_values st) vid of
        Some v \<Rightarrow>
          (st\<lparr>vs_values :=
                hm_insert vid (v\<lparr>sv_content := content, sv_label := label\<rparr>) (vs_values st)\<rparr>, True)
      | None \<Rightarrow> (st, False))"

definition vs_list :: "nat \<Rightarrow> 'c value_store \<Rightarrow> stored_value_summary list" where
  "vs_list now st = map summary_of (filter (vs_live (vs_ttl st) now) (map snd (vs_values st)))"

definition vs_remove :: "string \<Rightarrow> 'c value_store \<Rightarrow> 'c value_store \<times> 'c stored_value option" where
  "vs_remove vid st = (st\<lparr>vs_values := hm_remove vid (vs_values st)\<rparr>, hm_get (vs_values st) vid)"

definition vs_evict_expired :: "nat \<Rightarrow> 'c value_store \<Rightarrow> 'c value_store \<times> nat" where
  "vs_evict_expired now st =
     (let before = length (vs_values st);
          kept = hm_retain (\<lambda>_. vs_live (vs_ttl st) now) (vs_values st)
      in (st\<lparr>vs_values := kept\<rparr>, before - length kept))"

definition vs_count :: "'c value_store \<Rightarrow> nat" where
  "vs_count st = length (vs_values st)"

section \<open>Sessions\<close>

text \<open>
  \<open>vsm_stores\<close> maps a session to the handle of its store; the stores themselves
  live in \<open>vsm_heap\<close>, because \<open>get_or_create\<close> hands out clones that share
  the store.
\<close>

record 'c value_store_map =
  vsm_stores :: "(string, nat) hmap"
  vsm_heap :: "'c value_store list"
  vsm_default_max_entries :: nat
  vsm_default_ttl :: nat

definition vsm_with_limits :: "nat \<Rightarrow> nat \<Rightarrow> 'c value_store_map" where
  "vsm_with_limits max_entries ttl =
     \<lparr>vsm_stores = [], vsm_heap = [], vsm_default_max_entries = max_entries,
      vsm_default_ttl = ttl\<rparr>"

definition vsm_new :: "'c value_store_map" where
  "vsm_new = vsm_with_limits 1000 3600"

definition vsm_get_or_create :: "string \<Rightarrow> 'c value_store_map \<Rightarrow> 'c value_store_map \<times> nat" where
  "vsm_get_or_create session m =
     (case hm_get (vsm_stores m) session of
        Some h \<Rightarrow> (m, h)
      | None \<Rightarrow>
          (let h = length (vsm_heap m)
           in (m\<lparr>vsm_stores := hm_insert session h (vsm_stores m),
                 vsm_heap := vsm_heap m @
                   [vs_with_limits (vsm_default_max_entries m) (vsm_default_ttl m)]\<rparr>, h)))"

definition vsm_remove_session :: "string \<Rightarrow> 'c value_store_map \<Rightarrow> 'c value_store_map" where
  "vsm_remove_session session m = m\<lparr>vsm_stores := hm_remove session (vsm_stores m)\<rparr>"

section \<open>Variable references\<close>

datatype json =
    JNull
  | JBool bool
  | JNumber string
  | JString string
  | JArray "json list"
  | JObject "(string \<times> json) list"

text \<open>\<open>Value::get\<close> on an object, \<open>as_bool\<close>, \<open>as_array\<close> and \<open>as_str\<close>.\<close>

fun json_get :: "json \<Rightarrow> string \<Rightarrow> json option" where
  "json_get (JObject flds) k = map_of flds k"
| "json_get _ k = None"

fun json_bool :: "json \<Rightarrow> bool option" where
  "json_bool (JBool b) = Some b"
| "json_bool _ = None"

fun json_array :: "json \<Rightarrow> json list option" where
  "json_array (JArray xs) = Some xs"
| "json_array _ = None"

fun json_str :: "json \<Rightarrow> string option" where
  "json_str (JString s) = Some s"
| "json_str _ = None"

datatype resolve_error = VariableNotFound string

type_synonym ref_acc = "data_label \<times> string list"

definition VAR_PREFIX :: string where
  "VAR_PREFIX = ''var://''"

definition content_to_text :: "('c \<Rightarrow> string option) \<Rightarrow> 'c list \<Rightarrow> string" where
  "content_to_text as_text content = join_with ''\<newline>'' (List.map_filter as_text content)"

text \<open>\<open>str::find\<close> with a string pattern: the byte index of the first occurrence.\<close>

fun find_str :: "string \<Rightarrow> string \<Rightarrow> nat option" where
  "find_str [] pat = (if pat = [] then Some 0 else None)"
| "find_str (c # cs) pat =
     (if starts_with (c # cs) pat then Some 0 else map_option Suc (find_str cs pat))"

definition ref_delimiter :: "char \<Rightarrow> bool" where
  "ref_delimiter c \<longleftrightarrow>
     ascii_whitespace c \<or> c = CHR 0x22 \<or> c = CHR 0x27 \<or> c = CHR '')'' \<or> c = CHR '']'' \<or>
     c = CHR ''}'' \<or> c = CHR '',''"

definition use_variable ::
  "(string \<Rightarrow> 'c stored_value option) \<Rightarrow> ('c \<Rightarrow> string option) \<Rightarrow> string \<Rightarrow> ref_acc
     \<Rightarrow> resolve_error + string \<times> ref_acc" where
  "use_variable get as_text vid acc =
     (case get vid of
        None \<Rightarrow> Inl (VariableNotFound vid)
      | Some stored \<Rightarrow>
          Inr (content_to_text as_text (sv_content stored),
               (join (fst acc) (sv_label stored), snd acc @ [vid])))"

lemma find_str_length: "find_str s pat = Some i \<Longrightarrow> i + length pat \<le> length s"
proof (induction s arbitrary: i)
  case (Cons c cs)
  show ?case
  proof (cases "starts_with (c # cs) pat")
    case True
    then have "length pat \<le> length (c # cs)"
      by (metis starts_with_iff length_append le_add1)
    with True Cons.prems show ?thesis by simp
  qed (use Cons in auto)
qed (auto split: if_splits)

text \<open>
  The replacement loop: \<open>done\<close> is the part of the result before
  \<open>search_from\<close>, \<open>rest\<close> the part from there on.
\<close>

function inline_refs ::
  "(string \<Rightarrow> 'c stored_value option) \<Rightarrow> ('c \<Rightarrow> string option) \<Rightarrow> string \<Rightarrow> string \<Rightarrow> ref_acc
     \<Rightarrow> resolve_error + string \<times> ref_acc" where
  "inline_refs get as_text done rest acc =
     (case find_str rest VAR_PREFIX of
        None \<Rightarrow> Inr (done @ rest, acc)
      | Some start \<Rightarrow>
          (let tail = drop (start + length VAR_PREFIX) rest;
               vid = takeWhile (\<lambda>c. \<not> ref_delimiter c) tail
           in (case use_variable get as_text vid acc of
                 Inl e \<Rightarrow> Inl e
               | Inr (text, acc') \<Rightarrow>
                   inline_refs get as_text (done @ take start rest @ text)
                     (dropWhile (\<lambda>c. \<not> ref_delimiter c) tail) acc')))"
  by pat_completeness auto
termination
proof (relation "measure (\<lambda>(get, as_text, done, rest, acc). length rest)", goal_cases)
  case 1
  show ?case by simp
next
  case (2 get as_text don rest acc start tail vid res repl acc')
  then have "start + 6 \<le> length rest"
    using find_str_length by (fastforce simp: VAR_PREFIX_def)
  moreover have "length (dropWhile (\<lambda>c. \<not> ref_delimiter c) tail) \<le> length tail"
    by (rule length_dropWhile_le)
  ultimately show ?case using 2 by (simp add: VAR_PREFIX_def)
qed

declare inline_refs.simps [simp del]

definition resolve_string ::
  "(string \<Rightarrow> 'c stored_value option) \<Rightarrow> ('c \<Rightarrow> string option) \<Rightarrow> string \<Rightarrow> ref_acc
     \<Rightarrow> resolve_error + json \<times> ref_acc" where
  "resolve_string get as_text s acc =
     (if \<not> contains s VAR_PREFIX then Inr (JString s, acc)
      else if starts_with s VAR_PREFIX \<and> CHR '' '' \<notin> set (drop (length VAR_PREFIX) s) then
        (case use_variable get as_text (drop (length VAR_PREFIX) s) acc of
           Inl e \<Rightarrow> Inl e
         | Inr (text, acc') \<Rightarrow> Inr (JString text, acc'))
      else
        (case inline_refs get as_text [] s acc of
           Inl e \<Rightarrow> Inl e
         | Inr (text, acc') \<Rightarrow> Inr (JString text, acc')))"

fun resolve_value ::
  "(string \<Rightarrow> 'c stored_value option) \<Rightarrow> ('c \<Rightarrow> string option) \<Rightarrow> json \<Rightarrow> ref_acc
     \<Rightarrow> resolve_error + json \<times> ref_acc"
and resolve_elements ::
  "(string \<Rightarrow> 'c stored_value option) \<Rightarrow> ('c \<Rightarrow> string option) \<Rightarrow> json list \<Rightarrow> ref_acc
     \<Rightarrow> resolve_error + json list \<times> ref_acc"
and resolve_fields ::
  "(string \<Rightarrow> 'c stored_value option) \<Rightarrow> ('c \<Rightarrow> string option) \<Rightarrow> (string \<times> json) list \<Rightarrow> ref_acc
     \<Rightarrow> resolve_error + (string \<times> json) list \<times> ref_acc" where
  "resolve_value get as_text (JString s) acc = resolve_string get as_text s acc"
| "resolve_value get as_text (JObject flds) acc =
     (case resolve_fields get as_text flds acc of
        Inl e \<Rightarrow> Inl e | Inr (flds', acc') \<Rightarrow> Inr (JObject flds', acc'))"
| "resolve_value get as_text (JArray arr) acc =
     (case resolve_elements get as_text arr acc of
        Inl e \<Rightarrow> Inl e | Inr (arr', acc') \<Rightarrow> Inr (JArray arr', acc'))"
| "resolve_value get as_text other acc = Inr (other, acc)"
| "resolve_elements get as_text [] acc = Inr ([], acc)"
| "resolve_elements get as_text (v # vs) acc =
     (case resolve_value get as_text v acc of
        Inl e \<Rightarrow> Inl e
      | Inr (v', acc') \<Rightarrow>
          (case resolve_elements get as_text vs acc' of
             Inl e \<Rightarrow> Inl e | Inr (vs', acc'') \<Rightarrow> Inr (v' # vs', acc'')))"
| "resolve_fields get as_text [] acc = Inr ([], acc)"
| "resolve_fields get as_text ((k, v) # fs) acc =
     (case resolve_value get as_text v acc of
        Inl e \<Rightarrow> Inl e
      | Inr (v', acc') \<Rightarrow>
          (case resolve_fields get as_text fs acc' of
             Inl e \<Rightarrow> Inl e | Inr (fs', acc'') \<Rightarrow> Inr ((k, v') # fs', acc'')))"

record resolved_args =
  ra_arguments :: json
  ra_effective_label :: data_label
  ra_referenced_vars :: "string list"

definition resolve_variable_refs ::
  "('c \<Rightarrow> string option) \<Rightarrow> nat \<Rightarrow> json \<Rightarrow> 'c value_store \<Rightarrow> resolve_error + resolved_args" where
  "resolve_variable_refs as_text now args st =
     (case resolve_value (\<lambda>vid. vs_get now vid st) as_text args (TRUSTED_PUBLIC, []) of
        Inl e \<Rightarrow> Inl e
      | Inr (arguments, (label, vars)) \<Rightarrow>
          Inr \<lparr>ra_arguments = arguments, ra_effective_label = label, ra_referenced_vars = vars\<rparr>)"

section \<open>The store's invariant\<close>

definition vs_wf :: "'c value_store \<Rightarrow> bool" where
  "vs_wf st \<longleftrightarrow> hm_wf (vs_values st) \<and> (\<forall>e\<in>set (vs_values st). sv_id (snd e) = fst e) \<and>
     length (vs_values st) \<le> max 1 (vs_max_entries st)"

interpretation vs_expiry: expiring_store
  "\<lambda>now. hm_retain (\<lambda>_. vs_live ttl now)" "\<lambda>now e. vs_live ttl now (snd e)"
  for ttl :: nat
  by unfold_locales (simp_all add: hm_retain_def vs_live_def case_prod_unfold)

lemma oldest_None [simp]: "oldest vs = None \<longleftrightarrow> vs = []"
  by (cases vs) (auto split: option.splits)

lemma oldest_least: "oldest vs = Some v \<Longrightarrow> v \<in> set vs \<and> (\<forall>w\<in>set vs. sv_created_at v \<le> sv_created_at w)"
proof (induction vs arbitrary: v)
  case (Cons u us)
  show ?case
  proof (cases "oldest us")
    case None
    with Cons.prems show ?thesis by simp
  next
    case (Some w)
    with Cons.IH[OF Some] Cons.prems show ?thesis
      by (fastforce split: if_splits)
  qed
qed simp

lemma vs_wf_keys: "vs_wf st \<Longrightarrow> hm_get (vs_values st) k = Some v \<Longrightarrow> sv_id v = k"
  unfolding vs_wf_def by (fastforce dest: map_of_SomeD)

lemma vs_wf_restrict:
  "vs_wf st \<Longrightarrow> hm_wf m \<Longrightarrow> set m \<subseteq> set (vs_values st) \<Longrightarrow> length m \<le> length (vs_values st) \<Longrightarrow>
     vs_wf (st\<lparr>vs_values := m\<rparr>)"
  by (auto simp: vs_wf_def)

lemma ids_insert:
  "\<forall>e\<in>set m. sv_id (snd e) = fst e \<Longrightarrow> sv_id w = i \<Longrightarrow>
     \<forall>e\<in>set (hm_insert i w m). sv_id (snd e) = fst e"
  using hm_all_insert[of m "\<lambda>k v. sv_id v = k" i w] by blast

definition vs_room :: "nat \<Rightarrow> 'c value_store \<Rightarrow> (string, 'c stored_value) hmap" where
  "vs_room now st =
     (let kept = hm_retain (\<lambda>_. vs_live (vs_ttl st) now) (vs_values st)
      in if length kept \<ge> vs_max_entries st then
           (case oldest (map snd kept) of Some v \<Rightarrow> hm_remove (sv_id v) kept | None \<Rightarrow> kept)
         else kept)"

lemma vs_store_room:
  "fst (vs_store now value st) = st\<lparr>vs_values := hm_insert (sv_id value) value (vs_room now st)\<rparr>"
  by (simp add: vs_store_def vs_room_def Let_def)

lemma vs_room_wf:
  assumes "vs_wf st"
  shows "hm_wf (vs_room now st)" and "set (vs_room now st) \<subseteq> set (vs_values st)"
    and "Suc (length (vs_room now st)) \<le> max 1 (vs_max_entries st)"
proof -
  let ?kept = "hm_retain (\<lambda>_. vs_live (vs_ttl st) now) (vs_values st)"
  have wf: "hm_wf ?kept" and sub: "set ?kept \<subseteq> set (vs_values st)"
    and ids: "\<forall>e\<in>set ?kept. sv_id (snd e) = fst e"
    using assms hm_retain_subset by (auto simp: vs_wf_def)
  have bound: "length ?kept \<le> max 1 (vs_max_entries st)"
    using assms hm_length_retain le_trans unfolding vs_wf_def by blast
  show "hm_wf (vs_room now st)"
    using wf by (simp add: vs_room_def Let_def split: option.split)
  show "set (vs_room now st) \<subseteq> set (vs_values st)"
    using sub subset_trans[OF hm_remove_subset sub]
    by (simp add: vs_room_def Let_def split: option.split)
  show "Suc (length (vs_room now st)) \<le> max 1 (vs_max_entries st)"
  proof (cases "oldest (map snd ?kept)")
    case None
    then show ?thesis by (auto simp: vs_room_def Let_def)
  next
    case (Some v)
    then obtain k where kv: "(k, v) \<in> set ?kept" using oldest_least[OF Some] by auto
    with ids have "hm_get ?kept (sv_id v) = Some v" using wf hm_get_mem by fastforce
    then have "length (hm_remove (sv_id v) ?kept) = length ?kept - 1"
      by (rule hm_length_remove[OF wf])
    moreover have "length ?kept > 0" using kv by (cases ?kept) auto
    ultimately show ?thesis using Some bound by (auto simp: vs_room_def Let_def)
  qed
qed

lemma vs_store_wf: "vs_wf st \<Longrightarrow> vs_wf (fst (vs_store now value st))"
proof -
  assume wf: "vs_wf st"
  note room = vs_room_wf[OF wf, of now]
  have "\<forall>e\<in>set (vs_room now st). sv_id (snd e) = fst e"
    using wf room(2) by (auto simp: vs_wf_def)
  from ids_insert[OF this refl[of "sv_id value"]] show ?thesis
    using room hm_length_insert[OF room(1), of "sv_id value" "value"]
    by (simp add: vs_store_room vs_wf_def split: if_splits)
qed

lemma vs_update_wf: "vs_wf st \<Longrightarrow> vs_wf (fst (vs_update vid content label st))"
proof (cases "hm_get (vs_values st) vid")
  case (Some v)
  assume wf: "vs_wf st"
  then have "hm_wf (vs_values st)" by (simp add: vs_wf_def)
  moreover have "\<forall>e\<in>set (hm_insert vid (v\<lparr>sv_content := content, sv_label := label\<rparr>)
      (vs_values st)). sv_id (snd e) = fst e"
    using wf vs_wf_keys[OF wf Some] by (intro ids_insert) (simp_all add: vs_wf_def)
  ultimately show ?thesis
    using wf Some hm_length_insert[of "vs_values st" vid] by (simp add: vs_update_def vs_wf_def)
qed (simp add: vs_update_def)

lemma vs_remove_wf: "vs_wf st \<Longrightarrow> vs_wf (fst (vs_remove vid st))"
  unfolding vs_remove_def fst_conv
  by (intro vs_wf_restrict) (auto simp: vs_wf_def hm_length_remove_le dest: hm_remove_subset[THEN subsetD])

lemma vs_evict_wf: "vs_wf st \<Longrightarrow> vs_wf (fst (vs_evict_expired now st))"
  unfolding vs_evict_expired_def Let_def fst_conv
  by (intro vs_wf_restrict)
     (auto simp: vs_wf_def hm_length_retain dest: hm_retain_subset[THEN subsetD])

lemma vs_get_store:
  "vs_live (vs_ttl st) now value \<Longrightarrow>
     vs_get now (sv_id value) (fst (vs_store now value st)) = Some value"
  by (simp add: vs_get_def vs_store_room)

section \<open>What the references of an argument are\<close>

text \<open>
  The references of a text, read off without any store: the pieces of literal text with the
  variable named after each, and the literal text after the last.
\<close>

function inline_parts :: "string \<Rightarrow> (string \<times> string) list \<times> string" where
  "inline_parts rest =
     (case find_str rest VAR_PREFIX of
        None \<Rightarrow> ([], rest)
      | Some start \<Rightarrow>
          (let tail = drop (start + length VAR_PREFIX) rest in
           case inline_parts (dropWhile (\<lambda>c. \<not> ref_delimiter c) tail) of
             (parts, end) \<Rightarrow> ((take start rest, takeWhile (\<lambda>c. \<not> ref_delimiter c) tail) # parts, end)))"
  by pat_completeness auto
termination
proof (relation "measure length", goal_cases)
  case 1
  show ?case by simp
next
  case (2 rest start tail)
  then have "start + 6 \<le> length rest"
    using find_str_length by (fastforce simp: VAR_PREFIX_def)
  moreover have "length (dropWhile (\<lambda>c. \<not> ref_delimiter c) tail) \<le> length tail"
    by (rule length_dropWhile_le)
  ultimately show ?case using 2 by (simp add: VAR_PREFIX_def)
qed

declare inline_parts.simps [simp del]

definition string_parts :: "string \<Rightarrow> (string \<times> string) list \<times> string" where
  "string_parts s =
     (if \<not> contains s VAR_PREFIX then ([], s)
      else if starts_with s VAR_PREFIX \<and> CHR '' '' \<notin> set (drop (length VAR_PREFIX) s)
      then ([([], drop (length VAR_PREFIX) s)], [])
      else inline_parts s)"

text \<open>The variables that arguments name, in order, and the arguments with a text for each.\<close>

fun named_variables :: "json \<Rightarrow> string list" where
  "named_variables (JString s) = map snd (fst (string_parts s))"
| "named_variables (JArray xs) = concat (map named_variables xs)"
| "named_variables (JObject fs) = concat (map (\<lambda>(k, v). named_variables v) fs)"
| "named_variables _ = []"

definition fill_parts :: "(string \<Rightarrow> string) \<Rightarrow> (string \<times> string) list \<times> string \<Rightarrow> string" where
  "fill_parts f parts = concat (map (\<lambda>(lit, vid). lit @ f vid) (fst parts)) @ snd parts"

fun fill_variables :: "(string \<Rightarrow> string) \<Rightarrow> json \<Rightarrow> json" where
  "fill_variables f (JString s) = JString (fill_parts f (string_parts s))"
| "fill_variables f (JArray xs) = JArray (map (fill_variables f) xs)"
| "fill_variables f (JObject fs) = JObject (map (\<lambda>(k, v). (k, fill_variables f v)) fs)"
| "fill_variables f j = j"

section \<open>Resolution is substitution\<close>

definition variable_text ::
  "(string \<Rightarrow> 'c stored_value option) \<Rightarrow> ('c \<Rightarrow> string option) \<Rightarrow> string \<Rightarrow> string" where
  "variable_text get as_text vid = content_to_text as_text (sv_content (the (get vid)))"

text \<open>Using the variables \<open>ns\<close>: the first that is missing is the error.\<close>

definition using_variables ::
  "(string \<Rightarrow> 'c stored_value option) \<Rightarrow> string list \<Rightarrow> 'r \<Rightarrow> ref_acc \<Rightarrow> resolve_error + 'r \<times> ref_acc" where
  "using_variables get ns r acc =
     (case List.find (\<lambda>n. get n = None) ns of
        Some n \<Rightarrow> Inl (VariableNotFound n)
      | None \<Rightarrow> Inr (r, (foldl join (fst acc) (map (\<lambda>n. sv_label (the (get n))) ns), snd acc @ ns)))"

lemma find_append: "List.find P (xs @ ys) = (case List.find P xs of None \<Rightarrow> List.find P ys | Some x \<Rightarrow> Some x)"
  by (induction xs) auto

lemma using_bind:
  "(case using_variables get ns r acc of Inl e \<Rightarrow> Inl e | Inr (x, acc') \<Rightarrow> using_variables get ms (g x) acc') =
     using_variables get (ns @ ms) (g r) acc"
  by (simp add: using_variables_def find_append split: option.split)

lemma using_return:
  "(case using_variables get ns r acc of Inl e \<Rightarrow> Inl e | Inr (x, acc') \<Rightarrow> Inr (g x, acc')) =
     using_variables get ns (g r) acc"
  by (simp add: using_variables_def split: option.split)

lemma using_none: "using_variables get [] r acc = Inr (r, acc)"
  by (simp add: using_variables_def)

lemma use_variable_exact:
  "use_variable get as_text vid acc = using_variables get [vid] (variable_text get as_text vid) acc"
  by (simp add: use_variable_def using_variables_def variable_text_def split: option.split)

lemma inline_exact:
  "inline_refs get as_text don rest acc =
     using_variables get (map snd (fst (inline_parts rest)))
       (don @ fill_parts (variable_text get as_text) (inline_parts rest)) acc"
proof (induction get as_text don rest acc rule: inline_refs.induct)
  case (1 get as_text don rest acc)
  show ?case
  proof (cases "find_str rest VAR_PREFIX")
    case None
    then show ?thesis
      by (simp add: inline_refs.simps[of _ _ don] inline_parts.simps[of rest] using_none fill_parts_def)
  next
    case (Some start)
    let ?tail = "drop (start + length VAR_PREFIX) rest"
    let ?vid = "takeWhile (\<lambda>c. \<not> ref_delimiter c) ?tail" and ?rest = "dropWhile (\<lambda>c. \<not> ref_delimiter c) ?tail"
    obtain parts e where p: "inline_parts ?rest = (parts, e)" by fastforce
    have p': "inline_parts rest = ((take start rest, ?vid) # parts, e)"
      by (simp add: inline_parts.simps[of rest] Some p Let_def)
    have IH: "inline_refs get as_text (don @ take start rest @ t) ?rest acc' =
        using_variables get (map snd parts) (don @ take start rest @ t @ fill_parts (variable_text get as_text) (parts, e)) acc'"
      if "use_variable get as_text ?vid acc = Inr (t, acc')" for t acc'
      using "1"[OF Some refl refl that refl] by (simp add: p)
    have "inline_refs get as_text don rest acc =
        (case use_variable get as_text ?vid acc of Inl e \<Rightarrow> Inl e
         | Inr (t, acc') \<Rightarrow> using_variables get (map snd parts)
             (don @ take start rest @ t @ fill_parts (variable_text get as_text) (parts, e)) acc')"
      using IH by (simp add: inline_refs.simps[of _ _ don] Some Let_def split: sum.split)
    also have "\<dots> = using_variables get ([?vid] @ map snd parts)
        (don @ take start rest @ variable_text get as_text ?vid @ fill_parts (variable_text get as_text) (parts, e)) acc"
      unfolding use_variable_exact by (rule using_bind)
    finally show ?thesis by (simp add: p' fill_parts_def)
  qed
qed

lemma string_exact:
  "resolve_string get as_text s acc =
     using_variables get (map snd (fst (string_parts s)))
       (JString (fill_parts (variable_text get as_text) (string_parts s))) acc"
proof -
  have "resolve_string get as_text s acc = using_variables get (map snd (fst (string_parts s)))
      (JString (fill_parts (variable_text get as_text) (string_parts s))) acc"
    if "\<not> contains s VAR_PREFIX"
    using that by (simp add: resolve_string_def string_parts_def using_none fill_parts_def)
  moreover have "resolve_string get as_text s acc = using_variables get (map snd (fst (string_parts s)))
      (JString (fill_parts (variable_text get as_text) (string_parts s))) acc"
    if "contains s VAR_PREFIX" "starts_with s VAR_PREFIX \<and> CHR '' '' \<notin> set (drop (length VAR_PREFIX) s)"
    using that
    by (simp add: resolve_string_def string_parts_def use_variable_exact using_return fill_parts_def)
  moreover have "resolve_string get as_text s acc = using_variables get (map snd (fst (string_parts s)))
      (JString (fill_parts (variable_text get as_text) (string_parts s))) acc"
    if "contains s VAR_PREFIX" "\<not> (starts_with s VAR_PREFIX \<and> CHR '' '' \<notin> set (drop (length VAR_PREFIX) s))"
    using that by (auto simp: resolve_string_def string_parts_def inline_exact using_return)
  ultimately show ?thesis by blast
qed

lemma value_exact:
  "resolve_value get as_text v acc =
     using_variables get (named_variables v) (fill_variables (variable_text get as_text) v) acc"
  "resolve_elements get as_text vs acc =
     using_variables get (concat (map named_variables vs)) (map (fill_variables (variable_text get as_text)) vs) acc"
  "resolve_fields get as_text fs acc =
     using_variables get (concat (map (\<lambda>(k, v). named_variables v) fs))
       (map (\<lambda>(k, v). (k, fill_variables (variable_text get as_text) v)) fs) acc"
proof (induction get as_text v acc and get as_text vs acc and get as_text fs acc
    rule: resolve_value_resolve_elements_resolve_fields.induct)
  case (6 get as_text v vs acc)
  have "resolve_elements get as_text (v # vs) acc =
      (case using_variables get (named_variables v) (fill_variables (variable_text get as_text) v) acc of Inl e \<Rightarrow> Inl e
       | Inr (v', acc') \<Rightarrow> using_variables get (concat (map named_variables vs))
           (v' # map (fill_variables (variable_text get as_text)) vs) acc')"
    using 6 by (simp add: using_return split: sum.split)
  then show ?case by (simp add: using_bind)
next
  case (8 get as_text k v fs acc)
  have "resolve_fields get as_text ((k, v) # fs) acc =
      (case using_variables get (named_variables v) (fill_variables (variable_text get as_text) v) acc of Inl e \<Rightarrow> Inl e
       | Inr (v', acc') \<Rightarrow> using_variables get (concat (map (\<lambda>(k, v). named_variables v) fs))
           ((k, v') # map (\<lambda>(k, v). (k, fill_variables (variable_text get as_text) v)) fs) acc')"
    using 8 by (simp add: using_return split: sum.split)
  then show ?case by (simp add: using_bind)
qed (simp_all add: string_exact using_none using_return)

text \<open>Resolution written out: the first named variable that is not live, or the substitution.\<close>

lemma resolution_exact:
  "resolve_variable_refs as_text now args st =
     (case List.find (\<lambda>n. vs_get now n st = None) (named_variables args) of
        Some n \<Rightarrow> Inl (VariableNotFound n)
      | None \<Rightarrow> Inr \<lparr>ra_arguments = fill_variables (variable_text (\<lambda>n. vs_get now n st) as_text) args,
          ra_effective_label = foldl join TRUSTED_PUBLIC (map (\<lambda>n. sv_label (the (vs_get now n st))) (named_variables args)),
          ra_referenced_vars = named_variables args\<rparr>)"
  by (simp add: resolve_variable_refs_def value_exact using_variables_def split: option.split)

lemma fill_cong:
  "\<forall>n\<in>set (named_variables v). f n = g n \<Longrightarrow> fill_variables f v = fill_variables g v"
proof (induction v)
  case (JString s)
  then show ?case by (auto simp: fill_parts_def case_prod_beta intro!: arg_cong[where f = concat])
qed fastforce+

lemma find_cong: "\<forall>x\<in>set xs. P x = Q x \<Longrightarrow> List.find P xs = List.find Q xs"
  by (induction xs) auto

section \<open>Properties\<close>

definition sample_value :: "string \<Rightarrow> string \<Rightarrow> data_label \<Rightarrow> string stored_value" where
  "sample_value i c l = \<lparr>sv_id = i, sv_content = [c], sv_label = l, sv_source_tool = ''t'',
     sv_created_at = 0, sv_is_error = False\<rparr>"

definition sample_store :: "string value_store" where
  "sample_store = \<lparr>vs_values = [(''a'', sample_value ''a'' ''hi'' UNTRUSTED_PUBLIC),
      (''b'', sample_value ''b'' ''key'' TRUSTED_SECRET)], vs_max_entries = 10, vs_ttl = 100\<rparr>"

definition other_store :: "string value_store" where
  "other_store = \<lparr>vs_values = [(''b'', sample_value ''b'' ''changed'' TRUSTED_SECRET),
      (''a'', sample_value ''a'' ''hi'' UNTRUSTED_PUBLIC)], vs_max_entries = 10, vs_ttl = 100\<rparr>"

text \<open>
  C13: Resolving the references of a tool call reads only the variables that its arguments name:
  two stores in which those are live with the same values, or missing, give the same outcome,
  error or result.
\<close>

theorem resolution_noninterference:
  assumes "\<forall>vid\<in>set (named_variables args). vs_get now vid st = vs_get now' vid st'"
  shows "resolve_variable_refs as_text now args st = resolve_variable_refs as_text now' args st'"
proof -
  let ?f = "variable_text (\<lambda>n. vs_get now n st) as_text" and ?g = "variable_text (\<lambda>n. vs_get now' n st') as_text"
  have "fill_variables ?f args = fill_variables ?g args"
    using assms by (intro fill_cong) (simp add: variable_text_def)
  moreover have "List.find (\<lambda>n. vs_get now n st = None) (named_variables args) =
      List.find (\<lambda>n. vs_get now' n st' = None) (named_variables args)"
    using assms by (intro find_cong) simp
  moreover have "map (\<lambda>n. sv_label (the (vs_get now n st))) (named_variables args) =
      map (\<lambda>n. sv_label (the (vs_get now' n st'))) (named_variables args)"
    using assms by simp
  ultimately show ?thesis unfolding resolution_exact by (simp only:)
qed

lemma sample_names: "named_variables (JString ''var://a'') = [''a'']"
  by (simp add: string_parts_def VAR_PREFIX_def starts_with_def)

theorem resolution_noninterference_witness:
  "resolve_variable_refs Some 5 (JString ''var://a'') sample_store =
     resolve_variable_refs Some 5 (JString ''var://a'') other_store"
  by (rule resolution_noninterference, unfold sample_names)
     (simp add: vs_get_def vs_live_def sample_store_def other_store_def sample_value_def)

text \<open>
  C14: Resolution is substitution: the first variable that the arguments name and that is not live
  is the error, else each reference is replaced by the text of its variable, the reported
  variables are those named, in order, and the effective label is the join of their labels.
\<close>

theorem effective_label_exact:
  "resolve_variable_refs as_text now args st =
     (case List.find (\<lambda>n. vs_get now n st = None) (named_variables args) of
        Some n \<Rightarrow> Inl (VariableNotFound n)
      | None \<Rightarrow> Inr \<lparr>ra_arguments = fill_variables (variable_text (\<lambda>n. vs_get now n st) as_text) args,
          ra_effective_label = foldl join TRUSTED_PUBLIC (map (\<lambda>n. sv_label (the (vs_get now n st))) (named_variables args)),
          ra_referenced_vars = named_variables args\<rparr>)"
  by (rule resolution_exact)

theorem effective_label_exact_witness:
  "resolve_variable_refs Some 5 (JString ''var://a'') sample_store =
     Inr \<lparr>ra_arguments = JString ''hi'', ra_effective_label = UNTRUSTED_PUBLIC, ra_referenced_vars = [''a'']\<rparr>"
  unfolding effective_label_exact sample_names
  by (simp add: vs_get_def vs_live_def sample_store_def sample_value_def string_parts_def VAR_PREFIX_def
      starts_with_def fill_parts_def variable_text_def content_to_text_def List.map_filter_def join_def
      label_consts level_order)

datatype 'c vs_op =
    StoreOp nat "'c stored_value" | UpdateOp string "'c list" data_label | RemoveOp string | EvictOp nat

fun vs_step :: "'c vs_op \<Rightarrow> 'c value_store \<Rightarrow> 'c value_store" where
  "vs_step (StoreOp now v) st = fst (vs_store now v st)"
| "vs_step (UpdateOp i c l) st = fst (vs_update i c l st)"
| "vs_step (RemoveOp i) st = fst (vs_remove i st)"
| "vs_step (EvictOp now) st = fst (vs_evict_expired now st)"

lemma vs_step_wf: "vs_wf st \<Longrightarrow> vs_wf (vs_step op st)"
  by (cases op) (simp_all add: vs_store_wf vs_update_wf vs_remove_wf vs_evict_wf)

lemma vs_run_wf: "vs_wf st \<Longrightarrow> vs_wf (fold vs_step ops st)"
  by (rule fold_invariant) (auto intro: vs_step_wf)

lemma vs_run_limit: "vs_max_entries (fold vs_step ops st) = vs_max_entries st"
proof (induction ops arbitrary: st)
  case (Cons op ops)
  have "vs_max_entries (vs_step op st) = vs_max_entries st"
    by (cases op) (auto simp: vs_store_def vs_update_def vs_remove_def vs_evict_expired_def Let_def
        split: option.splits)
  then show ?case using Cons by simp
qed simp

text \<open>
  whatever is stored, updated, removed and evicted, the store never holds more
  than its limit (one entry when the limit is zero), and a lookup returns a value
  with the identifier that was asked for and within its time to live.
\<close>

theorem value_store_bounded:
  "length (vs_values (fold vs_step ops (vs_with_limits n ttl))) \<le> max 1 n \<and>
   pred_option (\<lambda>v. sv_id v = i \<and> now - sv_created_at v < vs_ttl (fold vs_step ops (vs_with_limits n ttl)))
     (vs_get now i (fold vs_step ops (vs_with_limits n ttl)))"
proof -
  let ?st = "fold vs_step ops (vs_with_limits n ttl)"
  have "vs_wf (vs_with_limits n ttl :: 'a value_store)" by (simp add: vs_wf_def vs_with_limits_def)
  then have wf: "vs_wf ?st" by (rule vs_run_wf)
  have "vs_max_entries ?st = n" by (simp add: vs_run_limit) (simp add: vs_with_limits_def)
  moreover have "sv_id v = i \<and> vs_live (vs_ttl ?st) now v" if "vs_get now i ?st = Some v" for v
    using that vs_wf_keys[OF wf] by (auto simp: vs_get_def split: option.splits if_splits)
  ultimately show ?thesis
    using wf by (auto simp: vs_wf_def vs_live_def option.pred_set)
qed

end
