(* ===== verification/SandboxProfile.thy ===== *)
theory SandboxProfile
  imports Paths
begin

text \<open>
  Sandbox profiles of \<open>navra-auth/src/auth/sandbox_profile.rs\<close>: the per-tool
  rules attached to a capability token, the lookup of the rule for a tool, and
  the attenuation check a delegated profile must pass.
\<close>

datatype sandbox_action =
    Simulate string
  | Redact "string list" string
  | RateLimit nat nat
  | PathRewrite string string

record tool_sandbox_rule =
  rule_action :: sandbox_action

record sandbox_profile =
  sp_rules :: "(string, tool_sandbox_rule) hmap"

definition default_replacement :: string where
  "default_replacement = ''[REDACTED]''"

datatype action_attenuation_error = WeakensSimulate | EscalatesRateLimit | ExtendsRateWindow

definition is_simulate :: "sandbox_action \<Rightarrow> bool" where
  "is_simulate a = (case a of Simulate _ \<Rightarrow> True | _ \<Rightarrow> False)"

definition check_action_attenuation ::
  "sandbox_action \<Rightarrow> sandbox_action \<Rightarrow> action_attenuation_error + unit" where
  "check_action_attenuation parent child =
     (if is_simulate parent \<and> \<not> is_simulate child then Inl WeakensSimulate
      else (case (parent, child) of
              (RateLimit p_max p_win, RateLimit c_max c_win) \<Rightarrow>
                if c_max > p_max then Inl EscalatesRateLimit
                else if c_win > p_win then Inl ExtendsRateWindow
                else Inr ()
            | _ \<Rightarrow> Inr ()))"

definition rule_for :: "glob_engine \<Rightarrow> string \<Rightarrow> sandbox_profile \<Rightarrow> tool_sandbox_rule option" where
  "rule_for glob tool_name p =
     (case hm_get (sp_rules p) tool_name of
        Some rule \<Rightarrow> Some rule
      | None \<Rightarrow>
          map_option snd (List.find (\<lambda>(pat, rule). glob_accepts glob pat tool_name) (sp_rules p)))"

datatype sandbox_error =
    RemovesRule string
  | ActionError action_attenuation_error string

fun validate_rules ::
  "(string \<times> tool_sandbox_rule) list \<Rightarrow> sandbox_profile \<Rightarrow> sandbox_error + unit" where
  "validate_rules [] child = Inr ()"
| "validate_rules ((pat, parent_rule) # rest) child =
     (case hm_get (sp_rules child) pat of
        None \<Rightarrow> Inl (RemovesRule pat)
      | Some child_rule \<Rightarrow>
          (case check_action_attenuation (rule_action parent_rule) (rule_action child_rule) of
             Inl e \<Rightarrow> Inl (ActionError e pat)
           | Inr _ \<Rightarrow> validate_rules rest child))"

definition validate_attenuation :: "sandbox_profile \<Rightarrow> sandbox_profile \<Rightarrow> sandbox_error + unit" where
  "validate_attenuation parent child = validate_rules (sp_rules parent) child"

section \<open>Facts\<close>

lemma validate_rules_iff:
  "validate_rules rs child = Inr () \<longleftrightarrow>
     (\<forall>(pat, r)\<in>set rs. \<exists>c. hm_get (sp_rules child) pat = Some c \<and>
        check_action_attenuation (rule_action r) (rule_action c) = Inr ())"
  by (induction rs child rule: validate_rules.induct) (auto split: option.splits sum.splits)

lemma check_action_refl [simp]: "check_action_attenuation a a = Inr ()"
  by (cases a) (simp_all add: check_action_attenuation_def is_simulate_def)

lemma validate_attenuation_refl:
  "hm_wf (sp_rules p) \<Longrightarrow> validate_attenuation p p = Inr ()"
  unfolding validate_attenuation_def validate_rules_iff by (fastforce simp: hm_get_mem)

lemma validate_attenuation_iff:
  assumes "hm_wf (sp_rules p)"
  shows "validate_attenuation p c = Inr () \<longleftrightarrow>
     (\<forall>pat r. hm_get (sp_rules p) pat = Some r \<longrightarrow>
        (\<exists>r'. hm_get (sp_rules c) pat = Some r' \<and>
           check_action_attenuation (rule_action r) (rule_action r') = Inr ()))"
  unfolding validate_attenuation_def validate_rules_iff
  using hm_get_mem[OF assms] by fastforce

lemma check_action_simulate:
  "check_action_attenuation (Simulate s) a = Inr () \<longleftrightarrow> is_simulate a"
  by (cases a) (simp_all add: check_action_attenuation_def is_simulate_def)

text \<open>A rule of the parent survives every valid delegation, as does simulation.\<close>

lemma attenuation_keeps_rules:
  assumes "validate_attenuation p c = Inr ()"
  shows "fst ` set (sp_rules p) \<subseteq> fst ` set (sp_rules c)"
proof
  fix pat assume "pat \<in> fst ` set (sp_rules p)"
  then obtain r where "(pat, r) \<in> set (sp_rules p)" by auto
  then obtain c' where "hm_get (sp_rules c) pat = Some c'"
    using assms unfolding validate_attenuation_def validate_rules_iff by fastforce
  from map_of_SomeD[OF this] show "pat \<in> fst ` set (sp_rules c)" by force
qed

lemma attenuation_keeps_simulate:
  assumes "validate_attenuation p c = Inr ()" and "(pat, r) \<in> set (sp_rules p)"
    and "is_simulate (rule_action r)"
  shows "\<exists>r'. hm_get (sp_rules c) pat = Some r' \<and> is_simulate (rule_action r')"
  using assms unfolding validate_attenuation_def validate_rules_iff
  by (fastforce simp: check_action_attenuation_def split: if_splits)

end
