(* ===== verification/Capability.thy ===== *)
theory Capability
  imports SandboxProfile Taint
begin

text \<open>
  Capability tokens of \<open>navra-auth/src/auth/capability.rs\<close>: the payload, the
  wire codec with its checks, the revocation list, resolution of a verified
  payload, and delegation: the validator of a delegated token and the two
  builders.  Base64, CBOR, the signer, globs, nonces and the clock are
  arguments.  Times and rings are natural numbers; the one unchecked addition
  (issue time plus time to live) wraps at 64 bits, as in a release build.
\<close>

section \<open>Data\<close>

record obo_identity =
  obo_sub :: string
  obo_iss :: string
  obo_auth_time :: "int option"

record actor_chain_entry =
  ac_sub :: string
  ac_agent_id :: string
  ac_iat :: nat
  ac_permissions :: string

record capability_set =
  cap_paths :: "string list"
  cap_operations :: "string list"
  cap_tools :: "string list"
  cap_credentials :: "string list"

record capability_payload =
  tok_v :: nat
  tok_iss :: string
  tok_sub :: string
  tok_cap :: capability_set
  tok_ring :: nat
  tok_iat :: nat
  tok_exp :: nat
  tok_nonce :: bytes
  tok_parent :: "bytes option"
  tok_obo :: "obo_identity option"
  tok_sandbox :: "sandbox_profile option"
  tok_aud :: "string option"
  tok_act_chain :: "actor_chain_entry list"

record resolved_capabilities =
  issuer_did :: string
  subject_did :: string
  rc_ring :: nat
  rc_paths :: "string list"
  rc_operations :: "string set"
  rc_tools :: "string list"
  rc_credentials :: "string list"
  expires_at :: nat
  rc_obo_sub :: "string option"
  rc_sandbox :: "sandbox_profile option"
  rc_act_chain :: "actor_chain_entry list"

datatype delegation_violation =
    NoParentReference
  | RingEscalation nat nat
  | ExpiryExtension nat nat
  | OperationEscalation string
  | CredentialEscalation string
  | OboIntroduced
  | OboMismatch string string
  | PathEscalation string
  | ToolEscalation string
  | SandboxViolation sandbox_error
  | SandboxRemoved
  | DepthExceeded
  | ChainTooLong nat nat
  | ChainRootNotWimse string
  | AudienceMismatch string string

datatype capability_error =
    InvalidFormat
  | InvalidSignature
  | Expired nat nat
  | UnsupportedVersion nat
  | Revoked
  | DelegationViolation delegation_violation
  | CborError
  | Base64Error

section \<open>Revocation\<close>

record token_revocation_list =
  revoked :: "bytes set"

definition revocation_new :: token_revocation_list where
  "revocation_new = \<lparr>revoked = {}\<rparr>"

definition revoke_token :: "bytes \<Rightarrow> token_revocation_list \<Rightarrow> token_revocation_list" where
  "revoke_token n rl = rl\<lparr>revoked := insert n (revoked rl)\<rparr>"

definition is_revoked :: "bytes \<Rightarrow> token_revocation_list \<Rightarrow> bool" where
  "is_revoked n rl \<longleftrightarrow> n \<in> revoked rl"

definition revocation_len :: "token_revocation_list \<Rightarrow> nat" where
  "revocation_len rl = card (revoked rl)"

section \<open>Wire codec\<close>

definition TOKEN_PREFIX :: string where
  "TOKEN_PREFIX = ''navra_cap_v1''"

record token_codec =
  b64_encode :: "bytes \<Rightarrow> string"
  b64_decode :: "string \<Rightarrow> bytes option"
  cbor_encode :: "capability_payload \<Rightarrow> bytes option"
  cbor_decode :: "bytes \<Rightarrow> capability_payload option"

definition encode_token ::
  "token_codec \<Rightarrow> cap_signer \<Rightarrow> capability_payload \<Rightarrow> capability_error + string" where
  "encode_token cd signer payload =
     (case cbor_encode cd payload of
        None \<Rightarrow> Inl CborError
      | Some cbor_bytes \<Rightarrow>
          Inr (TOKEN_PREFIX @ ''.'' @ b64_encode cd cbor_bytes @ ''.''
               @ b64_encode cd (sign signer cbor_bytes)))"

text \<open>\<open>splitn(3, '.')\<close>.\<close>

definition splitn3 :: "string \<Rightarrow> string list" where
  "splitn3 s =
     (case split_once (CHR ''.'') s of
        None \<Rightarrow> [s]
      | Some (a, r) \<Rightarrow>
          (case split_once (CHR ''.'') r of None \<Rightarrow> [a, r] | Some (b, c) \<Rightarrow> [a, b, c]))"

definition decode_token_with_revocation ::
  "token_codec \<Rightarrow> nat \<Rightarrow> cap_signer \<Rightarrow> token_revocation_list option \<Rightarrow> string
     \<Rightarrow> capability_error + capability_payload" where
  "decode_token_with_revocation cd now verifier revocation_list token =
     (case splitn3 token of
        [pre, body, sig] \<Rightarrow>
          if pre \<noteq> TOKEN_PREFIX then Inl InvalidFormat
          else
            (case b64_decode cd body of
               None \<Rightarrow> Inl Base64Error
             | Some cbor_bytes \<Rightarrow>
                 (case b64_decode cd sig of
                    None \<Rightarrow> Inl Base64Error
                  | Some sig_bytes \<Rightarrow>
                      if \<not> verify verifier cbor_bytes sig_bytes then Inl InvalidSignature
                      else
                        (case cbor_decode cd cbor_bytes of
                           None \<Rightarrow> Inl CborError
                         | Some payload \<Rightarrow>
                             if tok_exp payload < now then Inl (Expired (tok_exp payload) now)
                             else if tok_v payload \<noteq> 1 then Inl (UnsupportedVersion (tok_v payload))
                             else
                               (case revocation_list of
                                  Some rl \<Rightarrow>
                                    if is_revoked (tok_nonce payload) rl then Inl Revoked
                                    else Inr payload
                                | None \<Rightarrow> Inr payload))))
      | _ \<Rightarrow> Inl InvalidFormat)"

definition decode_token ::
  "token_codec \<Rightarrow> nat \<Rightarrow> cap_signer \<Rightarrow> string \<Rightarrow> capability_error + capability_payload" where
  "decode_token cd now verifier token = decode_token_with_revocation cd now verifier None token"

definition decode_token_with_audience ::
  "token_codec \<Rightarrow> nat \<Rightarrow> cap_signer \<Rightarrow> string \<Rightarrow> string
     \<Rightarrow> capability_error + capability_payload" where
  "decode_token_with_audience cd now verifier expected_audience token =
     (case decode_token cd now verifier token of
        Inl e \<Rightarrow> Inl e
      | Inr payload \<Rightarrow>
          (case tok_aud payload of
             Some a \<Rightarrow>
               if a \<noteq> expected_audience
               then Inl (DelegationViolation (AudienceMismatch a expected_audience))
               else Inr payload
           | None \<Rightarrow> Inr payload))"

definition resolve_capabilities :: "capability_payload \<Rightarrow> resolved_capabilities" where
  "resolve_capabilities p =
     \<lparr>issuer_did = tok_iss p, subject_did = tok_sub p, rc_ring = tok_ring p, rc_paths = cap_paths (tok_cap p),
      rc_operations = set (cap_operations (tok_cap p)), rc_tools = cap_tools (tok_cap p),
      rc_credentials = cap_credentials (tok_cap p), expires_at = tok_exp p,
      rc_obo_sub = map_option obo_sub (tok_obo p), rc_sandbox = tok_sandbox p,
      rc_act_chain = tok_act_chain p\<rparr>"

section \<open>Delegation\<close>

datatype attenuation_failure = RingFailure | ExpiryFailure

definition check_attenuation :: "nat \<Rightarrow> nat \<Rightarrow> nat \<Rightarrow> nat \<Rightarrow> attenuation_failure + unit" where
  "check_attenuation parent_ring child_ring parent_exp child_exp =
     (if child_ring < parent_ring then Inl RingFailure
      else if child_exp > parent_exp then Inl ExpiryFailure
      else Inr ())"

definition covered_by_tree :: "string \<Rightarrow> string \<Rightarrow> bool" where
  "covered_by_tree child parent_prefix \<longleftrightarrow>
     (case strip_suffix child ''/**'' of
        Some child_prefix \<Rightarrow>
          starts_with child_prefix parent_prefix \<and>
          (length child_prefix = length parent_prefix \<or>
           child_prefix ! length parent_prefix = CHR ''/'')
      | None \<Rightarrow> False) \<or>
     starts_with child parent_prefix \<and>
     (length child = length parent_prefix \<or>
      length parent_prefix < length child \<and> child ! length parent_prefix = CHR ''/'')"

definition covered_by_one :: "glob_engine \<Rightarrow> string \<Rightarrow> string \<Rightarrow> bool" where
  "covered_by_one glob child parent_pat \<longleftrightarrow>
     child = parent_pat \<or>
     (case strip_suffix parent_pat ''/**'' of
        Some parent_prefix \<Rightarrow> covered_by_tree child parent_prefix
      | None \<Rightarrow> False) \<or>
     CHR ''*'' \<in> set parent_pat \<and> glob_accepts glob parent_pat child"

definition is_glob_covered_by :: "glob_engine \<Rightarrow> string \<Rightarrow> string list \<Rightarrow> bool" where
  "is_glob_covered_by glob child parent_patterns = list_ex (covered_by_one glob child) parent_patterns"

text \<open>A loop that returns an error for the first element failing a test.\<close>

definition require_all :: "('a \<Rightarrow> bool) \<Rightarrow> ('a \<Rightarrow> 'e) \<Rightarrow> 'a list \<Rightarrow> 'e + unit" where
  "require_all ok err xs =
     (case List.find (\<lambda>x. \<not> ok x) xs of Some x \<Rightarrow> Inl (err x) | None \<Rightarrow> Inr ())"

definition and_then :: "'e + unit \<Rightarrow> 'e + unit \<Rightarrow> 'e + unit" where
  "and_then a b = (case a of Inl e \<Rightarrow> Inl e | Inr _ \<Rightarrow> b)"

definition validate_obo ::
  "obo_identity option \<Rightarrow> obo_identity option \<Rightarrow> delegation_violation + unit" where
  "validate_obo p c =
     (case (p, c) of
        (None, Some _) \<Rightarrow> Inl OboIntroduced
      | (Some po, Some co) \<Rightarrow>
          if obo_sub po \<noteq> obo_sub co \<or> obo_iss po \<noteq> obo_iss co
          then Inl (OboMismatch (obo_sub co) (obo_iss co)) else Inr ()
      | _ \<Rightarrow> Inr ())"

definition validate_sandbox ::
  "sandbox_profile option \<Rightarrow> sandbox_profile option \<Rightarrow> delegation_violation + unit" where
  "validate_sandbox p c =
     (case (p, c) of
        (Some ps, Some cs) \<Rightarrow>
          (case validate_attenuation ps cs of Inl e \<Rightarrow> Inl (SandboxViolation e) | Inr _ \<Rightarrow> Inr ())
      | (Some _, None) \<Rightarrow> Inl SandboxRemoved
      | _ \<Rightarrow> Inr ())"

definition delegation_checks ::
  "glob_engine \<Rightarrow> capability_payload \<Rightarrow> capability_payload \<Rightarrow> nat \<Rightarrow> delegation_violation + unit"
where
  "delegation_checks glob p c max_depth =
     and_then (if tok_parent c = Some (tok_nonce p) then Inr () else Inl NoParentReference)
     (and_then
       (case check_attenuation (tok_ring p) (tok_ring c) (tok_exp p) (tok_exp c) of
          Inl RingFailure \<Rightarrow> Inl (RingEscalation (tok_ring c) (tok_ring p))
        | Inl ExpiryFailure \<Rightarrow> Inl (ExpiryExtension (tok_exp c) (tok_exp p))
        | Inr _ \<Rightarrow> Inr ())
     (and_then
       (require_all (\<lambda>op. op \<in> set (cap_operations (tok_cap p))) OperationEscalation
          (cap_operations (tok_cap c)))
     (and_then
       (require_all (\<lambda>cr. cr \<in> set (cap_credentials (tok_cap p))) CredentialEscalation
          (cap_credentials (tok_cap c)))
     (and_then (validate_obo (tok_obo p) (tok_obo c))
     (and_then
       (require_all (\<lambda>x. is_glob_covered_by glob x (cap_paths (tok_cap p))) PathEscalation
          (cap_paths (tok_cap c)))
     (and_then
       (require_all (\<lambda>x. is_glob_covered_by glob x (cap_tools (tok_cap p))) ToolEscalation
          (cap_tools (tok_cap c)))
     (and_then (validate_sandbox (tok_sandbox p) (tok_sandbox c))
       (if tok_parent c \<noteq> None \<and> max_depth = 0 then Inl DepthExceeded else Inr ()))))))))"

definition validate_delegation ::
  "glob_engine \<Rightarrow> capability_payload \<Rightarrow> capability_payload \<Rightarrow> nat \<Rightarrow> capability_error + unit" where
  "validate_delegation glob p c max_depth =
     (case delegation_checks glob p c max_depth of
        Inl e \<Rightarrow> Inl (DelegationViolation e) | Inr _ \<Rightarrow> Inr ())"

definition validate_chain_policy ::
  "actor_chain_entry list \<Rightarrow> nat \<Rightarrow> bool \<Rightarrow> capability_error + unit" where
  "validate_chain_policy chain max_depth require_wimse_root =
     (if length chain > max_depth
      then Inl (DelegationViolation (ChainTooLong (length chain) max_depth))
      else
        (case chain of
           e # _ \<Rightarrow>
             if require_wimse_root \<and> \<not> starts_with (ac_sub e) ''spiffe://''
             then Inl (DelegationViolation (ChainRootNotWimse (ac_sub e))) else Inr ()
         | [] \<Rightarrow> Inr ()))"

definition build_payload ::
  "nat \<Rightarrow> bytes \<Rightarrow> string \<Rightarrow> string \<Rightarrow> capability_set \<Rightarrow> nat \<Rightarrow> nat \<Rightarrow> capability_payload" where
  "build_payload now fresh_nonce issuer subject cs rng ttl_secs =
     \<lparr>tok_v = 1, tok_iss = issuer, tok_sub = subject, tok_cap = cs, tok_ring = rng, tok_iat = now,
      tok_exp = wrap_u64 (now + ttl_secs), tok_nonce = fresh_nonce, tok_parent = None, tok_obo = None,
      tok_sandbox = None, tok_aud = None, tok_act_chain = []\<rparr>"

definition tool_granted :: "glob_engine \<Rightarrow> string list \<Rightarrow> string \<Rightarrow> bool" where
  "tool_granted glob globs tool = list_ex (\<lambda>g. glob_accepts glob g tool \<or> g = tool) globs"

definition build_delegated_payload ::
  "glob_engine \<Rightarrow> nat \<Rightarrow> bytes \<Rightarrow> capability_payload \<Rightarrow> string \<Rightarrow> string list \<Rightarrow> string list
     \<Rightarrow> nat \<Rightarrow> nat \<Rightarrow> capability_error + capability_payload" where
  "build_delegated_payload glob now fresh_nonce p subject requested_ops requested_tools rng
      ttl_secs =
     (if rng < tok_ring p then Inl (DelegationViolation (RingEscalation rng (tok_ring p)))
      else
        (case require_all (\<lambda>op. op \<in> set (cap_operations (tok_cap p))) OperationEscalation
                requested_ops of
           Inl e \<Rightarrow> Inl (DelegationViolation e)
         | Inr _ \<Rightarrow>
             (case require_all (tool_granted glob (cap_tools (tok_cap p))) ToolEscalation
                     requested_tools of
                Inl e \<Rightarrow> Inl (DelegationViolation e)
              | Inr _ \<Rightarrow>
                  Inr \<lparr>tok_v = 1, tok_iss = tok_iss p, tok_sub = subject,
                       tok_cap = \<lparr>cap_paths = cap_paths (tok_cap p), cap_operations = requested_ops,
                              cap_tools = requested_tools, cap_credentials = []\<rparr>,
                       tok_ring = rng, tok_iat = now,
                       tok_exp = min (wrap_u64 (now + ttl_secs)) (tok_exp p),
                       tok_nonce = fresh_nonce, tok_parent = Some (tok_nonce p), tok_obo = tok_obo p,
                       tok_sandbox = tok_sandbox p, tok_aud = tok_aud p,
                       tok_act_chain = tok_act_chain p @
                         [\<lparr>ac_sub = tok_sub p, ac_agent_id = tok_sub p, ac_iat = now,
                           ac_permissions =
                             (case cap_operations (tok_cap p) of [] \<Rightarrow> [] | op # _ \<Rightarrow> op)\<rparr>]\<rparr>)))"

section \<open>Facts\<close>

lemma and_then_Inr [simp]: "and_then a b = Inr () \<longleftrightarrow> a = Inr () \<and> b = Inr ()"
  by (auto simp: and_then_def split: sum.splits)

lemma require_all_Inr [simp]: "require_all ok err xs = Inr () \<longleftrightarrow> (\<forall>x\<in>set xs. ok x)"
  by (auto simp: require_all_def find_None_iff find_Some_iff split: option.splits)

lemma validate_delegation_checks:
  "validate_delegation glob p c d = Inr () \<longleftrightarrow> delegation_checks glob p c d = Inr ()"
  by (auto simp: validate_delegation_def split: sum.splits)

definition obo_kept :: "capability_payload \<Rightarrow> capability_payload \<Rightarrow> bool" where
  "obo_kept p c \<longleftrightarrow>
     (\<forall>co. tok_obo c = Some co \<longrightarrow>
        (\<exists>po. tok_obo p = Some po \<and> obo_sub po = obo_sub co \<and> obo_iss po = obo_iss co))"

lemma validate_obo_iff: "validate_obo (tok_obo p) (tok_obo c) = Inr () \<longleftrightarrow> obo_kept p c"
  by (auto simp: validate_obo_def obo_kept_def split: option.splits if_splits)

text \<open>The order that every accepted delegation respects and that composes.\<close>

definition cap_attenuates :: "capability_payload \<Rightarrow> capability_payload \<Rightarrow> bool" where
  "cap_attenuates p c \<longleftrightarrow>
     tok_ring p \<le> tok_ring c \<and> tok_exp c \<le> tok_exp p \<and>
     set (cap_operations (tok_cap c)) \<subseteq> set (cap_operations (tok_cap p)) \<and>
     set (cap_credentials (tok_cap c)) \<subseteq> set (cap_credentials (tok_cap p)) \<and>
     obo_kept p c \<and> (tok_sandbox p \<noteq> None \<longrightarrow> tok_sandbox c \<noteq> None)"

interpretation cap_order: attenuation cap_attenuates
proof
  fix p c g
  assume pc: "cap_attenuates p c" and cg: "cap_attenuates c g"
  have "obo_kept p g"
    using pc cg unfolding cap_attenuates_def obo_kept_def by metis
  with pc cg show "cap_attenuates p g"
    unfolding cap_attenuates_def by (auto intro: order_trans)
qed

lemma delegation_checks_iff:
  "delegation_checks glob p c d = Inr () \<longleftrightarrow>
     tok_parent c = Some (tok_nonce p) \<and> 0 < d \<and> tok_ring p \<le> tok_ring c \<and> tok_exp c \<le> tok_exp p \<and>
     set (cap_operations (tok_cap c)) \<subseteq> set (cap_operations (tok_cap p)) \<and>
     set (cap_credentials (tok_cap c)) \<subseteq> set (cap_credentials (tok_cap p)) \<and>
     obo_kept p c \<and>
     (\<forall>x\<in>set (cap_paths (tok_cap c)). is_glob_covered_by glob x (cap_paths (tok_cap p))) \<and>
     (\<forall>x\<in>set (cap_tools (tok_cap c)). is_glob_covered_by glob x (cap_tools (tok_cap p))) \<and>
     validate_sandbox (tok_sandbox p) (tok_sandbox c) = Inr ()"
  by (auto simp: delegation_checks_def check_attenuation_def validate_obo_iff split: if_splits)

lemma validate_delegation_attenuates:
  assumes "validate_delegation glob p c d = Inr ()"
  shows "cap_attenuates p c"
  using assms unfolding validate_delegation_checks delegation_checks_iff cap_attenuates_def
  by (auto simp: validate_sandbox_def split: option.splits)

lemma covered_by_self: "x \<in> set ps \<Longrightarrow> is_glob_covered_by glob x ps"
  by (auto simp: is_glob_covered_by_def list_ex_iff covered_by_one_def)

lemma validate_sandbox_self:
  "(\<And>s. x = Some s \<Longrightarrow> hm_wf (sp_rules s)) \<Longrightarrow> validate_sandbox x x = Inr ()"
  by (cases x) (simp_all add: validate_sandbox_def validate_attenuation_refl)

text \<open>
  Path and tool patterns: each pattern of the later token is covered by one of the earlier, which is
  covered by one of the token before it, and so on.
\<close>

definition patterns_linked ::
  "glob_engine \<Rightarrow> (capability_set \<Rightarrow> string list) \<Rightarrow> capability_payload \<Rightarrow> capability_payload \<Rightarrow> bool" where
  "patterns_linked glob patterns p c \<longleftrightarrow>
     (\<forall>x\<in>set (patterns (tok_cap c)). \<exists>y\<in>set (patterns (tok_cap p)). (covered_by_one glob)\<^sup>*\<^sup>* x y)"

interpretation cap_links: attenuation "patterns_linked glob patterns" for glob patterns
proof
  fix p c g
  assume "patterns_linked glob patterns p c" and "patterns_linked glob patterns c g"
  then show "patterns_linked glob patterns p g"
    unfolding patterns_linked_def by (meson rtranclp_trans)
qed

lemma covered_linked:
  "(\<forall>x\<in>set (patterns (tok_cap c)). is_glob_covered_by glob x (patterns (tok_cap p))) \<Longrightarrow>
     patterns_linked glob patterns p c"
  unfolding patterns_linked_def is_glob_covered_by_def list_ex_iff by blast

lemma validate_delegation_links:
  assumes "validate_delegation glob p c d = Inr ()"
  shows "patterns_linked glob cap_paths p c" "patterns_linked glob cap_tools p c"
    "0 < d" "tok_parent c = Some (tok_nonce p)"
  using assms unfolding validate_delegation_checks delegation_checks_iff by (auto intro: covered_linked)

lemma successively_pred:
  assumes "successively R (x # xs)" "\<And>p c. R p c \<Longrightarrow> Q p c" "c \<in> set xs"
  shows "\<exists>p\<in>set (x # xs). Q p c"
  using assms(1,3)
proof (induction xs arbitrary: x)
  case (Cons y ys)
  then show ?case using assms(2) by (cases "c = y") (auto simp: successively_Cons)
qed simp

lemma build_delegated_shape:
  assumes "build_delegated_payload glob now n p who ops tools rng ttl = Inr c"
  shows "tok_parent c = Some (tok_nonce p)" "tok_ring p \<le> tok_ring c" "tok_exp c \<le> tok_exp p"
    "set (cap_operations (tok_cap c)) \<subseteq> set (cap_operations (tok_cap p))" "cap_credentials (tok_cap c) = []"
    "tok_obo c = tok_obo p" "cap_paths (tok_cap c) = cap_paths (tok_cap p)" "tok_sandbox c = tok_sandbox p"
    "cap_tools (tok_cap c) = tools" "\<forall>t\<in>set tools. tool_granted glob (cap_tools (tok_cap p)) t"
    "length (tok_act_chain c) = Suc (length (tok_act_chain p))" "tok_aud c = tok_aud p" "tok_iss c = tok_iss p"
  using assms
  by (auto simp: build_delegated_payload_def split: if_splits sum.splits)

lemma build_delegated_validates:
  assumes built: "build_delegated_payload glob now n p who ops tools rng ttl = Inr c"
    and d: "0 < d" and wf: "\<And>s. tok_sandbox p = Some s \<Longrightarrow> hm_wf (sp_rules s)"
    and star: "\<And>g t. g \<in> set (cap_tools (tok_cap p)) \<Longrightarrow> CHR ''*'' \<notin> set g \<Longrightarrow>
                 glob_accepts glob g t \<Longrightarrow> t = g"
  shows "validate_delegation glob p c d = Inr ()"
proof -
  note s = build_delegated_shape[OF built]
  have "is_glob_covered_by glob t (cap_tools (tok_cap p))" if t: "t \<in> set tools" for t
  proof -
    from t s(10) obtain g where g: "g \<in> set (cap_tools (tok_cap p))" "glob_accepts glob g t \<or> g = t"
      by (auto simp: tool_granted_def list_ex_iff)
    then have "covered_by_one glob t g"
      using star[OF g(1)] by (auto simp: covered_by_one_def)
    with g(1) show ?thesis by (auto simp: is_glob_covered_by_def list_ex_iff)
  qed
  then show ?thesis
    unfolding validate_delegation_checks delegation_checks_iff
    using s d by (simp add: covered_by_self validate_sandbox_self wf obo_kept_def)
qed

lemma split_once_append: "d \<notin> set a \<Longrightarrow> split_once d (a @ d # b) = Some (a, b)"
  by (induction a) auto

lemma splitn3_token:
  assumes "CHR ''.'' \<notin> set a" and "CHR ''.'' \<notin> set b"
  shows "splitn3 (a @ ''.'' @ b @ ''.'' @ c) = [a, b, c]"
  using split_once_append[OF assms(1), of "b @ ''.'' @ c"] split_once_append[OF assms(2), of c]
  by (simp add: splitn3_def)

lemma TOKEN_PREFIX_no_dot: "CHR ''.'' \<notin> set TOKEN_PREFIX"
  by (simp add: TOKEN_PREFIX_def)

text \<open>What an accepted token guarantees.\<close>

lemma decode_accepts:
  assumes "decode_token_with_revocation cd now vf rl token = Inr p"
  shows "\<exists>body sig bs ss. splitn3 token = [TOKEN_PREFIX, body, sig] \<and>
     b64_decode cd body = Some bs \<and> b64_decode cd sig = Some ss \<and> verify vf bs ss \<and>
     cbor_decode cd bs = Some p \<and> now \<le> tok_exp p \<and> tok_v p = 1 \<and>
     (\<forall>r. rl = Some r \<longrightarrow> tok_nonce p \<notin> revoked r)"
  using assms unfolding decode_token_with_revocation_def
  by (auto simp: is_revoked_def split: list.splits option.splits if_splits)

section \<open>Properties\<close>

text \<open>Concrete codec, globs and tokens: one encoding, literal patterns, a chain of three.\<close>

definition literal_glob :: glob_engine where
  "literal_glob p = Some (\<lambda>s. s = p)"

definition sample_token :: "nat \<Rightarrow> nat \<Rightarrow> bytes \<Rightarrow> bytes option \<Rightarrow> string list \<Rightarrow> capability_payload" where
  "sample_token r e n par ops =
     \<lparr>tok_v = 1, tok_iss = ''root'', tok_sub = ''agent'',
      tok_cap = \<lparr>cap_paths = [''/srv/**''], cap_operations = ops, cap_tools = [''file_read''],
                 cap_credentials = []\<rparr>,
      tok_ring = r, tok_iat = 0, tok_exp = e, tok_nonce = n, tok_parent = par, tok_obo = None,
      tok_sandbox = None, tok_aud = None, tok_act_chain = []\<rparr>"

definition sample_root :: capability_payload where
  "sample_root = sample_token 0 100 [1] None [''read'', ''write'']"

definition sample_child :: capability_payload where
  "sample_child = sample_token 1 90 [2] (Some [1]) [''write'', ''read'']"

definition sample_leaf :: capability_payload where
  "sample_leaf = sample_token 3 90 [3] (Some [2]) [''read'']"

lemmas sample_tokens = sample_root_def sample_child_def sample_leaf_def sample_token_def

definition sample_codec :: token_codec where
  "sample_codec = \<lparr>b64_encode = (\<lambda>_. ''AQ''), b64_decode = (\<lambda>_. Some [1]),
     cbor_encode = (\<lambda>_. Some [1]), cbor_decode = (\<lambda>_. Some sample_root)\<rparr>"

text \<open>
  C19: along a chain of delegations each accepted by the validator, every token has a positive depth
  allowance, names the nonce of a token of the chain as its parent, and never has a lower ring
  number, a later expiry, an operation or a credential the root lacks, or an on-behalf-of identity
  other than the root's; it never loses the sandbox profile of the root, and each of its path and
  tool patterns is covered, in one or more steps of the validator's test, by a pattern of the root.
\<close>

theorem delegation_chain_attenuates:
  assumes "successively (\<lambda>p c. validate_delegation glob p c (depth c) = Inr ()) (root # cs)"
    and "c \<in> set cs"
  shows "0 < depth c \<and> (\<exists>p\<in>set (root # cs). tok_parent c = Some (tok_nonce p)) \<and>
     tok_ring root \<le> tok_ring c \<and> tok_exp c \<le> tok_exp root \<and>
     set (cap_operations (tok_cap c)) \<subseteq> set (cap_operations (tok_cap root)) \<and>
     set (cap_credentials (tok_cap c)) \<subseteq> set (cap_credentials (tok_cap root)) \<and>
     obo_kept root c \<and> (tok_sandbox root \<noteq> None \<longrightarrow> tok_sandbox c \<noteq> None) \<and>
     (\<forall>x\<in>set (cap_paths (tok_cap c)). \<exists>y\<in>set (cap_paths (tok_cap root)). (covered_by_one glob)\<^sup>*\<^sup>* x y) \<and>
     (\<forall>x\<in>set (cap_tools (tok_cap c)). \<exists>y\<in>set (cap_tools (tok_cap root)). (covered_by_one glob)\<^sup>*\<^sup>* x y)"
proof -
  have "successively cap_attenuates (root # cs)"
    and links: "successively (patterns_linked glob cap_paths) (root # cs)"
      "successively (patterns_linked glob cap_tools) (root # cs)"
    using assms(1)
    by (auto elim!: successively_mono dest: validate_delegation_attenuates intro: validate_delegation_links)
  then have "cap_attenuates root c" "patterns_linked glob cap_paths root c" "patterns_linked glob cap_tools root c"
    using assms(2) by (auto intro: cap_order.chain_attenuates cap_links.chain_attenuates)
  moreover have "\<exists>p\<in>set (root # cs). 0 < depth c \<and> tok_parent c = Some (tok_nonce p)"
    by (rule successively_pred[OF assms(1) _ assms(2)]) (use validate_delegation_links(3,4) in blast)
  ultimately show ?thesis
    unfolding cap_attenuates_def patterns_linked_def by blast
qed

lemma sample_delegations:
  "validate_delegation literal_glob sample_root sample_child 1 = Inr ()"
  "validate_delegation literal_glob sample_child sample_leaf 1 = Inr ()"
  unfolding validate_delegation_checks delegation_checks_iff
  by (auto simp: sample_tokens obo_kept_def validate_sandbox_def is_glob_covered_by_def covered_by_one_def)

theorem delegation_chain_attenuates_witness:
  "tok_ring sample_root \<le> tok_ring sample_leaf \<and>
     set (cap_operations (tok_cap sample_leaf)) \<subseteq> set (cap_operations (tok_cap sample_root))"
  using delegation_chain_attenuates[of literal_glob "\<lambda>_. 1" sample_root "[sample_child, sample_leaf]" sample_leaf]
    sample_delegations by simp

text \<open>
  C17: a token that the decoder accepts has exactly the three parts of the wire
  format, a signature over the decoded body that verifies under the verifier, the
  supported version, an expiry that has not passed and a nonce that is not revoked.
\<close>

theorem decoded_token_checked:
  assumes "decode_token_with_revocation cd now vf rl token = Inr p"
  shows "\<exists>body sig bs ss. splitn3 token = [TOKEN_PREFIX, body, sig] \<and>
     b64_decode cd body = Some bs \<and> b64_decode cd sig = Some ss \<and> verify vf bs ss \<and>
     cbor_decode cd bs = Some p \<and> now \<le> tok_exp p \<and> tok_v p = 1 \<and>
     pred_option (\<lambda>r. tok_nonce p \<notin> revoked r) rl"
  using decode_accepts[OF assms] by (auto simp: option.pred_set)

theorem decoded_token_checked_witness:
  "\<exists>body sig bs ss. splitn3 ''navra_cap_v1.AQ.AQ'' = [TOKEN_PREFIX, body, sig] \<and>
     b64_decode sample_codec body = Some bs \<and> b64_decode sample_codec sig = Some ss \<and>
     verify sample_signer bs ss \<and> cbor_decode sample_codec bs = Some sample_root \<and>
     50 \<le> tok_exp sample_root \<and> tok_v sample_root = 1 \<and>
     pred_option (\<lambda>r. tok_nonce sample_root \<notin> revoked r) (Some \<lparr>revoked = {[9]}\<rparr>)"
  by (rule decoded_token_checked)
     (simp add: decode_token_with_revocation_def splitn3_def TOKEN_PREFIX_def sample_codec_def
       sample_signer_def sample_tokens is_revoked_def)

text \<open>
  C18: encoding then decoding a token is the identity while it has not expired and
  its nonce is not revoked: for base64 that decodes its own output and yields no
  dot, CBOR that decodes its own output, and a signer whose signatures verify.
\<close>

theorem token_roundtrip:
  assumes "cbor_encode cd p = Some bs" and "cbor_decode cd bs = Some p"
    and "b64_decode cd (b64_encode cd bs) = Some bs"
    and "b64_decode cd (b64_encode cd (sign s bs)) = Some (sign s bs)"
    and "CHR ''.'' \<notin> set (b64_encode cd bs)" and "verify s bs (sign s bs)"
    and "now \<le> tok_exp p" and "tok_v p = 1" and "pred_option (\<lambda>r. tok_nonce p \<notin> revoked r) rl"
  shows "\<exists>token. encode_token cd s p = Inr token \<and>
           decode_token_with_revocation cd now s rl token = Inr p"
  using assms splitn3_token[OF TOKEN_PREFIX_no_dot assms(5), of "b64_encode cd (sign s bs)"]
  by (auto simp: encode_token_def decode_token_with_revocation_def is_revoked_def option.pred_set
      split: option.split)

theorem token_roundtrip_witness:
  "\<exists>token. encode_token sample_codec sample_signer sample_root = Inr token \<and>
     decode_token_with_revocation sample_codec 100 sample_signer None token = Inr sample_root"
  by (rule token_roundtrip[where bs = "[1]"])
     (simp_all add: sample_codec_def sample_signer_def sample_tokens)

text \<open>
  the token that the delegation builder hands out passes the delegation
  validator against its parent, with the parent's expiry, sandbox and identity kept,
  provided the parent's tool patterns without a star match only themselves.
\<close>

theorem built_delegation_validates:
  assumes "build_delegated_payload glob now n p who ops tools rng ttl = Inr c"
    and "0 < d" and "\<And>s. tok_sandbox p = Some s \<Longrightarrow> hm_wf (sp_rules s)"
    and "\<And>g t. g \<in> set (cap_tools (tok_cap p)) \<Longrightarrow> CHR ''*'' \<notin> set g \<Longrightarrow>
           glob_accepts glob g t \<Longrightarrow> t = g"
  shows "validate_delegation glob p c d = Inr () \<and> tok_exp c \<le> tok_exp p \<and>
     tok_sandbox c = tok_sandbox p \<and> tok_obo c = tok_obo p \<and>
     length (tok_act_chain c) = Suc (length (tok_act_chain p))"
  using build_delegated_validates[OF assms(1,2)] assms(3,4) build_delegated_shape[OF assms(1)] by blast

theorem built_delegation_validates_witness:
  "\<exists>c. build_delegated_payload literal_glob 10 [7] sample_root ''helper'' [''read''] [''file_read''] 2 500
         = Inr c \<and>
     validate_delegation literal_glob sample_root c 1 = Inr ()"
proof -
  obtain c where c: "build_delegated_payload literal_glob 10 [7] sample_root ''helper'' [''read'']
      [''file_read''] 2 500 = Inr c"
    by (auto simp: build_delegated_payload_def require_all_def sample_tokens tool_granted_def)
  show ?thesis
    using built_delegation_validates[OF c, of 1] c
    by (auto simp: sample_tokens literal_glob_def glob_accepts_def)
qed

end
