(* ===== verification/Authn.thy ===== *)
theory Authn
  imports Capability
begin

text \<open>
  Authentication of \<open>navra-auth/src/auth/mod.rs\<close> and
  \<open>navra-auth/src/auth/chain.rs\<close>: agent identities, the call context, the
  BLAKE3 bearer-token table, the capability-token back end with its nonce
  cache, and the chain that tries back ends in order.  Headers are a map from
  names to values that are either visible ASCII text or opaque bytes; the hash
  function is an argument.
\<close>

record 'w agent_identity =
  ai_name :: string
  ai_permissions :: string
  ai_signing_key :: "string option"
  ai_did :: "string option"
  ai_capabilities :: "resolved_capabilities option"
  ai_model :: "string option"
  ai_allowed_upstreams :: "string list"
  ai_max_concurrent :: "nat option"
  ai_max_context :: "nat option"
  ai_wimse :: "'w option"

definition agent_identity_new :: "string \<Rightarrow> string \<Rightarrow> 'w agent_identity" where
  "agent_identity_new name permissions =
     \<lparr>ai_name = name, ai_permissions = permissions, ai_signing_key = None, ai_did = None,
      ai_capabilities = None, ai_model = None, ai_allowed_upstreams = [],
      ai_max_concurrent = None, ai_max_context = None, ai_wimse = None\<rparr>"

text \<open>The hand-written \<open>PartialEq\<close> and \<open>Display\<close>.\<close>

definition agent_identity_eq :: "'w agent_identity \<Rightarrow> 'w agent_identity \<Rightarrow> bool" where
  "agent_identity_eq a b \<longleftrightarrow> ai_name a = ai_name b \<and> ai_permissions a = ai_permissions b"

definition agent_identity_display :: "'w agent_identity \<Rightarrow> string" where
  "agent_identity_display a = ai_name a @ ''('' @ ai_permissions a @ '')''"

record 'w call_context =
  cc_agent :: "'w agent_identity"
  cc_session_id :: string
  cc_taint :: taint_tracker
  cc_remaining_tokens :: "nat option"
  cc_sandbox :: "sandbox_profile option"

definition call_context_new :: "'w agent_identity \<Rightarrow> string \<Rightarrow> 'w call_context" where
  "call_context_new agent session =
     \<lparr>cc_agent = agent, cc_session_id = session, cc_taint = new_tracker,
      cc_remaining_tokens = None, cc_sandbox = None\<rparr>"

datatype auth_error = MissingToken | InvalidToken | AgentNotFound string

datatype header_value = Text string | Opaque

type_synonym header_map = "string \<Rightarrow> header_value option"

section \<open>Bearer tokens\<close>

record 'w token_authenticator =
  ta_agents :: "(string, 'w agent_identity) hmap"

definition token_authenticator_new :: "'w token_authenticator" where
  "token_authenticator_new = \<lparr>ta_agents = []\<rparr>"

definition register_hash ::
  "string \<Rightarrow> 'w agent_identity \<Rightarrow> 'w token_authenticator \<Rightarrow> 'w token_authenticator" where
  "register_hash hash identity ta = ta\<lparr>ta_agents := hm_insert hash identity (ta_agents ta)\<rparr>"

definition register_token ::
  "(string \<Rightarrow> string) \<Rightarrow> string \<Rightarrow> 'w agent_identity \<Rightarrow> 'w token_authenticator
     \<Rightarrow> 'w token_authenticator" where
  "register_token hash_token token identity ta = register_hash (hash_token token) identity ta"

definition header_token :: "header_map \<Rightarrow> auth_error + string" where
  "header_token headers =
     (case headers ''authorization'' of
        Some (Text val) \<Rightarrow>
          (case strip_prefix val ''Bearer '' of Some t \<Rightarrow> Inr t | None \<Rightarrow> Inl InvalidToken)
      | Some Opaque \<Rightarrow> Inl InvalidToken
      | None \<Rightarrow>
          (case headers ''x-api-key'' of
             Some (Text t) \<Rightarrow> Inr t
           | Some Opaque \<Rightarrow> Inl InvalidToken
           | None \<Rightarrow> Inl MissingToken))"

text \<open>The scan visits every entry and keeps the last match.\<close>

fun scan_agents ::
  "string \<Rightarrow> (string \<times> 'w agent_identity) list \<Rightarrow> 'w agent_identity option
     \<Rightarrow> 'w agent_identity option" where
  "scan_agents hash [] found = found"
| "scan_agents hash ((stored, identity) # rest) found =
     scan_agents hash rest (if stored = hash then Some identity else found)"

definition token_authenticate ::
  "(string \<Rightarrow> string) \<Rightarrow> 'w token_authenticator \<Rightarrow> header_map \<Rightarrow> auth_error + 'w agent_identity"
where
  "token_authenticate hash_token ta headers =
     (case header_token headers of
        Inl e \<Rightarrow> Inl e
      | Inr token \<Rightarrow>
          (case scan_agents (hash_token token) (ta_agents ta) None of
             Some identity \<Rightarrow> Inr identity
           | None \<Rightarrow> Inl InvalidToken))"

definition no_authenticate :: "'w agent_identity \<Rightarrow> header_map \<Rightarrow> auth_error + 'w agent_identity" where
  "no_authenticate default_identity headers = Inr default_identity"

section \<open>Capability tokens\<close>

record cap_authenticator =
  ca_root_verifier :: cap_signer
  ca_agent_verifiers :: "(string, cap_signer) hmap"
  ca_seen_nonces :: "(bytes, int) hmap"
  ca_nonce_cache_ttl :: nat
  ca_default_permission_set :: string

definition cap_with_nonce_ttl :: "cap_signer \<Rightarrow> nat \<Rightarrow> cap_authenticator" where
  "cap_with_nonce_ttl root ttl =
     \<lparr>ca_root_verifier = root, ca_agent_verifiers = [], ca_seen_nonces = [],
      ca_nonce_cache_ttl = ttl, ca_default_permission_set = ''dev''\<rparr>"

definition cap_authenticator_new :: "cap_signer \<Rightarrow> cap_authenticator" where
  "cap_authenticator_new root = cap_with_nonce_ttl root 7200"

definition with_permission_set :: "string \<Rightarrow> cap_authenticator \<Rightarrow> cap_authenticator" where
  "with_permission_set ps ca = ca\<lparr>ca_default_permission_set := ps\<rparr>"

definition register_agent_verifier ::
  "string \<Rightarrow> cap_signer \<Rightarrow> cap_authenticator \<Rightarrow> cap_authenticator" where
  "register_agent_verifier agent_did ver ca =
     ca\<lparr>ca_agent_verifiers := hm_insert agent_did ver (ca_agent_verifiers ca)\<rparr>"

text \<open>Prune the cache, then record the first sighting of a nonce.\<close>

definition note_nonce :: "int \<Rightarrow> bytes \<Rightarrow> cap_authenticator \<Rightarrow> cap_authenticator" where
  "note_nonce instant n ca =
     (let cutoff = instant - int (ca_nonce_cache_ttl ca);
          kept = hm_retain (\<lambda>_ seen_at. seen_at > cutoff) (ca_seen_nonces ca)
      in ca\<lparr>ca_seen_nonces :=
              (case hm_get kept n of None \<Rightarrow> hm_insert n instant kept | Some _ \<Rightarrow> kept)\<rparr>)"

definition cap_authenticate ::
  "token_codec \<Rightarrow> nat \<Rightarrow> int \<Rightarrow> header_map \<Rightarrow> cap_authenticator
     \<Rightarrow> cap_authenticator \<times> (auth_error + 'w agent_identity)" where
  "cap_authenticate cd now instant headers ca =
     (case headers ''authorization'' of
        None \<Rightarrow> (ca, Inl MissingToken)
      | Some Opaque \<Rightarrow> (ca, Inl InvalidToken)
      | Some (Text val) \<Rightarrow>
          (case strip_prefix val ''Bearer '' of
             None \<Rightarrow> (ca, Inl InvalidToken)
           | Some token \<Rightarrow>
               if \<not> starts_with token ''navra_cap_v1.'' then (ca, Inl InvalidToken)
               else
                 (case decode_token cd now (ca_root_verifier ca) token of
                    Inl _ \<Rightarrow> (ca, Inl InvalidToken)
                  | Inr payload \<Rightarrow>
                      (note_nonce instant (tok_nonce payload) ca,
                       Inr \<lparr>ai_name = tok_sub payload,
                            ai_permissions = ca_default_permission_set ca,
                            ai_signing_key = None, ai_did = Some (tok_sub payload),
                            ai_capabilities = Some (resolve_capabilities payload),
                            ai_model = None, ai_allowed_upstreams = [],
                            ai_max_concurrent = None, ai_max_context = None,
                            ai_wimse = None\<rparr>))))"

section \<open>Chains\<close>

type_synonym 'w authenticator = "header_map \<Rightarrow> auth_error + 'w agent_identity"

text \<open>The loop keeps the last error; an empty chain reports a missing token.\<close>

fun chain_loop ::
  "'w authenticator list \<Rightarrow> auth_error \<Rightarrow> header_map \<Rightarrow> auth_error + 'w agent_identity" where
  "chain_loop [] last_err headers = Inl last_err"
| "chain_loop (a # rest) last_err headers =
     (case a headers of Inr identity \<Rightarrow> Inr identity | Inl e \<Rightarrow> chain_loop rest e headers)"

definition chain_authenticate ::
  "'w authenticator list \<Rightarrow> header_map \<Rightarrow> auth_error + 'w agent_identity" where
  "chain_authenticate authenticators headers = chain_loop authenticators MissingToken headers"

section \<open>Facts\<close>

lemma scan_agents_wf:
  "hm_wf m \<Longrightarrow> scan_agents hash m found =
     (case hm_get m hash of Some i \<Rightarrow> Some i | None \<Rightarrow> found)"
proof (induction hash m found rule: scan_agents.induct)
  case (2 hash stored identity rest found)
  then have "hm_wf rest" "stored \<notin> fst ` set rest" by (auto simp: hm_wf_def)
  then have "hm_get rest stored = None" by (simp add: map_of_eq_None_iff)
  with 2 \<open>hm_wf rest\<close> show ?case by (auto split: option.splits)
qed simp

lemma token_authenticate_lookup:
  "hm_wf (ta_agents ta) \<Longrightarrow> token_authenticate hash_token ta headers =
     (case header_token headers of
        Inl e \<Rightarrow> Inl e
      | Inr token \<Rightarrow>
          (case hm_get (ta_agents ta) (hash_token token) of
             Some i \<Rightarrow> Inr i | None \<Rightarrow> Inl InvalidToken))"
  unfolding token_authenticate_def
  by (auto simp: scan_agents_wf split: sum.splits option.splits)

lemma chain_loop_Inr:
  "chain_loop as e headers = Inr i \<longleftrightarrow>
     (\<exists>pre a post. as = pre @ a # post \<and> a headers = Inr i \<and>
        (\<forall>b\<in>set pre. \<exists>e'. b headers = Inl e'))"
proof (induction as arbitrary: e)
  case (Cons a as)
  show ?case
  proof (cases "a headers")
    case (Inl e')
    then have "chain_loop (a # as) e headers = Inr i \<longleftrightarrow> chain_loop as e' headers = Inr i"
      by simp
    also have "\<dots> \<longleftrightarrow> (\<exists>pre b post. as = pre @ b # post \<and> b headers = Inr i \<and>
        (\<forall>b\<in>set pre. \<exists>e'. b headers = Inl e'))" by (rule Cons)
    also have "\<dots> \<longleftrightarrow> (\<exists>pre b post. a # as = pre @ b # post \<and> b headers = Inr i \<and>
        (\<forall>b\<in>set pre. \<exists>e'. b headers = Inl e'))"
      using Inl by (auto simp: Cons_eq_append_conv) (metis Inl set_ConsD)+
    finally show ?thesis .
  next
    case (Inr j)
    then show ?thesis by (auto simp: Cons_eq_append_conv) force+
  qed
qed simp

lemma chain_loop_Inl:
  "chain_loop as e headers = Inl err \<Longrightarrow> \<forall>a\<in>set as. \<exists>e'. a headers = Inl e'"
  by (induction as arbitrary: e) (auto split: sum.splits)

lemma note_nonce_seen:
  "hm_wf (ca_seen_nonces ca) \<Longrightarrow> hm_get (ca_seen_nonces (note_nonce t n ca)) n \<noteq> None"
  by (auto simp: note_nonce_def Let_def split: option.splits)

lemma note_nonce_wf:
  "hm_wf (ca_seen_nonces ca) \<Longrightarrow> hm_wf (ca_seen_nonces (note_nonce t n ca))"
  by (simp add: note_nonce_def Let_def split: option.splits)

lemma cap_authenticate_Inr:
  assumes "cap_authenticate cd now t headers ca = (ca', Inr i)"
  shows "\<exists>token p. headers ''authorization'' = Some (Text (''Bearer '' @ token)) \<and>
     decode_token cd now (ca_root_verifier ca) token = Inr p \<and>
     ai_name i = tok_sub p \<and> ai_capabilities i = Some (resolve_capabilities p) \<and>
     ai_permissions i = ca_default_permission_set ca \<and>
     ca' = note_nonce t (tok_nonce p) ca"
  using assms unfolding cap_authenticate_def
  by (auto simp: strip_prefix_Some split: option.splits header_value.splits sum.splits if_splits)

section \<open>Properties\<close>

text \<open>
  C20: an identity from the capability back end is backed by a bearer token whose
  signature verifies under the root verifier, that has not expired and is of the
  supported version; the identity is the token's subject with exactly the token's
  capabilities, and the token's nonce is in the cache afterwards.
\<close>

theorem capability_identity_backed:
  assumes "cap_authenticate cd now t headers ca = (ca', Inr i)" and "hm_wf (ca_seen_nonces ca)"
  shows "\<exists>token p bs ss. headers ''authorization'' = Some (Text (''Bearer '' @ token)) \<and>
     verify (ca_root_verifier ca) bs ss \<and> cbor_decode cd bs = Some p \<and> now \<le> tok_exp p \<and>
     tok_v p = 1 \<and> ai_name i = tok_sub p \<and> ai_capabilities i = Some (resolve_capabilities p) \<and>
     hm_get (ca_seen_nonces ca') (tok_nonce p) \<noteq> None"
proof -
  obtain token p where p: "headers ''authorization'' = Some (Text (''Bearer '' @ token))"
    "decode_token cd now (ca_root_verifier ca) token = Inr p"
    "ai_name i = tok_sub p" "ai_capabilities i = Some (resolve_capabilities p)"
    "ca' = note_nonce t (tok_nonce p) ca"
    using cap_authenticate_Inr[OF assms(1)] by blast
  obtain bs ss where "verify (ca_root_verifier ca) bs ss" "cbor_decode cd bs = Some p"
    "now \<le> tok_exp p" "tok_v p = 1"
    using decode_accepts[OF p(2)[unfolded decode_token_def]] by blast
  then show ?thesis using p note_nonce_seen[OF assms(2)] by blast
qed

definition sample_headers :: header_map where
  "sample_headers = [''authorization'' \<mapsto> Text ''Bearer navra_cap_v1.AQ.AQ'']"

lemma sample_authenticated:
  "\<exists>ca' (i :: unit agent_identity).
     cap_authenticate sample_codec 50 7 sample_headers (cap_authenticator_new sample_signer) = (ca', Inr i)"
  by (simp add: cap_authenticate_def sample_headers_def strip_prefix_def starts_with_def
      decode_token_def decode_token_with_revocation_def splitn3_def TOKEN_PREFIX_def sample_codec_def
      sample_signer_def sample_tokens cap_authenticator_new_def cap_with_nonce_ttl_def)

theorem capability_identity_backed_witness:
  "\<exists>token p bs ss. sample_headers ''authorization'' = Some (Text (''Bearer '' @ token)) \<and>
     verify sample_signer bs ss \<and> cbor_decode sample_codec bs = Some p \<and> 50 \<le> tok_exp p"
proof -
  obtain ca' and i :: "unit agent_identity" where
    a: "cap_authenticate sample_codec 50 7 sample_headers (cap_authenticator_new sample_signer) = (ca', Inr i)"
    using sample_authenticated by blast
  have "hm_wf (ca_seen_nonces (cap_authenticator_new sample_signer))"
    "ca_root_verifier (cap_authenticator_new sample_signer) = sample_signer"
    by (simp_all add: cap_authenticator_new_def cap_with_nonce_ttl_def)
  with capability_identity_backed[OF a] show ?thesis by metis
qed

text \<open>
  the chain of back ends returns the identity of the first back end that
  accepts, all earlier ones having refused; it refuses exactly when all refuse, with
  the last one's error, and an empty chain reports a missing token.
\<close>

theorem chain_first_success:
  "(chain_authenticate as headers = Inr i \<longleftrightarrow>
      (\<exists>pre a post. as = pre @ a # post \<and> a headers = Inr i \<and> list_all (\<lambda>b. isl (b headers)) pre)) \<and>
   (chain_authenticate as headers = Inl e \<longleftrightarrow>
      list_all (\<lambda>b. isl (b headers)) as \<and>
      e = (if as = [] then MissingToken else projl (last as headers)))"
proof
  show "chain_authenticate as headers = Inr i \<longleftrightarrow>
      (\<exists>pre a post. as = pre @ a # post \<and> a headers = Inr i \<and> list_all (\<lambda>b. isl (b headers)) pre)"
    by (simp add: chain_authenticate_def chain_loop_Inr list_all_iff isl_def)
  have "chain_loop as d headers = Inl e \<longleftrightarrow>
      list_all (\<lambda>b. isl (b headers)) as \<and> e = (if as = [] then d else projl (last as headers))" for d
    by (induction as arbitrary: d) (auto split: sum.splits)
  then show "chain_authenticate as headers = Inl e \<longleftrightarrow>
      list_all (\<lambda>b. isl (b headers)) as \<and>
      e = (if as = [] then MissingToken else projl (last as headers))"
    by (simp add: chain_authenticate_def)
qed

text \<open>
  a bearer token is accepted exactly when its hash was registered, and then as
  the identity of the latest registration of that hash.
\<close>

theorem bearer_token_registered:
  "token_authenticate hash_token (fold (\<lambda>(h, i). register_hash h i) regs token_authenticator_new) headers =
     (case header_token headers of
        Inl e \<Rightarrow> Inl e
      | Inr token \<Rightarrow>
          (case map_of (rev regs) (hash_token token) of Some i \<Rightarrow> Inr i | None \<Rightarrow> Inl InvalidToken))"
proof -
  let ?ta = "\<lambda>regs. fold (\<lambda>(h, i). register_hash h i) regs token_authenticator_new"
  have wf: "hm_wf (ta_agents (?ta regs)) \<and> hm_get (ta_agents (?ta regs)) = map_of (rev regs)"
  proof (induction regs rule: rev_induct)
    case Nil
    show ?case by (simp add: token_authenticator_new_def)
  next
    case (snoc r regs)
    then show ?case by (cases r) (auto simp: register_hash_def fun_eq_iff)
  qed
  then have look: "hm_get (ta_agents (?ta regs)) h = map_of (rev regs) h" for h by simp
  show ?thesis
    by (subst token_authenticate_lookup) (use wf look in \<open>auto split: sum.splits\<close>)
qed

end
