(* ===== verification/PathAcl.thy ===== *)
theory PathAcl
  imports Capability "HOL-Library.Multiset"
begin

text \<open>
  The path permission engine of \<open>navra-auth/src/permissions/acl.rs\<close>: path ACLs
  in named permission sets, ring inheritance, and the checks of an operation on
  a path, with the capability-token fallback.  The list order of
  \<open>permission_sets\<close> is the iteration order of the hash map.
\<close>

record path_acl =
  acl_ring :: "nat option"
  acl_allow :: "string list"
  acl_deny :: "string list"
  acl_operations :: "string set"
  acl_requires_approval :: "string set"

datatype permission_result =
    Allowed
  | NeedsApproval
  | DeniedPath
  | DeniedOperation
  | DeniedUnknown

record permission_engine =
  permission_sets :: "(string, path_acl) hmap"

definition engine_new :: permission_engine where
  "engine_new = \<lparr>permission_sets = []\<rparr>"

definition add_permission_set :: "string \<Rightarrow> path_acl \<Rightarrow> permission_engine \<Rightarrow> permission_engine" where
  "add_permission_set name acl e = e\<lparr>permission_sets := hm_insert name acl (permission_sets e)\<rparr>"

section \<open>Ring inheritance\<close>

definition ringed :: "(string, path_acl) hmap \<Rightarrow> (nat \<times> string) list" where
  "ringed sets =
     List.map_filter (\<lambda>(name, acl). map_option (\<lambda>r. (r, name)) (acl_ring acl)) sets"

record inherit_state =
  is_sets :: "(string, path_acl) hmap"
  is_deny :: "string list"
  is_approval :: "string set"
  is_ops :: "string set option"

definition push_missing :: "string list \<Rightarrow> string list \<Rightarrow> string list" where
  "push_missing ds own = fold (\<lambda>d own. if d \<in> set own then own else own @ [d]) ds own"

text \<open>One iteration of the loop over the sorted permission sets.\<close>

definition inherit_step :: "string \<Rightarrow> inherit_state \<Rightarrow> inherit_state" where
  "inherit_step name st =
     (case hm_get (is_sets st) name of
        None \<Rightarrow> st
      | Some acl \<Rightarrow>
          (let (acl', ops') =
             (case is_ops st of
                None \<Rightarrow> (acl, acl_operations acl)
              | Some prev_ops \<Rightarrow>
                  (let intersected = acl_operations acl \<inter> prev_ops
                   in (acl\<lparr>acl_deny := push_missing (is_deny st) (acl_deny acl),
                           acl_requires_approval := acl_requires_approval acl \<union> is_approval st,
                           acl_operations := intersected\<rparr>, intersected)))
           in \<lparr>is_sets = hm_insert name acl' (is_sets st),
               is_deny = is_deny st @ acl_deny acl',
               is_approval = is_approval st \<union> acl_requires_approval acl',
               is_ops = Some ops'\<rparr>))"

definition apply_ring_inheritance :: "permission_engine \<Rightarrow> permission_engine" where
  "apply_ring_inheritance e =
     (let sorted = sort_key fst (ringed (permission_sets e))
      in e\<lparr>permission_sets :=
             is_sets (fold inherit_step (map snd sorted)
               \<lparr>is_sets = permission_sets e, is_deny = [], is_approval = {}, is_ops = None\<rparr>)\<rparr>)"

section \<open>Checks\<close>

definition has_operation :: "permission_engine \<Rightarrow> string \<Rightarrow> string \<Rightarrow> bool" where
  "has_operation e permission_set operation =
     (case hm_get (permission_sets e) permission_set of
        Some acl \<Rightarrow> operation \<in> acl_operations acl | None \<Rightarrow> False)"

definition pattern_covers :: "glob_engine \<Rightarrow> string option \<Rightarrow> string \<Rightarrow> string \<Rightarrow> bool" where
  "pattern_covers glob home path pat \<longleftrightarrow>
     glob_matches glob (expand_tilde home pat) (normalize_path path)"

definition check_acl ::
  "glob_engine \<Rightarrow> string option \<Rightarrow> path_acl \<Rightarrow> string \<Rightarrow> string \<Rightarrow> permission_result" where
  "check_acl glob home acl operation path =
     (if operation \<notin> acl_operations acl then DeniedOperation
      else if list_ex (pattern_covers glob home path) (acl_deny acl) then DeniedPath
      else if \<not> list_ex (pattern_covers glob home path) (acl_allow acl) then DeniedPath
      else if operation \<in> acl_requires_approval acl then NeedsApproval
      else Allowed)"

definition check ::
  "glob_engine \<Rightarrow> string option \<Rightarrow> permission_engine \<Rightarrow> string \<Rightarrow> string \<Rightarrow> string
     \<Rightarrow> permission_result" where
  "check glob home e permission_set operation path =
     (case hm_get (permission_sets e) permission_set of
        None \<Rightarrow> DeniedUnknown
      | Some acl \<Rightarrow>
          if operation \<notin> acl_operations acl then DeniedOperation
          else if list_ex (pattern_covers glob home path) (acl_deny acl) then DeniedPath
          else if \<not> list_ex (pattern_covers glob home path) (acl_allow acl) then DeniedPath
          else if operation \<in> acl_requires_approval acl then NeedsApproval
          else Allowed)"

definition check_with_capabilities ::
  "glob_engine \<Rightarrow> string option \<Rightarrow> permission_engine \<Rightarrow> string \<Rightarrow> string \<Rightarrow> string
     \<Rightarrow> resolved_capabilities option \<Rightarrow> permission_result" where
  "check_with_capabilities glob home e permission_set operation path capabilities =
     (if hm_get (permission_sets e) permission_set \<noteq> None
      then check glob home e permission_set operation path
      else
        (case capabilities of
           None \<Rightarrow> DeniedUnknown
         | Some caps \<Rightarrow>
             if operation \<notin> rc_operations caps then DeniedOperation
             else if (case hm_get (permission_sets e) ''default'' of
                        Some default_acl \<Rightarrow>
                          list_ex (pattern_covers glob home path) (acl_deny default_acl)
                      | None \<Rightarrow> False) then DeniedPath
             else if list_ex (pattern_covers glob home path) (rc_paths caps) then Allowed
             else DeniedPath))"

definition deny_wins_eval :: "bool \<Rightarrow> bool \<Rightarrow> bool \<Rightarrow> permission_result" where
  "deny_wins_eval deny_matched allow_matched needs_approval =
     (if deny_matched then DeniedPath
      else if \<not> allow_matched then DeniedPath
      else if needs_approval then NeedsApproval
      else Allowed)"

section \<open>Facts about the checks\<close>

lemma check_via_acl:
  "check glob home e ps op path =
     (case hm_get (permission_sets e) ps of
        None \<Rightarrow> DeniedUnknown | Some acl \<Rightarrow> check_acl glob home acl op path)"
  by (simp add: check_def check_acl_def split: option.split)

lemma check_acl_deny_wins_eval:
  "op \<in> acl_operations acl \<Longrightarrow> check_acl glob home acl op path =
     deny_wins_eval (list_ex (pattern_covers glob home path) (acl_deny acl))
       (list_ex (pattern_covers glob home path) (acl_allow acl)) (op \<in> acl_requires_approval acl)"
  by (simp add: check_acl_def deny_wins_eval_def)

text \<open>An answer that lets the operation proceed, at once or after approval.\<close>

definition permits :: "permission_result \<Rightarrow> bool" where
  "permits r \<longleftrightarrow> r = Allowed \<or> r = NeedsApproval"

lemma check_acl_permits:
  "permits (check_acl glob home acl op path) \<longleftrightarrow>
     op \<in> acl_operations acl \<and>
     (\<forall>d\<in>set (acl_deny acl). \<not> pattern_covers glob home path d) \<and>
     (\<exists>a\<in>set (acl_allow acl). pattern_covers glob home path a)"
  by (auto simp: check_acl_def permits_def list_ex_iff)

lemma check_acl_Allowed:
  "check_acl glob home acl op path = Allowed \<longleftrightarrow>
     permits (check_acl glob home acl op path) \<and> op \<notin> acl_requires_approval acl"
  by (auto simp: check_acl_def permits_def)

definition add_deny_rule :: "string \<Rightarrow> path_acl \<Rightarrow> path_acl" where
  "add_deny_rule d acl = acl\<lparr>acl_deny := acl_deny acl @ [d]\<rparr>"

interpretation acl_deny: deny_wins add_deny_rule
  "\<lambda>d (op, path). pattern_covers glob home path d"
  "\<lambda>acl (op, path). permits (check_acl glob home acl op path)"
  for glob home
  by unfold_locales (auto simp: check_acl_permits add_deny_rule_def)

text \<open>One ACL is at most as generous as another.\<close>

definition acl_narrower :: "path_acl \<Rightarrow> path_acl \<Rightarrow> bool" where
  "acl_narrower n w \<longleftrightarrow>
     acl_operations n \<subseteq> acl_operations w \<and> set (acl_deny w) \<subseteq> set (acl_deny n) \<and>
     acl_requires_approval w \<subseteq> acl_requires_approval n \<and> acl_allow n = acl_allow w \<and>
     acl_ring n = acl_ring w"

lemma acl_narrower_refl [simp]: "acl_narrower a a"
  by (simp add: acl_narrower_def)

lemma acl_narrower_permits:
  "acl_narrower n w \<Longrightarrow> permits (check_acl glob home n op path) \<Longrightarrow>
     permits (check_acl glob home w op path)"
  by (auto simp: acl_narrower_def check_acl_permits)

lemma acl_narrower_Allowed:
  "acl_narrower n w \<Longrightarrow> check_acl glob home n op path = Allowed \<Longrightarrow>
     check_acl glob home w op path = Allowed"
  using acl_narrower_permits by (fastforce simp: check_acl_Allowed acl_narrower_def)

section \<open>Facts about ring inheritance\<close>

lemma set_push_missing [simp]: "set (push_missing ds own) = set own \<union> set ds"
  unfolding push_missing_def by (induction ds arbitrary: own) auto

lemma mem_ringed: "(r, name) \<in> set (ringed sets) \<longleftrightarrow> (\<exists>acl. (name, acl) \<in> set sets \<and> acl_ring acl = Some r)"
  by (force simp: ringed_def List.map_filter_def)

lemma distinct_ringed: "hm_wf sets \<Longrightarrow> distinct (map snd (ringed sets))"
proof (induction sets)
  case (Cons p sets)
  obtain n a where p: "p = (n, a)" by (cases p)
  from Cons.prems p have "n \<notin> fst ` set sets" "hm_wf sets" by (auto simp: hm_wf_def)
  then have "n \<notin> snd ` set (ringed sets)" by (force simp: mem_ringed)
  with Cons.IH[OF \<open>hm_wf sets\<close>] p show ?case
    by (cases "acl_ring a") (auto simp: ringed_def List.map_filter_simps)
qed (simp add: ringed_def List.map_filter_simps)

lemma distinct_sorted_ringed:
  assumes "hm_wf sets"
  shows "distinct (map snd (sort_key fst (ringed sets)))"
proof -
  have "mset (map snd (sort_key fst (ringed sets))) = mset (map snd (ringed sets))"
    unfolding mset_map by simp
  then show ?thesis using distinct_ringed[OF assms] mset_eq_imp_distinct_iff by blast
qed

text \<open>
  What the loop maintains: the accumulators dominate every set processed so far,
  sets not yet processed are untouched, no set has become wider, and of two
  processed sets the later is narrower.
\<close>

definition ring_dominates :: "(string, path_acl) hmap \<Rightarrow> string \<Rightarrow> string \<Rightarrow> bool" where
  "ring_dominates sets m n \<longleftrightarrow>
     (\<forall>am an. hm_get sets m = Some am \<longrightarrow> hm_get sets n = Some an \<longrightarrow>
        set (acl_deny am) \<subseteq> set (acl_deny an) \<and>
        acl_requires_approval am \<subseteq> acl_requires_approval an \<and>
        acl_operations an \<subseteq> acl_operations am)"

definition accumulated :: "inherit_state \<Rightarrow> path_acl \<Rightarrow> bool" where
  "accumulated st a \<longleftrightarrow>
     set (acl_deny a) \<subseteq> set (is_deny st) \<and> acl_requires_approval a \<subseteq> is_approval st \<and>
     (\<exists>ops. is_ops st = Some ops \<and> ops \<subseteq> acl_operations a)"

definition only_narrowed :: "(string, path_acl) hmap \<Rightarrow> (string, path_acl) hmap \<Rightarrow> bool" where
  "only_narrowed sets sets' \<longleftrightarrow>
     (\<forall>n. case hm_get sets n of
        None \<Rightarrow> hm_get sets' n = None
      | Some a \<Rightarrow> \<exists>a'. hm_get sets' n = Some a' \<and> acl_narrower a' a)"

definition inherit_inv ::
  "(string, path_acl) hmap \<Rightarrow> string list \<Rightarrow> inherit_state \<Rightarrow> bool" where
  "inherit_inv sets processed st \<longleftrightarrow>
     (\<forall>n. n \<notin> set processed \<longrightarrow> hm_get (is_sets st) n = hm_get sets n) \<and>
     only_narrowed sets (is_sets st) \<and>
     (\<forall>n\<in>set processed. \<forall>a. hm_get (is_sets st) n = Some a \<longrightarrow> accumulated st a) \<and>
     sorted_wrt (ring_dominates (is_sets st)) processed \<and>
     (is_ops st = None \<longrightarrow> processed = [])"

lemma only_narrowed_insert:
  "only_narrowed sets sets' \<Longrightarrow> hm_get sets n = Some a \<Longrightarrow> acl_narrower a' a \<Longrightarrow>
     only_narrowed sets (hm_insert n a' sets')"
  unfolding only_narrowed_def
proof
  fix m
  assume nar: "\<forall>n. case hm_get sets n of None \<Rightarrow> hm_get sets' n = None
      | Some a \<Rightarrow> \<exists>a'. hm_get sets' n = Some a' \<and> acl_narrower a' a"
    and a: "hm_get sets n = Some a" "acl_narrower a' a"
  from spec[OF nar, of m] a show "case hm_get sets m of
      None \<Rightarrow> hm_get (hm_insert n a' sets') m = None
    | Some a \<Rightarrow> \<exists>a''. hm_get (hm_insert n a' sets') m = Some a'' \<and> acl_narrower a'' a"
    by (cases "m = n") (simp_all split: option.splits)
qed

lemma inherit_step_first:
  "hm_get (is_sets st) name = Some acl \<Longrightarrow> is_ops st = None \<Longrightarrow>
     inherit_step name st =
       \<lparr>is_sets = hm_insert name acl (is_sets st), is_deny = is_deny st @ acl_deny acl,
        is_approval = is_approval st \<union> acl_requires_approval acl,
        is_ops = Some (acl_operations acl)\<rparr>"
  by (simp add: inherit_step_def)

text \<open>The permission set a later ring ends up with.\<close>

definition inherited :: "inherit_state \<Rightarrow> string set \<Rightarrow> path_acl \<Rightarrow> path_acl" where
  "inherited st prev acl =
     acl\<lparr>acl_deny := push_missing (is_deny st) (acl_deny acl),
         acl_requires_approval := acl_requires_approval acl \<union> is_approval st,
         acl_operations := acl_operations acl \<inter> prev\<rparr>"

lemma inherit_step_later:
  "hm_get (is_sets st) name = Some acl \<Longrightarrow> is_ops st = Some prev \<Longrightarrow>
     inherit_step name st =
       \<lparr>is_sets = hm_insert name (inherited st prev acl) (is_sets st),
        is_deny = is_deny st @ acl_deny (inherited st prev acl),
        is_approval = is_approval st \<union> acl_requires_approval (inherited st prev acl),
        is_ops = Some (acl_operations acl \<inter> prev)\<rparr>"
  by (simp add: inherit_step_def inherited_def Let_def)

lemma inherited_facts [simp]:
  "acl_narrower (inherited st prev acl) acl"
  "set (acl_deny (inherited st prev acl)) = set (acl_deny acl) \<union> set (is_deny st)"
  "acl_requires_approval (inherited st prev acl) = acl_requires_approval acl \<union> is_approval st"
  "acl_operations (inherited st prev acl) = acl_operations acl \<inter> prev"
  by (auto simp: inherited_def acl_narrower_def)

lemma accumulated_inherited:
  "accumulated st a \<Longrightarrow> is_ops st = Some prev \<Longrightarrow> 
     set (acl_deny a) \<subseteq> set (acl_deny (inherited st prev acl)) \<and>
     acl_requires_approval a \<subseteq> acl_requires_approval (inherited st prev acl) \<and>
     acl_operations (inherited st prev acl) \<subseteq> acl_operations a"
  by (auto simp: accumulated_def)

lemma ring_dominates_insert_other:
  "m \<noteq> name \<Longrightarrow> n \<noteq> name \<Longrightarrow>
     ring_dominates (hm_insert name a sets) m n \<longleftrightarrow> ring_dominates sets m n"
  by (simp add: ring_dominates_def)

lemma inherit_step_inv:
  assumes inv: "inherit_inv sets processed st"
    and new: "name \<notin> set processed" and acl: "hm_get sets name = Some acl"
  shows "inherit_inv sets (processed @ [name]) (inherit_step name st)"
proof -
  have cur: "hm_get (is_sets st) name = Some acl"
    using inv new acl by (simp add: inherit_inv_def)
  have nar: "only_narrowed sets (is_sets st)" using inv by (simp add: inherit_inv_def)
  show ?thesis
  proof (cases "is_ops st")
    case None
    then have "processed = []" using inv by (simp add: inherit_inv_def)
    moreover have "only_narrowed sets (hm_insert name acl (is_sets st))"
      using only_narrowed_insert[OF nar acl] by simp
    ultimately show ?thesis
      using inv by (simp add: inherit_inv_def inherit_step_first[OF cur None] accumulated_def)
  next
    case (Some prev)
    let ?acl = "inherited st prev acl"
    have acc: "accumulated st a" if "n \<in> set processed" "hm_get (is_sets st) n = Some a" for n a
      using inv that by (simp add: inherit_inv_def)
    have dom: "ring_dominates (hm_insert name ?acl (is_sets st)) m name"
      if "m \<in> set processed" for m
      using accumulated_inherited[OF acc[OF that] Some] that new
      by (auto simp: ring_dominates_def)
    have "sorted_wrt (ring_dominates (is_sets st)) processed"
      using inv by (simp add: inherit_inv_def)
    then have "sorted_wrt (ring_dominates (hm_insert name ?acl (is_sets st))) processed"
      by (rule sorted_wrt_mono_rel[rotated])
         (metis new ring_dominates_insert_other)
    with dom have "sorted_wrt (ring_dominates (hm_insert name ?acl (is_sets st)))
        (processed @ [name])" by (simp add: sorted_wrt_append)
    moreover have "accumulated (inherit_step name st) a"
      if "n \<in> set (processed @ [name])" "hm_get (hm_insert name ?acl (is_sets st)) n = Some a" for n a
      using that acc[of n a] Some
      by (auto simp: accumulated_def inherit_step_later[OF cur Some] split: if_splits)
    ultimately show ?thesis
      using inv only_narrowed_insert[OF nar acl]
      unfolding inherit_inv_def by (simp add: inherit_step_later[OF cur Some])
  qed
qed

lemma inherit_fold_inv:
  assumes "inherit_inv sets processed st" and "distinct (processed @ names)"
    and "\<forall>n\<in>set names. hm_get sets n \<noteq> None"
  shows "inherit_inv sets (processed @ names) (fold inherit_step names st)"
  using assms
proof (induction names arbitrary: processed st)
  case (Cons n names)
  then obtain acl where "hm_get sets n = Some acl" by auto
  with Cons.prems have "inherit_inv sets (processed @ [n]) (inherit_step n st)"
    by (intro inherit_step_inv) auto
  from Cons.IH[OF this] Cons.prems show ?case by simp
qed simp

lemma apply_ring_inheritance_inv:
  assumes "hm_wf (permission_sets e)"
  defines "names \<equiv> map snd (sort_key fst (ringed (permission_sets e)))"
  shows "\<exists>st. permission_sets (apply_ring_inheritance e) = is_sets st \<and>
           inherit_inv (permission_sets e) names st"
proof -
  let ?st = "\<lparr>is_sets = permission_sets e, is_deny = [], is_approval = {}, is_ops = None\<rparr>"
  have "\<forall>n\<in>set names. hm_get (permission_sets e) n \<noteq> None"
  proof
    fix n assume "n \<in> set names"
    then obtain r where "(r, n) \<in> set (ringed (permission_sets e))" by (auto simp: names_def)
    then obtain acl where "(n, acl) \<in> set (permission_sets e)" by (auto simp: mem_ringed)
    then have "n \<in> fst ` set (permission_sets e)" by (rule image_eqI[rotated]) simp
    then show "hm_get (permission_sets e) n \<noteq> None" by (simp only: map_of_eq_None_iff) simp
  qed
  moreover have "inherit_inv (permission_sets e) [] ?st"
    by (simp add: inherit_inv_def only_narrowed_def split: option.split)
  ultimately have "inherit_inv (permission_sets e) names (fold inherit_step names ?st)"
    using inherit_fold_inv[of "permission_sets e" "[]"] distinct_sorted_ringed[OF assms(1)]
    by (simp add: names_def)
  then show ?thesis by (auto simp: apply_ring_inheritance_def names_def Let_def)
qed

lemma ring_inheritance_narrows:
  assumes "hm_wf (permission_sets e)"
  shows "case hm_get (permission_sets e) n of
       None \<Rightarrow> hm_get (permission_sets (apply_ring_inheritance e)) n = None
     | Some acl \<Rightarrow> \<exists>acl'. hm_get (permission_sets (apply_ring_inheritance e)) n = Some acl' \<and>
                   acl_narrower acl' acl"
proof -
  obtain st :: inherit_state where st: "permission_sets (apply_ring_inheritance e) = is_sets st"
    and nar: "only_narrowed (permission_sets e) (is_sets st)"
    using apply_ring_inheritance_inv[OF assms] unfolding inherit_inv_def by metis
  from nar show ?thesis unfolding st only_narrowed_def by blast
qed

lemma ring_inheritance_orders:
  assumes wf: "hm_wf (permission_sets e)"
    and m: "hm_get (permission_sets e) m = Some am" "acl_ring am = Some rm"
    and n: "hm_get (permission_sets e) n = Some an" "acl_ring an = Some rn"
    and "rm < rn"
    and m': "hm_get (permission_sets (apply_ring_inheritance e)) m = Some am'"
    and n': "hm_get (permission_sets (apply_ring_inheritance e)) n = Some an'"
  shows "set (acl_deny am') \<subseteq> set (acl_deny an')"
    and "acl_requires_approval am' \<subseteq> acl_requires_approval an'"
    and "acl_operations an' \<subseteq> acl_operations am'"
proof -
  let ?s = "sort_key fst (ringed (permission_sets e))"
  obtain st where st: "permission_sets (apply_ring_inheritance e) = is_sets st"
    and inv: "inherit_inv (permission_sets e) (map snd ?s) st"
    using apply_ring_inheritance_inv[OF wf] by blast
  have "(rm, m) \<in> set ?s" "(rn, n) \<in> set ?s"
    using m n by (auto simp: mem_ringed dest: map_of_SomeD)
  then obtain i j where ij: "i < length ?s" "?s ! i = (rm, m)" "j < length ?s" "?s ! j = (rn, n)"
    by (meson in_set_conv_nth)
  have "i < j"
  proof (rule ccontr)
    assume "\<not> i < j"
    then have "map fst ?s ! j \<le> map fst ?s ! i"
      using ij by (intro sorted_nth_mono) auto
    with ij \<open>rm < rn\<close> show False by simp
  qed
  have "sorted_wrt (ring_dominates (is_sets st)) (map snd ?s)"
    using inv by (simp add: inherit_inv_def)
  then have "ring_dominates (is_sets st) (map snd ?s ! i) (map snd ?s ! j)"
    using \<open>i < j\<close> ij by (intro sorted_wrt_nth_less) auto
  then have "ring_dominates (is_sets st) m n" using ij by simp
  with m' n' st show "set (acl_deny am') \<subseteq> set (acl_deny an')"
    "acl_requires_approval am' \<subseteq> acl_requires_approval an'"
    "acl_operations an' \<subseteq> acl_operations am'" by (auto simp: ring_dominates_def)
qed

section \<open>Properties\<close>

definition sample_engine :: permission_engine where
  "sample_engine = \<lparr>permission_sets =
     [(''guest'', \<lparr>acl_ring = Some 2, acl_allow = [''/srv/**''], acl_deny = [],
                   acl_operations = {''read'', ''list''}, acl_requires_approval = {}\<rparr>),
      (''admin'', \<lparr>acl_ring = Some 0, acl_allow = [''/srv/**'', ''/etc/**''], acl_deny = [''/srv/keys''],
                   acl_operations = {''read'', ''write''}, acl_requires_approval = {''write''}\<rparr>)]\<rparr>"

text \<open>
  ring inheritance only takes rights away: what a permission set may do after
  it, at once or after approval, it could do before, and what needs no approval
  after it needed none before.
\<close>

theorem ring_inheritance_only_narrows:
  assumes "hm_wf (permission_sets e)"
    and "permits (check glob home (apply_ring_inheritance e) ps op path)"
  shows "permits (check glob home e ps op path) \<and>
     (check glob home (apply_ring_inheritance e) ps op path = Allowed \<longrightarrow>
        check glob home e ps op path = Allowed)"
  using ring_inheritance_narrows[OF assms(1), of ps] assms(2) acl_narrower_permits acl_narrower_Allowed
  by (fastforce simp: check_via_acl permits_def split: option.splits)

lemma sample_inherited:
  "permission_sets (apply_ring_inheritance sample_engine) =
     [(''guest'', \<lparr>acl_ring = Some 2, acl_allow = [''/srv/**''], acl_deny = [''/srv/keys''],
                   acl_operations = {''read''}, acl_requires_approval = {''write''}\<rparr>),
      (''admin'', \<lparr>acl_ring = Some 0, acl_allow = [''/srv/**'', ''/etc/**''], acl_deny = [''/srv/keys''],
                   acl_operations = {''read'', ''write''}, acl_requires_approval = {''write''}\<rparr>)]"
  by (auto simp: sample_engine_def apply_ring_inheritance_def ringed_def List.map_filter_def Let_def
      inherit_step_def push_missing_def)

lemma sample_wf: "hm_wf (permission_sets sample_engine)"
  by (simp add: hm_wf_def sample_engine_def)

lemma sample_check:
  "check literal_glob None (apply_ring_inheritance sample_engine) ''guest'' ''read'' ''/srv'' = Allowed"
  by (simp add: check_def sample_inherited pattern_covers_def glob_matches_def glob_accepts_def
      literal_glob_def expand_tilde_def strip_suffix_def ends_with_def normalize_path_def
      normalize_components_def components_def collect_path_def path_push_def)

theorem ring_inheritance_only_narrows_witness:
  "check literal_glob None sample_engine ''guest'' ''read'' ''/srv'' = Allowed"
  using ring_inheritance_only_narrows[OF sample_wf, of literal_glob None "''guest''" "''read''" "''/srv''"]
    sample_check by (simp add: permits_def)

text \<open>
  C15: after ring inheritance privilege follows the rings, up to the allow patterns, which are not
  inherited: if a permission set of a higher ring number may perform an operation on a path, then
  each permission set of a lower ring number has the operation and no deny rule that covers the
  path, so it may perform the operation exactly when one of its own allow patterns covers the path,
  and then needs no approval the set of the higher ring number does not need.
\<close>

theorem ring_inheritance_orders_privilege:
  assumes "hm_wf (permission_sets e)"
    and "hm_get (permission_sets e) m = Some am" and "acl_ring am = Some rm"
    and "hm_get (permission_sets e) n = Some an" and "acl_ring an = Some rn" and "rm < rn"
    and "permits (check glob home (apply_ring_inheritance e) n op path)"
  shows "(\<exists>am'. hm_get (permission_sets (apply_ring_inheritance e)) m = Some am' \<and>
       op \<in> acl_operations am' \<and> \<not> list_ex (pattern_covers glob home path) (acl_deny am')) \<and>
     (permits (check glob home (apply_ring_inheritance e) m op path) \<longleftrightarrow>
       list_ex (pattern_covers glob home path) (acl_allow am)) \<and>
     (check glob home (apply_ring_inheritance e) m op path = NeedsApproval \<longrightarrow>
       check glob home (apply_ring_inheritance e) n op path = NeedsApproval)"
proof -
  obtain an' where n': "hm_get (permission_sets (apply_ring_inheritance e)) n = Some an'"
    and p: "permits (check_acl glob home an' op path)"
    using assms(7) by (auto simp: check_via_acl permits_def split: option.splits)
  obtain am' where m': "hm_get (permission_sets (apply_ring_inheritance e)) m = Some am'"
    and narrower: "acl_narrower am' am"
    using ring_inheritance_narrows[OF assms(1), of m] assms(2) by auto
  note rings = ring_inheritance_orders[OF assms(1-6) m' n']
  have op: "op \<in> acl_operations am'" and deny: "\<forall>d\<in>set (acl_deny am'). \<not> pattern_covers glob home path d"
    using rings p by (auto simp: check_acl_permits)
  have "permits (check_acl glob home am' op path) \<longleftrightarrow> list_ex (pattern_covers glob home path) (acl_allow am)"
    using op deny narrower by (auto simp: check_acl_permits acl_narrower_def list_ex_iff)
  moreover have "check_acl glob home an' op path = NeedsApproval"
    if "check_acl glob home am' op path = NeedsApproval"
    using that p rings(2) by (auto simp: check_acl_def permits_def split: if_splits)
  ultimately show ?thesis
    using op deny by (simp add: check_via_acl m' n' list_ex_iff)
qed

theorem ring_inheritance_orders_privilege_witness:
  "permits (check literal_glob None (apply_ring_inheritance sample_engine) ''admin'' ''read'' ''/srv'') \<longleftrightarrow>
     list_ex (pattern_covers literal_glob None ''/srv'') [''/srv/**'', ''/etc/**'']"
proof -
  let ?admin = "\<lparr>acl_ring = Some 0, acl_allow = [''/srv/**'', ''/etc/**''], acl_deny = [''/srv/keys''],
                 acl_operations = {''read'', ''write''}, acl_requires_approval = {''write''}\<rparr>"
  have "permits (check literal_glob None (apply_ring_inheritance sample_engine) ''guest'' ''read'' ''/srv'')"
    by (simp add: sample_check permits_def)
  then show ?thesis
    using ring_inheritance_orders_privilege[OF sample_wf, of "''admin''" ?admin 0 "''guest''"]
    by (simp add: sample_engine_def)
qed

text \<open>
  a path check lets an operation proceed exactly when the permission set exists,
  has the operation, no deny rule and some allow rule covers the normalised path;
  it asks for approval exactly when the operation is listed; extra deny rules remove
  exactly the paths they cover, and the way the path is spelled does not matter.
\<close>

theorem check_characterised:
  "(permits (check glob home e ps op path) \<longleftrightarrow>
      (\<exists>acl. hm_get (permission_sets e) ps = Some acl \<and> op \<in> acl_operations acl \<and>
         \<not> list_ex (pattern_covers glob home path) (acl_deny acl) \<and>
         list_ex (pattern_covers glob home path) (acl_allow acl))) \<and>
   (permits (check_acl glob home (fold add_deny_rule ds acl) op path) \<longleftrightarrow>
      permits (check_acl glob home acl op path) \<and> \<not> list_ex (pattern_covers glob home path) ds) \<and>
   check glob home e ps op (normalize_path path) = check glob home e ps op path"
proof (intro conjI)
  show "permits (check glob home e ps op path) \<longleftrightarrow>
      (\<exists>acl. hm_get (permission_sets e) ps = Some acl \<and> op \<in> acl_operations acl \<and>
         \<not> list_ex (pattern_covers glob home path) (acl_deny acl) \<and>
         list_ex (pattern_covers glob home path) (acl_allow acl))"
    by (cases "hm_get (permission_sets e) ps")
       (auto simp: check_via_acl check_acl_permits list_ex_iff, simp_all add: permits_def)
  show "permits (check_acl glob home (fold add_deny_rule ds acl) op path) \<longleftrightarrow>
      permits (check_acl glob home acl op path) \<and> \<not> list_ex (pattern_covers glob home path) ds"
    using acl_deny.add_denies[of glob home ds acl "(op, path)"] by (simp add: list_ex_iff)
  have "pattern_covers glob home (normalize_path path) = pattern_covers glob home path"
    by (intro ext) (simp add: pattern_covers_def normalize_path_idem)
  then show "check glob home e ps op (normalize_path path) = check glob home e ps op path"
    unfolding check_def by (simp split: option.split)
qed

text \<open>
  a capability token opens paths only to agents without a configured permission
  set, and even then never an operation it does not name, never a path the default
  set denies, and never a path outside its own globs.
\<close>

theorem capability_fallback_exact:
  "check_with_capabilities glob home e ps op path caps = Allowed \<longleftrightarrow>
     (case hm_get (permission_sets e) ps of
        Some acl \<Rightarrow> check_acl glob home acl op path = Allowed
      | None \<Rightarrow>
          (\<exists>c. caps = Some c \<and> op \<in> rc_operations c \<and>
             list_ex (pattern_covers glob home path) (rc_paths c) \<and>
             (case hm_get (permission_sets e) ''default'' of
                Some d \<Rightarrow> \<not> list_ex (pattern_covers glob home path) (acl_deny d)
              | None \<Rightarrow> True)))"
  by (cases "hm_get (permission_sets e) ps"; cases caps)
     (auto simp: check_with_capabilities_def check_via_acl split: option.splits)

end
