(* ===== verification/ToolAccess.thy ===== *)
theory ToolAccess
  imports Paths Taint
begin

text \<open>
  Access to tools: the semantic classification of
  \<open>navra-auth/src/permissions/resource_class.rs\<close>, the per-domain rules of
  \<open>domain_rules.rs\<close>, the per-tool glob rules of \<open>tool_rules.rs\<close> and the
  disclosure filter of \<open>disclosure.rs\<close>.  Lower-casing is byte-wise on ASCII,
  which is what the keyword tables compare against.
\<close>

section \<open>Resource classes\<close>

datatype tool_domain =
    Filesystem | Git | Shell | Network | Github | Gitlab | Database | System | Messaging
  | Prompt | Resource | Unknown

datatype tool_operation = Read | Write | Execute | Delete

fun domain_display :: "tool_domain \<Rightarrow> string" where
  "domain_display Filesystem = ''filesystem''"
| "domain_display Git = ''git''"
| "domain_display Shell = ''shell''"
| "domain_display Network = ''network''"
| "domain_display Github = ''github''"
| "domain_display Gitlab = ''gitlab''"
| "domain_display Database = ''database''"
| "domain_display System = ''system''"
| "domain_display Messaging = ''messaging''"
| "domain_display Prompt = ''prompt''"
| "domain_display Resource = ''resource''"
| "domain_display Unknown = ''unknown''"

datatype class_parse_error = UnknownDomain string | UnknownOperation string | NoColon string

definition domain_from_str :: "string \<Rightarrow> class_parse_error + tool_domain" where
  "domain_from_str s =
     (let l = to_lowercase s in
      if l \<in> set [''filesystem'', ''file'', ''fs''] then Inr Filesystem
      else if l = ''git'' then Inr Git
      else if l \<in> set [''shell'', ''exec''] then Inr Shell
      else if l \<in> set [''network'', ''net'', ''http''] then Inr Network
      else if l \<in> set [''github'', ''gh''] then Inr Github
      else if l \<in> set [''gitlab'', ''gl''] then Inr Gitlab
      else if l \<in> set [''database'', ''db'', ''sql''] then Inr Database
      else if l \<in> set [''system'', ''sys''] then Inr System
      else if l \<in> set [''messaging'', ''msg'', ''email'', ''chat''] then Inr Messaging
      else if l = ''prompt'' then Inr Prompt
      else if l = ''resource'' then Inr Resource
      else if l \<in> set [''unknown'', ''*''] then Inr Unknown
      else Inl (UnknownDomain l))"

fun operation_display :: "tool_operation \<Rightarrow> string" where
  "operation_display Read = ''read''"
| "operation_display Write = ''write''"
| "operation_display Execute = ''execute''"
| "operation_display Delete = ''delete''"

definition operation_from_str :: "string \<Rightarrow> class_parse_error + tool_operation" where
  "operation_from_str s =
     (let l = to_lowercase s in
      if l \<in> set [''read'', ''r''] then Inr Read
      else if l \<in> set [''write'', ''w''] then Inr Write
      else if l \<in> set [''execute'', ''exec'', ''x''] then Inr Execute
      else if l \<in> set [''delete'', ''del'', ''remove''] then Inr Delete
      else Inl (UnknownOperation l))"

record resource_class =
  rc_domain :: tool_domain
  rc_operation :: tool_operation

definition resource_class_display :: "resource_class \<Rightarrow> string" where
  "resource_class_display c =
     domain_display (rc_domain c) @ '':'' @ operation_display (rc_operation c)"

definition resource_class_from_str :: "string \<Rightarrow> class_parse_error + resource_class" where
  "resource_class_from_str s =
     (case split_once (CHR '':'') s of
        None \<Rightarrow> Inl (NoColon s)
      | Some (domain_str, op_str) \<Rightarrow>
          (case domain_from_str domain_str of
             Inl e \<Rightarrow> Inl e
           | Inr d \<Rightarrow>
               (case operation_from_str op_str of
                  Inl e \<Rightarrow> Inl e
                | Inr o' \<Rightarrow> Inr \<lparr>rc_domain = d, rc_operation = o'\<rparr>)))"

definition classify_prompt :: resource_class where
  "classify_prompt = \<lparr>rc_domain = Prompt, rc_operation = Read\<rparr>"

definition classify_resource :: resource_class where
  "classify_resource = \<lparr>rc_domain = Resource, rc_operation = Read\<rparr>"

definition prefix_domain :: "string \<Rightarrow> tool_domain option" where
  "prefix_domain pre =
     (if pre \<in> set [''file'', ''docs''] then Some Filesystem
      else if pre = ''git'' then Some Git
      else if pre = ''shell'' then Some Shell
      else if pre = ''github'' then Some Github
      else if pre = ''gitlab'' then Some Gitlab
      else if pre \<in> set [''db'', ''sql'', ''database''] then Some Database
      else if pre \<in> set [''env'', ''process'', ''system'', ''sysinfo''] then Some System
      else if pre \<in> set [''email'', ''slack'', ''teams'', ''chat'', ''notify''] then Some Messaging
      else if pre \<in> set [''http'', ''fetch'', ''curl'', ''net'', ''web''] then Some Network
      else None)"

definition keyword_domain :: "string \<Rightarrow> tool_domain" where
  "keyword_domain lower =
     (if has_any lower [''file'', ''director'', ''path'', ''folder'', ''mv'', ''cp'', ''mkdir'',
            ''chmod'', ''zip'', ''unzip'', ''archive''] then Filesystem
      else if has_any lower [''commit'', ''branch'', ''merge'', ''rebase'', ''stash'', ''cherry'']
        then Git
      else if has_any lower [''exec'', ''spawn'', ''bash'', ''cmd'', ''terminal'', ''subprocess'']
        then Shell
      else if has_any lower [''pull_request'', ''pr_'', ''issue'', ''repo'', ''gist''] \<and>
        has_any lower [''github'', ''gh''] then Github
      else if has_any lower [''merge_request'', ''mr_'', ''pipeline''] \<and>
        has_any lower [''gitlab'', ''gl''] then Gitlab
      else if has_any lower [''query'', ''sql'', ''table'', ''schema'', ''database'', ''collection'']
        then Database
      else if has_any lower [''email'', ''mail'', ''slack'', ''message'', ''notify'', ''sms'']
        then Messaging
      else if has_any lower [''http'', ''fetch'', ''url'', ''download'', ''upload'', ''request'',
            ''curl'', ''api''] then Network
      else if has_any lower [''process'', ''env'', ''system'', ''hostname'', ''uptime'', ''memory'',
            ''cpu''] then System
      else Unknown)"

definition infer_domain_heuristic :: "string \<Rightarrow> tool_domain" where
  "infer_domain_heuristic name =
     (let lower = to_lowercase name in
      case prefix_domain (hd (split_on (CHR ''_'') lower)) of
        Some d \<Rightarrow> d
      | None \<Rightarrow> keyword_domain lower)"

definition keyword_operation :: "string \<Rightarrow> tool_operation" where
  "keyword_operation lower =
     (if has_any lower [''delete'', ''remove'', ''drop'', ''purge'', ''destroy'', ''unlink'',
            ''rmdir''] then Delete
      else if has_any lower [''exec'', ''run'', ''spawn'', ''execute'', ''invoke'', ''call'',
            ''push''] then Execute
      else if has_any lower [''write'', ''create'', ''update'', ''edit'', ''send'', ''post'',
            ''put'', ''set'', ''add'', ''insert'', ''commit'', ''move'', ''rename'', ''copy'',
            ''zip'', ''upload''] then Write
      else if has_any lower [''read'', ''get'', ''list'', ''search'', ''query'', ''view'',
            ''show'', ''fetch'', ''status'', ''diff'', ''log'', ''describe'', ''info'', ''stat'',
            ''find'', ''browse'', ''download''] then Read
      else Read)"

definition infer_operation_heuristic :: "string \<Rightarrow> tool_annotations option \<Rightarrow> tool_operation" where
  "infer_operation_heuristic name annotations =
     (let by_name = keyword_operation (to_lowercase name) in
      case annotations of
        Some ann \<Rightarrow>
          if read_only_hint ann = Some True then Read
          else if destructive_hint ann = Some True then Delete
          else by_name
      | None \<Rightarrow> by_name)"

definition classify_tool_heuristic ::
  "string \<Rightarrow> tool_annotations option \<Rightarrow> resource_class" where
  "classify_tool_heuristic name annotations =
     \<lparr>rc_domain = infer_domain_heuristic name,
      rc_operation = infer_operation_heuristic name annotations\<rparr>"

section \<open>Domain rules\<close>

datatype domain_policy = DomainAllow | DomainDeny

record domain_rules =
  dr_rules :: "tool_domain \<rightharpoonup> tool_operation set"

definition domain_check :: "domain_rules \<Rightarrow> resource_class \<Rightarrow> domain_policy" where
  "domain_check dr class =
     (case dr_rules dr (rc_domain class) of
        Some ops \<Rightarrow> if rc_operation class \<in> ops then DomainAllow else DomainDeny
      | None \<Rightarrow>
          (case dr_rules dr Unknown of
             Some ops \<Rightarrow> if rc_operation class \<in> ops then DomainAllow else DomainDeny
           | None \<Rightarrow> DomainDeny))"

section \<open>Tool rules\<close>

datatype tool_policy = ToolAllow | ToolDeny | ToolApprove

record tool_rule =
  tr_tool :: string
  tr_policy :: tool_policy

record tool_permissions =
  tp_rules :: "tool_rule list"
  tp_default_policy :: tool_policy

fun tool_loop ::
  "glob_engine \<Rightarrow> tool_rule list \<Rightarrow> string \<Rightarrow> tool_policy \<Rightarrow> bool \<Rightarrow> bool \<Rightarrow> tool_policy" where
  "tool_loop glob [] tool_name dflt has_allow has_approve =
     (if has_allow then ToolAllow else if has_approve then ToolApprove else dflt)"
| "tool_loop glob (rule # rules) tool_name dflt has_allow has_approve =
     (if \<not> glob_accepts glob (tr_tool rule) tool_name
      then tool_loop glob rules tool_name dflt has_allow has_approve
      else
        (case tr_policy rule of
           ToolDeny \<Rightarrow> ToolDeny
         | ToolAllow \<Rightarrow> tool_loop glob rules tool_name dflt True has_approve
         | ToolApprove \<Rightarrow> tool_loop glob rules tool_name dflt has_allow True))"

definition tool_check :: "glob_engine \<Rightarrow> tool_permissions \<Rightarrow> string \<Rightarrow> tool_policy" where
  "tool_check glob tp tool_name =
     tool_loop glob (tp_rules tp) tool_name (tp_default_policy tp) False False"

section \<open>Disclosure\<close>

record tool_disclosure =
  td_include :: "string list"
  td_exclude :: "string list"

definition is_visible :: "glob_engine \<Rightarrow> tool_disclosure \<Rightarrow> string \<Rightarrow> bool" where
  "is_visible glob td tool_name =
     (if td_include td \<noteq> [] \<and> \<not> list_ex (\<lambda>pat. glob_accepts glob pat tool_name) (td_include td)
      then False
      else \<not> list_ex (\<lambda>pat. glob_accepts glob pat tool_name) (td_exclude td))"

definition disclosure_filter ::
  "glob_engine \<Rightarrow> ('d \<Rightarrow> string) \<Rightarrow> tool_disclosure \<Rightarrow> 'd list \<Rightarrow> 'd list" where
  "disclosure_filter glob name_of td tools =
     (if td_include td = [] \<and> td_exclude td = [] then tools
      else filter (\<lambda>t. is_visible glob td (name_of t)) tools)"

section \<open>Facts\<close>

definition matching_policies :: "glob_engine \<Rightarrow> tool_rule list \<Rightarrow> string \<Rightarrow> tool_policy set" where
  "matching_policies glob rules t = tr_policy ` {r \<in> set rules. glob_accepts glob (tr_tool r) t}"

lemma matching_policies_simps [simp]:
  "matching_policies glob [] t = {}"
  "matching_policies glob (r # rs) t =
     (if glob_accepts glob (tr_tool r) t then insert (tr_policy r) (matching_policies glob rs t)
      else matching_policies glob rs t)"
  by (auto simp: matching_policies_def)

lemma tool_loop_spec:
  "tool_loop glob rules t d al ap =
     (if ToolDeny \<in> matching_policies glob rules t then ToolDeny
      else if al \<or> ToolAllow \<in> matching_policies glob rules t then ToolAllow
      else if ap \<or> ToolApprove \<in> matching_policies glob rules t then ToolApprove
      else d)"
proof (induction rules arbitrary: al ap)
  case Nil
  then show ?case by simp
next
  case (Cons r rs)
  then show ?case by (cases "tr_policy r") simp_all
qed

lemma tool_check_spec:
  "tool_check glob tp t =
     (if ToolDeny \<in> matching_policies glob (tp_rules tp) t then ToolDeny
      else if ToolAllow \<in> matching_policies glob (tp_rules tp) t then ToolAllow
      else if ToolApprove \<in> matching_policies glob (tp_rules tp) t then ToolApprove
      else tp_default_policy tp)"
  by (simp add: tool_check_def tool_loop_spec)

definition add_tool_deny :: "string \<Rightarrow> tool_permissions \<Rightarrow> tool_permissions" where
  "add_tool_deny pat tp = tp\<lparr>tp_rules := tp_rules tp @ [\<lparr>tr_tool = pat, tr_policy = ToolDeny\<rparr>]\<rparr>"

lemma matching_policies_append:
  "matching_policies glob (as @ bs) t = matching_policies glob as t \<union> matching_policies glob bs t"
  by (auto simp: matching_policies_def)

interpretation tool_deny: deny_wins add_tool_deny "glob_accepts glob"
  "\<lambda>tp t. tool_check glob tp t \<noteq> ToolDeny" for glob
  by unfold_locales
     (auto simp: tool_check_spec add_tool_deny_def matching_policies_append Let_def)

definition add_exclude :: "string \<Rightarrow> tool_disclosure \<Rightarrow> tool_disclosure" where
  "add_exclude pat td = td\<lparr>td_exclude := td_exclude td @ [pat]\<rparr>"

interpretation disclosure_hide: deny_wins add_exclude "glob_accepts glob" "is_visible glob" for glob
  by unfold_locales (auto simp: is_visible_def add_exclude_def)

lemma disclosure_filter_spec:
  "disclosure_filter glob name_of td tools = filter (\<lambda>t. is_visible glob td (name_of t)) tools"
  by (simp add: disclosure_filter_def is_visible_def)

lemma domain_roundtrip: "domain_from_str (domain_display d) = Inr d"
  by (cases d) (simp_all add: domain_from_str_def to_lowercase_def char_lower_def Let_def)

lemma operation_roundtrip: "operation_from_str (operation_display d) = Inr d"
  by (cases d) (simp_all add: operation_from_str_def to_lowercase_def char_lower_def Let_def)

lemma domain_display_no_colon: "CHR '':'' \<notin> set (domain_display d)"
  by (cases d) simp_all

lemma split_once_at: "d \<notin> set a \<Longrightarrow> split_once d (a @ d # b) = Some (a, b)"
  by (induction a) auto

lemma resource_class_roundtrip:
  "resource_class_from_str (resource_class_display c) = Inr c"
  using split_once_at[OF domain_display_no_colon, of "rc_domain c" "operation_display (rc_operation c)"]
  by (simp add: resource_class_from_str_def resource_class_display_def domain_roundtrip
      operation_roundtrip)

section \<open>Properties\<close>

text \<open>
  the per-tool policy depends only on which rules match, not on their order: a
  matching deny rule wins over everything, then a matching allow rule, then a
  matching approval rule, and only without any match the default applies.
\<close>

theorem tool_policy_order_free:
  "tool_check glob tp t =
     (if \<exists>r\<in>set (tp_rules tp). glob_accepts glob (tr_tool r) t \<and> tr_policy r = ToolDeny then ToolDeny
      else if \<exists>r\<in>set (tp_rules tp). glob_accepts glob (tr_tool r) t \<and> tr_policy r = ToolAllow then ToolAllow
      else if \<exists>r\<in>set (tp_rules tp). glob_accepts glob (tr_tool r) t \<and> tr_policy r = ToolApprove
      then ToolApprove else tp_default_policy tp)"
proof -
  have "P \<in> matching_policies glob (tp_rules tp) t \<longleftrightarrow>
      (\<exists>r\<in>set (tp_rules tp). glob_accepts glob (tr_tool r) t \<and> tr_policy r = P)" for P
    by (auto simp: matching_policies_def)
  then show ?thesis by (simp only: tool_check_spec)
qed

text \<open>
  the textual form of a resource class parses back to the class, for every
  domain and every operation.
\<close>

theorem resource_class_parse_print:
  "resource_class_from_str (resource_class_display c) = Inr c"
  by (rule resource_class_roundtrip)

end
