(* ===== verification/RiskRings.thy ===== *)
theory RiskRings
  imports Interfaces
begin

text \<open>
  Graduated trust: the risk tiers of \<open>navra-auth/src/permissions/risk_tier.rs\<close>,
  the decaying trust score of \<open>navra-auth/src/trust_score.rs\<close> and the execution
  rings of \<open>navra-auth/src/execution_ring.rs\<close>.  Scores are \<open>i64\<close>: the
  saturating operations are \<open>sat_i64\<close>, the unchecked ones of the release
  build are \<open>wrap_i64\<close>.
\<close>

section \<open>Risk tiers\<close>

datatype risk_tier = AutoApprove | RequireApproval | HardGate

datatype risk_level = RiskNone | RiskLow | RiskMedium | RiskHigh | RiskCritical

fun risk_rank :: "risk_level \<Rightarrow> nat" where
  "risk_rank RiskNone = 0"
| "risk_rank RiskLow = 1"
| "risk_rank RiskMedium = 2"
| "risk_rank RiskHigh = 3"
| "risk_rank RiskCritical = 4"

lemma risk_rank_inject: "risk_rank a = risk_rank b \<longleftrightarrow> a = b"
  by (cases a; cases b) simp_all

instantiation risk_level :: linorder
begin

definition less_eq_risk_level :: "risk_level \<Rightarrow> risk_level \<Rightarrow> bool" where
  "a \<le> b \<longleftrightarrow> risk_rank a \<le> risk_rank b"

definition less_risk_level :: "risk_level \<Rightarrow> risk_level \<Rightarrow> bool" where
  "a < b \<longleftrightarrow> risk_rank a < risk_rank b"

instance
  by standard
    (auto simp: less_eq_risk_level_def less_risk_level_def simp flip: risk_rank_inject)

end

record risk_tier_config =
  auto_approve_max :: risk_level
  require_approval_max :: risk_level

definition risk_tier_config_default :: risk_tier_config where
  "risk_tier_config_default =
     \<lparr>auto_approve_max = RiskLow, require_approval_max = RiskMedium\<rparr>"

definition risk_is_valid :: "risk_tier_config \<Rightarrow> bool" where
  "risk_is_valid cfg \<longleftrightarrow> auto_approve_max cfg \<le> require_approval_max cfg"

definition classify :: "risk_tier_config \<Rightarrow> risk_level \<Rightarrow> risk_tier" where
  "classify cfg risk_level =
     (if risk_level \<le> auto_approve_max cfg then AutoApprove
      else if risk_level \<le> require_approval_max cfg then RequireApproval
      else HardGate)"

fun tier_rank :: "risk_tier \<Rightarrow> nat" where
  "tier_rank AutoApprove = 0"
| "tier_rank RequireApproval = 1"
| "tier_rank HardGate = 2"

lemma classify_mono: "a \<le> b \<Longrightarrow> tier_rank (classify cfg a) \<le> tier_rank (classify cfg b)"
  by (auto simp: classify_def)

section \<open>Trust score\<close>

record trust_config =
  baseline :: int
  max_score :: int
  positive_delta :: int
  denial_penalty :: int
  safety_penalty :: int
  decay_per_minute :: int
  read_only_threshold :: int
  suspend_threshold :: int
  max_gain_per_minute :: int

definition trust_config_default :: trust_config where
  "trust_config_default =
     \<lparr>baseline = 500, max_score = 1000, positive_delta = 10, denial_penalty = 50,
      safety_penalty = 100, decay_per_minute = 1, read_only_threshold = 300,
      suspend_threshold = 100, max_gain_per_minute = 50\<rparr>"

datatype trust_state = Normal | ReadOnly | Suspended

record trust_score =
  ts_score :: int
  ts_last_activity :: instant
  ts_gain_this_minute :: "instant \<times> int"
  ts_config :: trust_config

definition trust_new :: "instant \<Rightarrow> trust_config \<Rightarrow> trust_score" where
  "trust_new now cfg =
     \<lparr>ts_score = baseline cfg, ts_last_activity = now, ts_gain_this_minute = (now, 0),
      ts_config = cfg\<rparr>"

text \<open>The gain gate of \<open>record_success\<close>: \<open>None\<close> when the early return is taken.\<close>

definition gain_gate :: "instant \<Rightarrow> trust_score \<Rightarrow> (instant \<times> int) option" where
  "gain_gate now ts =
     (let cfg = ts_config ts in
      if max_gain_per_minute cfg > 0 then
        let gain = (if as_secs (now - fst (ts_gain_this_minute ts)) \<ge> 60 then (now, 0)
                    else ts_gain_this_minute ts) in
        if snd gain \<ge> max_gain_per_minute cfg then None
        else Some (fst gain, wrap_i64 (snd gain + positive_delta cfg))
      else Some (ts_gain_this_minute ts))"

definition success_score :: "trust_config \<Rightarrow> int \<Rightarrow> int" where
  "success_score cfg current = min (sat_i64 (current + positive_delta cfg)) (max_score cfg)"

definition denial_score :: "trust_config \<Rightarrow> int \<Rightarrow> int" where
  "denial_score cfg current = max (sat_i64 (current - denial_penalty cfg)) 0"

definition safety_score :: "trust_config \<Rightarrow> int \<Rightarrow> int" where
  "safety_score cfg current = max (sat_i64 (current - safety_penalty cfg)) 0"

definition record_success :: "instant \<Rightarrow> trust_score \<Rightarrow> trust_score" where
  "record_success now ts =
     (case gain_gate now ts of
        None \<Rightarrow>
          ts\<lparr>ts_gain_this_minute :=
                (if as_secs (now - fst (ts_gain_this_minute ts)) \<ge> 60 then (now, 0)
                 else ts_gain_this_minute ts),
             ts_last_activity := now\<rparr>
      | Some gain \<Rightarrow>
          ts\<lparr>ts_gain_this_minute := gain,
             ts_score := success_score (ts_config ts) (ts_score ts),
             ts_last_activity := now\<rparr>)"

definition record_denial :: "instant \<Rightarrow> trust_score \<Rightarrow> trust_score" where
  "record_denial now ts =
     ts\<lparr>ts_score := denial_score (ts_config ts) (ts_score ts), ts_last_activity := now\<rparr>"

definition record_safety_trigger :: "instant \<Rightarrow> trust_score \<Rightarrow> trust_score" where
  "record_safety_trigger now ts =
     ts\<lparr>ts_score := safety_score (ts_config ts) (ts_score ts), ts_last_activity := now\<rparr>"

definition current_score :: "instant \<Rightarrow> trust_score \<Rightarrow> int" where
  "current_score now ts =
     (let elapsed = wrap_i64 (int (as_secs (now - ts_last_activity ts))) sdiv 60;
          decay = wrap_i64 (elapsed * decay_per_minute (ts_config ts))
      in max (wrap_i64 (ts_score ts - decay)) 0)"

definition trust_state_of :: "instant \<Rightarrow> trust_score \<Rightarrow> trust_state" where
  "trust_state_of now ts =
     (let score = current_score now ts; cfg = ts_config ts in
      if score < suspend_threshold cfg then Suspended
      else if score < read_only_threshold cfg then ReadOnly
      else Normal)"

text \<open>Configurations in which the arithmetic of the score stays in range.\<close>

definition trust_config_ok :: "trust_config \<Rightarrow> bool" where
  "trust_config_ok cfg \<longleftrightarrow>
     0 \<le> baseline cfg \<and> baseline cfg \<le> max_score cfg \<and> max_score cfg < 2 ^ 62
     \<and> 0 \<le> positive_delta cfg \<and> positive_delta cfg < 2 ^ 62
     \<and> max_gain_per_minute cfg < 2 ^ 62
     \<and> 0 \<le> denial_penalty cfg \<and> denial_penalty cfg < 2 ^ 62
     \<and> 0 \<le> safety_penalty cfg \<and> safety_penalty cfg < 2 ^ 62"

definition trust_inv :: "trust_score \<Rightarrow> bool" where
  "trust_inv ts \<longleftrightarrow>
     trust_config_ok (ts_config ts) \<and> 0 \<le> ts_score ts \<and> ts_score ts \<le> max_score (ts_config ts)
     \<and> 0 \<le> snd (ts_gain_this_minute ts)
     \<and> snd (ts_gain_this_minute ts) < 2 ^ 63"

datatype trust_event = Success | Denial | SafetyTrigger

fun trust_step :: "instant \<times> trust_event \<Rightarrow> trust_score \<Rightarrow> trust_score" where
  "trust_step (now, Success) ts = record_success now ts"
| "trust_step (now, Denial) ts = record_denial now ts"
| "trust_step (now, SafetyTrigger) ts = record_safety_trigger now ts"

lemma score_updates_bounded:
  assumes "trust_config_ok cfg" "0 \<le> s" "s \<le> max_score cfg"
  shows "0 \<le> success_score cfg s" "success_score cfg s \<le> max_score cfg"
    "success_score cfg s \<le> s + positive_delta cfg" "s \<le> success_score cfg s"
    "0 \<le> denial_score cfg s" "denial_score cfg s \<le> s"
    "0 \<le> safety_score cfg s" "safety_score cfg s \<le> s"
  using assms
  by (auto simp: success_score_def denial_score_def safety_score_def trust_config_ok_def
      sat_i64_def i64_min_def i64_max_def)

lemma trust_step_config [simp]: "ts_config (trust_step e ts) = ts_config ts"
  by (cases "(e, ts)" rule: trust_step.cases)
     (auto simp: record_success_def record_denial_def record_safety_trigger_def split: option.splits)

lemma gain_gate_Some:
  assumes "trust_inv ts" "gain_gate now ts = Some g" "0 < max_gain_per_minute (ts_config ts)"
  shows "0 \<le> snd g" "snd g < max_gain_per_minute (ts_config ts) + positive_delta (ts_config ts)"
    "as_secs (now - fst (ts_gain_this_minute ts)) < 60 \<Longrightarrow>
       g = (fst (ts_gain_this_minute ts),
            snd (ts_gain_this_minute ts) + positive_delta (ts_config ts))"
  using assms wrap_i64_id
  by (auto simp: gain_gate_def Let_def trust_inv_def trust_config_ok_def in_i64_def
      i64_min_def i64_max_def split: if_splits)

lemma trust_inv_step:
  assumes "trust_inv ts"
  shows "trust_inv (trust_step e ts)"
proof -
  obtain now k where e: "e = (now, k)" by fastforce
  have b: "trust_config_ok (ts_config ts)" "0 \<le> ts_score ts" "ts_score ts \<le> max_score (ts_config ts)"
    using assms by (auto simp: trust_inv_def)
  have le: "denial_score (ts_config ts) (ts_score ts) \<le> max_score (ts_config ts)"
    "safety_score (ts_config ts) (ts_score ts) \<le> max_score (ts_config ts)"
    using score_updates_bounded(6,8)[OF b] b(3) by linarith+
  show ?thesis
  proof (cases k)
    case Success
    show ?thesis
    proof (cases "gain_gate now ts")
      case None
      then show ?thesis using assms Success e
        by (auto simp: record_success_def trust_inv_def)
    next
      case (Some g)
      have "0 \<le> snd g \<and> snd g < 2 ^ 63"
      proof (cases "0 < max_gain_per_minute (ts_config ts)")
        case True
        then show ?thesis using gain_gate_Some(1,2)[OF assms Some True] b(1)
          by (auto simp: trust_config_ok_def)
      next
        case False
        then show ?thesis using Some assms by (auto simp: gain_gate_def Let_def trust_inv_def)
      qed
      then show ?thesis using assms Success e Some score_updates_bounded(1,2)[OF b]
        by (auto simp: record_success_def trust_inv_def)
    qed
  qed (use assms e le score_updates_bounded[OF b] in
    \<open>auto simp: record_denial_def record_safety_trigger_def trust_inv_def\<close>)
qed

lemma trust_inv_new: "trust_config_ok cfg \<Longrightarrow> trust_inv (trust_new now cfg)"
  by (simp add: trust_inv_def trust_new_def trust_config_ok_def)

lemma trust_inv_run: "trust_inv ts \<Longrightarrow> trust_inv (fold trust_step es ts)"
  by (rule fold_invariant) (auto intro: trust_inv_step)

text \<open>The gain ledger bounds how much a minute of successes can add to the score.\<close>

lemma trust_step_gain:
  assumes "trust_inv ts" "0 < max_gain_per_minute (ts_config ts)"
    and "as_secs (fst e - fst (ts_gain_this_minute ts)) < 60"
  shows "fst (ts_gain_this_minute (trust_step e ts)) = fst (ts_gain_this_minute ts)"
    and "ts_score (trust_step e ts) - ts_score ts
           \<le> snd (ts_gain_this_minute (trust_step e ts)) - snd (ts_gain_this_minute ts)"
    and "snd (ts_gain_this_minute ts) < max_gain_per_minute (ts_config ts) + positive_delta (ts_config ts) \<Longrightarrow>
         snd (ts_gain_this_minute (trust_step e ts))
           < max_gain_per_minute (ts_config ts) + positive_delta (ts_config ts)"
proof -
  obtain now k where e: "e = (now, k)" by fastforce
  have b: "trust_config_ok (ts_config ts)" "0 \<le> ts_score ts" "ts_score ts \<le> max_score (ts_config ts)"
    using assms(1) by (auto simp: trust_inv_def)
  note sb = score_updates_bounded[OF b]
  have *: "fst (ts_gain_this_minute (trust_step e ts)) = fst (ts_gain_this_minute ts) \<and>
    ts_score (trust_step e ts) - ts_score ts
           \<le> snd (ts_gain_this_minute (trust_step e ts)) - snd (ts_gain_this_minute ts) \<and>
    (snd (ts_gain_this_minute ts) < max_gain_per_minute (ts_config ts) + positive_delta (ts_config ts) \<longrightarrow>
         snd (ts_gain_this_minute (trust_step e ts))
           < max_gain_per_minute (ts_config ts) + positive_delta (ts_config ts))"
  proof (cases k)
    case Success
    show ?thesis
    proof (cases "gain_gate now ts")
      case None
      then show ?thesis using assms(3) Success e by (simp add: record_success_def)
    next
      case (Some g)
      show ?thesis
        using assms(3) Success e sb(3) gain_gate_Some[OF assms(1) Some assms(2)]
        by (simp add: record_success_def Some)
    qed
  qed (use e sb in \<open>auto simp: record_denial_def record_safety_trigger_def\<close>)
  show "fst (ts_gain_this_minute (trust_step e ts)) = fst (ts_gain_this_minute ts)"
    "ts_score (trust_step e ts) - ts_score ts
           \<le> snd (ts_gain_this_minute (trust_step e ts)) - snd (ts_gain_this_minute ts)"
    "snd (ts_gain_this_minute ts) < max_gain_per_minute (ts_config ts) + positive_delta (ts_config ts) \<Longrightarrow>
         snd (ts_gain_this_minute (trust_step e ts))
           < max_gain_per_minute (ts_config ts) + positive_delta (ts_config ts)"
    using * by auto
qed

lemma trust_run_gain:
  assumes "trust_inv ts" "0 < max_gain_per_minute (ts_config ts)"
    and "\<forall>e\<in>set es. as_secs (fst e - fst (ts_gain_this_minute ts)) < 60"
    and "snd (ts_gain_this_minute ts) < max_gain_per_minute (ts_config ts) + positive_delta (ts_config ts)"
  shows "ts_score (fold trust_step es ts) - ts_score ts + snd (ts_gain_this_minute ts)
           < max_gain_per_minute (ts_config ts) + positive_delta (ts_config ts)"
  using assms
proof (induction es arbitrary: ts)
  case Nil
  then show ?case by simp
next
  case (Cons e es)
  have m: "as_secs (fst e - fst (ts_gain_this_minute ts)) < 60" using Cons.prems(3) by simp
  note s = trust_step_gain[OF Cons.prems(1,2) m]
  have "ts_score (fold trust_step es (trust_step e ts)) - ts_score (trust_step e ts)
          + snd (ts_gain_this_minute (trust_step e ts))
        < max_gain_per_minute (ts_config (trust_step e ts))
          + positive_delta (ts_config (trust_step e ts))"
    using Cons.prems s by (intro Cons.IH) (auto simp: trust_inv_step)
  then show ?case using s(2) by simp
qed

lemma current_score_nonneg: "0 \<le> current_score now ts"
  by (simp add: current_score_def Let_def)

subsection \<open>Concurrent recorders\<close>

text \<open>
  The recorders read the score and write it back as two atomic actions.  A
  configuration of the interleaving model is the shared score with one program
  counter per caller: \<open>Pending\<close> before the load, \<open>Loaded v\<close> between load and
  store, \<open>Finished\<close> after the store.
\<close>

datatype recorder = Pending trust_event | Loaded trust_event int | Finished

fun event_score :: "trust_config \<Rightarrow> trust_event \<Rightarrow> int \<Rightarrow> int" where
  "event_score cfg Success = success_score cfg"
| "event_score cfg Denial = denial_score cfg"
| "event_score cfg SafetyTrigger = safety_score cfg"

inductive race :: "trust_config \<Rightarrow> int \<times> recorder list \<Rightarrow> int \<times> recorder list \<Rightarrow> bool"
  for cfg where
  race_load: "i < length rs \<Longrightarrow> rs ! i = Pending e \<Longrightarrow> race cfg (s, rs) (s, rs[i := Loaded e s])"
| race_store: "i < length rs \<Longrightarrow> rs ! i = Loaded e v \<Longrightarrow>
    race cfg (s, rs) (event_score cfg e v, rs[i := Finished])"

inductive_cases race_cases: "race cfg (s, rs) c"

definition race_inv :: "trust_config \<Rightarrow> int \<times> recorder list \<Rightarrow> bool" where
  "race_inv cfg c \<longleftrightarrow> 0 \<le> fst c \<and> fst c \<le> max_score cfg
     \<and> (\<forall>e v. Loaded e v \<in> set (snd c) \<longrightarrow> 0 \<le> v \<and> v \<le> max_score cfg)"

lemma event_score_bounded:
  assumes "trust_config_ok cfg" "0 \<le> s" "s \<le> max_score cfg"
  shows "0 \<le> event_score cfg e s \<and> event_score cfg e s \<le> max_score cfg"
  using score_updates_bounded[OF assms] assms(3) by (cases e) auto

lemma race_inv_step:
  assumes "race cfg c c'" "trust_config_ok cfg" "race_inv cfg c"
  shows "race_inv cfg c'"
  using assms
proof (cases rule: race.cases)
  case (race_load i rs e s)
  then show ?thesis using assms(3)
    by (auto simp: race_inv_def dest!: set_update_subset_insert[THEN subsetD])
next
  case (race_store i rs e v s)
  then have "Loaded e v \<in> set rs" by (metis nth_mem)
  then have "0 \<le> v \<and> v \<le> max_score cfg" using assms(3) race_store by (auto simp: race_inv_def)
  then show ?thesis using race_store assms(2,3) event_score_bounded[OF assms(2)]
    by (auto simp: race_inv_def dest!: set_update_subset_insert[THEN subsetD])
qed

lemma race_reachable_inv:
  assumes "(race cfg)\<^sup>*\<^sup>* c c'" "trust_config_ok cfg" "race_inv cfg c"
  shows "race_inv cfg c'"
  using assms(1) by induction (use assms(2,3) race_inv_step in auto)

text \<open>An executable scheduler for concrete interleavings.\<close>

fun race_exec :: "trust_config \<Rightarrow> nat list \<Rightarrow> int \<times> recorder list \<Rightarrow> int \<times> recorder list" where
  "race_exec cfg [] c = c"
| "race_exec cfg (i # is) (s, rs) =
     (if i < length rs then
        (case rs ! i of
           Pending e \<Rightarrow> race_exec cfg is (s, rs[i := Loaded e s])
         | Loaded e v \<Rightarrow> race_exec cfg is (event_score cfg e v, rs[i := Finished])
         | Finished \<Rightarrow> race_exec cfg is (s, rs))
      else race_exec cfg is (s, rs))"

lemma race_exec_reachable: "(race cfg)\<^sup>*\<^sup>* c (race_exec cfg is c)"
proof (induction cfg "is" c rule: race_exec.induct)
  case (1 cfg c)
  then show ?case by simp
next
  case (2 cfg i "is" s rs)
  then show ?case
    by (auto split: recorder.splits intro: converse_rtranclp_into_rtranclp race_load race_store)
qed

section \<open>Execution rings\<close>

datatype execution_ring = SreWitnessed | OpenShell | Podman | Direct

fun ring_as_u8 :: "execution_ring \<Rightarrow> nat" where
  "ring_as_u8 SreWitnessed = 0"
| "ring_as_u8 OpenShell = 1"
| "ring_as_u8 Podman = 2"
| "ring_as_u8 Direct = 3"

fun from_trust_and_risk :: "trust_state \<Rightarrow> risk_tier \<Rightarrow> execution_ring" where
  "from_trust_and_risk Suspended _ = OpenShell"
| "from_trust_and_risk Normal HardGate = SreWitnessed"
| "from_trust_and_risk ReadOnly HardGate = SreWitnessed"
| "from_trust_and_risk Normal RequireApproval = Podman"
| "from_trust_and_risk ReadOnly RequireApproval = OpenShell"
| "from_trust_and_risk Normal AutoApprove = Direct"
| "from_trust_and_risk ReadOnly AutoApprove = Direct"

definition from_capability_ring :: "nat \<Rightarrow> execution_ring" where
  "from_capability_ring ring =
     (if ring = 0 then SreWitnessed else if ring = 1 then OpenShell
      else if ring = 2 then Podman else Direct)"

definition ring_min :: "execution_ring \<Rightarrow> execution_ring \<Rightarrow> execution_ring" where
  "ring_min a b = (if ring_as_u8 b < ring_as_u8 a then b else a)"

definition ring_effective :: "execution_ring option \<Rightarrow> execution_ring \<Rightarrow> execution_ring" where
  "ring_effective cap_ring trust_ring =
     (case cap_ring of Some c \<Rightarrow> ring_min c trust_ring | None \<Rightarrow> trust_ring)"

fun ring_display :: "execution_ring \<Rightarrow> string" where
  "ring_display SreWitnessed = ''Ring 0 (SreWitnessed)''"
| "ring_display OpenShell = ''Ring 1 (OpenShell)''"
| "ring_display Podman = ''Ring 2 (Podman)''"
| "ring_display Direct = ''Ring 3 (Direct)''"

lemma ring_effective_le:
  "ring_as_u8 (ring_effective c t) \<le> ring_as_u8 t"
  "c = Some r \<Longrightarrow> ring_as_u8 (ring_effective c t) \<le> ring_as_u8 r"
  by (auto simp: ring_effective_def ring_min_def split: option.splits)

lemma ring_mono_risk:
  "t \<noteq> Suspended \<Longrightarrow> tier_rank a \<le> tier_rank b \<Longrightarrow>
     ring_as_u8 (from_trust_and_risk t b) \<le> ring_as_u8 (from_trust_and_risk t a)"
  by (cases t; cases a; cases b) simp_all

lemma from_capability_ring_u8: "from_capability_ring (ring_as_u8 r) = r"
  by (cases r) (simp_all add: from_capability_ring_def)

section \<open>Properties\<close>

lemma current_score_idle:
  assumes "trust_inv ts" "0 \<le> decay_per_minute (ts_config ts)"
    and "int (as_secs (now - ts_last_activity ts)) * (decay_per_minute (ts_config ts) + 1) < 2 ^ 62"
  shows "current_score now ts = max (ts_score ts
           - int (as_secs (now - ts_last_activity ts)) div 60 * decay_per_minute (ts_config ts)) 0"
proof -
  let ?s = "int (as_secs (now - ts_last_activity ts))" and ?d = "decay_per_minute (ts_config ts)"
  have "?s * 1 \<le> ?s * (?d + 1)" using assms(2) by (intro mult_left_mono) auto
  then have s: "?s < 2 ^ 62" using assms(3) by linarith
  have d: "0 \<le> ?s div 60 * ?d" "?s div 60 * ?d \<le> ?s * (?d + 1)"
    using assms(2) by (auto intro!: mult_mono)
  have sc: "0 \<le> ts_score ts" "ts_score ts < 2 ^ 62"
    using assms(1) by (auto simp: trust_inv_def trust_config_ok_def)
  have "wrap_i64 ?s = ?s" "wrap_i64 (?s div 60 * ?d) = ?s div 60 * ?d"
    "wrap_i64 (ts_score ts - ?s div 60 * ?d) = ts_score ts - ?s div 60 * ?d"
    using s d sc assms(3) by (auto intro!: wrap_i64_id simp: in_i64_def i64_min_def i64_max_def)
  moreover have "?s sdiv 60 = ?s div 60" by (simp add: signed_divide_int_def sgn_if)
  ultimately show ?thesis by (simp add: current_score_def Let_def)
qed

text \<open>
  whatever successes, denials and safety triggers are recorded at whatever
  times, the score stays between 0 and the configured maximum and the state read at
  any time is the one of a score that is not negative; while the agent is idle the
  score it is judged by only falls, and stays within the same bounds.
\<close>

theorem trust_score_bounded:
  assumes "trust_config_ok cfg" "ts = fold trust_step es (trust_new t0 cfg)"
  shows "ts_config ts = cfg \<and> 0 \<le> ts_score ts \<and> ts_score ts \<le> max_score cfg \<and>
    (t1 \<le> t2 \<longrightarrow> 0 \<le> decay_per_minute cfg \<longrightarrow>
       int (as_secs (t2 - ts_last_activity ts)) * (decay_per_minute cfg + 1) < 2 ^ 62 \<longrightarrow>
       0 \<le> current_score t2 ts \<and> current_score t2 ts \<le> current_score t1 ts \<and>
       current_score t1 ts \<le> ts_score ts)"
proof -
  have cfg: "ts_config ts = cfg" unfolding assms(2)
    by (induction es rule: rev_induct) (simp_all add: trust_new_def)
  have inv: "trust_inv ts" unfolding assms(2) by (intro trust_inv_run trust_inv_new assms(1))
  have idle: "current_score t2 ts \<le> current_score t1 ts \<and> current_score t1 ts \<le> ts_score ts"
    if "t1 \<le> t2" "0 \<le> decay_per_minute cfg"
      "int (as_secs (t2 - ts_last_activity ts)) * (decay_per_minute cfg + 1) < 2 ^ 62"
  proof -
    let ?s = "\<lambda>t. int (as_secs (t - ts_last_activity ts))"
    have le: "?s t1 \<le> ?s t2" using that(1) by (simp add: as_secs_def div_le_mono)
    then have "?s t1 * (decay_per_minute cfg + 1) \<le> ?s t2 * (decay_per_minute cfg + 1)"
      using that(2) by (intro mult_right_mono) auto
    with that(3) have b1: "?s t1 * (decay_per_minute cfg + 1) < 2 ^ 62" by linarith
    have "?s t1 div 60 * decay_per_minute cfg \<le> ?s t2 div 60 * decay_per_minute cfg"
      using le that(2) by (intro mult_right_mono zdiv_mono1) auto
    moreover have "0 \<le> ?s t1 div 60 * decay_per_minute cfg" using that(2) by simp
    moreover have "current_score t1 ts = max (ts_score ts - ?s t1 div 60 * decay_per_minute cfg) 0"
      "current_score t2 ts = max (ts_score ts - ?s t2 div 60 * decay_per_minute cfg) 0"
      using current_score_idle[OF inv, of t1] current_score_idle[OF inv, of t2] that(2,3) b1
      by (auto simp: cfg)
    moreover have "0 \<le> ts_score ts" using inv by (simp add: trust_inv_def)
    ultimately show ?thesis unfolding max_def by (simp split: if_splits)
  qed
  show ?thesis using inv idle current_score_nonneg by (auto simp: trust_inv_def cfg)
qed

lemma trust_config_default_ok: "trust_config_ok trust_config_default"
  by (simp add: trust_config_ok_def trust_config_default_def)

theorem trust_score_bounded_witness:
  "ts_score (fold trust_step [(1, Success), (2, Denial)] (trust_new 0 trust_config_default)) \<le> 1000"
  using trust_score_bounded[OF trust_config_default_ok refl,
      of "[(1, Success), (2, Denial)]" 0 3 4]
  by (simp add: trust_config_default_def)

text \<open>
  within one minute of the start of the gain ledger no sequence of events can
  raise a new score by as much as the configured gain per minute plus one success.
\<close>

theorem trust_gain_limited:
  assumes "trust_config_ok cfg" "0 < max_gain_per_minute cfg"
    and "\<forall>e\<in>set es. as_secs (fst e - t0) < 60"
  shows "ts_score (fold trust_step es (trust_new t0 cfg))
           < baseline cfg + max_gain_per_minute cfg + positive_delta cfg"
  using trust_run_gain[OF trust_inv_new[OF assms(1), of t0], of es] assms
  by (simp add: trust_new_def trust_config_ok_def)

theorem trust_gain_limited_witness:
  "ts_score (fold trust_step (replicate 9 (1, Success)) (trust_new 0 trust_config_default)) < 560"
  using trust_gain_limited[OF trust_config_default_ok, of "replicate 9 (1, Success)" 0]
  by (simp add: trust_config_default_def as_secs_def)

text \<open>
  however the loads and stores of concurrent recorders interleave, the shared
  score and every loaded copy stay between 0 and the configured maximum.
\<close>

theorem concurrent_score_bounded:
  assumes "trust_config_ok cfg" "0 \<le> s" "s \<le> max_score cfg"
    and "(race cfg)\<^sup>*\<^sup>* (s, map Pending es) (s', rs)"
  shows "0 \<le> s' \<and> s' \<le> max_score cfg \<and>
    (\<forall>e v. Loaded e v \<in> set rs \<longrightarrow> 0 \<le> v \<and> v \<le> max_score cfg)"
proof -
  have "race_inv cfg (s, map Pending es)" using assms(2,3) by (auto simp: race_inv_def)
  from race_reachable_inv[OF assms(4,1) this] show ?thesis by (simp add: race_inv_def)
qed

theorem concurrent_score_bounded_witness:
  "fst (race_exec trust_config_default [0, 1, 1] (500, map Pending [Success, Denial])) \<le> 1000"
proof -
  have "(race trust_config_default)\<^sup>*\<^sup>* (500, map Pending [Success, Denial])
      (race_exec trust_config_default [0, 1, 1] (500, map Pending [Success, Denial]))"
    by (rule race_exec_reachable)
  then obtain s' rs where r: "race_exec trust_config_default [0, 1, 1] (500, map Pending [Success, Denial])
      = (s', rs)" "(race trust_config_default)\<^sup>*\<^sup>* (500, map Pending [Success, Denial]) (s', rs)"
    by (metis prod.collapse)
  have "s' \<le> max_score trust_config_default"
    using concurrent_score_bounded[OF trust_config_default_ok _ _ r(2)]
    by (simp add: trust_config_default_def)
  then show ?thesis unfolding r(1) by (simp add: trust_config_default_def)
qed

text \<open>A penalty stored between the load and the store of a success is lost.\<close>

lemma concurrent_penalty_lost:
  "race_exec trust_config_default [0, 1, 1, 0] (500, map Pending [Success, Denial])
     = (510, [Finished, Finished])"
  by (simp add: trust_config_default_def success_score_def denial_score_def sat_i64_def
      i64_min_def i64_max_def)

text \<open>A denial after a long idle period resets the decay and raises the effective score.\<close>

lemma denial_forgets_decay:
  defines "ts \<equiv> trust_new 0 trust_config_default"
    and "later \<equiv> 500 * 60 * 10 ^ 9"
  shows "current_score later ts = 0" "current_score later (record_denial later ts) = 450"
  by (simp_all add: ts_def later_def current_score_def Let_def trust_new_def record_denial_def
      trust_config_default_def as_secs_def denial_score_def sat_i64_def wrap_i64_def signed_divide_int_def i64_min_def
      i64_max_def)

text \<open>
  the ring a call runs in is never less isolated than the one its token or the
  trust state asks for, a riskier call never runs less isolated than a safer one
  unless the agent is suspended, and the numeric form of a ring reads back.
\<close>

theorem effective_ring_isolates:
  "ring_as_u8 (ring_effective c (from_trust_and_risk t a)) \<le> ring_as_u8 (from_trust_and_risk t a) \<and>
   ring_as_u8 (ring_effective (Some r) (from_trust_and_risk t a)) \<le> ring_as_u8 r \<and>
   from_capability_ring (ring_as_u8 r) = r \<and>
   (t \<noteq> Suspended \<longrightarrow> x \<le> y \<longrightarrow>
      ring_as_u8 (ring_effective c (from_trust_and_risk t (classify cfg y)))
        \<le> ring_as_u8 (ring_effective c (from_trust_and_risk t (classify cfg x))))"
proof -
  have mono: "ring_as_u8 a \<le> ring_as_u8 b \<Longrightarrow>
      ring_as_u8 (ring_effective c a) \<le> ring_as_u8 (ring_effective c b)" for a b
    by (auto simp: ring_effective_def ring_min_def split: option.splits)
  have risk: "t \<noteq> Suspended \<Longrightarrow> x \<le> y \<Longrightarrow>
      ring_as_u8 (from_trust_and_risk t (classify cfg y)) \<le> ring_as_u8 (from_trust_and_risk t (classify cfg x))"
    by (intro ring_mono_risk classify_mono)
  show ?thesis
    by (intro conjI impI ring_effective_le(1) ring_effective_le(2)[OF refl] from_capability_ring_u8
        risk[THEN mono])
qed

theorem effective_ring_isolates_witness:
  "ring_as_u8 (ring_effective (Some Podman)
      (from_trust_and_risk Normal (classify risk_tier_config_default RiskCritical))) \<le>
   ring_as_u8 (ring_effective (Some Podman)
      (from_trust_and_risk Normal (classify risk_tier_config_default RiskLow)))"
proof -
  have "RiskLow \<le> RiskCritical" by (simp add: less_eq_risk_level_def)
  then show ?thesis
    using effective_ring_isolates[where c = "Some Podman" and t = Normal and x = RiskLow
        and y = RiskCritical and cfg = risk_tier_config_default] by blast
qed

end
