(* ===== verification/Quota.thy ===== *)
theory Quota
  imports Interfaces
begin

text \<open>
  The token-bucket rate limiter of \<open>navra-auth/src/quota.rs\<close>.  Token amounts are
  \<open>u64\<close> in units of \<open>1 / SCALE\<close> token; the saturating operations are written out.
  A panic is \<open>None\<close>: \<open>Bucket::new\<close> divides by the window, and since the panic
  happens under the write lock it poisons the lock for every later call.
\<close>

record rate_limit =
  max_calls :: nat
  window_secs :: nat

definition SCALE :: nat where
  "SCALE = 1000000"

record bucket =
  bk_tokens :: nat
  bk_max_tokens :: nat
  bk_refill_rate :: nat
  bk_last_refill :: instant

definition bucket_new :: "instant \<Rightarrow> rate_limit \<Rightarrow> bucket option" where
  "bucket_new now limit =
     (let max_tokens = sat_mul_u64 (max_calls limit) SCALE in
      if window_secs limit = 0 then None
      else Some \<lparr>bk_tokens = max_tokens, bk_max_tokens = max_tokens,
                 bk_refill_rate = max_tokens div window_secs limit, bk_last_refill = now\<rparr>)"

definition refill :: "instant \<Rightarrow> bucket \<Rightarrow> bucket" where
  "refill now b =
     (let elapsed_micros = wrap_u64 (as_micros (now - bk_last_refill b)) in
      b\<lparr>bk_tokens :=
           min (sat_add_u64 (bk_tokens b) (sat_mul_u64 elapsed_micros (bk_refill_rate b) div SCALE))
             (bk_max_tokens b),
        bk_last_refill := now\<rparr>)"

definition try_consume :: "instant \<Rightarrow> bucket \<Rightarrow> bucket \<times> bool" where
  "try_consume now b =
     (let b = refill now b in
      if bk_tokens b \<ge> SCALE then (b\<lparr>bk_tokens := bk_tokens b - SCALE\<rparr>, True) else (b, False))"

definition bucket_remaining :: "instant \<Rightarrow> bucket \<Rightarrow> bucket \<times> nat" where
  "bucket_remaining now b = (let b = refill now b in (b, bk_tokens b div SCALE))"

text \<open>The specification of a refill over unbounded naturals.\<close>

definition spec_refill :: "nat \<Rightarrow> nat \<Rightarrow> nat \<Rightarrow> nat \<Rightarrow> nat" where
  "spec_refill tokens elapsed_micros refill_rate max_tokens =
     (let added = (elapsed_micros * refill_rate) div 1000000;
          raw = tokens + added
      in if raw > max_tokens then max_tokens else raw)"

record quota_engine =
  qe_limits :: "(string, rate_limit) hmap"
  qe_buckets :: "(string, bucket) hmap"
  qe_poisoned :: bool

definition quota_new :: quota_engine where
  "quota_new = \<lparr>qe_limits = [], qe_buckets = [], qe_poisoned = False\<rparr>"

definition add_limit :: "string \<Rightarrow> rate_limit \<Rightarrow> quota_engine \<Rightarrow> quota_engine" where
  "add_limit permission_set limit q = q\<lparr>qe_limits := hm_insert permission_set limit (qe_limits q)\<rparr>"

definition quota_check ::
  "instant \<Rightarrow> string \<Rightarrow> string \<Rightarrow> quota_engine \<Rightarrow> quota_engine \<times> bool option" where
  "quota_check now agent_name permission_set q =
     (case hm_get (qe_limits q) permission_set of
        None \<Rightarrow> (q, Some True)
      | Some limit \<Rightarrow>
          if qe_poisoned q then (q, None)
          else
            (case (case hm_get (qe_buckets q) agent_name of
                     Some b \<Rightarrow> Some b
                   | None \<Rightarrow> bucket_new now limit) of
               None \<Rightarrow> (q\<lparr>qe_poisoned := True\<rparr>, None)
             | Some b \<Rightarrow>
                 let (b', ok) = try_consume now b in
                 (q\<lparr>qe_buckets := hm_insert agent_name b' (qe_buckets q)\<rparr>, Some ok)))"

definition quota_remaining ::
  "instant \<Rightarrow> string \<Rightarrow> string \<Rightarrow> quota_engine \<Rightarrow> quota_engine \<times> nat option option" where
  "quota_remaining now agent_name permission_set q =
     (if hm_get (qe_limits q) permission_set = None then (q, Some None)
      else if qe_poisoned q then (q, None)
      else
        (case hm_get (qe_buckets q) agent_name of
           None \<Rightarrow> (q, Some None)
         | Some b \<Rightarrow>
             let (b', n) = bucket_remaining now b in
             (q\<lparr>qe_buckets := hm_insert agent_name b' (qe_buckets q)\<rparr>, Some (Some n))))"

definition has_limits :: "quota_engine \<Rightarrow> bool" where
  "has_limits q \<longleftrightarrow> qe_limits q \<noteq> []"

section \<open>Bucket arithmetic\<close>

definition bucket_ok :: "bucket \<Rightarrow> bool" where
  "bucket_ok b \<longleftrightarrow> bk_tokens b \<le> bk_max_tokens b \<and> bk_max_tokens b \<le> u64_max"

lemma SCALE_pos [simp]: "0 < SCALE"
  by (simp add: SCALE_def)

lemma refill_fields [simp]:
  "bk_max_tokens (refill now b) = bk_max_tokens b"
  "bk_refill_rate (refill now b) = bk_refill_rate b"
  "bk_last_refill (refill now b) = now"
  by (simp_all add: refill_def Let_def)

lemma bucket_ok_refill: "bucket_ok b \<Longrightarrow> bucket_ok (refill now b)"
  by (simp add: bucket_ok_def refill_def Let_def)

lemma bucket_ok_new: "bucket_new now limit = Some b \<Longrightarrow> bucket_ok b"
  by (auto simp: bucket_new_def bucket_ok_def Let_def split: if_splits)

text \<open>Where nothing saturates the \<open>u64\<close> refill is the specified one.\<close>

lemma refill_implements_spec:
  assumes "bucket_ok b"
    and "as_micros (now - bk_last_refill b) \<le> u64_max"
    and "as_micros (now - bk_last_refill b) * bk_refill_rate b \<le> u64_max"
  shows "bk_tokens (refill now b) =
    spec_refill (bk_tokens b) (as_micros (now - bk_last_refill b)) (bk_refill_rate b) (bk_max_tokens b)"
  using assms
  by (auto simp: refill_def spec_refill_def Let_def wrap_u64_id sat_mul_u64_def sat_add_u64_def
      SCALE_def bucket_ok_def min_def)

lemma refill_tokens_le:
  "bk_tokens (refill now b) \<le> bk_tokens b + (as_micros (now - bk_last_refill b) * bk_refill_rate b) div SCALE"
proof -
  let ?w = "wrap_u64 (as_micros (now - bk_last_refill b))"
  have "?w \<le> as_micros (now - bk_last_refill b)" by (simp add: wrap_u64_def)
  then have "sat_mul_u64 ?w (bk_refill_rate b) \<le> as_micros (now - bk_last_refill b) * bk_refill_rate b"
    by (simp add: sat_mul_u64_def min.coboundedI1)
  from div_le_mono[OF this, of SCALE] show ?thesis
    by (simp add: refill_def Let_def sat_add_u64_def min_def)
qed

lemma try_consume_balance:
  assumes "try_consume now b = (b', ok)"
  shows "bk_tokens b' + (if ok then SCALE else 0) \<le>
           bk_tokens b + (as_micros (now - bk_last_refill b) * bk_refill_rate b) div SCALE"
    and "bk_last_refill b' = now" "bk_refill_rate b' = bk_refill_rate b"
    and "bk_max_tokens b' = bk_max_tokens b"
    and "bucket_ok b \<Longrightarrow> bucket_ok b'"
  using assms refill_tokens_le[of now b] bucket_ok_refill[of b now]
  by (auto simp: try_consume_def Let_def bucket_ok_def split: if_splits)

text \<open>Enough idle time always restores one token.\<close>

lemma try_consume_available:
  assumes "bucket_ok b" "SCALE \<le> bk_max_tokens b"
    and "as_micros (now - bk_last_refill b) \<le> u64_max"
    and "SCALE * SCALE \<le> as_micros (now - bk_last_refill b) * bk_refill_rate b"
  shows "snd (try_consume now b)"
proof -
  let ?m = "as_micros (now - bk_last_refill b) * bk_refill_rate b"
  have "SCALE * SCALE \<le> min ?m u64_max"
    using assms(4) by (simp add: SCALE_def u64_max_def)
  from div_le_mono[OF this, of SCALE] have "SCALE \<le> min ?m u64_max div SCALE" by simp
  then have "SCALE \<le> sat_add_u64 (bk_tokens b) (min ?m u64_max div SCALE)"
    by (simp add: sat_add_u64_def SCALE_def u64_max_def)
  then show ?thesis using assms(2,3)
    by (simp add: try_consume_def refill_def Let_def wrap_u64_id sat_mul_u64_def)
qed

section \<open>Rate bound\<close>

text \<open>A run of attempts against one bucket, with the number of granted ones.\<close>

fun consume_run :: "instant list \<Rightarrow> bucket \<Rightarrow> bucket \<times> nat" where
  "consume_run [] b = (b, 0)"
| "consume_run (t # ts) b =
     (let (b1, ok) = try_consume t b; (b2, n) = consume_run ts b1 in
      (b2, (if ok then Suc n else n)))"

lemma floor_parts: "(a::nat) * r div s + b * r div s \<le> (a + b) * r div s"
  using div_add1_eq[of "a * r" "b * r" s] by (simp add: distrib_right)

lemma micros_split:
  assumes "t0 \<le> t1" "t1 \<le> t2"
  shows "as_micros (t1 - t0) + as_micros (t2 - t1) \<le> as_micros (t2 - t0)"
proof -
  have "t2 - t0 = (t1 - t0) + (t2 - t1)" using assms by simp
  then show ?thesis using div_add1_eq[of "t1 - t0" "t2 - t1" "10 ^ 3"]
    by (simp add: as_micros_def)
qed

lemma consume_run_balance:
  assumes "sorted (bk_last_refill b # ts)" "consume_run ts b = (b', n)"
  shows "bk_tokens b' + n * SCALE \<le>
     bk_tokens b + (as_micros (last (bk_last_refill b # ts) - bk_last_refill b) * bk_refill_rate b) div SCALE"
  using assms
proof (induction ts arbitrary: b n)
  case Nil
  then show ?case by simp
next
  case (Cons t ts)
  obtain b1 ok where s: "try_consume t b = (b1, ok)" by fastforce
  obtain m where r: "consume_run ts b1 = (b', m)" and n: "n = (if ok then Suc m else m)"
    using Cons.prems(2) s by (auto split: prod.splits)
  note bal = try_consume_balance[OF s]
  let ?r = "bk_refill_rate b" and ?t0 = "bk_last_refill b" and ?tn = "last (t # ts)"
  have tn: "t \<le> ?tn" using Cons.prems(1) by (cases ts) auto
  have t0: "?t0 \<le> t" using Cons.prems(1) by simp
  have "bk_tokens b' + m * SCALE \<le> bk_tokens b1 + as_micros (?tn - t) * ?r div SCALE"
    using Cons.IH[OF _ r] Cons.prems(1) bal(2,3) by simp
  also have "\<dots> + (if ok then SCALE else 0)
      \<le> bk_tokens b + as_micros (t - ?t0) * ?r div SCALE + as_micros (?tn - t) * ?r div SCALE"
    using bal(1) by linarith
  also have "\<dots> \<le> bk_tokens b + (as_micros (t - ?t0) + as_micros (?tn - t)) * ?r div SCALE"
    using floor_parts by (simp add: add.assoc)
  also have "\<dots> \<le> bk_tokens b + as_micros (?tn - ?t0) * ?r div SCALE"
    using micros_split[OF t0 tn] by (simp add: div_le_mono)
  finally show ?case by (auto simp: n split: if_splits)
qed

text \<open>
  A fresh bucket never grants more than the configured calls plus their share
  of the time that has passed.
\<close>

lemma fresh_bucket_rate:
  assumes "bucket_new t0 limit = Some b" "sorted (t0 # ts)" "consume_run ts b = (b', n)"
  shows "n * (window_secs limit * SCALE)
           \<le> max_calls limit * (window_secs limit * SCALE + as_micros (last (t0 # ts) - t0))"
proof -
  let ?w = "window_secs limit" and ?m = "as_micros (last (t0 # ts) - t0)"
  let ?M = "bk_max_tokens b"
  have b: "0 < ?w" "bk_last_refill b = t0" "bk_tokens b = ?M" "bk_refill_rate b = ?M div ?w"
    "?M \<le> max_calls limit * SCALE"
    using assms(1) by (auto simp: bucket_new_def Let_def sat_mul_u64_def split: if_splits)
  have "n * SCALE \<le> ?M + ?m * (?M div ?w) div SCALE"
    using consume_run_balance[of b ts b' n] assms(2,3) b by simp
  then have "n * SCALE * (?w * SCALE) \<le> (?M + ?m * (?M div ?w) div SCALE) * (?w * SCALE)"
    by (rule mult_le_mono1)
  also have "\<dots> = ?M * (?w * SCALE) + (?m * (?M div ?w) div SCALE * SCALE) * ?w"
    by (simp add: algebra_simps)
  also have "(?m * (?M div ?w) div SCALE * SCALE) * ?w \<le> (?m * (?M div ?w)) * ?w"
    by (intro mult_le_mono1 div_times_less_eq_dividend)
  also have "(?m * (?M div ?w)) * ?w = ?m * (?M div ?w * ?w)" by simp
  also have "\<dots> \<le> ?m * ?M" by (intro mult_le_mono2 div_times_less_eq_dividend)
  also have "?M * (?w * SCALE) + ?m * ?M = ?M * (?w * SCALE + ?m)" by (simp add: algebra_simps)
  also have "\<dots> \<le> max_calls limit * SCALE * (?w * SCALE + ?m)" by (intro mult_le_mono1 b(5))
  finally have "n * (?w * SCALE) * SCALE \<le> max_calls limit * (?w * SCALE + ?m) * SCALE"
    by (simp add: algebra_simps)
  then show ?thesis by simp
qed

section \<open>Engine\<close>

definition engine_ok :: "quota_engine \<Rightarrow> bool" where
  "engine_ok q \<longleftrightarrow> hm_wf (qe_limits q) \<and> hm_wf (qe_buckets q)
     \<and> (\<forall>e\<in>set (qe_buckets q). bucket_ok (snd e))"

definition windows_ok :: "quota_engine \<Rightarrow> bool" where
  "windows_ok q \<longleftrightarrow> (\<forall>s l. hm_get (qe_limits q) s = Some l \<longrightarrow> 0 < window_secs l) \<and> \<not> qe_poisoned q"

lemma engine_ok_insert:
  assumes "engine_ok q" "bucket_ok b"
  shows "engine_ok (q\<lparr>qe_buckets := hm_insert a b (qe_buckets q)\<rparr>)"
proof -
  have "bucket_ok (snd e)" if "e \<in> set (hm_insert a b (qe_buckets q))" for e
    using hm_all_insert[of "qe_buckets q" "\<lambda>_. bucket_ok" a b e] assms that
    by (auto simp: engine_ok_def)
  then show ?thesis using assms by (simp add: engine_ok_def)
qed

lemma engine_ok_bucket: "engine_ok q \<Longrightarrow> hm_get (qe_buckets q) a = Some b \<Longrightarrow> bucket_ok b"
  by (force simp: engine_ok_def dest: map_of_SomeD)

lemma quota_check_ok:
  assumes "engine_ok q"
  shows "engine_ok (fst (quota_check now a s q))"
proof -
  have ins: "engine_ok (q\<lparr>qe_buckets := hm_insert a b' (qe_buckets q)\<rparr>)"
    if "try_consume now b = (b', ok)" "bucket_ok b" for b b' ok
    using engine_ok_insert[OF assms try_consume_balance(5)[OF that]] .
  have "engine_ok (q\<lparr>qe_poisoned := True\<rparr>)" using assms by (simp add: engine_ok_def)
  then show ?thesis
    using assms ins engine_ok_bucket[OF assms] bucket_ok_new
    by (auto simp: quota_check_def split: option.splits prod.splits)
qed

lemma quota_check_isolated:
  "a' \<noteq> a \<Longrightarrow> hm_get (qe_buckets (fst (quota_check now a s q))) a' = hm_get (qe_buckets q) a'"
  by (auto simp: quota_check_def split: option.splits prod.splits)

lemma quota_check_limits [simp]: "qe_limits (fst (quota_check now a s q)) = qe_limits q"
  by (auto simp: quota_check_def split: option.splits prod.splits)

lemma quota_check_no_panic:
  assumes "windows_ok q"
  shows "windows_ok (fst (quota_check now a s q))" "snd (quota_check now a s q) \<noteq> None"
  using assms
  by (fastforce simp: windows_ok_def quota_check_def bucket_new_def Let_def
      split: option.splits prod.splits if_splits)+

lemma quota_check_poisoned:
  "qe_poisoned q \<Longrightarrow> hm_get (qe_limits q) s \<noteq> None \<Longrightarrow> quota_check now a s q = (q, None)"
  by (auto simp: quota_check_def)

section \<open>Properties\<close>

text \<open>
  C21: in any sequence of calls at non-decreasing times a fresh bucket grants at most
  the configured calls plus their share of the elapsed time, in exact arithmetic
  whatever saturates or is rounded in the code, and it is always built when the
  window is not zero.
\<close>

theorem bucket_rate_limited:
  assumes "0 < window_secs limit" "sorted (t0 # ts)"
  shows "\<exists>b b' n. bucket_new t0 limit = Some b \<and> consume_run ts b = (b', n) \<and>
    n * (window_secs limit * SCALE)
      \<le> max_calls limit * (window_secs limit * SCALE + as_micros (last (t0 # ts) - t0))"
proof -
  obtain b where b: "bucket_new t0 limit = Some b"
    using assms(1) by (auto simp: bucket_new_def Let_def)
  obtain b' n where r: "consume_run ts b = (b', n)" by fastforce
  show ?thesis using b r fresh_bucket_rate[OF b assms(2) r] by blast
qed

theorem bucket_rate_limited_witness:
  "\<exists>b b' n. bucket_new 0 \<lparr>max_calls = 2, window_secs = 10\<rparr> = Some b \<and>
     consume_run [1, 2, 3] b = (b', n) \<and> n * 10000000 \<le> 2 * (10000000 + 0)"
  using bucket_rate_limited[of "\<lparr>max_calls = 2, window_secs = 10\<rparr>" 0 "[1, 2, 3]"]
  by (simp add: SCALE_def as_micros_def)

text \<open>
  a bucket that has been idle for as long as one token takes to refill grants the
  next call, and where nothing saturates a refill adds exactly the specified amount.
\<close>

theorem bucket_refill_available:
  assumes "bucket_ok b" "as_micros (now - bk_last_refill b) * (bk_refill_rate b + 1) \<le> u64_max"
  shows "bk_tokens (refill now b) =
      spec_refill (bk_tokens b) (as_micros (now - bk_last_refill b)) (bk_refill_rate b) (bk_max_tokens b) \<and>
    (SCALE \<le> bk_max_tokens b \<longrightarrow>
       SCALE * SCALE \<le> as_micros (now - bk_last_refill b) * bk_refill_rate b \<longrightarrow>
       snd (try_consume now b))"
proof -
  have "as_micros (now - bk_last_refill b) * bk_refill_rate b + as_micros (now - bk_last_refill b)
      \<le> u64_max"
    using assms(2) by (simp add: algebra_simps)
  then have "as_micros (now - bk_last_refill b) \<le> u64_max"
    "as_micros (now - bk_last_refill b) * bk_refill_rate b \<le> u64_max" by linarith+
  then show ?thesis
    using refill_implements_spec[OF assms(1)] try_consume_available[OF assms(1)] by blast
qed

theorem bucket_refill_available_witness:
  "snd (try_consume (1000000000 * 5)
     \<lparr>bk_tokens = 0, bk_max_tokens = 2000000, bk_refill_rate = 200000, bk_last_refill = 0\<rparr>)"
  using bucket_refill_available[of
      "\<lparr>bk_tokens = 0, bk_max_tokens = 2000000, bk_refill_rate = 200000, bk_last_refill = 0\<rparr>"
      "1000000000 * 5"]
  by (simp add: bucket_ok_def u64_max_def as_micros_def SCALE_def)

text \<open>
  a quota check keeps the engine well formed, touches only the caller's bucket
  and no limit, always answers while no limit has an empty window, and lets an agent
  whose permission set has no limit through without touching anything.
\<close>

theorem quota_check_contract:
  assumes "engine_ok q"
  shows "engine_ok (fst (quota_check now a s q)) \<and>
    qe_limits (fst (quota_check now a s q)) = qe_limits q \<and>
    (\<forall>a'. a' \<noteq> a \<longrightarrow>
       hm_get (qe_buckets (fst (quota_check now a s q))) a' = hm_get (qe_buckets q) a') \<and>
    (windows_ok q \<longrightarrow> windows_ok (fst (quota_check now a s q)) \<and> snd (quota_check now a s q) \<noteq> None) \<and>
    (hm_get (qe_limits q) s = None \<longrightarrow> quota_check now a s q = (q, Some True))"
proof (intro conjI)
  show "hm_get (qe_limits q) s = None \<longrightarrow> quota_check now a s q = (q, Some True)"
    by (simp add: quota_check_def)
  show "windows_ok q \<longrightarrow>
      windows_ok (fst (quota_check now a s q)) \<and> snd (quota_check now a s q) \<noteq> None"
    using quota_check_no_panic by simp
  show "\<forall>a'. a' \<noteq> a \<longrightarrow>
      hm_get (qe_buckets (fst (quota_check now a s q))) a' = hm_get (qe_buckets q) a'"
    by (simp add: quota_check_isolated)
qed (simp_all add: quota_check_ok assms)

theorem quota_check_contract_witness:
  "snd (quota_check 0 ''a'' ''dev'' (add_limit ''dev'' \<lparr>max_calls = 1, window_secs = 60\<rparr> quota_new)) \<noteq> None"
proof -
  let ?q = "add_limit ''dev'' \<lparr>max_calls = 1, window_secs = 60\<rparr> quota_new"
  have "engine_ok ?q" "windows_ok ?q"
    by (simp_all add: engine_ok_def windows_ok_def add_limit_def quota_new_def hm_wf_def)
  with quota_check_contract[of ?q 0 "''a''" "''dev''"] show ?thesis by blast
qed

text \<open>An empty window panics under the write lock; every later limited call panics too.\<close>

lemma zero_window_poisons:
  defines "q \<equiv> add_limit ''dev'' \<lparr>max_calls = 1, window_secs = 0\<rparr> quota_new"
  shows "snd (quota_check now a ''dev'' q) = None"
    "snd (quota_check now' a' ''dev'' (fst (quota_check now a ''dev'' q))) = None"
  by (simp_all add: q_def quota_check_def add_limit_def quota_new_def bucket_new_def Let_def)

end
