(* ===== verification/Approval.thy ===== *)
theory Approval
  imports Interfaces
begin

text \<open>
  The human-approval store of \<open>navra-auth/src/permissions/approval.rs\<close>: requests
  wait under a fresh id, an approval caches a grant for the retry, and a retry
  consumes it.  The two mutexes are always taken in the same order and released
  at the end of the operation, so each operation is one atomic step.  A channel
  is named by its request; what was sent on it is kept in \<open>as_sent\<close>.
\<close>

datatype approval_status = Pending | Approved | Denied | Expired

record approval_request =
  ar_id :: string
  ar_agent_name :: string
  ar_operation :: string
  ar_path :: string

record pending_request =
  pr_meta :: approval_request
  pr_sender :: "string option"

record grant =
  gr_agent_name :: string
  gr_operation :: string
  gr_path :: string
  gr_expires :: instant

record approval_store =
  as_pending :: "(string, pending_request) hmap"
  as_grants :: "grant list"
  as_timeout :: nat
  as_grant_ttl :: nat
  as_sent :: "(string \<times> approval_status) list"

definition from_secs :: "nat \<Rightarrow> nat" where
  "from_secs s = s * 10 ^ 9"

definition with_grant_ttl :: "nat \<Rightarrow> nat \<Rightarrow> approval_store" where
  "with_grant_ttl timeout_secs grant_ttl_secs =
     \<lparr>as_pending = [], as_grants = [], as_timeout = from_secs timeout_secs,
      as_grant_ttl = from_secs grant_ttl_secs, as_sent = []\<rparr>"

definition approval_new :: "nat \<Rightarrow> approval_store" where
  "approval_new timeout_secs = with_grant_ttl timeout_secs 300"

text \<open>The id is the fresh UUID the call draws.\<close>

definition request ::
  "string \<Rightarrow> string \<Rightarrow> string \<Rightarrow> string \<Rightarrow> approval_store \<Rightarrow> approval_store \<times> approval_request" where
  "request rid agent_name operation path s =
     (let meta = \<lparr>ar_id = rid, ar_agent_name = agent_name, ar_operation = operation, ar_path = path\<rparr>
      in (s\<lparr>as_pending := hm_insert rid \<lparr>pr_meta = meta, pr_sender = Some rid\<rparr> (as_pending s)\<rparr>, meta))"

definition resolve ::
  "instant \<Rightarrow> string \<Rightarrow> approval_status \<Rightarrow> approval_store \<Rightarrow> approval_store \<times> bool" where
  "resolve now rid status s =
     (case hm_get (as_pending s) rid of
        None \<Rightarrow> (s, False)
      | Some req \<Rightarrow>
          (s\<lparr>as_pending := hm_remove rid (as_pending s),
             as_grants :=
               (if status = Approved then
                  as_grants s @ [\<lparr>gr_agent_name = ar_agent_name (pr_meta req),
                     gr_operation = ar_operation (pr_meta req), gr_path = ar_path (pr_meta req),
                     gr_expires = now + as_grant_ttl s\<rparr>]
                else as_grants s),
             as_sent :=
               (case pr_sender req of
                  Some tx \<Rightarrow> as_sent s @ [(tx, status)]
                | None \<Rightarrow> as_sent s)\<rparr>, True))"

definition approve :: "instant \<Rightarrow> string \<Rightarrow> approval_store \<Rightarrow> approval_store \<times> bool" where
  "approve now rid s = resolve now rid Approved s"

definition deny :: "instant \<Rightarrow> string \<Rightarrow> approval_store \<Rightarrow> approval_store \<times> bool" where
  "deny now rid s = resolve now rid Denied s"

definition grant_matches :: "string \<Rightarrow> string \<Rightarrow> string \<Rightarrow> grant \<Rightarrow> bool" where
  "grant_matches agent_name operation path g \<longleftrightarrow>
     gr_agent_name g = agent_name \<and> gr_operation g = operation \<and> gr_path g = path"

definition check_grant ::
  "instant \<Rightarrow> string \<Rightarrow> string \<Rightarrow> string \<Rightarrow> approval_store \<Rightarrow> approval_store \<times> bool" where
  "check_grant now agent_name operation path s =
     (let grants = filter (\<lambda>g. gr_expires g > now) (as_grants s) in
      if list_ex (grant_matches agent_name operation path) grants
      then (s\<lparr>as_grants := remove_first (grant_matches agent_name operation path) grants\<rparr>, True)
      else (s\<lparr>as_grants := grants\<rparr>, False))"

text \<open>
  \<open>wait\<close>: the channel's message with the time it arrived, if one ever does; a
  dropped sender and a timeout both read as expiry.  The store is not touched.
\<close>

definition wait_status :: "instant \<Rightarrow> (instant \<times> approval_status) option \<Rightarrow> approval_store \<Rightarrow> approval_status" where
  "wait_status started msg s =
     (case msg of
        Some (at, status) \<Rightarrow> if at - started \<le> as_timeout s then status else Expired
      | None \<Rightarrow> Expired)"

definition get_pending :: "string \<Rightarrow> approval_store \<Rightarrow> approval_request option" where
  "get_pending rid s = map_option pr_meta (hm_get (as_pending s) rid)"

definition pending_count :: "approval_store \<Rightarrow> nat" where
  "pending_count s = length (as_pending s)"

definition pending_requests :: "approval_store \<Rightarrow> approval_request list" where
  "pending_requests s = map (\<lambda>(k, r). pr_meta r) (as_pending s)"

section \<open>Runs\<close>

type_synonym approval_key = "string \<times> string \<times> string"

datatype approval_op =
    RequestOp string string string string
  | ResolveOp instant string approval_status
  | CheckOp instant string string string

datatype approval_event = Requested approval_key | Cached approval_key instant | Consumed approval_key instant

fun approval_step :: "approval_op \<Rightarrow> approval_store \<Rightarrow> approval_store \<times> approval_event list" where
  "approval_step (RequestOp rid a o' p) s = (fst (request rid a o' p s), [Requested (a, o', p)])"
| "approval_step (ResolveOp now rid st) s =
     (fst (resolve now rid st s),
      (case hm_get (as_pending s) rid of
         Some r \<Rightarrow> if st = Approved then
             [Cached (ar_agent_name (pr_meta r), ar_operation (pr_meta r), ar_path (pr_meta r)) now]
           else []
       | None \<Rightarrow> []))"
| "approval_step (CheckOp now a o' p) s =
     (let (s', ok) = check_grant now a o' p s in (s', if ok then [Consumed (a, o', p) now] else []))"

fun approval_run :: "approval_op list \<Rightarrow> approval_store \<Rightarrow> approval_store \<times> approval_event list" where
  "approval_run [] s = (s, [])"
| "approval_run (a # as) s =
     (let (s1, es1) = approval_step a s; (s2, es2) = approval_run as s1 in (s2, es1 @ es2))"

definition grant_key :: "grant \<Rightarrow> approval_key" where
  "grant_key g = (gr_agent_name g, gr_operation g, gr_path g)"

lemma grant_matches_key: "grant_matches a o' p = (\<lambda>g. grant_key g = (a, o', p))"
  by (auto simp: grant_matches_def grant_key_def fun_eq_iff)

abbreviation grants_of :: "approval_key \<Rightarrow> approval_store \<Rightarrow> nat" where
  "grants_of k s \<equiv> length (filter (\<lambda>g. grant_key g = k) (as_grants s))"

definition pending_of :: "approval_key \<Rightarrow> approval_store \<Rightarrow> nat" where
  "pending_of k s = length (filter (\<lambda>(i, r).
     (ar_agent_name (pr_meta r), ar_operation (pr_meta r), ar_path (pr_meta r)) = k) (as_pending s))"

fun is_requested :: "approval_key \<Rightarrow> approval_event \<Rightarrow> bool" where
  "is_requested k (Requested k') = (k' = k)"
| "is_requested k _ = False"

fun is_cached :: "approval_key \<Rightarrow> approval_event \<Rightarrow> bool" where
  "is_cached k (Cached k' t) = (k' = k)"
| "is_cached k _ = False"

fun is_consumed :: "approval_key \<Rightarrow> approval_event \<Rightarrow> bool" where
  "is_consumed k (Consumed k' t) = (k' = k)"
| "is_consumed k _ = False"

lemma check_grant_matched:
  "snd (check_grant now a o' p s) \<longleftrightarrow>
     (\<exists>g\<in>set (as_grants s). grant_key g = (a, o', p) \<and> now < gr_expires g)"
  by (auto simp: check_grant_def Let_def grant_matches_key list_ex_iff)

lemma check_grant_grants:
  "grants_of k (fst (check_grant now a o' p s)) + (if snd (check_grant now a o' p s) \<and> k = (a, o', p) then 1 else 0)
     \<le> grants_of k s"
proof -
  let ?live = "filter (\<lambda>g. gr_expires g > now) (as_grants s)"
  have live: "length (filter (\<lambda>g. grant_key g = k) ?live) \<le> grants_of k s"
    by (rule length_filter_filter_le)
  show ?thesis
  proof (cases "list_ex (grant_matches a o' p) ?live")
    case False
    then show ?thesis using live by (simp add: check_grant_def Let_def)
  next
    case True
    then have ne: "filter (\<lambda>g. grant_key g = (a, o', p)) ?live \<noteq> []"
      by (auto simp: list_ex_iff grant_matches_key filter_empty_conv)
    show ?thesis
    proof (cases "k = (a, o', p)")
      case True
      have "length (filter (\<lambda>g. grant_key g = k) (remove_first (\<lambda>g. grant_key g = k) ?live))
          = length (filter (\<lambda>g. grant_key g = k) ?live) - 1"
        by (rule count_remove_first)
      moreover have "length (filter (\<lambda>g. grant_key g = k) ?live) \<noteq> 0"
        using ne True by simp
      ultimately show ?thesis
        using \<open>list_ex _ _\<close> live True by (simp add: check_grant_def Let_def grant_matches_key)
    next
      case False
      then have "filter (\<lambda>g. grant_key g = k) (remove_first (\<lambda>g. grant_key g = (a, o', p)) ?live)
          = filter (\<lambda>g. grant_key g = k) ?live"
        by (intro filter_remove_first_other) auto
      then show ?thesis
        using \<open>list_ex _ _\<close> live False by (simp add: check_grant_def Let_def grant_matches_key)
    qed
  qed
qed

lemma approval_step_balance:
  "grants_of k (fst (approval_step op s)) + length (filter (is_consumed k) (snd (approval_step op s)))
     \<le> grants_of k s + length (filter (is_cached k) (snd (approval_step op s)))"
proof (cases op)
  case (CheckOp now a o' p)
  then show ?thesis using check_grant_grants[of k now a o' p s]
    by (auto split: prod.splits if_splits)
qed (auto simp: request_def resolve_def Let_def grant_key_def split: option.splits)

lemma approval_run_balance:
  "approval_run ops s = (s', es) \<Longrightarrow>
     grants_of k s' + length (filter (is_consumed k) es)
       \<le> grants_of k s + length (filter (is_cached k) es)"
proof (induction ops arbitrary: s es)
  case Nil
  then show ?case by simp
next
  case (Cons a as)
  obtain s1 es1 where 1: "approval_step a s = (s1, es1)" by fastforce
  obtain es2 where 2: "approval_run as s1 = (s', es2)" and es: "es = es1 @ es2"
    using Cons.prems 1 by (auto split: prod.splits)
  show ?case using Cons.IH[OF 2] approval_step_balance[of k a s] by (simp add: 1 es)
qed

text \<open>A request is resolved at most once, so approvals never outnumber requests.\<close>

lemma pending_of_insert:
  "pending_of k (s\<lparr>as_pending := hm_insert i r (as_pending s)\<rparr>) \<le>
     pending_of k s + (if (ar_agent_name (pr_meta r), ar_operation (pr_meta r), ar_path (pr_meta r)) = k
       then 1 else 0)"
proof -
  have "length (filter P (hm_insert i r m)) \<le> length (filter P m) + (if P (i, r) then 1 else 0)"
    for P :: "string \<times> pending_request \<Rightarrow> bool" and m
    by (induction m) auto
  from this[of "\<lambda>(i, r). (ar_agent_name (pr_meta r), ar_operation (pr_meta r), ar_path (pr_meta r)) = k"]
  show ?thesis by (simp add: pending_of_def)
qed

lemma filter_remove_strict:
  "hm_get m i = Some r \<Longrightarrow>
     length (filter P (hm_remove i m)) + (if P (i, r) then 1 else 0) \<le> length (filter P m)"
proof (induction m)
  case (Cons e m)
  obtain j v where e: "e = (j, v)" by fastforce
  have "length (filter P (hm_remove i m)) \<le> length (filter P m)" by (induction m) auto
  then show ?case using Cons e by (auto split: if_splits)
qed simp

lemma approval_step_requests:
  "pending_of k (fst (approval_step op s)) + length (filter (is_cached k) (snd (approval_step op s)))
     \<le> pending_of k s + length (filter (is_requested k) (snd (approval_step op s)))"
proof (cases op)
  case (RequestOp i a o' p)
  then show ?thesis
    using pending_of_insert[of k i "\<lparr>pr_meta = \<lparr>ar_id = i, ar_agent_name = a, ar_operation = o',
      ar_path = p\<rparr>, pr_sender = Some i\<rparr>" s]
    by (auto simp: request_def Let_def)
next
  case (ResolveOp now i st)
  show ?thesis
  proof (cases "hm_get (as_pending s) i")
    case None
    then show ?thesis by (simp add: ResolveOp resolve_def)
  next
    case (Some r)
    then show ?thesis
      using filter_remove_strict[OF Some, of "\<lambda>(i, r).
        (ar_agent_name (pr_meta r), ar_operation (pr_meta r), ar_path (pr_meta r)) = k"]
      by (auto simp: ResolveOp resolve_def pending_of_def)
  qed
next
  case (CheckOp now a o' p)
  then show ?thesis by (auto simp: check_grant_def Let_def pending_of_def)
qed

lemma approval_run_requests:
  "approval_run ops s = (s', es) \<Longrightarrow>
     pending_of k s' + length (filter (is_cached k) es)
       \<le> pending_of k s + length (filter (is_requested k) es)"
proof (induction ops arbitrary: s es)
  case Nil
  then show ?case by simp
next
  case (Cons a as)
  obtain s1 es1 where 1: "approval_step a s = (s1, es1)" by fastforce
  obtain es2 where 2: "approval_run as s1 = (s', es2)" and es: "es = es1 @ es2"
    using Cons.prems 1 by (auto split: prod.splits)
  show ?case using Cons.IH[OF 2] approval_step_requests[of k a s] by (simp add: 1 es)
qed

text \<open>Every cached grant stems from an approval less than one lifetime old when used.\<close>

definition grants_from :: "approval_event set \<Rightarrow> approval_store \<Rightarrow> bool" where
  "grants_from E s \<longleftrightarrow>
     (\<forall>g\<in>set (as_grants s). \<exists>t. Cached (grant_key g) t \<in> E \<and> gr_expires g = t + as_grant_ttl s)"

lemma approval_step_from:
  assumes "grants_from E s"
  shows "grants_from (E \<union> set (snd (approval_step op s))) (fst (approval_step op s))"
    and "as_grant_ttl (fst (approval_step op s)) = as_grant_ttl s"
    and "Consumed k t \<in> set (snd (approval_step op s)) \<Longrightarrow>
           \<exists>t0. Cached k t0 \<in> E \<and> t < t0 + as_grant_ttl s"
proof -
  show "as_grant_ttl (fst (approval_step op s)) = as_grant_ttl s"
    by (cases op) (auto simp: request_def resolve_def check_grant_def Let_def split: option.splits)
  show "grants_from (E \<union> set (snd (approval_step op s))) (fst (approval_step op s))"
  proof (cases op)
    case (CheckOp now a o' p)
    have "set (as_grants (fst (check_grant now a o' p s))) \<subseteq> set (as_grants s)"
      using set_remove_first[of "grant_matches a o' p" "filter (\<lambda>g. gr_expires g > now) (as_grants s)"]
      by (auto simp: check_grant_def Let_def)
    moreover have "as_grant_ttl (fst (check_grant now a o' p s)) = as_grant_ttl s"
      by (simp add: check_grant_def Let_def)
    ultimately show ?thesis using assms
      by (auto simp: CheckOp grants_from_def split: prod.splits)
  qed (use assms in \<open>auto simp: request_def resolve_def Let_def grants_from_def grant_key_def
      split: option.splits\<close>)
  show "\<exists>t0. Cached k t0 \<in> E \<and> t < t0 + as_grant_ttl s"
    if "Consumed k t \<in> set (snd (approval_step op s))"
  proof (cases op)
    case (CheckOp now a o' p)
    then have "snd (check_grant now a o' p s)" "k = (a, o', p)" "t = now"
      using that by (auto split: prod.splits if_splits)
    then show ?thesis using assms by (force simp: check_grant_matched grants_from_def)
  qed (use that in \<open>auto split: option.splits if_splits\<close>)
qed

lemma approval_run_from:
  "approval_run ops s = (s', es) \<Longrightarrow> grants_from E s \<Longrightarrow> Consumed k t \<in> set es \<Longrightarrow>
     \<exists>t0. Cached k t0 \<in> E \<union> set es \<and> t < t0 + as_grant_ttl s"
proof (induction ops arbitrary: s es E)
  case Nil
  then show ?case by simp
next
  case (Cons a as)
  obtain s1 es1 where 1: "approval_step a s = (s1, es1)" by fastforce
  obtain es2 where 2: "approval_run as s1 = (s', es2)" and es: "es = es1 @ es2"
    using Cons.prems(1) 1 by (auto split: prod.splits)
  note st = approval_step_from[OF Cons.prems(2), where op = a, unfolded 1 fst_conv snd_conv]
  show ?case
  proof (cases "Consumed k t \<in> set es1")
    case True
    from st(3)[OF this] show ?thesis by blast
  next
    case False
    then have "Consumed k t \<in> set es2" using Cons.prems(3) es by simp
    from Cons.IH[OF 2 st(1) this] show ?thesis using st(2) es by auto
  qed
qed

interpretation grant_expiry: expiring_store
  "\<lambda>t. filter (\<lambda>g. gr_expires g > t)" "\<lambda>t g. t < gr_expires g"
  by unfold_locales auto

section \<open>Properties\<close>

lemma approval_step_events: "length (snd (approval_step op s)) \<le> 1"
  by (cases op) (auto simp: Let_def split: option.splits prod.splits)

text \<open>A consumed grant was cached earlier in the history, and less than a lifetime ago.\<close>

lemma approval_run_fresh:
  "approval_run ops s = (s', pre @ Consumed k t # post) \<Longrightarrow> grants_from E s \<Longrightarrow>
     \<exists>t0. Cached k t0 \<in> E \<union> set pre \<and> t < t0 + as_grant_ttl s"
proof (induction ops arbitrary: s pre E)
  case Nil
  then show ?case by simp
next
  case (Cons a as)
  obtain s1 es1 where 1: "approval_step a s = (s1, es1)" by fastforce
  obtain es2 where 2: "approval_run as s1 = (s', es2)" and es: "pre @ Consumed k t # post = es1 @ es2"
    using Cons.prems(1) 1 by (auto split: prod.splits)
  note st = approval_step_from[OF Cons.prems(2), where op = a, unfolded 1 fst_conv snd_conv]
  show ?case
  proof (cases es1)
    case Nil
    then show ?thesis using Cons.IH[of s1 pre, OF _ st(1)] 2 es st(2) by simp
  next
    case (Cons x xs)
    then have x: "es1 = [x]" using approval_step_events[of a s] 1 by simp
    show ?thesis
    proof (cases pre)
      case Nil
      then show ?thesis using st(3)[of k t] es x by auto
    next
      case (Cons y pre')
      then have "es2 = pre' @ Consumed k t # post" "y = x" using es x by auto
      then show ?thesis using Cons.IH[of s1 pre', OF _ st(1)] 2 st(2) x Cons by auto
    qed
  qed
qed

text \<open>
  C22: from the empty store every approval is used at most once: for each agent,
  operation and path the grants consumed never outnumber the approvals, nor the
  approvals the requests, and the difference is what is still cached or pending.
\<close>

theorem approvals_single_use:
  assumes "approval_run ops (with_grant_ttl timeout ttl) = (s, es)"
  shows "length (filter (is_consumed k) es) + grants_of k s \<le> length (filter (is_cached k) es) \<and>
    length (filter (is_cached k) es) + pending_of k s \<le> length (filter (is_requested k) es)"
  using approval_run_balance[OF assms, of k] approval_run_requests[OF assms, of k]
  by (simp add: with_grant_ttl_def pending_of_def)

theorem approvals_single_use_witness:
  "length (filter (is_consumed (''a'', ''write'', ''/x''))
     (snd (approval_run
        [RequestOp ''r1'' ''a'' ''write'' ''/x'', ResolveOp 5 ''r1'' Approved,
         CheckOp 6 ''a'' ''write'' ''/x'', CheckOp 7 ''a'' ''write'' ''/x'']
        (with_grant_ttl 60 300)))) \<le>
   length (filter (is_cached (''a'', ''write'', ''/x''))
     (snd (approval_run
        [RequestOp ''r1'' ''a'' ''write'' ''/x'', ResolveOp 5 ''r1'' Approved,
         CheckOp 6 ''a'' ''write'' ''/x'', CheckOp 7 ''a'' ''write'' ''/x'']
        (with_grant_ttl 60 300))))"
  using approvals_single_use[OF prod.collapse[symmetric]] add_leD1 by blast

text \<open>
  C23: a retry that is let through consumes a grant that a reviewer's approval of the
  same agent, operation and path cached earlier, less than the grant lifetime ago; a
  denial or a timeout caches none.
\<close>

theorem approval_fresh:
  assumes "approval_run ops (with_grant_ttl timeout ttl) = (s, pre @ Consumed k t # post)"
  shows "\<exists>t0. Cached k t0 \<in> set pre \<and> t < t0 + from_secs ttl"
  using approval_run_fresh[OF assms, of "{}"] by (auto simp: grants_from_def with_grant_ttl_def)

theorem approval_fresh_witness:
  "\<exists>t0. Cached (''a'', ''write'', ''/x'') t0 \<in>
      set [Requested (''a'', ''write'', ''/x''), Cached (''a'', ''write'', ''/x'') 5] \<and>
      6 < t0 + from_secs 300"
proof (rule approval_fresh)
  show "approval_run
        [RequestOp ''r1'' ''a'' ''write'' ''/x'', ResolveOp 5 ''r1'' Approved,
         CheckOp 6 ''a'' ''write'' ''/x'']
        (with_grant_ttl 60 300) =
     (\<lparr>as_pending = [], as_grants = [], as_timeout = from_secs 60, as_grant_ttl = from_secs 300,
       as_sent = [(''r1'', Approved)]\<rparr>,
      [Requested (''a'', ''write'', ''/x''), Cached (''a'', ''write'', ''/x'') 5]
        @ Consumed (''a'', ''write'', ''/x'') 6 # [])"
    by (simp add: with_grant_ttl_def from_secs_def request_def resolve_def check_grant_def
        grant_matches_def Let_def)
qed

end
