(* ===== verification/SessionPerms.thy ===== *)
theory SessionPerms
  imports Interfaces
begin

text \<open>
  Permissions granted at run time: \<open>PermissionScope\<close> of
  \<open>navra-protocol/src/permissions.rs\<close> and the per-session grants with their
  session-keyed store of \<open>navra-auth/src/permissions/session.rs\<close>.  Times are epoch
  seconds.  Every check first drops the grants that have expired.
\<close>

datatype permission_scope =
    PathAccess string "string list"
  | ToolAccess string
  | ResourceAccess string

record dynamic_grant =
  dg_request_id :: string
  dg_scope :: permission_scope
  dg_expires_at :: "nat option"
  dg_granted_by :: string

type_synonym session_permissions = "dynamic_grant list"

definition add_grant ::
  "string \<Rightarrow> permission_scope \<Rightarrow> nat option \<Rightarrow> string \<Rightarrow> session_permissions \<Rightarrow> session_permissions" where
  "add_grant request_id scope expires_at granted_by grants =
     grants @ [\<lparr>dg_request_id = request_id, dg_scope = scope, dg_expires_at = expires_at,
                dg_granted_by = granted_by\<rparr>]"

definition grant_live :: "nat \<Rightarrow> dynamic_grant \<Rightarrow> bool" where
  "grant_live now g = (case dg_expires_at g of None \<Rightarrow> True | Some exp \<Rightarrow> exp > now)"

definition gc :: "nat \<Rightarrow> session_permissions \<Rightarrow> session_permissions" where
  "gc now grants = filter (grant_live now) grants"

fun grants_path :: "string \<Rightarrow> string \<Rightarrow> permission_scope \<Rightarrow> bool" where
  "grants_path path operation (PathAccess granted_path operations) =
     (list_ex (\<lambda>op'. op' = operation) operations \<and>
      (path = granted_path \<or> starts_with path (granted_path @ ''/'')))"
| "grants_path path operation _ = False"

fun grants_tool :: "string \<Rightarrow> permission_scope \<Rightarrow> bool" where
  "grants_tool tool_name (ToolAccess granted_tool) = (tool_name = granted_tool)"
| "grants_tool tool_name _ = False"

fun grants_resource :: "string \<Rightarrow> permission_scope \<Rightarrow> bool" where
  "grants_resource uri (ResourceAccess granted_uri) = (uri = granted_uri)"
| "grants_resource uri _ = False"

definition sp_check_path ::
  "nat \<Rightarrow> string \<Rightarrow> string \<Rightarrow> session_permissions \<Rightarrow> session_permissions \<times> bool" where
  "sp_check_path now path operation grants =
     (let grants = gc now grants in
      (grants, list_ex (\<lambda>g. grants_path path operation (dg_scope g)) grants))"

definition sp_check_tool :: "nat \<Rightarrow> string \<Rightarrow> session_permissions \<Rightarrow> session_permissions \<times> bool" where
  "sp_check_tool now tool_name grants =
     (let grants = gc now grants in
      (grants, list_ex (\<lambda>g. grants_tool tool_name (dg_scope g)) grants))"

definition sp_check_resource :: "nat \<Rightarrow> string \<Rightarrow> session_permissions \<Rightarrow> session_permissions \<times> bool" where
  "sp_check_resource now uri grants =
     (let grants = gc now grants in
      (grants, list_ex (\<lambda>g. grants_resource uri (dg_scope g)) grants))"

definition sp_list :: "nat \<Rightarrow> session_permissions \<Rightarrow> session_permissions \<times> dynamic_grant list" where
  "sp_list now grants = (let grants = gc now grants in (grants, grants))"

definition sp_count :: "nat \<Rightarrow> session_permissions \<Rightarrow> session_permissions \<times> nat" where
  "sp_count now grants = (let grants = gc now grants in (grants, length grants))"

definition sp_revoke :: "string \<Rightarrow> session_permissions \<Rightarrow> session_permissions \<times> bool" where
  "sp_revoke request_id grants =
     (let kept = filter (\<lambda>g. dg_request_id g \<noteq> request_id) grants in
      (kept, length kept < length grants))"

section \<open>The store\<close>

type_synonym session_store = "(string, session_permissions) hmap"

definition session_of :: "session_store \<Rightarrow> string \<Rightarrow> session_permissions" where
  "session_of m session_id = (case hm_get m session_id of Some p \<Rightarrow> p | None \<Rightarrow> [])"

definition with_session ::
  "string \<Rightarrow> (session_permissions \<Rightarrow> session_permissions \<times> 'r) \<Rightarrow> session_store \<Rightarrow> session_store \<times> 'r" where
  "with_session session_id f m =
     (let (p, r) = f (session_of m session_id) in (hm_insert session_id p m, r))"

definition store_add_grant ::
  "string \<Rightarrow> string \<Rightarrow> permission_scope \<Rightarrow> nat option \<Rightarrow> string \<Rightarrow> session_store \<Rightarrow> session_store" where
  "store_add_grant session_id request_id scope expires_at granted_by m =
     fst (with_session session_id
       (\<lambda>perms. (add_grant request_id scope expires_at granted_by perms, ())) m)"

definition store_check_path ::
  "nat \<Rightarrow> string \<Rightarrow> string \<Rightarrow> string \<Rightarrow> session_store \<Rightarrow> session_store \<times> bool" where
  "store_check_path now session_id path operation m =
     with_session session_id (sp_check_path now path operation) m"

definition store_check_tool :: "nat \<Rightarrow> string \<Rightarrow> string \<Rightarrow> session_store \<Rightarrow> session_store \<times> bool" where
  "store_check_tool now session_id tool_name m = with_session session_id (sp_check_tool now tool_name) m"

definition store_check_resource :: "nat \<Rightarrow> string \<Rightarrow> string \<Rightarrow> session_store \<Rightarrow> session_store \<times> bool" where
  "store_check_resource now session_id uri m = with_session session_id (sp_check_resource now uri) m"

definition store_list :: "nat \<Rightarrow> string \<Rightarrow> session_store \<Rightarrow> session_store \<times> dynamic_grant list" where
  "store_list now session_id m = with_session session_id (sp_list now) m"

definition store_remove_session :: "string \<Rightarrow> session_store \<Rightarrow> session_store" where
  "store_remove_session session_id m = hm_remove session_id m"

definition store_revoke :: "string \<Rightarrow> string \<Rightarrow> session_store \<Rightarrow> session_store \<times> bool" where
  "store_revoke session_id request_id m = with_session session_id (sp_revoke request_id) m"

section \<open>Contracts\<close>

interpretation session_expiry: expiring_store gc grant_live
  by unfold_locales (auto simp: gc_def grant_live_def split: option.splits)

datatype session_op =
    Grant string permission_scope "nat option" string
  | CheckPath nat string string
  | CheckTool nat string
  | CheckResource nat string
  | ListGrants nat
  | Revoke string
  | RemoveSession

fun session_act :: "string \<Rightarrow> session_op \<Rightarrow> session_store \<Rightarrow> session_store" where
  "session_act sid (Grant r sc e by') m = store_add_grant sid r sc e by' m"
| "session_act sid (CheckPath now p o') m = fst (store_check_path now sid p o' m)"
| "session_act sid (CheckTool now t) m = fst (store_check_tool now sid t m)"
| "session_act sid (CheckResource now u) m = fst (store_check_resource now sid u m)"
| "session_act sid (ListGrants now) m = fst (store_list now sid m)"
| "session_act sid (Revoke r) m = fst (store_revoke sid r m)"
| "session_act sid RemoveSession m = store_remove_session sid m"

fun session_local :: "session_op \<Rightarrow> session_permissions \<Rightarrow> session_permissions" where
  "session_local (Grant r sc e by') p = add_grant r sc e by' p"
| "session_local (CheckPath now _ _) p = gc now p"
| "session_local (CheckTool now _) p = gc now p"
| "session_local (CheckResource now _) p = gc now p"
| "session_local (ListGrants now) p = gc now p"
| "session_local (Revoke r) p = filter (\<lambda>g. dg_request_id g \<noteq> r) p"
| "session_local RemoveSession p = []"

lemma session_of_insert [simp]:
  "session_of (hm_insert s p m) s' = (if s' = s then p else session_of m s')"
  by (simp add: session_of_def)

lemma session_of_remove [simp]:
  "session_of (hm_remove s m) s' = (if s' = s then [] else session_of m s')"
  by (simp add: session_of_def)

lemmas session_ops = store_add_grant_def store_check_path_def store_check_tool_def
  store_check_resource_def store_list_def store_revoke_def store_remove_session_def with_session_def
  sp_check_path_def sp_check_tool_def sp_check_resource_def sp_list_def sp_revoke_def Let_def

interpretation sessions: keyed_store session_of session_act "\<lambda>_. session_local"
proof unfold_locales
  fix sid a m
  show "session_of (session_act sid a m) sid = session_local a (session_of m sid)"
    by (cases a) (simp_all add: session_ops)
next
  fix sid' sid :: string and a m
  assume "sid' \<noteq> sid"
  then show "session_of (session_act sid a m) sid' = session_of m sid'"
    by (cases a) (simp_all add: session_ops)
qed

fun grants_of_op :: "session_op \<Rightarrow> dynamic_grant set" where
  "grants_of_op (Grant r sc e by') =
     {\<lparr>dg_request_id = r, dg_scope = sc, dg_expires_at = e, dg_granted_by = by'\<rparr>}"
| "grants_of_op _ = {}"

text \<open>Grants come only from grant operations of the same session.\<close>

lemma session_local_subset: "set (session_local a p) \<subseteq> set p \<union> grants_of_op a"
  by (cases a) (auto simp: add_grant_def gc_def)

lemma session_run_subset:
  "set (fold session_local as p) \<subseteq> set p \<union> \<Union> (grants_of_op ` set as)"
proof (induction as arbitrary: p)
  case Nil
  then show ?case by simp
next
  case (Cons a as)
  show ?case using Cons.IH[of "session_local a p"] session_local_subset[of a p] by fastforce
qed

lemma session_run_origin:
  assumes "g \<in> set (session_of (fold (\<lambda>(k, a). session_act k a) tr []) sid)"
  shows "\<exists>a. (sid, a) \<in> set tr \<and> g \<in> grants_of_op a"
proof -
  have "g \<in> set (fold session_local (map snd (filter (\<lambda>e. fst e = sid) tr)) [])"
    using assms unfolding sessions.run_projection[of tr "[]" sid] by (simp add: session_of_def)
  then have "\<exists>a\<in>set (map snd (filter (\<lambda>e. fst e = sid) tr)). g \<in> grants_of_op a"
    using session_run_subset[of "map snd (filter (\<lambda>e. fst e = sid) tr)" "[]"]
    by (auto simp: subset_iff)
  then obtain e where "e \<in> set tr" "fst e = sid" "g \<in> grants_of_op (snd e)" by auto
  then show ?thesis by (intro exI[of _ "snd e"]) (auto simp: prod_eq_iff)
qed

lemma store_check_path_iff:
  "snd (store_check_path now sid path o' m) \<longleftrightarrow>
     (\<exists>g\<in>set (session_of m sid). grant_live now g \<and> grants_path path o' (dg_scope g))"
  by (auto simp: session_ops gc_def list_ex_iff)

lemma store_check_tool_iff:
  "snd (store_check_tool now sid t m) \<longleftrightarrow>
     (\<exists>g\<in>set (session_of m sid). grant_live now g \<and> dg_scope g = ToolAccess t)"
proof -
  have "grants_tool t sc \<longleftrightarrow> sc = ToolAccess t" for sc by (cases sc) auto
  then show ?thesis by (auto simp: session_ops gc_def list_ex_iff)
qed

section \<open>Properties\<close>

text \<open>What an operation leaves of a grant that is already there.\<close>

fun survives :: "session_op \<Rightarrow> dynamic_grant \<Rightarrow> bool" where
  "survives (Grant r sc e by') g = True"
| "survives (CheckPath now p o') g = grant_live now g"
| "survives (CheckTool now t) g = grant_live now g"
| "survives (CheckResource now u) g = grant_live now g"
| "survives (ListGrants now) g = grant_live now g"
| "survives (Revoke r) g = (dg_request_id g \<noteq> r)"
| "survives RemoveSession g = False"

lemma session_local_set: "set (session_local a p) = {g \<in> set p. survives a g} \<union> grants_of_op a"
  by (cases a) (auto simp: add_grant_def gc_def)

lemma session_grants_exact:
  "g \<in> set (fold session_local ops []) \<longleftrightarrow>
     (\<exists>pre a post. ops = pre @ a # post \<and> g \<in> grants_of_op a \<and> list_all (\<lambda>b. survives b g) post)"
    (is "_ \<longleftrightarrow> ?R ops")
proof (induction ops rule: rev_induct)
  case (snoc a ops)
  have "?R (ops @ [a]) \<longleftrightarrow> g \<in> grants_of_op a \<or> survives a g \<and> ?R ops"
  proof
    assume "?R (ops @ [a])"
    then obtain pre b post where r: "ops @ [a] = pre @ b # post" "g \<in> grants_of_op b"
      "list_all (\<lambda>b. survives b g) post" by blast
    show "g \<in> grants_of_op a \<or> survives a g \<and> ?R ops"
    proof (cases post rule: rev_cases)
      case (snoc post' c)
      then have "ops = pre @ b # post'" "c = a" using r(1) by auto
      then show ?thesis using r(2,3) snoc by auto
    qed (use r in auto)
  next
    assume "g \<in> grants_of_op a \<or> survives a g \<and> ?R ops"
    then show "?R (ops @ [a])"
    proof
      assume "survives a g \<and> ?R ops"
      then obtain pre b post where "ops = pre @ b # post" "g \<in> grants_of_op b"
        "list_all (\<lambda>b. survives b g) (post @ [a])" by auto
      then show ?thesis by (metis append_Cons append_assoc)
    qed (rule exI[of _ ops], auto)
  qed
  then show ?case using snoc by (auto simp: session_local_set)
qed simp

text \<open>
  a session's path check succeeds exactly when the same session was given, and
  has not since lost by revocation, expiry or removal, a live grant that covers the
  path and operation; what other sessions do never matters.
\<close>

theorem session_path_grant_exact:
  "snd (store_check_path now sid path o' (fold (\<lambda>(k, a). session_act k a) tr [])) \<longleftrightarrow>
     (\<exists>pre a post g. map snd (filter (\<lambda>e. fst e = sid) tr) = pre @ a # post \<and>
        g \<in> grants_of_op a \<and> list_all (\<lambda>b. survives b g) post \<and>
        grant_live now g \<and> grants_path path o' (dg_scope g))"
proof -
  have "session_of (fold (\<lambda>(k, a). session_act k a) tr []) sid
      = fold session_local (map snd (filter (\<lambda>e. fst e = sid) tr)) []"
    using sessions.run_projection[of tr "[]" sid] by (simp add: session_of_def)
  then show ?thesis
    unfolding store_check_path_iff by (auto simp: Bex_def session_grants_exact)
qed

text \<open>A grant covers paths that leave its directory through parent components.\<close>

lemma session_grant_escapes:
  "grants_path ''/work/../etc/passwd'' ''read'' (PathAccess ''/work'' [''read''])"
  by (simp add: starts_with_def)

end
