(* ===== verification/ProcessTable.thy ===== *)
theory ProcessTable
  imports Interfaces "HOL-Library.Multiset"
begin

text \<open>
  The process table of \<open>navra-auth/src/process.rs\<close>: per agent, who it was when it
  first appeared and what it has called since.  Counters are \<open>u64\<close> and wrap in
  the release build.
\<close>

record process_entry =
  pe_name :: string
  pe_permissions :: string
  pe_did :: "string option"
  pe_ring :: "nat option"
  pe_obo_sub :: "string option"
  pe_call_count :: nat
  pe_denied_count :: nat
  pe_connected_at :: instant
  pe_last_active :: instant
  pe_active_calls :: "string list"
  pe_tools_used :: "string set"

record process_snapshot =
  ps_name :: string
  ps_permissions :: string
  ps_did :: "string option"
  ps_ring :: "nat option"
  ps_obo_sub :: "string option"
  ps_call_count :: nat
  ps_denied_count :: nat
  ps_uptime_secs :: nat
  ps_idle_secs :: nat
  ps_active_calls :: "string list"

type_synonym process_table = "(string, process_entry) hmap"

definition new_entry ::
  "instant \<Rightarrow> string \<Rightarrow> string \<Rightarrow> string option \<Rightarrow> nat option \<Rightarrow> string option \<Rightarrow> process_entry" where
  "new_entry now agent_name permissions did ring obo_sub =
     \<lparr>pe_name = agent_name, pe_permissions = permissions, pe_did = did, pe_ring = ring,
      pe_obo_sub = obo_sub, pe_call_count = 0, pe_denied_count = 0, pe_connected_at = now,
      pe_last_active = now, pe_active_calls = [], pe_tools_used = {}\<rparr>"

definition record_call_with_obo ::
  "instant \<Rightarrow> string \<Rightarrow> string \<Rightarrow> string option \<Rightarrow> nat option \<Rightarrow> string \<Rightarrow> string option
     \<Rightarrow> process_table \<Rightarrow> process_table" where
  "record_call_with_obo now agent_name permissions did ring tool_name obo_sub entries =
     (let entry = (case hm_get entries agent_name of
                     Some e \<Rightarrow> e
                   | None \<Rightarrow> new_entry now agent_name permissions did ring obo_sub)
      in hm_insert agent_name
           (entry\<lparr>pe_call_count := wrap_u64 (pe_call_count entry + 1),
                  pe_last_active := now,
                  pe_active_calls := pe_active_calls entry @ [tool_name],
                  pe_tools_used := insert tool_name (pe_tools_used entry)\<rparr>) entries)"

definition record_call ::
  "instant \<Rightarrow> string \<Rightarrow> string \<Rightarrow> string option \<Rightarrow> nat option \<Rightarrow> string \<Rightarrow> process_table \<Rightarrow> process_table" where
  "record_call now agent_name permissions did ring tool_name entries =
     record_call_with_obo now agent_name permissions did ring tool_name None entries"

definition record_denied_with_obo ::
  "instant \<Rightarrow> string \<Rightarrow> string \<Rightarrow> string option \<Rightarrow> nat option \<Rightarrow> string option
     \<Rightarrow> process_table \<Rightarrow> process_table" where
  "record_denied_with_obo now agent_name permissions did ring obo_sub entries =
     (let entry = (case hm_get entries agent_name of
                     Some e \<Rightarrow> e
                   | None \<Rightarrow> new_entry now agent_name permissions did ring obo_sub)
      in hm_insert agent_name
           (entry\<lparr>pe_denied_count := wrap_u64 (pe_denied_count entry + 1), pe_last_active := now\<rparr>)
           entries)"

definition record_denied ::
  "instant \<Rightarrow> string \<Rightarrow> string \<Rightarrow> string option \<Rightarrow> nat option \<Rightarrow> process_table \<Rightarrow> process_table" where
  "record_denied now agent_name permissions did ring entries =
     record_denied_with_obo now agent_name permissions did ring None entries"

definition complete_call :: "string \<Rightarrow> string \<Rightarrow> process_table \<Rightarrow> process_table" where
  "complete_call agent_name tool_name entries =
     (case hm_get entries agent_name of
        None \<Rightarrow> entries
      | Some entry \<Rightarrow>
          hm_insert agent_name
            (entry\<lparr>pe_active_calls := remove_first (\<lambda>t. t = tool_name) (pe_active_calls entry)\<rparr>)
            entries)"

definition snapshot :: "instant \<Rightarrow> process_table \<Rightarrow> process_snapshot list" where
  "snapshot now entries =
     map (\<lambda>(k, e). \<lparr>ps_name = pe_name e, ps_permissions = pe_permissions e, ps_did = pe_did e,
       ps_ring = pe_ring e, ps_obo_sub = pe_obo_sub e, ps_call_count = pe_call_count e,
       ps_denied_count = pe_denied_count e,
       ps_uptime_secs = as_secs (now - pe_connected_at e),
       ps_idle_secs = as_secs (now - pe_last_active e),
       ps_active_calls = pe_active_calls e\<rparr>) entries"

definition process_count :: "process_table \<Rightarrow> nat" where
  "process_count entries = length entries"

definition tools_used :: "string \<Rightarrow> process_table \<Rightarrow> string set" where
  "tools_used agent_name entries =
     (case hm_get entries agent_name of Some e \<Rightarrow> pe_tools_used e | None \<Rightarrow> {})"

section \<open>Isolation and accounting\<close>

datatype process_op =
    Call instant string "string option" "nat option" string "string option"
  | DeniedCall instant string "string option" "nat option" "string option"
  | Complete string

fun process_act :: "string \<Rightarrow> process_op \<Rightarrow> process_table \<Rightarrow> process_table" where
  "process_act a (Call now p d r t obo) m = record_call_with_obo now a p d r t obo m"
| "process_act a (DeniedCall now p d r obo) m = record_denied_with_obo now a p d r obo m"
| "process_act a (Complete t) m = complete_call a t m"

definition entry_or_new :: "string \<Rightarrow> process_op \<Rightarrow> process_entry option \<Rightarrow> process_entry option" where
  "entry_or_new a op v =
     (case v of Some e \<Rightarrow> Some e
      | None \<Rightarrow>
          (case op of
             Call now p d r t obo \<Rightarrow> Some (new_entry now a p d r obo)
           | DeniedCall now p d r obo \<Rightarrow> Some (new_entry now a p d r obo)
           | Complete t \<Rightarrow> None))"

fun entry_update :: "process_op \<Rightarrow> process_entry \<Rightarrow> process_entry" where
  "entry_update (Call now p d r t obo) e =
     e\<lparr>pe_call_count := wrap_u64 (pe_call_count e + 1), pe_last_active := now,
       pe_active_calls := pe_active_calls e @ [t], pe_tools_used := insert t (pe_tools_used e)\<rparr>"
| "entry_update (DeniedCall now p d r obo) e =
     e\<lparr>pe_denied_count := wrap_u64 (pe_denied_count e + 1), pe_last_active := now\<rparr>"
| "entry_update (Complete t) e =
     e\<lparr>pe_active_calls := remove_first (\<lambda>t'. t' = t) (pe_active_calls e)\<rparr>"

definition process_local :: "string \<Rightarrow> process_op \<Rightarrow> process_entry option \<Rightarrow> process_entry option" where
  "process_local a op v = map_option (entry_update op) (entry_or_new a op v)"

lemmas process_ops = record_call_with_obo_def record_denied_with_obo_def complete_call_def
  process_local_def entry_or_new_def Let_def

interpretation processes: keyed_store hm_get process_act process_local
proof unfold_locales
  fix a op and m :: process_table
  show "hm_get (process_act a op m) a = process_local a op (hm_get m a)"
    by (cases op; cases "hm_get m a") (simp_all add: process_ops)
next
  fix a' a :: string and op and m :: process_table
  assume "a' \<noteq> a"
  then show "hm_get (process_act a op m) a' = hm_get m a'"
    by (cases op; cases "hm_get m a") (simp_all add: process_ops)
qed

fun is_call :: "process_op \<Rightarrow> bool" where
  "is_call (Call now p d r t obo) = True"
| "is_call _ = False"

fun is_denial :: "process_op \<Rightarrow> bool" where
  "is_denial (DeniedCall now p d r obo) = True"
| "is_denial _ = False"

fun called_tool :: "process_op \<Rightarrow> string option" where
  "called_tool (Call now p d r t obo) = Some t"
| "called_tool _ = None"

definition entry_inv :: "process_op list \<Rightarrow> process_entry \<Rightarrow> bool" where
  "entry_inv ops e \<longleftrightarrow>
     pe_call_count e = wrap_u64 (length (filter is_call ops))
     \<and> pe_denied_count e = wrap_u64 (length (filter is_denial ops))
     \<and> pe_tools_used e = {t. Some t \<in> called_tool ` set ops}
     \<and> mset (pe_active_calls e) \<subseteq># mset (List.map_filter called_tool ops)"

lemma wrap_u64_Suc: "wrap_u64 (Suc (wrap_u64 n)) = wrap_u64 (Suc n)"
  by (simp add: wrap_u64_def mod_Suc_eq)

lemma map_filter_append: "List.map_filter f (xs @ ys) = List.map_filter f xs @ List.map_filter f ys"
  by (simp add: map_filter_def)

lemma map_filter_single:
  "List.map_filter f [x] = (case f x of None \<Rightarrow> [] | Some y \<Rightarrow> [y])"
  by (cases "f x") (simp_all add: map_filter_def)

lemma mset_remove_first: "mset (remove_first (\<lambda>t. t = x) xs) = mset xs - {#x#}"
  by (induction xs) (auto simp: add_mset_remove_trivial_If)

lemma entry_inv_update: "entry_inv ops e \<Longrightarrow> entry_inv (ops @ [op]) (entry_update op e)"
proof (cases op)
  case (Call now p d r t obo)
  assume "entry_inv ops e"
  then show ?thesis
    by (auto simp: Call entry_inv_def wrap_u64_Suc map_filter_append map_filter_single image_iff)
next
  case (DeniedCall now p d r obo)
  assume "entry_inv ops e"
  then show ?thesis
    by (auto simp: DeniedCall entry_inv_def wrap_u64_Suc map_filter_append map_filter_single image_iff)
next
  case (Complete t)
  assume inv: "entry_inv ops e"
  then have "mset (pe_active_calls e) - {#t#} \<subseteq># mset (List.map_filter called_tool ops)"
    by (meson diff_subset_eq_self entry_inv_def subset_mset.order_trans)
  then show ?thesis using inv
    by (auto simp: Complete entry_inv_def map_filter_append map_filter_single mset_remove_first image_iff)
qed

definition slot_inv :: "string \<Rightarrow> process_op list \<Rightarrow> process_entry option \<Rightarrow> bool" where
  "slot_inv a ops v \<longleftrightarrow>
     (case v of
        None \<Rightarrow> \<forall>op\<in>set ops. \<not> is_call op \<and> \<not> is_denial op
      | Some e \<Rightarrow> entry_inv ops e \<and> pe_name e = a)"

lemma entry_inv_new:
  assumes "\<forall>op\<in>set ops. \<not> is_call op \<and> \<not> is_denial op"
  shows "entry_inv ops (new_entry now a p d r obo)"
proof -
  have nt: "called_tool op = None" if "op \<in> set ops" for op
    using assms that by (cases op) auto
  have "List.map_filter called_tool ops = []"
    using nt by (auto simp: map_filter_def filter_empty_conv)
  moreover have "filter is_call ops = []" "filter is_denial ops = []"
    using assms by (auto simp: filter_empty_conv)
  ultimately show ?thesis using nt
    by (auto simp: entry_inv_def new_entry_def wrap_u64_def image_iff)
qed

lemma entry_update_name [simp]: "pe_name (entry_update op e) = pe_name e"
  by (cases op) simp_all

lemma slot_inv_step: "slot_inv a ops v \<Longrightarrow> slot_inv a (ops @ [op]) (process_local a op v)"
proof (cases v)
  case None
  assume inv: "slot_inv a ops v"
  then have "entry_inv ops (new_entry now a p d r obo)" for now p d r obo
    using entry_inv_new None by (simp add: slot_inv_def)
  then show ?thesis using inv None entry_inv_update[of ops _ op]
    by (cases op) (auto simp: slot_inv_def process_local_def entry_or_new_def new_entry_def
        simp del: entry_update.simps)
next
  case (Some e)
  assume "slot_inv a ops v"
  then show ?thesis using Some entry_inv_update[of ops e op]
    by (auto simp: slot_inv_def process_local_def entry_or_new_def)
qed

lemma slot_inv_run:
  "slot_inv a pre v \<Longrightarrow> slot_inv a (pre @ ops) (fold (process_local a) ops v)"
proof (induction ops arbitrary: pre v)
  case (Cons op ops)
  show ?case using Cons.IH[OF slot_inv_step[OF Cons.prems, of op]] by simp
qed simp

lemma process_run_inv:
  "slot_inv a (map snd (filter (\<lambda>e. fst e = a) tr))
     (hm_get (fold (\<lambda>(k, op). process_act k op) tr []) a)"
  using slot_inv_run[of a "[]" None "map snd (filter (\<lambda>e. fst e = a) tr)"]
  by (simp add: processes.run_projection slot_inv_def)

text \<open>The identity recorded at the first call is never overwritten.\<close>

definition identity_of :: "process_entry \<Rightarrow> string \<times> string option \<times> nat option \<times> string option" where
  "identity_of e = (pe_permissions e, pe_did e, pe_ring e, pe_obo_sub e)"

lemma process_identity_kept:
  "hm_get m a = Some e \<Longrightarrow>
     \<exists>e'. hm_get (fold (\<lambda>(k, op). process_act k op) tr m) a = Some e' \<and> identity_of e' = identity_of e"
proof (induction tr arbitrary: m e)
  case (Cons x tr)
  obtain k op where x: "x = (k, op)" by fastforce
  have "\<exists>e'. hm_get (process_act k op m) a = Some e' \<and> identity_of e' = identity_of e"
  proof (cases "k = a")
    case True
    then show ?thesis using Cons.prems processes.slot_same[of a op m]
      by (cases op) (auto simp: process_local_def entry_or_new_def identity_of_def)
  next
    case False
    then show ?thesis using Cons.prems processes.slot_other[of a k op m] by simp
  qed
  then show ?case using Cons.IH x by fastforce
qed simp

section \<open>Properties\<close>

text \<open>
  the entry of an agent accounts exactly for the operations recorded under its
  name, whatever the other agents do: the calls and the denials modulo 2^64, the set
  of tools, calls in flight among those it made, and an entry exists as soon as it
  made one call or was denied one.
\<close>

theorem process_accounting:
  "ops = map snd (filter (\<lambda>e. fst e = a) tr) \<Longrightarrow>
     (case hm_get (fold (\<lambda>(k, op). process_act k op) tr []) a of
        None \<Rightarrow> filter is_call ops = [] \<and> filter is_denial ops = []
      | Some e \<Rightarrow>
          pe_name e = a \<and>
          pe_call_count e = length (filter is_call ops) mod 2 ^ 64 \<and>
          pe_denied_count e = length (filter is_denial ops) mod 2 ^ 64 \<and>
          pe_tools_used e = {t. Some t \<in> called_tool ` set ops} \<and>
          mset (pe_active_calls e) \<subseteq># mset (List.map_filter called_tool ops))"
  using process_run_inv[of a tr]
  by (auto simp: slot_inv_def entry_inv_def wrap_u64_def filter_empty_conv simp del: set_map
      split: option.splits)

theorem process_accounting_witness:
  "\<exists>e. hm_get (fold (\<lambda>(k, op). process_act k op)
      [(''a'', Call 1 ''dev'' None None ''grep'' None), (''b'', DeniedCall 2 ''ro'' None None None)] []) ''b''
        = Some e \<and> pe_denied_count e = 1 \<and> pe_call_count e = 0"
  using process_accounting[OF refl, where a = "''b''" and
      tr = "[(''a'', Call 1 ''dev'' None None ''grep'' None), (''b'', DeniedCall 2 ''ro'' None None None)]"]
  by (auto simp: record_call_with_obo_def record_denied_with_obo_def Let_def split: option.splits)

end
