(* ===== verification/FlowErrors.thy ===== *)
theory FlowErrors
  imports Prelude
begin

text \<open>
  The error type of the flow engine, \<open>navra-flow/src/error.rs\<close>.  Errors of
  third-party crates are carried as their text.
\<close>

datatype flow_error =
    Agent string string
  | InvalidFlow string
  | MaxHops nat
  | UnknownTarget string
  | NoEntry
  | CyclicDependency string
  | TaskFailed string string
  | UnknownSpecialist string
  | IfcViolation string string string
  | UnknownAgent string
  | MailboxFull string
  | BlackboardKeyNotFound string
  | BackEdgeExhausted string string nat
  | UnknownDependency string
  | TeammateNotFound string
  | A2aError string string
  | TomlError string
  | DbError string
  | IoError string
  | SerdeError string
  | OtherError string

end
