(* ===== verification/FlowDag.thy ===== *)
theory FlowDag
  imports Labels FlowErrors "HOL-Library.While_Combinator" "HOL-Library.List_Lexorder" "HOL-Library.Char_ord"
begin

text \<open>
  The dependency graph of a flow, from \<open>navra-flow/src/task.rs\<close> and
  \<open>navra-flow/src/dag.rs\<close>: construction with validation of the references,
  Kahn's algorithm with a queue kept sorted and popped from its end, the ready
  tasks and the transitive dependents.  A hash map is an association list in
  its iteration order; the loops are \<open>while_option\<close>, so that returning is a
  value and is proved.  Verification settings (\<open>'v\<close>) and floating-point
  numbers (\<open>'f\<close>) are opaque here.
\<close>

section \<open>Tasks\<close>

record back_edge_definition =
  bd_target :: string
  bd_condition :: string
  bd_max_iterations :: nat

record ('v, 'f) task =
  tk_id :: string
  tk_specialist :: string
  tk_model :: "string option"
  tk_mandate :: string
  tk_depends_on :: "string list"
  tk_inputs :: "(string, string) hmap"
  tk_expected_output :: "string option"
  tk_success_criteria :: "string list"
  tk_max_retries :: nat
  tk_back_edges :: "back_edge_definition list"
  tk_verification :: "'v option"
  tk_temperature :: "'f option"
  tk_approval_required :: bool

definition default_max_retries :: nat where
  "default_max_retries = 2"

record ('v, 'f) task_definition =
  td_id :: string
  td_specialist :: string
  td_model :: "string option"
  td_mandate :: string
  td_depends_on :: "string list"
  td_expected_output :: "string option"
  td_success_criteria :: "string list"
  td_back_edges :: "back_edge_definition list"
  td_generates_tasks :: bool
  td_verification :: "'v option"
  td_tools :: "string list option"
  td_operations :: "string list option"
  td_temperature :: "'f option"
  td_max_tokens :: "nat option"
  td_force_tool_iterations :: "nat option"
  td_approval_required :: bool

definition task_of_definition :: "('v, 'f) task_definition \<Rightarrow> ('v, 'f) task" where
  "task_of_definition def =
     \<lparr>tk_id = td_id def, tk_specialist = td_specialist def, tk_model = td_model def,
      tk_mandate = td_mandate def, tk_depends_on = td_depends_on def, tk_inputs = [],
      tk_expected_output = td_expected_output def, tk_success_criteria = td_success_criteria def,
      tk_max_retries = default_max_retries, tk_back_edges = td_back_edges def,
      tk_verification = td_verification def, tk_temperature = td_temperature def,
      tk_approval_required = td_approval_required def\<rparr>"

record ('v, 'f) dependency_graph =
  dg_tasks :: "(string, ('v, 'f) task) hmap"
  dg_dependents :: "(string, string list) hmap"
  dg_topo_order :: "string list"

section \<open>Kahn's algorithm\<close>

definition or_insert_zero :: "string \<Rightarrow> (string, nat) hmap \<Rightarrow> (string, nat) hmap" where
  "or_insert_zero k m = (case hm_get m k of None \<Rightarrow> hm_insert k 0 m | Some _ \<Rightarrow> m)"

definition count_up :: "string \<Rightarrow> (string, nat) hmap \<Rightarrow> (string, nat) hmap" where
  "count_up k m = hm_insert k ((case hm_get m k of None \<Rightarrow> 0 | Some n \<Rightarrow> n) + 1) m"

definition in_degrees :: "(string, ('v, 'f) task) hmap \<Rightarrow> (string, nat) hmap" where
  "in_degrees tasks =
     (let zero = fold (\<lambda>(k, t) m. fold or_insert_zero (tk_depends_on t) (or_insert_zero (tk_id t) m))
                   tasks []
      in fold (\<lambda>(k, t) m. fold (\<lambda>_. count_up (tk_id t)) (tk_depends_on t) m) tasks zero)"

text \<open>The inner loop: release the tasks that depend on \<open>node\<close>.\<close>

definition release_task ::
  "string \<Rightarrow> ('v, 'f) task \<Rightarrow> (string, nat) hmap \<times> string list \<Rightarrow> (string, nat) hmap \<times> string list" where
  "release_task node t s =
     (let (deg, queue) = s in
      if list_ex (\<lambda>d. d = node) (tk_depends_on t) then
        (let n = (case hm_get deg (tk_id t) of Some n \<Rightarrow> n | None \<Rightarrow> 0) - 1 in
         (hm_insert (tk_id t) n deg, if n = 0 then queue @ [tk_id t] else queue))
      else s)"

definition kahn_step ::
  "(string, ('v, 'f) task) hmap \<Rightarrow> string list \<times> string list \<times> (string, nat) hmap
     \<Rightarrow> string list \<times> string list \<times> (string, nat) hmap" where
  "kahn_step tasks s =
     (let (queue, result, deg) = s;
          node = last queue;
          (deg', queue') = fold (\<lambda>(k, t). release_task node t) tasks (deg, butlast queue)
      in (sort queue', result @ [node], deg'))"

definition topological_sort :: "(string, ('v, 'f) task) hmap \<Rightarrow> (flow_error + string list) option" where
  "topological_sort tasks =
     (let deg = in_degrees tasks;
          queue = sort (map fst (filter (\<lambda>(k, n). n = 0) deg))
      in case while_option (\<lambda>(queue, result, deg). queue \<noteq> []) (kahn_step tasks) (queue, [], deg) of
           None \<Rightarrow> None
         | Some (_, result, _) \<Rightarrow>
             Some (if length result \<noteq> length tasks
                   then Inl (CyclicDependency (join_with '', ''
                          (filter (\<lambda>k. k \<notin> set result) (map fst tasks))))
                   else Inr result))"

section \<open>The graph\<close>

definition task_map_of :: "('v, 'f) task list \<Rightarrow> (string, ('v, 'f) task) hmap" where
  "task_map_of tasks = fold (\<lambda>t m. hm_insert (tk_id t) t m) tasks []"

definition unknown_dependency :: "(string, ('v, 'f) task) hmap \<Rightarrow> string option" where
  "unknown_dependency m =
     List.find (\<lambda>dep. hm_get m dep = None) (concat (map (\<lambda>(k, t). tk_depends_on t) m))"

definition push_dependent ::
  "string \<Rightarrow> string \<Rightarrow> (string, string list) hmap \<Rightarrow> (string, string list) hmap" where
  "push_dependent dep i m =
     hm_insert dep ((case hm_get m dep of None \<Rightarrow> [] | Some l \<Rightarrow> l) @ [i]) m"

definition dependents_of :: "(string, ('v, 'f) task) hmap \<Rightarrow> (string, string list) hmap" where
  "dependents_of m =
     fold (\<lambda>(k, t) d. fold (\<lambda>dep. push_dependent dep (tk_id t)) (tk_depends_on t) d) m []"

definition graph_new :: "('v, 'f) task list \<Rightarrow> (flow_error + ('v, 'f) dependency_graph) option" where
  "graph_new tasks =
     (let task_map = task_map_of tasks in
      case unknown_dependency task_map of
        Some dep \<Rightarrow> Some (Inl (UnknownDependency dep))
      | None \<Rightarrow>
          (case topological_sort task_map of
             None \<Rightarrow> None
           | Some (Inl e) \<Rightarrow> Some (Inl e)
           | Some (Inr order) \<Rightarrow>
               Some (Inr \<lparr>dg_tasks = task_map, dg_dependents = dependents_of task_map,
                          dg_topo_order = order\<rparr>)))"

definition get_ready_tasks :: "('v, 'f) dependency_graph \<Rightarrow> string set \<Rightarrow> ('v, 'f) task list" where
  "get_ready_tasks g completed =
     filter (\<lambda>t. tk_id t \<notin> completed \<and> list_all (\<lambda>dep. dep \<in> completed) (tk_depends_on t))
       (map snd (dg_tasks g))"

definition get_task :: "('v, 'f) dependency_graph \<Rightarrow> string \<Rightarrow> ('v, 'f) task option" where
  "get_task g i = hm_get (dg_tasks g) i"

definition graph_len :: "('v, 'f) dependency_graph \<Rightarrow> nat" where
  "graph_len g = length (dg_tasks g)"

text \<open>The traversal of \<open>all_dependents\<close>: result and stack (its end is the top).\<close>

definition visit :: "string \<Rightarrow> string list \<times> string list \<Rightarrow> string list \<times> string list" where
  "visit dep s =
     (let (result, stack) = s in
      if dep \<in> set result then s else (result @ [dep], stack @ [dep]))"

definition dependents_step ::
  "(string, string list) hmap \<Rightarrow> string list \<times> string list \<Rightarrow> string list \<times> string list" where
  "dependents_step m s =
     (let (result, stack) = s; current = last stack in
      case hm_get m current of
        None \<Rightarrow> (result, butlast stack)
      | Some deps \<Rightarrow> fold visit deps (result, butlast stack))"

definition all_dependents :: "('v, 'f) dependency_graph \<Rightarrow> string \<Rightarrow> string set option" where
  "all_dependents g task_id =
     (case while_option (\<lambda>(result, stack). stack \<noteq> []) (dependents_step (dg_dependents g))
            ([], [task_id]) of
        None \<Rightarrow> None
      | Some (result, _) \<Rightarrow> Some (set result))"

section \<open>Facts about Kahn's algorithm\<close>

definition deps_of :: "(string, ('v, 'f) task) hmap \<Rightarrow> string \<Rightarrow> string list" where
  "deps_of m k = (case hm_get m k of Some t \<Rightarrow> tk_depends_on t | None \<Rightarrow> [])"

definition tasks_ok :: "(string, ('v, 'f) task) hmap \<Rightarrow> bool" where
  "tasks_ok m \<longleftrightarrow> hm_wf m \<and>
     (\<forall>(k, t)\<in>set m. tk_id t = k \<and> (\<forall>d\<in>set (tk_depends_on t). d \<in> fst ` set m))"

text \<open>\<open>d\<close> before \<open>k\<close> wherever task \<open>k\<close> depends on \<open>d\<close>.\<close>

definition depends_rel :: "(string, ('v, 'f) task) hmap \<Rightarrow> (string \<times> string) set" where
  "depends_rel m = {(d, k). k \<in> fst ` set m \<and> d \<in> set (deps_of m k)}"

lemma deps_of_mem: "hm_wf m \<Longrightarrow> (k, t) \<in> set m \<Longrightarrow> deps_of m k = tk_depends_on t"
  by (simp add: deps_of_def hm_get_mem[symmetric])

lemma or_insert_zero_get:
  "hm_get (or_insert_zero k m) k' =
     (case hm_get m k' of Some n \<Rightarrow> Some n | None \<Rightarrow> if k' = k then Some 0 else None)"
  by (auto simp: or_insert_zero_def split: option.split)

lemma or_insert_zero_wf: "hm_wf m \<Longrightarrow> hm_wf (or_insert_zero k m)"
  by (simp add: or_insert_zero_def split: option.split)

lemma zero_fold_get:
  "hm_get (fold or_insert_zero ks m) k =
     (case hm_get m k of Some n \<Rightarrow> Some n | None \<Rightarrow> if k \<in> set ks then Some 0 else None)"
  by (induction ks arbitrary: m) (auto simp: or_insert_zero_get split: option.splits)

lemma zero_fold_wf: "hm_wf m \<Longrightarrow> hm_wf (fold or_insert_zero ks m)"
  by (rule fold_invariant) (auto intro: or_insert_zero_wf)

lemma zero_fold_tasks:
  "fold (\<lambda>(k, t) m. fold or_insert_zero (tk_depends_on t) (or_insert_zero (tk_id t) m)) tasks m
     = fold or_insert_zero (concat (map (\<lambda>(k, t). tk_id t # tk_depends_on t) tasks)) m"
  by (induction tasks arbitrary: m) auto

lemma count_fold_get:
  "hm_get m i = Some n \<Longrightarrow>
     hm_get (fold (\<lambda>_. count_up i) ds m) k = (if k = i then Some (n + length ds) else hm_get m k)"
  by (induction ds arbitrary: m n) (auto simp: count_up_def)

lemma count_fold_wf: "hm_wf m \<Longrightarrow> hm_wf (fold (\<lambda>_. count_up i) ds m)"
  by (rule fold_invariant) (auto simp: count_up_def)

lemma count_tasks_get:
  assumes "\<forall>(k, t)\<in>set ts. tk_id t = k \<and> hm_get m k = Some 0" "distinct (map fst ts)"
  shows "hm_get (fold (\<lambda>(k, t) m. fold (\<lambda>_. count_up (tk_id t)) (tk_depends_on t) m) ts m) k =
     (case map_of ts k of Some t \<Rightarrow> Some (length (tk_depends_on t)) | None \<Rightarrow> hm_get m k)"
  using assms
proof (induction ts arbitrary: m)
  case Nil
  then show ?case by simp
next
  case (Cons e ts)
  obtain j t where e: "e = (j, t)" by fastforce
  let ?m = "fold (\<lambda>_. count_up j) (tk_depends_on t) m"
  have j: "hm_get m j = Some 0" "tk_id t = j" "j \<notin> fst ` set ts" using Cons.prems e by auto
  have g: "hm_get ?m k = (if k = j then Some (length (tk_depends_on t)) else hm_get m k)" for k
    using count_fold_get[OF j(1), of "tk_depends_on t" k] by simp
  have "tk_id u = i \<and> hm_get ?m i = Some 0" if "(i, u) \<in> set ts" for i u
    using bspec[OF Cons.prems(1), of "(i, u)"] image_eqI[OF _ that, of i fst] that j(3)
    by (auto simp: g)
  then have "\<forall>(k, t)\<in>set ts. tk_id t = k \<and> hm_get ?m k = Some 0" by blast
  from Cons.IH[OF this] Cons.prems(2)
  have "hm_get (fold (\<lambda>(k, t) m. fold (\<lambda>_. count_up (tk_id t)) (tk_depends_on t) m) ts ?m) k =
     (case map_of ts k of Some t \<Rightarrow> Some (length (tk_depends_on t)) | None \<Rightarrow> hm_get ?m k)"
    by (simp add: e)
  moreover have "map_of ts j = None" using j(3) by (simp add: map_of_eq_None_iff)
  ultimately show ?case using j(2) by (cases "k = j") (simp_all add: e g split: option.split)
qed

lemma task_keys:
  "tasks_ok m \<Longrightarrow> set (concat (map (\<lambda>(k, t). tk_id t # tk_depends_on t) m)) = fst ` set m"
proof -
  assume ok: "tasks_ok m"
  have "set (concat (map (\<lambda>(k, t). tk_id t # tk_depends_on t) m))
      = (\<Union>(k, t)\<in>set m. insert (tk_id t) (set (tk_depends_on t)))" by auto
  also have "\<dots> = fst ` set m"
  proof
    show "(\<Union>(k, t)\<in>set m. insert (tk_id t) (set (tk_depends_on t))) \<subseteq> fst ` set m"
    proof clarify
      fix x k t assume kt: "(k, t) \<in> set m" and x: "x \<in> insert (tk_id t) (set (tk_depends_on t))"
      from ok kt have "tk_id t = k" "set (tk_depends_on t) \<subseteq> fst ` set m"
        unfolding tasks_ok_def by blast+
      with x kt show "x \<in> fst ` set m" by (metis fst_conv image_eqI insertE subsetD)
    qed
    show "fst ` set m \<subseteq> (\<Union>(k, t)\<in>set m. insert (tk_id t) (set (tk_depends_on t)))"
    proof clarify
      fix k t assume "(k, t) \<in> set m"
      with ok show "fst (k, t) \<in> (\<Union>(k, t)\<in>set m. insert (tk_id t) (set (tk_depends_on t)))"
        unfolding tasks_ok_def by (intro UN_I[of "(k, t)"]) auto
    qed
  qed
  finally show ?thesis .
qed

lemma in_degrees_get:
  assumes "tasks_ok m"
  shows "hm_get (in_degrees m) k = map_option (\<lambda>t. length (tk_depends_on t)) (hm_get m k)"
    and "hm_wf (in_degrees m)"
proof -
  define zero where
    "zero = fold or_insert_zero (concat (map (\<lambda>(k, t). tk_id t # tk_depends_on t) m)) []"
  have z: "hm_get zero k = (if k \<in> fst ` set m then Some 0 else None)" for k
    unfolding zero_def zero_fold_get task_keys[OF assms] by simp
  have zwf: "hm_wf zero" unfolding zero_def by (rule zero_fold_wf) simp
  have eq: "in_degrees m = fold (\<lambda>(k, t) m. fold (\<lambda>_. count_up (tk_id t)) (tk_depends_on t) m) m zero"
    unfolding in_degrees_def zero_fold_tasks Let_def zero_def ..
  have "tk_id t = k \<and> hm_get zero k = Some 0" if "(k, t) \<in> set m" for k t
    using assms that unfolding z by (force simp: tasks_ok_def)
  then have pre: "\<forall>(k, t)\<in>set m. tk_id t = k \<and> hm_get zero k = Some 0" by blast
  have dm: "distinct (map fst m)" using assms by (simp add: tasks_ok_def hm_wf_def)
  show "hm_get (in_degrees m) k = map_option (\<lambda>t. length (tk_depends_on t)) (hm_get m k)"
    unfolding eq count_tasks_get[OF pre dm] z
    by (auto simp: map_of_eq_None_iff split: option.splits)
  show "hm_wf (in_degrees m)"
    unfolding eq by (rule fold_invariant[of hm_wf]) (auto simp: zwf intro: count_fold_wf)
qed

lemma release_fold:
  assumes "\<forall>(k, t)\<in>set ts. tk_id t = k \<and> hm_get deg k = Some (c k)" "distinct (map fst ts)"
    and "fold (\<lambda>(k, t). release_task node t) ts (deg, q) = (deg', q')"
  shows "hm_get deg' k =
      (case map_of ts k of
         Some t \<Rightarrow> if node \<in> set (tk_depends_on t) then Some (c k - 1) else hm_get deg k
       | None \<Rightarrow> hm_get deg k)"
    and "q' = q @ map fst (filter (\<lambda>(k, t). node \<in> set (tk_depends_on t) \<and> c k - 1 = 0) ts)"
proof -
  have "hm_get deg' k =
      (case map_of ts k of
         Some t \<Rightarrow> if node \<in> set (tk_depends_on t) then Some (c k - 1) else hm_get deg k
       | None \<Rightarrow> hm_get deg k) \<and>
    q' = q @ map fst (filter (\<lambda>(k, t). node \<in> set (tk_depends_on t) \<and> c k - 1 = 0) ts)"
    using assms
  proof (induction ts arbitrary: deg q)
    case Nil
    then show ?case by simp
  next
    case (Cons e ts)
    obtain j t where e: "e = (j, t)" by fastforce
    have j: "tk_id t = j" "hm_get deg j = Some (c j)" "j \<notin> fst ` set ts" using Cons.prems e by auto
    have jn: "map_of ts j = None" using j(3) by (simp add: map_of_eq_None_iff)
    show ?case
    proof (cases "node \<in> set (tk_depends_on t)")
      case False
      then have "release_task node t (deg, q) = (deg, q)"
        by (simp add: release_task_def list_ex_iff)
      then have "fold (\<lambda>(k, t). release_task node t) ts (deg, q) = (deg', q')"
        using Cons.prems(3) by (simp add: e)
      from Cons.IH[OF _ _ this] Cons.prems(1,2) j jn False show ?thesis
        by (cases "k = j") (simp_all add: e)
    next
      case True
      let ?deg = "hm_insert j (c j - 1) deg" and ?q = "if c j - 1 = 0 then q @ [j] else q"
      have "release_task node t (deg, q) = (?deg, ?q)"
        using True j by (auto simp: release_task_def list_ex_iff Let_def)
      then have f: "fold (\<lambda>(k, t). release_task node t) ts (?deg, ?q) = (deg', q')"
        using Cons.prems(3) by (simp add: e)
      have "tk_id u = i \<and> hm_get ?deg i = Some (c i)" if "(i, u) \<in> set ts" for i u
        using bspec[OF Cons.prems(1), of "(i, u)"] image_eqI[OF _ that, of i fst] that j(3)
        by auto
      then have "\<forall>(k, t)\<in>set ts. tk_id t = k \<and> hm_get ?deg k = Some (c k)" by blast
      from Cons.IH[OF this _ f] Cons.prems(2) j jn True show ?thesis
        by (cases "k = j") (simp_all add: e split: option.splits)
    qed
  qed
  then show "hm_get deg' k =
      (case map_of ts k of
         Some t \<Rightarrow> if node \<in> set (tk_depends_on t) then Some (c k - 1) else hm_get deg k
       | None \<Rightarrow> hm_get deg k)"
    "q' = q @ map fst (filter (\<lambda>(k, t). node \<in> set (tk_depends_on t) \<and> c k - 1 = 0) ts)"
    by auto
qed

text \<open>How many of a task's dependencies are still to come.\<close>

definition missing_deps :: "(string, ('v, 'f) task) hmap \<Rightarrow> string set \<Rightarrow> string \<Rightarrow> nat" where
  "missing_deps m R k = length (deps_of m k) - card (set (deps_of m k) \<inter> R)"

lemma card_deps_le: "card (set (deps_of m k) \<inter> R) \<le> length (deps_of m k)"
  using card_mono[of "set (deps_of m k)" "set (deps_of m k) \<inter> R"] card_length[of "deps_of m k"] by simp

lemma missing_zero_subset: "missing_deps m R k = 0 \<Longrightarrow> set (deps_of m k) \<subseteq> R"
proof -
  assume "missing_deps m R k = 0"
  then have "card (set (deps_of m k)) \<le> card (set (deps_of m k) \<inter> R)"
    using card_length[of "deps_of m k"] by (simp add: missing_deps_def)
  then have "set (deps_of m k) \<inter> R = set (deps_of m k)"
    by (intro card_seteq) auto
  then show ?thesis by blast
qed

lemma missing_insert:
  assumes "node \<notin> R"
  shows "missing_deps m (insert node R) k =
     (if node \<in> set (deps_of m k) then missing_deps m R k - 1 else missing_deps m R k)"
    and "node \<in> set (deps_of m k) \<Longrightarrow> 0 < missing_deps m R k"
proof -
  show "missing_deps m (insert node R) k =
     (if node \<in> set (deps_of m k) then missing_deps m R k - 1 else missing_deps m R k)"
    using assms by (simp add: missing_deps_def Int_insert_right)
  show "0 < missing_deps m R k" if "node \<in> set (deps_of m k)"
    using missing_zero_subset[of m R k] that assms by auto
qed

definition kahn_inv ::
  "(string, ('v, 'f) task) hmap \<Rightarrow> string list \<times> string list \<times> (string, nat) hmap \<Rightarrow> bool" where
  "kahn_inv m s \<longleftrightarrow> (case s of (queue, result, deg) \<Rightarrow>
     distinct (result @ queue) \<and> set (result @ queue) \<subseteq> fst ` set m \<and>
     (\<forall>k\<in>fst ` set m. hm_get deg k = Some (missing_deps m (set result) k) \<and>
        (k \<in> set (result @ queue) \<longleftrightarrow> missing_deps m (set result) k = 0)) \<and>
     (\<forall>i<length result. set (deps_of m (result ! i)) \<subseteq> set (take i result)))"

lemma hm_get_key: "hm_wf m \<Longrightarrow> k \<in> fst ` set m \<Longrightarrow> \<exists>t. hm_get m k = Some t \<and> (k, t) \<in> set m"
  by (force simp: hm_get_mem)

lemma kahn_inv_init:
  assumes "tasks_ok m"
  shows "kahn_inv m (sort (map fst (filter (\<lambda>(k, n). n = 0) (in_degrees m))), [], in_degrees m)"
proof -
  note d = in_degrees_get[OF assms]
  have wf: "hm_wf m" using assms by (simp add: tasks_ok_def)
  let ?q = "map fst (filter (\<lambda>(k, n). n = 0) (in_degrees m))"
  have "k \<in> set ?q \<longleftrightarrow> (k, 0) \<in> set (in_degrees m)" for k by force
  then have q: "k \<in> set ?q \<longleftrightarrow> hm_get (in_degrees m) k = Some 0" for k
    using d(2) by (simp only: hm_get_mem)
  have "distinct ?q" using d(2) by (simp add: hm_wf_def distinct_map_filter)
  moreover have key: "k \<in> fst ` set m" if "hm_get (in_degrees m) k = Some 0" for k
    using that d(1)[of k] by (force simp: dest: map_of_SomeD)
  moreover have miss: "hm_get (in_degrees m) k = Some (missing_deps m {} k)" if "k \<in> fst ` set m" for k
    using hm_get_key[OF wf that] d(1)[of k] by (auto simp: missing_deps_def deps_of_def)
  moreover have "set ?q \<subseteq> fst ` set m" using q key by blast
  moreover have "k \<in> set ?q \<longleftrightarrow> missing_deps m {} k = 0" if "k \<in> fst ` set m" for k
    using q miss[OF that] by simp
  ultimately show ?thesis
    unfolding kahn_inv_def by (simp del: set_map)
qed

lemma kahn_inv_step:
  assumes ok: "tasks_ok m" and inv: "kahn_inv m (queue, result, deg)" and ne: "queue \<noteq> []"
  shows "kahn_inv m (kahn_step m (queue, result, deg))"
proof -
  define node where "node = last queue"
  have queue: "queue = butlast queue @ [node]" using ne by (simp add: node_def)
  obtain deg' q' where f: "fold (\<lambda>(k, t). release_task node t) m (deg, butlast queue) = (deg', q')"
    by fastforce
  have step: "kahn_step m (queue, result, deg) = (sort q', result @ [node], deg')"
    by (simp add: kahn_step_def Let_def f flip: node_def)
  let ?R = "set result" and ?R' = "insert node (set result)"
  have wf: "hm_wf m" using ok by (simp add: tasks_ok_def)
  have dist: "distinct (result @ queue)" and sub: "set (result @ queue) \<subseteq> fst ` set m"
    and deg: "\<And>k. k \<in> fst ` set m \<Longrightarrow> hm_get deg k = Some (missing_deps m ?R k)"
    and zero: "\<And>k. k \<in> fst ` set m \<Longrightarrow> k \<in> set (result @ queue) \<longleftrightarrow> missing_deps m ?R k = 0"
    and ord: "\<forall>i<length result. set (deps_of m (result ! i)) \<subseteq> set (take i result)"
    using inv by (auto simp: kahn_inv_def)
  have nodeR: "node \<notin> ?R" using dist by (subst (asm) queue) auto
  have nodeK: "node \<in> fst ` set m" using sub by (subst (asm) queue) auto
  note mi = missing_insert[OF nodeR]
  have pre: "\<forall>(k, t)\<in>set m. tk_id t = k \<and> hm_get deg k = Some (missing_deps m ?R k)"
  proof clarify
    fix k t assume kt: "(k, t) \<in> set m"
    with ok have "tk_id t = k" unfolding tasks_ok_def by blast
    moreover have "k \<in> fst ` set m" using image_eqI[OF _ kt, of k fst] by simp
    ultimately show "tk_id t = k \<and> hm_get deg k = Some (missing_deps m ?R k)" using deg by blast
  qed
  have dm: "distinct (map fst m)" using wf by (simp add: hm_wf_def)
  note rel = release_fold[OF pre dm f]
  let ?new = "map fst (filter (\<lambda>(k, t). node \<in> set (tk_depends_on t) \<and> missing_deps m ?R k - 1 = 0) m)"
  have new: "k \<in> set ?new \<longleftrightarrow> k \<in> fst ` set m \<and> node \<in> set (deps_of m k) \<and> missing_deps m ?R k = 1"
    for k
  proof -
    have "k \<in> set ?new \<longleftrightarrow> (\<exists>t. (k, t) \<in> set m \<and> node \<in> set (tk_depends_on t) \<and> missing_deps m ?R k - 1 = 0)"
      by force
    also have "\<dots> \<longleftrightarrow> k \<in> fst ` set m \<and> node \<in> set (deps_of m k) \<and> missing_deps m ?R k - 1 = 0"
      using deps_of_mem[OF wf] by force
    also have "\<dots> \<longleftrightarrow> k \<in> fst ` set m \<and> node \<in> set (deps_of m k) \<and> missing_deps m ?R k = 1"
      using mi(2)[of m k] by auto
    finally show ?thesis .
  qed
  have set_q': "set (result @ [node] @ q') = set (result @ queue) \<union> set ?new"
    unfolding rel(2) using arg_cong[OF queue, of set] by auto
  have dq: "distinct (result @ [node] @ q')"
  proof -
    have "distinct ?new" using dm by (rule distinct_map_filter)
    moreover have "k \<notin> set (result @ queue)" if "k \<in> set ?new" for k
      using that unfolding new using zero[of k] by simp
    then have "set ?new \<inter> set (result @ queue) = {}" by blast
    moreover have "distinct (result @ butlast queue @ [node])" using dist queue by simp
    ultimately show ?thesis
      unfolding rel(2) using arg_cong[OF queue, of set] by auto
  qed
  have "set (result @ [node] @ q') \<subseteq> fst ` set m" unfolding set_q' using sub new by auto
  moreover have "hm_get deg' k = Some (missing_deps m ?R' k) \<and>
      (k \<in> set (result @ [node] @ q') \<longleftrightarrow> missing_deps m ?R' k = 0)" if k: "k \<in> fst ` set m" for k
  proof
    obtain t where t: "hm_get m k = Some t" using hm_get_key[OF wf k] by blast
    then show "hm_get deg' k = Some (missing_deps m ?R' k)"
      using rel(1)[of k] mi(1)[of m k] deg[OF k] by (simp add: deps_of_def)
    have "k \<in> set (result @ [node] @ q') \<longleftrightarrow> missing_deps m ?R k = 0 \<or> k \<in> set ?new"
      unfolding set_q' using zero[OF k] by blast
    also have "\<dots> \<longleftrightarrow> missing_deps m ?R' k = 0" using mi(1)[of m k] mi(2)[of m k] new k by auto
    finally show "k \<in> set (result @ [node] @ q') \<longleftrightarrow> missing_deps m ?R' k = 0" .
  qed
  moreover have "set (deps_of m node) \<subseteq> ?R"
    using zero[OF nodeK] missing_zero_subset by (metis queue in_set_conv_decomp append_assoc)
  then have "\<forall>i<length (result @ [node]). set (deps_of m ((result @ [node]) ! i)) \<subseteq> set (take i (result @ [node]))"
    using ord by (auto simp: nth_append less_Suc_eq)
  ultimately show ?thesis
    using dq unfolding step kahn_inv_def by auto
qed

lemma kahn_inv_bound: "kahn_inv m (queue, result, deg) \<Longrightarrow> length (result @ queue) \<le> length m"
proof -
  assume "kahn_inv m (queue, result, deg)"
  then have "card (set (result @ queue)) \<le> card (fst ` set m)" "distinct (result @ queue)"
    unfolding kahn_inv_def by (auto intro: card_mono)
  moreover have "card (fst ` set m) \<le> length m" by (metis card_length length_map set_map)
  ultimately show ?thesis by (metis distinct_card le_trans)
qed

lemma kahn_result:
  assumes "tasks_ok m"
  obtains result deg where "topological_sort m = Some
      (if length result \<noteq> length m
       then Inl (CyclicDependency (join_with '', '' (filter (\<lambda>k. k \<notin> set result) (map fst m)))) else Inr result)"
    and "kahn_inv m ([], result, deg)"
proof -
  let ?b = "\<lambda>(queue, result, deg). queue \<noteq> []"
  let ?s = "(sort (map fst (filter (\<lambda>(k, n). n = 0) (in_degrees m))), [], in_degrees m)"
  have step: "kahn_inv m (kahn_step m s) \<and>
      length m - length (fst (snd (kahn_step m s))) < length m - length (fst (snd s))"
    if "kahn_inv m s" "?b s" for s
  proof -
    obtain queue result deg where s: "s = (queue, result, deg)" by (cases s)
    have ne: "queue \<noteq> []" using that s by simp
    have "length (result @ queue) \<le> length m" using kahn_inv_bound that(1) s by blast
    moreover have "fst (snd (kahn_step m s)) = result @ [last queue]"
      by (simp add: s kahn_step_def Let_def split: prod.split)
    ultimately show ?thesis
      using kahn_inv_step[OF assms, of queue result deg] that ne s by (cases queue) auto
  qed
  obtain s where s: "while_option ?b (kahn_step m) ?s = Some s"
    using measure_while_option_Some[of "kahn_inv m" ?b "kahn_step m"
        "\<lambda>s. length m - length (fst (snd s))" ?s] step kahn_inv_init[OF assms] by blast
  obtain queue result deg where q: "s = (queue, result, deg)" by (cases s)
  have "kahn_inv m s"
    using while_option_rule[of "kahn_inv m", OF _ s kahn_inv_init[OF assms]] step by blast
  moreover have "queue = []" using while_option_stop[OF s] q by simp
  ultimately show thesis
    using s q by (intro that[of result deg]) (simp_all add: topological_sort_def Let_def)
qed

text \<open>What an order returned by the sort guarantees.\<close>

definition valid_order :: "(string, ('v, 'f) task) hmap \<Rightarrow> string list \<Rightarrow> bool" where
  "valid_order m order \<longleftrightarrow> distinct order \<and> set order = fst ` set m \<and>
     (\<forall>i<length order. set (deps_of m (order ! i)) \<subseteq> set (take i order))"

lemma topological_sort_returns: "tasks_ok m \<Longrightarrow> \<exists>r. topological_sort m = Some r"
  by (erule kahn_result) auto

lemma topological_sort_sound:
  assumes "tasks_ok m" "topological_sort m = Some (Inr order)"
  shows "valid_order m order"
proof -
  obtain result deg where r: "topological_sort m = Some
      (if length result \<noteq> length m
       then Inl (CyclicDependency (join_with '', '' (filter (\<lambda>k. k \<notin> set result) (map fst m)))) else Inr result)"
    and inv: "kahn_inv m ([], result, deg)"
    using kahn_result[OF assms(1)] by blast
  have o: "order = result" "length result = length m" using r assms(2) by (auto split: if_splits)
  have d: "distinct result" "set result \<subseteq> fst ` set m" using inv by (auto simp: kahn_inv_def)
  have "card (fst ` set m) \<le> card (set result)"
    using d(1) o(2) by (metis card_length distinct_card length_map set_map)
  then have "set result = fst ` set m" using d(2) by (intro card_seteq) auto
  then show ?thesis using inv d o(1) by (simp add: valid_order_def kahn_inv_def)
qed

text \<open>A dependency listed twice is counted twice and released once, so its task is never released.\<close>

lemma topological_sort_distinct:
  assumes "tasks_ok m" "topological_sort m = Some (Inr order)" "(k, t) \<in> set m"
  shows "distinct (tk_depends_on t)"
proof -
  obtain result deg where r: "topological_sort m = Some
      (if length result \<noteq> length m
       then Inl (CyclicDependency (join_with '', '' (filter (\<lambda>k. k \<notin> set result) (map fst m)))) else Inr result)"
    and inv: "kahn_inv m ([], result, deg)"
    using kahn_result[OF assms(1)] by blast
  have "order = result" using r assms(2) by (auto split: if_splits)
  moreover have "k \<in> fst ` set m" using image_eqI[OF _ assms(3), of k fst] by simp
  ultimately have "k \<in> set result" "missing_deps m (set result) k = 0"
    using topological_sort_sound[OF assms(1,2)] inv by (auto simp: valid_order_def kahn_inv_def)
  then have "length (deps_of m k) \<le> card (set (deps_of m k))"
    using card_mono[of "set (deps_of m k)" "set (deps_of m k) \<inter> set result"]
    by (simp add: missing_deps_def)
  then have "distinct (deps_of m k)" by (simp add: card_distinct card_length le_antisym)
  then show ?thesis using deps_of_mem assms(1,3) by (metis tasks_ok_def)
qed

lemma valid_order_acyclic:
  assumes "valid_order m order"
  shows "acyclic (depends_rel m)"
proof -
  define pos where "pos k = (THE i. i < length order \<and> order ! i = k)" for k
  have pos: "pos (order ! i) = i" if "i < length order" for i
    using assms that unfolding pos_def valid_order_def
    by (intro the_equality) (auto simp: nth_eq_iff_index_eq)
  have "pos d < pos k" if "(d, k) \<in> depends_rel m" for d k
  proof -
    have "k \<in> set order" "d \<in> set (deps_of m k)"
      using that assms by (auto simp: depends_rel_def valid_order_def)
    then obtain i where i: "i < length order" "order ! i = k" by (auto simp: in_set_conv_nth)
    then have "d \<in> set (take i order)"
      using assms \<open>d \<in> set (deps_of m k)\<close> by (auto simp: valid_order_def)
    then obtain j where "j < i" "order ! j = d" by (auto simp: in_set_conv_nth)
    then show ?thesis using pos[of i] pos[of j] i by auto
  qed
  then have "depends_rel m \<subseteq> measure pos" by auto
  then show ?thesis by (meson wf_acyclic wf_measure wf_subset)
qed

lemma topological_sort_complete:
  assumes ok: "tasks_ok m" and ac: "acyclic (depends_rel m)"
    and dist: "\<forall>(k, t)\<in>set m. distinct (tk_depends_on t)"
  shows "\<exists>order. topological_sort m = Some (Inr order)"
proof -
  have wf: "hm_wf m" using ok by (simp add: tasks_ok_def)
  obtain result deg where r: "topological_sort m = Some
      (if length result \<noteq> length m
       then Inl (CyclicDependency (join_with '', '' (filter (\<lambda>k. k \<notin> set result) (map fst m)))) else Inr result)"
    and inv: "kahn_inv m ([], result, deg)"
    using kahn_result[OF ok] by blast
  have "finite (depends_rel m)"
  proof (rule finite_subset)
    show "depends_rel m \<subseteq> (\<Union>k\<in>fst ` set m. (\<lambda>d. (d, k)) ` set (deps_of m k))"
      by (auto simp: depends_rel_def)
  qed auto
  then have wfr: "wf (depends_rel m)" using ac by (rule finite_acyclic_wf)
  have "k \<in> set result" if "k \<in> fst ` set m" for k
    using wfr that
  proof (induction k rule: wf_induct_rule)
    case (less k)
    have mem: "d \<in> set result" if "d \<in> set (deps_of m k)" for d
    proof -
      obtain t where "(k, t) \<in> set m" using less.prems by auto
      then have "d \<in> fst ` set m"
        using ok that deps_of_mem[OF wf] unfolding tasks_ok_def by fastforce
      then show ?thesis using less that by (auto simp: depends_rel_def)
    qed
    have "distinct (deps_of m k)"
      using dist less.prems deps_of_mem[OF wf] by fastforce
    moreover have "set (deps_of m k) \<inter> set result = set (deps_of m k)" using mem by blast
    ultimately have "missing_deps m (set result) k = 0"
      by (simp add: missing_deps_def distinct_card)
    then show ?case using inv less.prems by (auto simp: kahn_inv_def)
  qed
  then have "set result = fst ` set m" using inv by (auto simp: kahn_inv_def)
  moreover have "distinct result" "distinct (map fst m)"
    using inv wf by (simp_all add: kahn_inv_def hm_wf_def)
  ultimately have "length result = length m"
    by (metis distinct_card length_map set_map)
  then show ?thesis using r by simp
qed

section \<open>Facts about the graph\<close>

lemma task_map_fold:
  assumes "hm_wf m" "\<forall>e\<in>set m. tk_id (snd e) = fst e"
  shows "hm_wf (fold (\<lambda>t m. hm_insert (tk_id t) t m) tasks m) \<and>
    (\<forall>e\<in>set (fold (\<lambda>t m. hm_insert (tk_id t) t m) tasks m). tk_id (snd e) = fst e)"
  using assms
proof (induction tasks arbitrary: m)
  case (Cons t tasks)
  have "\<forall>e\<in>set (hm_insert (tk_id t) t m). tk_id (snd e) = fst e"
    using hm_all_insert[of m "\<lambda>k v. tk_id v = k" "tk_id t" t] Cons.prems(2) by blast
  then show ?case using Cons.IH[of "hm_insert (tk_id t) t m"] Cons.prems(1) by simp
qed simp

lemma task_map_ok:
  assumes "unknown_dependency (task_map_of tasks) = None"
  shows "tasks_ok (task_map_of tasks)"
proof -
  let ?m = "task_map_of tasks"
  have m: "hm_wf ?m" "\<forall>e\<in>set ?m. tk_id (snd e) = fst e"
    using task_map_fold[of "[]" tasks] by (simp_all add: task_map_of_def)
  have known: "hm_get ?m d \<noteq> None" if "d \<in> set (concat (map (\<lambda>(k, t). tk_depends_on t) ?m))" for d
    by (rule find_None_D[OF assms[unfolded unknown_dependency_def] that])
  show ?thesis
    unfolding tasks_ok_def
  proof (intro conjI m(1), clarify)
    fix k t assume kt: "(k, t) \<in> set ?m"
    have "d \<in> fst ` set ?m" if "d \<in> set (tk_depends_on t)" for d
    proof -
      have "d \<in> set (concat (map (\<lambda>(k, t). tk_depends_on t) ?m))" using kt that by fastforce
      then have "hm_get ?m d \<noteq> None" by (rule known)
      then show ?thesis by (metis map_of_eq_None_iff)
    qed
    then show "tk_id t = k \<and> (\<forall>d\<in>set (tk_depends_on t). d \<in> fst ` set ?m)"
      using m(2) kt by fastforce
  qed
qed

lemma graph_new_Inr:
  assumes "graph_new tasks = Some (Inr g)"
  shows "tasks_ok (dg_tasks g)" "dg_tasks g = task_map_of tasks"
    "dg_dependents g = dependents_of (dg_tasks g)" "valid_order (dg_tasks g) (dg_topo_order g)"
proof -
  obtain order where o: "unknown_dependency (task_map_of tasks) = None"
    "topological_sort (task_map_of tasks) = Some (Inr order)"
    "g = \<lparr>dg_tasks = task_map_of tasks, dg_dependents = dependents_of (task_map_of tasks),
          dg_topo_order = order\<rparr>"
    using assms by (auto simp: graph_new_def Let_def split: option.splits sum.splits)
  note ok = task_map_ok[OF o(1)]
  show "tasks_ok (dg_tasks g)" "dg_tasks g = task_map_of tasks"
    "dg_dependents g = dependents_of (dg_tasks g)" "valid_order (dg_tasks g) (dg_topo_order g)"
    using ok topological_sort_sound[OF ok o(2)] by (simp_all add: o(3))
qed

definition children :: "(string, string list) hmap \<Rightarrow> string \<Rightarrow> string list" where
  "children m k = (case hm_get m k of None \<Rightarrow> [] | Some l \<Rightarrow> l)"

lemma children_push:
  "children (push_dependent dep i m) k = (if k = dep then children m k @ [i] else children m k)"
  by (simp add: children_def push_dependent_def)

lemma children_push_list:
  "set (children (fold (\<lambda>dep. push_dependent dep i) ds m) k) =
     set (children m k) \<union> (if k \<in> set ds then {i} else {})"
  by (induction ds arbitrary: m) (auto simp: children_push)

lemma children_push_tasks:
  "set (children (fold (\<lambda>(k, t) d. fold (\<lambda>dep. push_dependent dep (tk_id t)) (tk_depends_on t) d) ts m) k) =
     set (children m k) \<union> {tk_id t | t j. (j, t) \<in> set ts \<and> k \<in> set (tk_depends_on t)}"
proof (induction ts arbitrary: m)
  case (Cons e ts)
  obtain j t where "e = (j, t)" by fastforce
  then show ?case using Cons[of "fold (\<lambda>dep. push_dependent dep (tk_id t)) (tk_depends_on t) m"]
    by (auto simp: children_push_list)
qed simp

lemma children_dependents:
  assumes "tasks_ok m"
  shows "set (children (dependents_of m) k) = {j. (k, j) \<in> depends_rel m}"
proof -
  have wf: "hm_wf m" using assms by (simp add: tasks_ok_def)
  have id: "tk_id t = j" if "(j, t) \<in> set m" for j t
    using assms that unfolding tasks_ok_def by blast
  have "set (children (dependents_of m) k) = {tk_id t | t j. (j, t) \<in> set m \<and> k \<in> set (tk_depends_on t)}"
    unfolding dependents_of_def children_push_tasks by (simp add: children_def)
  also have "\<dots> = {j. (k, j) \<in> depends_rel m}"
    using id deps_of_mem[OF wf] unfolding depends_rel_def by force
  finally show ?thesis .
qed

lemma visit_fold:
  assumes "fold visit ds (result, stack) = (result', stack')"
  shows "\<exists>new. result' = result @ new \<and> stack' = stack @ new \<and> set new = set ds - set result \<and>
    distinct new"
  using assms
proof (induction ds arbitrary: result stack)
  case (Cons d ds)
  show ?case
  proof (cases "d \<in> set result")
    case True
    then have "visit d (result, stack) = (result, stack)" by (simp add: visit_def)
    then have "fold visit ds (result, stack) = (result', stack')" using Cons.prems by simp
    from Cons.IH[OF this] True show ?thesis by auto
  next
    case False
    then have "visit d (result, stack) = (result @ [d], stack @ [d])" by (simp add: visit_def)
    then have "fold visit ds (result @ [d], stack @ [d]) = (result', stack')" using Cons.prems by simp
    from Cons.IH[OF this] obtain new where "result' = (result @ [d]) @ new" "stack' = (stack @ [d]) @ new"
      "set new = set ds - set (result @ [d])" "distinct new" by blast
    then show ?thesis using False by (intro exI[of _ "d # new"]) auto
  qed
qed simp

definition child_rel :: "(string, string list) hmap \<Rightarrow> (string \<times> string) set" where
  "child_rel m = {(k, j). j \<in> set (children m k)}"

definition dfs_inv :: "(string, string list) hmap \<Rightarrow> string \<Rightarrow> string list \<times> string list \<Rightarrow> bool" where
  "dfs_inv m start s \<longleftrightarrow> (case s of (result, stack) \<Rightarrow>
     distinct result \<and> set result \<subseteq> (child_rel m)\<^sup>+ `` {start} \<and>
     set stack \<subseteq> insert start (set result) \<and>
     (\<forall>x\<in>insert start (set result) - set stack. set (children m x) \<subseteq> set result))"

lemma dependents_step_eq:
  "dependents_step m (result, stack) = fold visit (children m (last stack)) (result, butlast stack)"
  by (simp add: dependents_step_def children_def split: option.split)

lemma dfs_inv_step:
  assumes inv: "dfs_inv m start (result, stack)" and ne: "stack \<noteq> []"
  obtains new where "dependents_step m (result, stack) = (result @ new, butlast stack @ new)"
    and "set new = set (children m (last stack)) - set result"
    and "dfs_inv m start (result @ new, butlast stack @ new)"
proof -
  let ?x = "last stack"
  obtain result' stack' where e: "dependents_step m (result, stack) = (result', stack')" by fastforce
  obtain new where new: "result' = result @ new" "stack' = butlast stack @ new"
    "set new = set (children m ?x) - set result" "distinct new"
    using visit_fold[of "children m ?x" result "butlast stack"] e unfolding dependents_step_eq by blast
  have stack: "set stack = insert ?x (set (butlast stack))"
    using ne by (cases stack rule: rev_cases) auto
  have x: "?x \<in> insert start (set result)" using inv stack by (auto simp: dfs_inv_def)
  have reach: "new_el \<in> (child_rel m)\<^sup>+ `` {start}" if "new_el \<in> set new" for new_el
  proof -
    have "(?x, new_el) \<in> child_rel m" using that new(3) by (auto simp: child_rel_def)
    moreover have "?x = start \<or> (start, ?x) \<in> (child_rel m)\<^sup>+" using x inv by (auto simp: dfs_inv_def)
    ultimately show ?thesis by (auto intro: trancl.trancl_into_trancl)
  qed
  have "dfs_inv m start (result @ new, butlast stack @ new)"
    unfolding dfs_inv_def
  proof (clarsimp, intro conjI)
    show "distinct result" "distinct new" "set result \<inter> set new = {}"
      "set result \<subseteq> (child_rel m)\<^sup>+ `` {start}" "set new \<subseteq> (child_rel m)\<^sup>+ `` {start}"
      "set (butlast stack) \<subseteq> insert start (set result \<union> set new)"
      "set new \<subseteq> insert start (set result \<union> set new)"
      using inv new reach stack by (auto simp: dfs_inv_def)
    show "\<forall>y\<in>insert start (set result \<union> set new) - (set (butlast stack) \<union> set new).
        set (children m y) \<subseteq> set result \<union> set new"
    proof
      fix y assume y: "y \<in> insert start (set result \<union> set new) - (set (butlast stack) \<union> set new)"
      show "set (children m y) \<subseteq> set result \<union> set new"
      proof (cases "y = ?x")
        case True
        then show ?thesis using new(3) by auto
      next
        case False
        then have "y \<in> insert start (set result) - set stack" using y stack by auto
        then show ?thesis using inv by (auto simp: dfs_inv_def)
      qed
    qed
  qed
  then show thesis using that e new by simp
qed

lemma dfs_universe:
  "(child_rel m)\<^sup>+ `` {start} \<subseteq> set (concat (map snd m))"
proof -
  have "j \<in> set (concat (map snd m))" if kj: "(k, j) \<in> child_rel m" for k j
  proof -
    obtain l where "hm_get m k = Some l" "j \<in> set l"
      using kj by (cases "hm_get m k") (auto simp: child_rel_def children_def)
    then have "(k, l) \<in> set m" "j \<in> set l" by (auto dest: map_of_SomeD)
    then show ?thesis by force
  qed
  then show ?thesis by (auto elim: tranclE)
qed

lemma dfs_loop:
  obtains result where
    "while_option (\<lambda>(result, stack). stack \<noteq> []) (dependents_step m) ([], [start]) = Some (result, [])"
    and "set result = (child_rel m)\<^sup>+ `` {start}"
proof -
  let ?b = "\<lambda>(result, stack). stack \<noteq> []"
  let ?N = "length (concat (map snd m))"
  let ?f = "\<lambda>(result, stack). 2 * (?N - length result) + length stack"
  have init: "dfs_inv m start ([], [start])" by (simp add: dfs_inv_def)
  have step: "dfs_inv m start (dependents_step m s) \<and> ?f (dependents_step m s) < ?f s"
    if di: "dfs_inv m start s" and b: "?b s" for s
  proof -
    obtain result stack where s: "s = (result, stack)" by fastforce
    have ne: "stack \<noteq> []" using b s by simp
    obtain new where n: "dependents_step m (result, stack) = (result @ new, butlast stack @ new)"
      "dfs_inv m start (result @ new, butlast stack @ new)"
      by (rule dfs_inv_step[OF di[unfolded s] ne])
    have "distinct (result @ new)" "set (result @ new) \<subseteq> set (concat (map snd m))"
      using n(2) dfs_universe[of m start] unfolding dfs_inv_def by auto
    then have "length (result @ new) \<le> ?N"
      by (metis List.finite_set card_length card_mono distinct_card le_trans)
    then show ?thesis using n s ne by (cases stack rule: rev_cases) auto
  qed
  obtain s where s: "while_option ?b (dependents_step m) ([], [start]) = Some s"
    using measure_while_option_Some[of "dfs_inv m start" ?b "dependents_step m" ?f "([], [start])"]
      step init by blast
  obtain result stack where rs: "s = (result, stack)" by fastforce
  have "dfs_inv m start s"
    using while_option_rule[of "dfs_inv m start", OF _ s init] step by blast
  moreover have st: "stack = []" using while_option_stop[OF s] rs by simp
  ultimately have inv: "set result \<subseteq> (child_rel m)\<^sup>+ `` {start}"
    "\<forall>x\<in>insert start (set result). set (children m x) \<subseteq> set result"
    using rs by (auto simp: dfs_inv_def)
  have "y \<in> set result" if "(start, y) \<in> (child_rel m)\<^sup>+" for y
    using that by induction (use inv(2) in \<open>auto simp: child_rel_def\<close>)
  then have "set result = (child_rel m)\<^sup>+ `` {start}" using inv(1) by auto
  then show thesis using that s rs st by simp
qed

lemma all_dependents_exact:
  assumes "graph_new tasks = Some (Inr g)"
  shows "all_dependents g i = Some ((depends_rel (dg_tasks g))\<^sup>+ `` {i})"
proof -
  note g = graph_new_Inr[OF assms]
  have rel: "child_rel (dg_dependents g) = depends_rel (dg_tasks g)"
    unfolding g(3) child_rel_def children_dependents[OF g(1)] by simp
  show ?thesis
    by (rule dfs_loop[of "dg_dependents g" i]) (simp add: all_dependents_def rel)
qed

text \<open>Ready tasks: an unfinished valid graph always has one.\<close>

lemma ready_task_exists:
  assumes "graph_new tasks = Some (Inr g)" "\<not> fst ` set (dg_tasks g) \<subseteq> completed"
  shows "get_ready_tasks g completed \<noteq> []"
proof -
  note g = graph_new_Inr[OF assms(1)]
  let ?o = "dg_topo_order g"
  have wf: "hm_wf (dg_tasks g)" using g(1) by (simp add: tasks_ok_def)
  have "set ?o = fst ` set (dg_tasks g)" using g(4) by (simp add: valid_order_def)
  then have "\<not> set ?o \<subseteq> completed" using assms(2) by simp
  then obtain x where x: "x \<in> set ?o" "x \<notin> completed" by blast
  from x(1) obtain j where "j < length ?o" "?o ! j = x" unfolding in_set_conv_nth by blast
  with x(2) have j: "j < length ?o \<and> ?o ! j \<notin> completed" by simp
  define i where "i = (LEAST i. i < length ?o \<and> ?o ! i \<notin> completed)"
  have i: "i < length ?o" "?o ! i \<notin> completed"
    using LeastI[of "\<lambda>i. i < length ?o \<and> ?o ! i \<notin> completed", OF j]
    unfolding i_def by blast+
  have "?o ! l \<in> completed" if "l < i" for l
    using not_less_Least[of l "\<lambda>i. i < length ?o \<and> ?o ! i \<notin> completed"] that i(1)
    unfolding i_def by simp
  then have i3: "\<forall>j<i. ?o ! j \<in> completed" by blast
  have "set (take i ?o) \<subseteq> completed" using i i3 by (auto simp: in_set_conv_nth)
  then have deps: "set (deps_of (dg_tasks g) (?o ! i)) \<subseteq> completed"
    using g(4) i(1) unfolding valid_order_def by blast
  have "?o ! i \<in> fst ` set (dg_tasks g)" using \<open>set ?o = _\<close> nth_mem[OF i(1)] by simp
  then obtain t where t: "(?o ! i, t) \<in> set (dg_tasks g)" by force
  have "tk_id t = ?o ! i" using g(1) t unfolding tasks_ok_def by blast
  then have "t \<in> set (get_ready_tasks g completed)"
    using t i(2) deps deps_of_mem[OF wf t] image_eqI[OF _ t, of t snd]
    by (auto simp: get_ready_tasks_def list_all_iff)
  then show ?thesis by auto
qed

section \<open>Properties\<close>

lemma graph_new_returns: "\<exists>r. graph_new tasks = Some r"
proof (cases "unknown_dependency (task_map_of tasks)")
  case None
  then show ?thesis using topological_sort_returns[OF task_map_ok[OF None]]
    by (auto simp: graph_new_def Let_def split: sum.splits)
qed (simp add: graph_new_def)

text \<open>Three tasks of which the last depends on the first two.\<close>

definition sample_task :: "string \<Rightarrow> string list \<Rightarrow> (unit, unit) task" where
  "sample_task i deps = task_of_definition
     \<lparr>td_id = i, td_specialist = ''dev'', td_model = None, td_mandate = ''do'', td_depends_on = deps,
      td_expected_output = None, td_success_criteria = [], td_back_edges = [],
      td_generates_tasks = False, td_verification = None, td_tools = None, td_operations = None,
      td_temperature = None, td_max_tokens = None, td_force_tool_iterations = None,
      td_approval_required = False\<rparr>"

definition sample_tasks :: "(unit, unit) task list" where
  "sample_tasks = [sample_task ''a'' [], sample_task ''b'' [''a''], sample_task ''c'' [''a'', ''b'']]"

lemma sample_graph:
  obtains g where "graph_new sample_tasks = Some (Inr g)" "map fst (dg_tasks g) = [''a'', ''b'', ''c'']"
proof -
  let ?m = "task_map_of sample_tasks"
  have m: "?m = [(''a'', sample_task ''a'' []), (''b'', sample_task ''b'' [''a'']),
      (''c'', sample_task ''c'' [''a'', ''b''])]"
    by (simp add: task_map_of_def sample_tasks_def sample_task_def task_of_definition_def)
  have u: "unknown_dependency ?m = None"
    by (simp add: m unknown_dependency_def sample_task_def task_of_definition_def)
  have "valid_order ?m [''a'', ''b'', ''c'']"
  proof -
    have "set (deps_of ?m ([''a'', ''b'', ''c''] ! i)) \<subseteq> set (take i [''a'', ''b'', ''c''])"
      if "i < 3" for i
    proof -
      have "i = 0 \<or> i = 1 \<or> i = 2" using that by auto
      then show ?thesis
        by (auto simp: m deps_of_def sample_task_def task_of_definition_def numeral_2_eq_2)
    qed
    then show ?thesis by (simp add: valid_order_def m)
  qed
  then have ac: "acyclic (depends_rel ?m)" by (rule valid_order_acyclic)
  have "\<forall>(k, t)\<in>set ?m. distinct (tk_depends_on t)"
    by (simp add: m sample_task_def task_of_definition_def)
  from topological_sort_complete[OF task_map_ok[OF u] ac this] obtain order where
    "topological_sort ?m = Some (Inr order)" by blast
  then have "graph_new sample_tasks = Some (Inr \<lparr>dg_tasks = ?m, dg_dependents = dependents_of ?m,
      dg_topo_order = order\<rparr>)" by (simp add: graph_new_def u Let_def)
  then show thesis using that by (simp add: m)
qed

text \<open>
  C24: building a graph always returns; a graph it accepts has acyclic dependencies
  and an order that lists every task once, each after all that it depends on.
\<close>

theorem task_order_sound:
  "(\<exists>r. graph_new tasks = Some r) \<and>
   (graph_new tasks = Some (Inr g) \<longrightarrow>
      distinct (dg_topo_order g) \<and> set (dg_topo_order g) = fst ` set (dg_tasks g) \<and>
      (\<forall>i<length (dg_topo_order g).
         set (deps_of (dg_tasks g) (dg_topo_order g ! i)) \<subseteq> set (take i (dg_topo_order g))) \<and>
      acyclic (depends_rel (dg_tasks g)))"
proof (intro conjI impI)
  assume g: "graph_new tasks = Some (Inr g)"
  show "acyclic (depends_rel (dg_tasks g))"
    by (rule valid_order_acyclic[OF graph_new_Inr(4)[OF g]])
qed (use graph_new_Inr(4)[of tasks g] graph_new_returns in \<open>simp_all add: valid_order_def\<close>)

theorem task_order_sound_witness:
  "\<exists>g. graph_new sample_tasks = Some (Inr g) \<and> distinct (dg_topo_order g)"
proof -
  obtain g where g: "graph_new sample_tasks = Some (Inr g)" using sample_graph by blast
  then show ?thesis using task_order_sound[of sample_tasks g] by blast
qed

text \<open>
  C25: a graph is accepted exactly when its tasks name only known dependencies, no task lists a
  dependency twice, and the dependencies have no cycle.
\<close>

theorem task_graph_complete:
  "(\<exists>g. graph_new tasks = Some (Inr g)) \<longleftrightarrow>
     unknown_dependency (task_map_of tasks) = None \<and> acyclic (depends_rel (task_map_of tasks)) \<and>
     list_all (\<lambda>(k, t). distinct (tk_depends_on t)) (task_map_of tasks)"
proof
  assume "\<exists>g. graph_new tasks = Some (Inr g)"
  then obtain g where g: "graph_new tasks = Some (Inr g)" by blast
  then obtain order where u: "unknown_dependency (task_map_of tasks) = None"
    and o: "topological_sort (task_map_of tasks) = Some (Inr order)"
    by (auto simp: graph_new_def Let_def split: option.splits sum.splits)
  then show "unknown_dependency (task_map_of tasks) = None \<and> acyclic (depends_rel (task_map_of tasks)) \<and>
      list_all (\<lambda>(k, t). distinct (tk_depends_on t)) (task_map_of tasks)"
    using valid_order_acyclic[OF graph_new_Inr(4)[OF g]] graph_new_Inr(2)[OF g]
      topological_sort_distinct[OF task_map_ok[OF u] o] by (auto simp: list_all_iff)
next
  assume u: "unknown_dependency (task_map_of tasks) = None \<and> acyclic (depends_rel (task_map_of tasks)) \<and>
      list_all (\<lambda>(k, t). distinct (tk_depends_on t)) (task_map_of tasks)"
  then obtain order where "topological_sort (task_map_of tasks) = Some (Inr order)"
    using topological_sort_complete[OF task_map_ok] by (auto simp: list_all_iff)
  then show "\<exists>g. graph_new tasks = Some (Inr g)" using u by (simp add: graph_new_def Let_def)
qed

theorem task_graph_complete_witness:
  "\<not> (\<exists>g. graph_new [sample_task ''a'' [], sample_task ''b'' [''a'', ''a'']] = Some (Inr g))"
proof -
  let ?ts = "[sample_task ''a'' [], sample_task ''b'' [''a'', ''a'']]"
  have "task_map_of ?ts = [(''a'', sample_task ''a'' []), (''b'', sample_task ''b'' [''a'', ''a''])]"
    by (simp add: task_map_of_def sample_task_def task_of_definition_def)
  then have "\<not> list_all (\<lambda>(k, t). distinct (tk_depends_on t)) (task_map_of ?ts)"
    by (simp add: sample_task_def task_of_definition_def)
  then show ?thesis using task_graph_complete[of ?ts] by blast
qed

text \<open>
  C26: the tasks a failure or a retry reaches, computed by the work-list traversal,
  are exactly the transitive dependents of the task.
\<close>

theorem dependents_exact:
  assumes "graph_new tasks = Some (Inr g)"
  shows "all_dependents g i = Some {j. (i, j) \<in> (depends_rel (dg_tasks g))\<^sup>+}"
  using all_dependents_exact[OF assms, of i] by (simp add: Image_def)

theorem dependents_exact_witness:
  "\<exists>g. graph_new sample_tasks = Some (Inr g) \<and>
     all_dependents g ''a'' = Some {j. (''a'', j) \<in> (depends_rel (dg_tasks g))\<^sup>+}"
proof -
  obtain g where g: "graph_new sample_tasks = Some (Inr g)" using sample_graph by blast
  from dependents_exact[OF g] g show ?thesis by blast
qed

text \<open>
  C27: scheduling never stalls on an accepted graph: while tasks are left some task
  is ready, and every task handed out is unfinished with all dependencies finished.
\<close>

theorem scheduler_progress:
  assumes "graph_new tasks = Some (Inr g)"
  shows "(get_ready_tasks g completed = [] \<longleftrightarrow> fst ` set (dg_tasks g) \<subseteq> completed) \<and>
    (\<forall>t. t \<in> set (get_ready_tasks g completed) \<longrightarrow>
       tk_id t \<notin> completed \<and> set (tk_depends_on t) \<subseteq> completed)"
proof (intro conjI allI impI)
  have "tk_id t = k" if "(k, t) \<in> set (dg_tasks g)" for k t
    using graph_new_Inr(1)[OF assms] that unfolding tasks_ok_def by blast
  then have "get_ready_tasks g completed = []" if "fst ` set (dg_tasks g) \<subseteq> completed"
    using that by (force simp: get_ready_tasks_def filter_empty_conv)
  then show "get_ready_tasks g completed = [] \<longleftrightarrow> fst ` set (dg_tasks g) \<subseteq> completed"
    using ready_task_exists[OF assms] by blast
qed (auto simp: get_ready_tasks_def list_all_iff)

theorem scheduler_progress_witness:
  "\<exists>g. graph_new sample_tasks = Some (Inr g) \<and> get_ready_tasks g {''a''} \<noteq> []"
proof -
  obtain g where g: "graph_new sample_tasks = Some (Inr g)" "map fst (dg_tasks g) = [''a'', ''b'', ''c'']"
    using sample_graph by blast
  have "fst ` set (dg_tasks g) = {''a'', ''b'', ''c''}" by (metis g(2) list.set(1,2) set_map)
  then show ?thesis using scheduler_progress[OF g(1), of "{''a''}"] g(1) by auto
qed

end
