(* ===== verification/Mailbox.thy ===== *)
theory Mailbox
  imports Labels FlowErrors
begin

text \<open>
  Lateral messages between agents of a flow: the label-checked mailboxes of
  \<open>navra-flow/src/mailbox.rs\<close> and the mesh router of \<open>navra-flow/src/mesh.rs\<close>.
  A bounded \<open>mpsc\<close> channel is its capacity and its queue; its receiver lives as
  long as the registry, so \<open>try_send\<close> fails only when it is full.  The A2A
  client of a remote teammate is an argument.
\<close>

section \<open>Mailboxes\<close>

datatype message_body = CompleteBody string | StepBody nat string bool

fun body_text :: "message_body \<Rightarrow> string" where
  "body_text (CompleteBody s) = s"
| "body_text (StepBody index content is_final) = content"

record mailbox_message =
  mm_sender :: string
  mm_body :: message_body
  mm_label :: data_label
  mm_timestamp :: instant
  mm_provenance :: "(string \<times> instant) list"
  mm_causal_node_id :: "string option"

record channel =
  ch_capacity :: nat
  ch_queue :: "mailbox_message list"

definition try_send :: "mailbox_message \<Rightarrow> channel \<Rightarrow> channel option" where
  "try_send msg ch =
     (if length (ch_queue ch) < ch_capacity ch then Some (ch\<lparr>ch_queue := ch_queue ch @ [msg]\<rparr>)
      else None)"

definition try_recv :: "channel \<Rightarrow> channel \<times> mailbox_message option" where
  "try_recv ch =
     (case ch_queue ch of [] \<Rightarrow> (ch, None) | m # ms \<Rightarrow> (ch\<lparr>ch_queue := ms\<rparr>, Some m))"

record agent_mailbox =
  mb_channel :: channel
  mb_agent_id :: string
  mb_clearance :: confidentiality
  mb_send_count :: nat

record mailbox_registry =
  mr_mailboxes :: "(string, agent_mailbox) hmap"
  mr_audit_log :: "mailbox_message list"
  mr_rate_limit :: nat

text \<open>\<open>mpsc::channel\<close> panics on capacity zero, hence the option.\<close>

definition with_rate_limit :: "string list \<Rightarrow> nat \<Rightarrow> nat \<Rightarrow> mailbox_registry option" where
  "with_rate_limit agent_ids capacity rate_limit =
     (if capacity = 0 \<and> agent_ids \<noteq> [] then None
      else Some \<lparr>mr_mailboxes = fold (\<lambda>i m. hm_insert i
              \<lparr>mb_channel = \<lparr>ch_capacity = capacity, ch_queue = []\<rparr>, mb_agent_id = i,
               mb_clearance = Public, mb_send_count = 0\<rparr> m) agent_ids [],
             mr_audit_log = [], mr_rate_limit = rate_limit\<rparr>)"

definition registry_new :: "string list \<Rightarrow> nat \<Rightarrow> mailbox_registry option" where
  "registry_new agent_ids capacity = with_rate_limit agent_ids capacity 0"

text \<open>The rate check counts every attempt of a registered sender.\<close>

definition count_attempt :: "string \<Rightarrow> mailbox_registry \<Rightarrow> mailbox_registry \<times> bool" where
  "count_attempt sender_id r =
     (if mr_rate_limit r > 0 then
        (case hm_get (mr_mailboxes r) sender_id of
           None \<Rightarrow> (r, True)
         | Some mb \<Rightarrow>
             (r\<lparr>mr_mailboxes := hm_insert sender_id
                  (mb\<lparr>mb_send_count := wrap_u64 (mb_send_count mb + 1)\<rparr>) (mr_mailboxes r)\<rparr>,
              mb_send_count mb < mr_rate_limit r))
      else (r, True))"

definition violation_reason :: "data_label \<Rightarrow> confidentiality \<Rightarrow> string" where
  "violation_reason l c =
     ''sender label '' @ confidentiality_debug (confidentiality l) @
     '' exceeds target clearance '' @ confidentiality_debug c"

definition post_with_provenance ::
  "instant \<Rightarrow> string \<Rightarrow> data_label \<Rightarrow> string \<Rightarrow> message_body \<Rightarrow> (string \<times> instant) list
     \<Rightarrow> mailbox_registry \<Rightarrow> mailbox_registry \<times> (flow_error + unit)" where
  "post_with_provenance now sender_id sender_label target_id body inherited r0 =
     (let (r, within) = count_attempt sender_id r0 in
      if \<not> within then (r, Inl (OtherError (''agent '' @ [CHR 0x27] @ sender_id @ [CHR 0x27] @
          '' exceeded message rate limit ('' @ show_nat (mr_rate_limit r0) @ '' messages)'')))
      else
        (case hm_get (mr_mailboxes r) target_id of
           None \<Rightarrow> (r, Inl (UnknownAgent target_id))
         | Some target \<Rightarrow>
             if \<not> can_write_to sender_label (mb_clearance target)
             then (r, Inl (IfcViolation sender_id target_id
                             (violation_reason sender_label (mb_clearance target))))
             else
               let msg = \<lparr>mm_sender = sender_id, mm_body = body, mm_label = sender_label,
                          mm_timestamp = now, mm_provenance = inherited @ [(sender_id, now)],
                          mm_causal_node_id = None\<rparr> in
               (case try_send msg (mb_channel target) of
                  None \<Rightarrow> (r, Inl (MailboxFull (mb_agent_id target)))
                | Some ch \<Rightarrow>
                    (r\<lparr>mr_mailboxes :=
                          hm_insert target_id (target\<lparr>mb_channel := ch\<rparr>) (mr_mailboxes r),
                       mr_audit_log := mr_audit_log r @ [msg]\<rparr>, Inr ()))))"

definition post ::
  "instant \<Rightarrow> string \<Rightarrow> data_label \<Rightarrow> string \<Rightarrow> string \<Rightarrow> mailbox_registry
     \<Rightarrow> mailbox_registry \<times> (flow_error + unit)" where
  "post now sender_id sender_label target_id body r =
     post_with_provenance now sender_id sender_label target_id (CompleteBody body) [] r"

definition recv :: "string \<Rightarrow> mailbox_registry \<Rightarrow> mailbox_registry \<times> mailbox_message option" where
  "recv agent_id r =
     (case hm_get (mr_mailboxes r) agent_id of
        None \<Rightarrow> (r, None)
      | Some mb \<Rightarrow>
          (let (ch, m) = try_recv (mb_channel mb) in
           (r\<lparr>mr_mailboxes := hm_insert agent_id (mb\<lparr>mb_channel := ch\<rparr>) (mr_mailboxes r)\<rparr>, m)))"

definition recv_all :: "string \<Rightarrow> mailbox_registry \<Rightarrow> mailbox_registry \<times> mailbox_message list" where
  "recv_all agent_id r =
     (case hm_get (mr_mailboxes r) agent_id of
        None \<Rightarrow> (r, [])
      | Some mb \<Rightarrow>
          (r\<lparr>mr_mailboxes := hm_insert agent_id
               (mb\<lparr>mb_channel := (mb_channel mb)\<lparr>ch_queue := []\<rparr>\<rparr>) (mr_mailboxes r)\<rparr>,
           ch_queue (mb_channel mb)))"

definition set_clearance :: "string \<Rightarrow> confidentiality \<Rightarrow> mailbox_registry \<Rightarrow> mailbox_registry" where
  "set_clearance agent_id lvl r =
     (case hm_get (mr_mailboxes r) agent_id of
        None \<Rightarrow> r
      | Some mb \<Rightarrow>
          r\<lparr>mr_mailboxes := hm_insert agent_id (mb\<lparr>mb_clearance := lvl\<rparr>) (mr_mailboxes r)\<rparr>)"

section \<open>Mesh routing\<close>

datatype teammate_location = InProcess | Remote string string

record mesh_router =
  ms_teammates :: "(string, teammate_location) hmap"
  ms_clearances :: "(string, confidentiality) hmap"
  ms_mailbox_senders :: "(string, channel) hmap"
  ms_a2a_clients :: "(string, string \<times> string) hmap"

definition mesh_new :: mesh_router where
  "mesh_new = \<lparr>ms_teammates = [], ms_clearances = [], ms_mailbox_senders = [], ms_a2a_clients = []\<rparr>"

definition add_in_process :: "string \<Rightarrow> channel \<Rightarrow> confidentiality \<Rightarrow> mesh_router \<Rightarrow> mesh_router" where
  "add_in_process name sender clearance ms =
     ms\<lparr>ms_teammates := hm_insert name InProcess (ms_teammates ms),
        ms_mailbox_senders := hm_insert name sender (ms_mailbox_senders ms),
        ms_clearances := hm_insert name clearance (ms_clearances ms)\<rparr>"

definition add_remote :: "string \<Rightarrow> string \<Rightarrow> string \<Rightarrow> confidentiality \<Rightarrow> mesh_router \<Rightarrow> mesh_router" where
  "add_remote name url token clearance ms =
     ms\<lparr>ms_teammates := hm_insert name (Remote url token) (ms_teammates ms),
        ms_a2a_clients := hm_insert name (url, token) (ms_a2a_clients ms),
        ms_clearances := hm_insert name clearance (ms_clearances ms)\<rparr>"

definition location :: "mesh_router \<Rightarrow> string \<Rightarrow> teammate_location option" where
  "location ms name = hm_get (ms_teammates ms) name"

definition resolve_clearance :: "mesh_router \<Rightarrow> string \<Rightarrow> confidentiality" where
  "resolve_clearance ms name =
     (case hm_get (ms_clearances ms) name of Some c \<Rightarrow> c | None \<Rightarrow> Public)"

text \<open>The A2A message a remote teammate is sent, with its security label.\<close>

record a2a_message =
  am_text :: string
  am_message_id :: string
  am_label :: string

definition mesh_send ::
  "((string \<times> string) \<Rightarrow> a2a_message \<Rightarrow> string + unit) \<Rightarrow> instant \<Rightarrow> string \<Rightarrow> string \<Rightarrow> string
     \<Rightarrow> string \<Rightarrow> data_label \<Rightarrow> mesh_router
     \<Rightarrow> mesh_router \<times> a2a_message option \<times> (flow_error + unit)" where
  "mesh_send client_send now fresh from to' body data_label ms =
     (let target_clearance = resolve_clearance ms to' in
      if \<not> can_write_to data_label target_clearance
      then (ms, None, Inl (IfcViolation from to' (violation_reason data_label target_clearance)))
      else
        (case hm_get (ms_teammates ms) to' of
           Some InProcess \<Rightarrow>
             (case hm_get (ms_mailbox_senders ms) to' of
                None \<Rightarrow> (ms, None, Inl (TeammateNotFound (to' @ '' (no mailbox sender)'')))
              | Some sender \<Rightarrow>
                  (case try_send \<lparr>mm_sender = from, mm_body = CompleteBody body,
                       mm_label = data_label, mm_timestamp = now, mm_provenance = [(from, now)],
                       mm_causal_node_id = None\<rparr> sender of
                     None \<Rightarrow> (ms, None, Inl (MailboxFull to'))
                   | Some ch \<Rightarrow>
                       (ms\<lparr>ms_mailbox_senders := hm_insert to' ch (ms_mailbox_senders ms)\<rparr>,
                        None, Inr ())))
         | Some (Remote url token) \<Rightarrow>
             (case hm_get (ms_a2a_clients ms) to' of
                None \<Rightarrow> (ms, None, Inl (TeammateNotFound (to' @ '' (no A2A client)'')))
              | Some client \<Rightarrow>
                  (let msg = \<lparr>am_text = body,
                              am_message_id = ''mesh-'' @ from @ ''-'' @ to' @ ''-'' @ fresh,
                              am_label = label_display data_label\<rparr> in
                   (ms, Some msg,
                    case client_send client msg of
                      Inl e \<Rightarrow> Inl (A2aError to' e)
                    | Inr _ \<Rightarrow> Inr ())))
         | None \<Rightarrow> (ms, None, Inl (TeammateNotFound to'))))"

definition mesh_set_clearance :: "string \<Rightarrow> confidentiality \<Rightarrow> mesh_router \<Rightarrow> mesh_router" where
  "mesh_set_clearance name lvl ms = ms\<lparr>ms_clearances := hm_insert name lvl (ms_clearances ms)\<rparr>"

definition is_remote :: "mesh_router \<Rightarrow> string \<Rightarrow> bool" where
  "is_remote ms name =
     (case hm_get (ms_teammates ms) name of Some (Remote _ _) \<Rightarrow> True | _ \<Rightarrow> False)"

section \<open>Runs of the registry\<close>

datatype mailbox_op =
    PostOp instant string data_label string message_body "(string \<times> instant) list"
  | RecvOp string
  | RecvAllOp string
  | ClearanceOp string confidentiality

text \<open>What a step delivers to the mailbox of an agent, and what the agent takes out.\<close>

record mailbox_trace =
  mt_posted :: "(string \<times> mailbox_message) list"
  mt_received :: "(string \<times> mailbox_message) list"

definition queue_of :: "mailbox_registry \<Rightarrow> string \<Rightarrow> mailbox_message list" where
  "queue_of r a = (case hm_get (mr_mailboxes r) a of Some mb \<Rightarrow> ch_queue (mb_channel mb) | None \<Rightarrow> [])"

definition clearance_of :: "mailbox_registry \<Rightarrow> string \<Rightarrow> confidentiality" where
  "clearance_of r a = (case hm_get (mr_mailboxes r) a of Some mb \<Rightarrow> mb_clearance mb | None \<Rightarrow> Public)"

fun mailbox_step :: "mailbox_op \<Rightarrow> mailbox_registry \<times> mailbox_trace \<Rightarrow> mailbox_registry \<times> mailbox_trace" where
  "mailbox_step (PostOp now s l t b inherited) (r, tr) =
     (case post_with_provenance now s l t b inherited r of
        (r', Inr _) \<Rightarrow> (r', tr\<lparr>mt_posted := mt_posted tr @ [(t, last (mr_audit_log r'))]\<rparr>)
      | (r', Inl _) \<Rightarrow> (r', tr))"
| "mailbox_step (RecvOp a) (r, tr) =
     (case recv a r of
        (r', Some m) \<Rightarrow> (r', tr\<lparr>mt_received := mt_received tr @ [(a, m)]\<rparr>)
      | (r', None) \<Rightarrow> (r', tr))"
| "mailbox_step (RecvAllOp a) (r, tr) =
     (case recv_all a r of
        (r', ms) \<Rightarrow> (r', tr\<lparr>mt_received := mt_received tr @ map (Pair a) ms\<rparr>))"
| "mailbox_step (ClearanceOp a c) (r, tr) = (set_clearance a c r, tr)"

definition of_agent :: "string \<Rightarrow> (string \<times> mailbox_message) list \<Rightarrow> mailbox_message list" where
  "of_agent a es = map snd (filter (\<lambda>e. fst e = a) es)"

definition mailbox_start :: "mailbox_registry \<Rightarrow> mailbox_registry \<times> mailbox_trace" where
  "mailbox_start r = (r, \<lparr>mt_posted = [], mt_received = []\<rparr>)"

lemma of_agent_simps [simp]:
  "of_agent a [] = []"
  "of_agent a (xs @ ys) = of_agent a xs @ of_agent a ys"
  "of_agent a [(b, m)] = (if b = a then [m] else [])"
  "of_agent a (map (Pair b) ms) = (if b = a then ms else [])"
  by (simp_all add: of_agent_def filter_map comp_def)

lemma count_attempt_facts [simp]:
  "queue_of (fst (count_attempt s r)) a = queue_of r a"
  "clearance_of (fst (count_attempt s r)) a = clearance_of r a"
  "mr_audit_log (fst (count_attempt s r)) = mr_audit_log r"
  "hm_get (mr_mailboxes (fst (count_attempt s r))) a = None \<longleftrightarrow> hm_get (mr_mailboxes r) a = None"
  by (auto simp: count_attempt_def queue_of_def clearance_of_def split: option.splits)

text \<open>The two outcomes of a post.\<close>

lemma post_cases:
  obtains (refused) e where "snd (post_with_provenance now s l t b inherited r) = Inl e"
      and "\<And>a. queue_of (fst (post_with_provenance now s l t b inherited r)) a = queue_of r a"
      and "\<And>a. clearance_of (fst (post_with_provenance now s l t b inherited r)) a = clearance_of r a"
      and "mr_audit_log (fst (post_with_provenance now s l t b inherited r)) = mr_audit_log r"
    | (sent) m where "snd (post_with_provenance now s l t b inherited r) = Inr ()"
      and "m = \<lparr>mm_sender = s, mm_body = b, mm_label = l, mm_timestamp = now,
               mm_provenance = inherited @ [(s, now)], mm_causal_node_id = None\<rparr>"
      and "can_write_to l (clearance_of r t)"
      and "\<And>a. queue_of (fst (post_with_provenance now s l t b inherited r)) a =
             (if a = t then queue_of r a @ [m] else queue_of r a)"
      and "\<And>a. clearance_of (fst (post_with_provenance now s l t b inherited r)) a = clearance_of r a"
      and "mr_audit_log (fst (post_with_provenance now s l t b inherited r)) = mr_audit_log r @ [m]"
proof -
  obtain r1 ok where c: "count_attempt s r = (r1, ok)" by fastforce
  note cf = count_attempt_facts(1-3)[of s r, unfolded c fst_conv]
  let ?m = "\<lparr>mm_sender = s, mm_body = b, mm_label = l, mm_timestamp = now,
               mm_provenance = inherited @ [(s, now)], mm_causal_node_id = None\<rparr>"
  consider (rate) "\<not> ok" | (unknown) "ok" "hm_get (mr_mailboxes r1) t = None"
    | (ifc) mb where "ok" "hm_get (mr_mailboxes r1) t = Some mb" "\<not> can_write_to l (mb_clearance mb)"
    | (full) mb where "ok" "hm_get (mr_mailboxes r1) t = Some mb" "can_write_to l (mb_clearance mb)"
        "try_send ?m (mb_channel mb) = None"
    | (ok) mb ch where "ok" "hm_get (mr_mailboxes r1) t = Some mb" "can_write_to l (mb_clearance mb)"
        "try_send ?m (mb_channel mb) = Some ch"
    by (metis option.exhaust)
  moreover have thesis if "post_with_provenance now s l t b inherited r = (r1, Inl e)" for e
    using cf by (intro refused) (simp_all add: that)
  ultimately show thesis
  proof cases
    case (ok mb ch)
    have q: "queue_of r t = ch_queue (mb_channel mb)" "clearance_of r t = mb_clearance mb"
      using cf(1,2)[of t] ok(2) by (auto simp: queue_of_def clearance_of_def)
    have p: "post_with_provenance now s l t b inherited r =
      (r1\<lparr>mr_mailboxes := hm_insert t (mb\<lparr>mb_channel := ch\<rparr>) (mr_mailboxes r1),
          mr_audit_log := mr_audit_log r1 @ [?m]\<rparr>, Inr ())"
      using ok c by (simp add: post_with_provenance_def Let_def)
    have "ch_queue ch = queue_of r t @ [?m]"
      using ok(4) q(1) by (auto simp: try_send_def split: if_splits)
    then have "queue_of (fst (post_with_provenance now s l t b inherited r)) a =
             (if a = t then queue_of r a @ [?m] else queue_of r a)" for a
      using cf(1)[of a] by (simp add: p queue_of_def)
    moreover have "clearance_of (fst (post_with_provenance now s l t b inherited r)) a = clearance_of r a" for a
      using cf(2)[of a] ok(2) q(2) by (simp add: p clearance_of_def)
    ultimately show thesis using ok(3) q(2) cf(3) by (intro sent[OF _ refl]) (simp_all add: p)
  qed (use c in \<open>simp_all add: post_with_provenance_def Let_def\<close>)
qed

lemma recv_facts:
  "mr_audit_log (fst (recv a r)) = mr_audit_log r"
  "clearance_of (fst (recv a r)) b = clearance_of r b"
  "queue_of r b = (if b = a then (case snd (recv a r) of None \<Rightarrow> [] | Some m \<Rightarrow> [m]) else [])
     @ queue_of (fst (recv a r)) b"
  by (auto simp: recv_def queue_of_def clearance_of_def try_recv_def split: option.splits list.splits)

lemma recv_all_facts:
  "mr_audit_log (fst (recv_all a r)) = mr_audit_log r"
  "clearance_of (fst (recv_all a r)) b = clearance_of r b"
  "queue_of r b = (if b = a then snd (recv_all a r) else []) @ queue_of (fst (recv_all a r)) b"
  by (auto simp: recv_all_def queue_of_def clearance_of_def split: option.splits)

lemma set_clearance_facts:
  "mr_audit_log (set_clearance a c r) = mr_audit_log r"
  "queue_of (set_clearance a c r) b = queue_of r b"
  "clearance_of (set_clearance a c r) b =
     (if b = a \<and> hm_get (mr_mailboxes r) a \<noteq> None then c else clearance_of r b)"
  by (auto simp: set_clearance_def queue_of_def clearance_of_def split: option.splits)

text \<open>Conservation and order: what was posted is what was taken out, then what is queued.\<close>

definition mailbox_conserves :: "mailbox_registry \<times> mailbox_trace \<Rightarrow> bool" where
  "mailbox_conserves s \<longleftrightarrow> (case s of (r, tr) \<Rightarrow>
     mr_audit_log r = map snd (mt_posted tr) \<and>
     (\<forall>a. of_agent a (mt_posted tr) = of_agent a (mt_received tr) @ queue_of r a))"

lemma mailbox_conserves_step:
  assumes "mailbox_conserves s"
  shows "mailbox_conserves (mailbox_step op s)"
proof -
  obtain r tr where s: "s = (r, tr)" by fastforce
  have inv: "mr_audit_log r = map snd (mt_posted tr)"
    "\<And>a. of_agent a (mt_posted tr) = of_agent a (mt_received tr) @ queue_of r a"
    using assms by (simp_all add: s mailbox_conserves_def)
  show ?thesis
  proof (cases op)
    case (PostOp now snd' l t b inh)
    show ?thesis
      by (rule post_cases[of now snd' l t b inh r])
         (auto simp: PostOp s mailbox_conserves_def inv split: prod.splits sum.splits)
  next
    case (RecvOp a)
    show ?thesis using recv_facts(1,2)[of a r] recv_facts(3)[of r _ a] inv
      by (auto simp: RecvOp s mailbox_conserves_def split: prod.splits option.splits)
  next
    case (RecvAllOp a)
    show ?thesis using recv_all_facts(1,2)[of a r] recv_all_facts(3)[of r _ a] inv
      by (auto simp: RecvAllOp s mailbox_conserves_def split: prod.splits)
  next
    case (ClearanceOp a c)
    show ?thesis using inv by (auto simp: ClearanceOp s mailbox_conserves_def set_clearance_facts)
  qed
qed

text \<open>No write-down: as long as clearances are only raised.\<close>

fun raises_only :: "mailbox_registry \<Rightarrow> mailbox_op \<Rightarrow> bool" where
  "raises_only r (ClearanceOp a c) = (clearance_of r a \<le> c)"
| "raises_only r _ = True"

definition no_write_down :: "mailbox_registry \<Rightarrow> bool" where
  "no_write_down r \<longleftrightarrow> (\<forall>a. \<forall>m\<in>set (queue_of r a). can_write_to (mm_label m) (clearance_of r a))"

lemma no_write_down_step:
  assumes "no_write_down r" "raises_only r op"
  shows "no_write_down (fst (mailbox_step op (r, tr)))"
proof (cases op)
  case (PostOp now snd' l t b inh)
  have old: "can_write_to (mm_label m) (clearance_of r a)" if "m \<in> set (queue_of r a)" for m a
    using assms(1) that by (simp add: no_write_down_def)
  let ?p = "post_with_provenance now snd' l t b inh r"
  have eq: "fst (mailbox_step op (r, tr)) = fst ?p"
    by (auto simp: PostOp split: prod.splits sum.splits)
  show ?thesis unfolding eq
  proof (cases rule: post_cases[of now snd' l t b inh r])
    case (refused e)
    then show "no_write_down (fst ?p)" using old by (simp add: no_write_down_def)
  next
    case (sent m)
    then show "no_write_down (fst ?p)" using old by (auto simp: no_write_down_def split: if_splits)
  qed
next
  case (RecvOp a)
  have "set (queue_of (fst (recv a r)) b) \<subseteq> set (queue_of r b)" for b
    by (metis recv_facts(3) set_append sup_ge2)
  moreover have "fst (mailbox_step op (r, tr)) = fst (recv a r)"
    by (auto simp: RecvOp split: prod.splits option.splits)
  ultimately show ?thesis using assms(1) unfolding no_write_down_def by (auto simp: recv_facts(2))
next
  case (RecvAllOp a)
  have "set (queue_of (fst (recv_all a r)) b) \<subseteq> set (queue_of r b)" for b
    by (metis recv_all_facts(3) set_append sup_ge2)
  moreover have "fst (mailbox_step op (r, tr)) = fst (recv_all a r)"
    by (auto simp: RecvAllOp split: prod.splits option.splits)
  ultimately show ?thesis using assms(1) unfolding no_write_down_def by (auto simp: recv_all_facts(2))
next
  case (ClearanceOp a c)
  show ?thesis using assms
    by (auto simp: ClearanceOp no_write_down_def set_clearance_facts can_write_to_def intro: order_trans)
qed

text \<open>The registries a run reaches, with whether it has lowered a clearance.\<close>

inductive mailbox_reach :: "mailbox_registry \<Rightarrow> bool \<Rightarrow> mailbox_registry \<times> mailbox_trace \<Rightarrow> bool" for r0 where
  mr_start: "mailbox_reach r0 False (mailbox_start r0)"
| mr_step: "mailbox_reach r0 lowered s \<Longrightarrow>
    mailbox_reach r0 (lowered \<or> \<not> raises_only (fst s) op) (mailbox_step op s)"

lemma post_accepted:
  assumes "mailbox_step op (r, tr) = (r', tr')" "mt_posted tr' \<noteq> mt_posted tr"
  shows "\<exists>t m. mt_posted tr' = mt_posted tr @ [(t, m)] \<and> can_write_to (mm_label m) (clearance_of r t)"
proof (cases op)
  case (PostOp now snd' l t b inh)
  show ?thesis
  proof (cases rule: post_cases[of now snd' l t b inh r])
    case (refused e)
    then show ?thesis using assms by (auto simp: PostOp split: prod.splits)
  next
    case (sent m)
    then have "mt_posted tr' = mt_posted tr @ [(t, m)]"
      using assms(1) by (auto simp: PostOp split: prod.splits)
    then show ?thesis using sent(2,3) by auto
  qed
qed (use assms in \<open>auto split: prod.splits option.splits\<close>)

lemma registry_start:
  assumes "with_rate_limit ids cap lim = Some r"
  shows "queue_of r a = []" "clearance_of r a = Public" "mr_audit_log r = []"
proof -
  let ?mb = "\<lambda>i. \<lparr>mb_channel = \<lparr>ch_capacity = cap, ch_queue = []\<rparr>, mb_agent_id = i,
               mb_clearance = Public, mb_send_count = 0\<rparr>"
  have get: "hm_get (fold (\<lambda>i. hm_insert i (?mb i)) ids m) a = (if a \<in> set ids then Some (?mb a) else hm_get m a)"
    for m a by (induction ids arbitrary: m) auto
  have "mr_mailboxes r = fold (\<lambda>i. hm_insert i (?mb i)) ids []"
    using assms by (auto simp: with_rate_limit_def split: if_splits)
  with get have "mb = ?mb a" if "hm_get (mr_mailboxes r) a = Some mb" for a mb
    using that by (simp split: if_splits)
  from this[of a] show "queue_of r a = []" "clearance_of r a = Public"
    by (cases "hm_get (mr_mailboxes r) a"; simp add: queue_of_def clearance_of_def)+
  show "mr_audit_log r = []" using assms by (auto simp: with_rate_limit_def split: if_splits)
qed

lemma mailbox_reach_inv:
  assumes "mailbox_reach r0 lowered s" "with_rate_limit ids cap lim = Some r0"
  shows "mailbox_conserves s \<and> (lowered \<or> no_write_down (fst s))"
  using assms(1)
proof induction
  case mr_start
  then show ?case using registry_start[OF assms(2)]
    by (simp add: mailbox_start_def mailbox_conserves_def no_write_down_def)
next
  case (mr_step lowered s op)
  then show ?case
    using mailbox_conserves_step no_write_down_step[of "fst s" op "snd s"] by auto
qed

section \<open>Facts about the mesh\<close>

lemma mesh_send_Inr:
  assumes "mesh_send client now fresh from to' body l ms = (ms', out, Inr ())"
  shows "can_write_to l (resolve_clearance ms to')" "hm_get (ms_teammates ms) to' \<noteq> None"
  using assms by (auto simp: mesh_send_def Let_def split: if_splits option.splits)

lemma mesh_send_leaks_nothing:
  assumes "\<not> can_write_to l (resolve_clearance ms to')"
  shows "mesh_send client now fresh from to' body l ms =
    (ms, None, Inl (IfcViolation from to' (violation_reason l (resolve_clearance ms to'))))"
  using assms by (simp add: mesh_send_def Let_def)

section \<open>Properties\<close>

text \<open>
  C31: from a new registry, under any sequence of posts, receives and clearance changes, the
  messages an agent has taken out followed by those queued for it are exactly the accepted ones in
  order, and the audit log has each accepted message.  The next step accepts a message only when its
  label may be written to the clearance its target then has; and as long as no clearance was lowered
  every queued message may be written to the present clearance of its agent.
\<close>

theorem mailbox_safe:
  assumes "with_rate_limit agents capacity limit = Some r0" "mailbox_reach r0 lowered (r, tr)"
    and "mailbox_step op (r, tr) = (r', tr')"
  shows "(\<forall>a. of_agent a (mt_posted tr) = of_agent a (mt_received tr) @ queue_of r a) \<and>
    mr_audit_log r = map snd (mt_posted tr) \<and>
    (mt_posted tr' = mt_posted tr \<or>
      (\<exists>t m. mt_posted tr' = mt_posted tr @ [(t, m)] \<and> can_write_to (mm_label m) (clearance_of r t))) \<and>
    (lowered \<or> (\<forall>a. \<forall>m\<in>set (queue_of r a). can_write_to (mm_label m) (clearance_of r a)))"
  using mailbox_reach_inv[OF assms(2,1)] post_accepted[OF assms(3)]
  by (auto simp: mailbox_conserves_def no_write_down_def)

theorem mailbox_safe_witness:
  "\<exists>r0 r tr. with_rate_limit [''a'', ''b''] 4 10 = Some r0 \<and>
     mailbox_step (RecvOp ''b'')
       (mailbox_step (PostOp 1 ''a'' TRUSTED_PUBLIC ''b'' (CompleteBody ''hi'') []) (mailbox_start r0))
       = (r, tr) \<and>
     of_agent ''b'' (mt_posted tr) = of_agent ''b'' (mt_received tr) @ queue_of r ''b'' \<and>
     (\<forall>m\<in>set (queue_of r ''b''). can_write_to (mm_label m) (clearance_of r ''b''))"
proof -
  obtain r0 where r0: "with_rate_limit [''a'', ''b''] 4 10 = Some r0" by (simp add: with_rate_limit_def)
  let ?post = "PostOp 1 ''a'' TRUSTED_PUBLIC ''b'' (CompleteBody ''hi'') []"
  obtain r tr where s: "mailbox_step (RecvOp ''b'') (mailbox_step ?post (mailbox_start r0)) = (r, tr)"
    by fastforce
  obtain r' tr' where again: "mailbox_step (ClearanceOp ''b'' Public) (r, tr) = (r', tr')" by fastforce
  have "mailbox_reach r0 False (mailbox_step ?post (mailbox_start r0))"
    using mr_step[OF mr_start, of r0 ?post] by simp
  from mr_step[OF this, of "RecvOp ''b''"] have "mailbox_reach r0 False (r, tr)" unfolding s by simp
  from mailbox_safe[OF r0 this again] r0 s show ?thesis by blast
qed

text \<open>
  the mesh delivers nothing that the teammate's clearance may not receive:
  when the label check fails nothing is sent to a mailbox or over the network and the
  router is unchanged, and a successful send passed the check to a known teammate.
\<close>

theorem mesh_no_write_down:
  "mesh_send client now fresh from to' body l ms = (ms', out, res) \<Longrightarrow>
     (\<not> can_write_to l (resolve_clearance ms to') \<longrightarrow> ms' = ms \<and> out = None \<and> isl res) \<and>
     (res = Inr () \<longrightarrow>
        can_write_to l (resolve_clearance ms to') \<and> hm_get (ms_teammates ms) to' \<noteq> None)"
  using mesh_send_leaks_nothing[of l ms to' client now fresh "from" body]
    mesh_send_Inr[of client now fresh "from" to' body l ms ms' out]
  by auto

theorem mesh_no_write_down_witness:
  "\<exists>ms' out e. mesh_send (\<lambda>_ _. Inr ()) 1 ''n'' ''a'' ''b'' ''secret''
      \<lparr>integrity = Trusted, confidentiality = Sensitive\<rparr>
      (add_remote ''b'' ''http://b'' ''tok'' Public mesh_new) = (ms', out, Inl e) \<and> out = None"
proof -
  let ?ms = "add_remote ''b'' ''http://b'' ''tok'' Public mesh_new"
  obtain ms' out res where r: "mesh_send (\<lambda>_ _. Inr ()) 1 ''n'' ''a'' ''b'' ''secret''
      \<lparr>integrity = Trusted, confidentiality = Sensitive\<rparr> ?ms = (ms', out, res)"
    by (metis prod_cases3)
  have "\<not> can_write_to \<lparr>integrity = Trusted, confidentiality = Sensitive\<rparr> (resolve_clearance ?ms ''b'')"
    by (simp add: can_write_to_def resolve_clearance_def add_remote_def mesh_new_def
        less_eq_confidentiality_def)
  then show ?thesis using mesh_no_write_down[OF r] r by (cases res) auto
qed

end
