(* ===== verification/Blackboard.thy ===== *)
theory Blackboard
  imports Taint FlowErrors
begin

text \<open>
  The shared blackboard of \<open>navra-flow/src/blackboard.rs\<close>: labelled, versioned
  entries, and reads that taint the reader through the tracker of
  \<open>navra-auth/src/ifc/mod.rs\<close>.
\<close>

record 'v blackboard_entry =
  be_key :: string
  be_value :: 'v
  be_label :: data_label
  be_author :: string
  be_version :: nat
  be_updated_at :: instant
  be_provenance :: "(string \<times> instant) list"
  be_causal_node_id :: "string option"

record 'v blackboard =
  bb_entries :: "(string, 'v blackboard_entry) hmap"
  bb_max_entries :: nat

definition blackboard_new :: "nat \<Rightarrow> 'v blackboard" where
  "blackboard_new max_entries = \<lparr>bb_entries = [], bb_max_entries = max_entries\<rparr>"

definition next_version ::
  "string \<Rightarrow> 'v blackboard \<Rightarrow> flow_error + nat \<times> (string \<times> instant) list" where
  "next_version key bb =
     (case hm_get (bb_entries bb) key of
        Some existing \<Rightarrow> Inr (wrap_u64 (be_version existing + 1), be_provenance existing)
      | None \<Rightarrow>
          if length (bb_entries bb) \<ge> bb_max_entries bb
          then Inl (OtherError (''blackboard full ('' @ show_nat (bb_max_entries bb) @
                 '' entries): cannot insert key '' @ [CHR 0x27] @ key @ [CHR 0x27]))
          else Inr (1, []))"

definition publish ::
  "instant \<Rightarrow> string \<Rightarrow> string \<Rightarrow> 'v \<Rightarrow> data_label \<Rightarrow> 'v blackboard
     \<Rightarrow> 'v blackboard \<times> (flow_error + nat)" where
  "publish now author key val label bb =
     (case next_version key bb of
        Inl e \<Rightarrow> (bb, Inl e)
      | Inr (version, provenance) \<Rightarrow>
          (bb\<lparr>bb_entries := hm_insert key
                \<lparr>be_key = key, be_value = val, be_label = label, be_author = author,
                 be_version = version, be_updated_at = now,
                 be_provenance = provenance @ [(author, now)], be_causal_node_id = None\<rparr>
                (bb_entries bb)\<rparr>, Inr version))"

definition bb_read ::
  "string \<Rightarrow> taint_tracker \<Rightarrow> 'v blackboard \<Rightarrow> taint_tracker \<times> (flow_error + 'v blackboard_entry)"
where
  "bb_read key reader bb =
     (case hm_get (bb_entries bb) key of
        None \<Rightarrow> (reader, Inl (BlackboardKeyNotFound key))
      | Some entry \<Rightarrow> (absorb (be_label entry) reader, Inr entry))"

definition read_if_exists ::
  "string \<Rightarrow> taint_tracker \<Rightarrow> 'v blackboard \<Rightarrow> taint_tracker \<times> 'v blackboard_entry option" where
  "read_if_exists key reader bb =
     (case hm_get (bb_entries bb) key of
        None \<Rightarrow> (reader, None)
      | Some entry \<Rightarrow> (absorb (be_label entry) reader, Some entry))"

definition bb_keys :: "'v blackboard \<Rightarrow> string list" where
  "bb_keys bb = map fst (bb_entries bb)"

definition bb_len :: "'v blackboard \<Rightarrow> nat" where
  "bb_len bb = length (bb_entries bb)"

section \<open>Runs\<close>

datatype 'v bb_op = Publish instant string string 'v data_label | Read string

text \<open>One agent's session: the board, the agent's tracker and the entries it has read.\<close>

fun bb_step ::
  "'v bb_op \<Rightarrow> 'v blackboard \<times> taint_tracker \<times> 'v blackboard_entry list
     \<Rightarrow> 'v blackboard \<times> taint_tracker \<times> 'v blackboard_entry list" where
  "bb_step (Publish now a k v l) (bb, t, seen) = (fst (publish now a k v l bb), t, seen)"
| "bb_step (Read k) (bb, t, seen) =
     (case bb_read k t bb of
        (t', Inr e) \<Rightarrow> (bb, t', seen @ [e])
      | (t', Inl _) \<Rightarrow> (bb, t', seen))"

lemma bb_run_taint:
  "fold bb_step ops (bb, t, seen) = (bb', t', seen') \<Longrightarrow>
     \<exists>new. seen' = seen @ new \<and> current t' = foldl join (current t) (map be_label new)"
proof (induction ops arbitrary: bb t seen)
  case Nil
  then show ?case by simp
next
  case (Cons op ops)
  show ?case
  proof (cases op)
    case (Publish now a k v l)
    then show ?thesis using Cons by simp
  next
    case (Read k)
    show ?thesis
    proof (cases "hm_get (bb_entries bb) k")
      case None
      then show ?thesis using Cons Read by (simp add: bb_read_def)
    next
      case (Some e)
      then have "fold bb_step ops (bb, absorb (be_label e) t, seen @ [e]) = (bb', t', seen')"
        using Cons.prems Read by (simp add: bb_read_def)
      from Cons.IH[OF this] obtain new where
        "seen' = (seen @ [e]) @ new" "current t' = foldl join (join (current t) (be_label e)) (map be_label new)"
        by auto
      then show ?thesis by (intro exI[of _ "e # new"]) simp
    qed
  qed
qed

definition bb_wf :: "'v blackboard \<Rightarrow> bool" where
  "bb_wf bb \<longleftrightarrow> hm_wf (bb_entries bb) \<and> length (bb_entries bb) \<le> bb_max_entries bb \<and>
     (\<forall>k e. hm_get (bb_entries bb) k = Some e \<longrightarrow>
        be_key e = k \<and> be_provenance e \<noteq> [] \<and> fst (last (be_provenance e)) = be_author e \<and>
        be_version e = wrap_u64 (length (be_provenance e)))"

lemma publish_max [simp]: "bb_max_entries (fst (publish now a k v l bb)) = bb_max_entries bb"
  by (simp add: publish_def split: sum.split prod.split)

lemma wrap_u64_1 [simp]: "wrap_u64 (Suc 0) = Suc 0"
  by (simp add: wrap_u64_def)

lemma publish_wf:
  assumes "bb_wf bb"
  shows "bb_wf (fst (publish now a k v l bb))"
proof (cases "hm_get (bb_entries bb) k")
  case None
  then show ?thesis using assms hm_length_insert[of "bb_entries bb" k]
    by (auto simp: publish_def next_version_def bb_wf_def)
next
  case (Some e)
  have "wrap_u64 (Suc (wrap_u64 n)) = wrap_u64 (Suc n)" for n
    by (simp add: wrap_u64_def mod_Suc_eq)
  then show ?thesis using assms Some hm_length_insert[of "bb_entries bb" k]
    by (auto simp: publish_def next_version_def bb_wf_def)
qed

lemma publish_history:
  "snd (publish now a k v l bb) = Inr n \<Longrightarrow>
     \<exists>e. hm_get (bb_entries (fst (publish now a k v l bb))) k = Some e \<and> be_version e = n \<and>
       be_value e = v \<and> be_label e = l \<and>
       be_provenance e = (case hm_get (bb_entries bb) k of Some o' \<Rightarrow> be_provenance o' | None \<Rightarrow> []) @ [(a, now)]"
  by (auto simp: publish_def next_version_def split: sum.splits prod.splits option.splits if_splits)

lemma publish_other:
  "k' \<noteq> k \<Longrightarrow> hm_get (bb_entries (fst (publish now a k v l bb))) k' = hm_get (bb_entries bb) k'"
  by (simp add: publish_def split: sum.split prod.split)

section \<open>Properties\<close>

text \<open>
  in a session on the shared board, whatever others publish in between, an
  agent's taint is exactly the join of its initial label with the labels of the
  entries it has read.
\<close>

theorem board_reads_taint:
  assumes "fold bb_step ops (bb, t, []) = (bb', t', seen)"
  shows "current t' = foldl join (current t) (map be_label seen)"
  using bb_run_taint[OF assms] by simp

theorem board_reads_taint_witness:
  "\<exists>bb' t' seen. fold bb_step
      [Publish 1 ''w'' ''k'' (0::nat) \<lparr>integrity = Untrusted, confidentiality = Sensitive\<rparr>, Read ''k'']
      (blackboard_new 5, new_tracker, []) = (bb', t', seen) \<and>
    current t' = foldl join (current new_tracker) (map be_label seen)"
proof -
  obtain bb' t' seen where r: "fold bb_step
      [Publish 1 ''w'' ''k'' (0::nat) \<lparr>integrity = Untrusted, confidentiality = Sensitive\<rparr>, Read ''k'']
      (blackboard_new 5, new_tracker, []) = (bb', t', seen)" by (metis prod_cases3)
  from board_reads_taint[OF r] r show ?thesis by blast
qed

text \<open>
  publishing keeps the board well formed and within its capacity, changes no
  other key, and on success leaves the new value and label under the key with the
  author appended to the key's provenance; a full board refuses a new key unchanged.
\<close>

theorem board_publish:
  assumes "bb_wf bb"
  shows "bb_wf (fst (publish now a k v l bb)) \<and>
    (\<forall>k'. k' \<noteq> k \<longrightarrow> hm_get (bb_entries (fst (publish now a k v l bb))) k' = hm_get (bb_entries bb) k') \<and>
    (case snd (publish now a k v l bb) of
       Inl e \<Rightarrow> fst (publish now a k v l bb) = bb \<and> hm_get (bb_entries bb) k = None \<and>
         length (bb_entries bb) = bb_max_entries bb
     | Inr n \<Rightarrow> \<exists>e. hm_get (bb_entries (fst (publish now a k v l bb))) k = Some e \<and>
         be_version e = n \<and> be_value e = v \<and> be_label e = l \<and>
         be_provenance e =
           (case hm_get (bb_entries bb) k of Some old \<Rightarrow> be_provenance old | None \<Rightarrow> []) @ [(a, now)])"
proof (intro conjI)
  have "length (bb_entries bb) \<le> bb_max_entries bb" using assms by (simp add: bb_wf_def)
  then have "fst (publish now a k v l bb) = bb \<and> hm_get (bb_entries bb) k = None \<and>
      length (bb_entries bb) = bb_max_entries bb" if "snd (publish now a k v l bb) = Inl e" for e
    using that by (auto simp: publish_def next_version_def split: sum.splits prod.splits option.splits if_splits)
  then show "case snd (publish now a k v l bb) of
       Inl e \<Rightarrow> fst (publish now a k v l bb) = bb \<and> hm_get (bb_entries bb) k = None \<and>
         length (bb_entries bb) = bb_max_entries bb
     | Inr n \<Rightarrow> \<exists>e. hm_get (bb_entries (fst (publish now a k v l bb))) k = Some e \<and>
         be_version e = n \<and> be_value e = v \<and> be_label e = l \<and>
         be_provenance e =
           (case hm_get (bb_entries bb) k of Some old \<Rightarrow> be_provenance old | None \<Rightarrow> []) @ [(a, now)]"
    using publish_history[of now a k v l bb] by (auto split: sum.splits)
qed (simp_all add: publish_wf assms publish_other)

theorem board_publish_witness:
  "bb_wf (fst (publish 1 ''w'' ''k'' (0::nat) TRUSTED_PUBLIC (blackboard_new 5)))"
proof -
  have "bb_wf (blackboard_new 5 :: nat blackboard)"
    by (simp add: bb_wf_def blackboard_new_def hm_wf_def)
  from conjunct1[OF board_publish[OF this]] show ?thesis .
qed

end
