(* ===== verification/FlowControl.thy ===== *)
theory FlowControl
  imports FlowDag
begin

text \<open>
  Controlled loops and failure handling of a flow: task results and attempts of
  \<open>navra-flow/src/task.rs\<close>, back-edges of \<open>navra-flow/src/backedge.rs\<close> and the
  failure classification of \<open>navra-flow/src/recovery.rs\<close>.  Floating-point
  scores are opaque: their parser and their comparison are arguments.  Counters
  are \<open>u32\<close> and wrap in the release build.
\<close>

section \<open>Results\<close>

datatype task_status = Pending | Ready | Running | Complete | Failed | Skipped

record 'f task_result =
  tr_task_id :: string
  tr_status :: task_status
  tr_output :: string
  tr_prompt_tokens :: nat
  tr_completion_tokens :: nat
  tr_taint :: data_label
  tr_validation_score :: "'f option"
  tr_validation_notes :: "string list"

record attempt =
  at_error :: string
  at_error_type :: string
  at_output :: string

section \<open>Back-edges\<close>

datatype 'f edge_condition = ScoreBelow 'f | CriteriaMissing | OutputContains string | Always

record 'f conditional_edge =
  ce_from :: string
  ce_to :: string
  ce_condition :: "'f edge_condition"
  ce_max_iterations :: nat

record back_edge_tracker =
  bt_counts :: "(string \<times> string, nat) hmap"
  bt_global_activations :: nat
  bt_global_max :: nat

definition parse_condition ::
  "(string \<Rightarrow> 'f option) \<Rightarrow> string \<Rightarrow> flow_error + 'f edge_condition" where
  "parse_condition parse_f32 s =
     (case strip_prefix s ''score_below:'' of
        Some threshold \<Rightarrow>
          (case parse_f32 threshold of
             Some v \<Rightarrow> Inr (ScoreBelow v)
           | None \<Rightarrow> Inl (InvalidFlow (''invalid score threshold: '' @ threshold)))
      | None \<Rightarrow>
          if s = ''criteria_missing'' then Inr CriteriaMissing
          else
            (case strip_prefix s ''output_contains:'' of
               Some pat \<Rightarrow> Inr (OutputContains pat)
             | None \<Rightarrow> if s = ''always'' then Inr Always else Inl (InvalidFlow (''unknown back-edge condition: '' @ s))))"

fun evaluate_condition :: "('f \<Rightarrow> 'f \<Rightarrow> bool) \<Rightarrow> 'f edge_condition \<Rightarrow> 'f task_result \<Rightarrow> bool" where
  "evaluate_condition flt (ScoreBelow threshold) result =
     (case tr_validation_score result of Some score \<Rightarrow> flt score threshold | None \<Rightarrow> True)"
| "evaluate_condition flt CriteriaMissing result = (tr_validation_notes result \<noteq> [])"
| "evaluate_condition flt (OutputContains pat) result = contains (tr_output result) pat"
| "evaluate_condition flt Always result = True"

definition edge_from_definition ::
  "(string \<Rightarrow> 'f option) \<Rightarrow> string \<Rightarrow> back_edge_definition \<Rightarrow> flow_error + 'f conditional_edge"
where
  "edge_from_definition parse_f32 from_task def =
     (case parse_condition parse_f32 (bd_condition def) of
        Inl e \<Rightarrow> Inl e
      | Inr condition \<Rightarrow>
          Inr \<lparr>ce_from = from_task, ce_to = bd_target def, ce_condition = condition,
               ce_max_iterations = bd_max_iterations def\<rparr>)"

definition with_global_max :: "nat \<Rightarrow> back_edge_tracker" where
  "with_global_max m = \<lparr>bt_counts = [], bt_global_activations = 0, bt_global_max = m\<rparr>"

definition tracker_new :: back_edge_tracker where
  "tracker_new = with_global_max 1000"

definition iteration_count :: "back_edge_tracker \<Rightarrow> string \<Rightarrow> string \<Rightarrow> nat" where
  "iteration_count t from to' = (case hm_get (bt_counts t) (from, to') of Some n \<Rightarrow> n | None \<Rightarrow> 0)"

definition should_activate ::
  "('f \<Rightarrow> 'f \<Rightarrow> bool) \<Rightarrow> back_edge_tracker \<Rightarrow> 'f conditional_edge \<Rightarrow> 'f task_result \<Rightarrow> bool" where
  "should_activate flt t edge result \<longleftrightarrow>
     evaluate_condition flt (ce_condition edge) result
     \<and> iteration_count t (ce_from edge) (ce_to edge) < ce_max_iterations edge
     \<and> bt_global_activations t < bt_global_max t"

definition record_activation :: "string \<Rightarrow> string \<Rightarrow> back_edge_tracker \<Rightarrow> back_edge_tracker \<times> nat" where
  "record_activation from to' t =
     (let count = wrap_u32 (iteration_count t from to' + 1) in
      (t\<lparr>bt_global_activations := wrap_u32 (bt_global_activations t + 1),
         bt_counts := hm_insert (from, to') count (bt_counts t)\<rparr>, count))"

definition is_exhausted :: "back_edge_tracker \<Rightarrow> bool" where
  "is_exhausted t \<longleftrightarrow> bt_global_activations t \<ge> bt_global_max t"

section \<open>Recovery\<close>

datatype failure_type =
    CircularFix | EmptyOutput | ValidationFailed | MaxIterations | AgentError | UnknownFailure

datatype recovery_action = RetryWithContext | Skip | Abort

record recovery_strategy =
  rs_action :: recovery_action
  rs_max_retries :: nat

text \<open>\<open>recent[0]\<close> panics when the threshold is zero, hence the option.\<close>

definition detect_circular_fix :: "attempt list \<Rightarrow> nat \<Rightarrow> bool option" where
  "detect_circular_fix attempts threshold =
     (if length attempts < threshold then Some False
      else
        (case map at_error_type (take threshold (rev attempts)) of
           [] \<Rightarrow> None
         | r # recent \<Rightarrow> if r = [] then Some False else Some (list_all (\<lambda>t. t = r) (r # recent))))"

definition classify_failure :: "string \<Rightarrow> attempt list \<Rightarrow> failure_type" where
  "classify_failure error attempts =
     (if detect_circular_fix attempts 3 = Some True then CircularFix
      else
        (let l = to_lowercase error in
         if contains l ''max iterations'' then MaxIterations
         else if has_any l [''empty'', ''no output''] then EmptyOutput
         else if has_any l [''validation'', ''criterion'', ''mandate''] then ValidationFailed
         else if has_any l [''upstream'', ''model error'', ''api error'', ''http''] then AgentError
         else UnknownFailure))"

fun get_strategy :: "failure_type \<Rightarrow> recovery_strategy" where
  "get_strategy CircularFix = \<lparr>rs_action = Skip, rs_max_retries = 0\<rparr>"
| "get_strategy EmptyOutput = \<lparr>rs_action = RetryWithContext, rs_max_retries = 2\<rparr>"
| "get_strategy ValidationFailed = \<lparr>rs_action = RetryWithContext, rs_max_retries = 3\<rparr>"
| "get_strategy MaxIterations = \<lparr>rs_action = RetryWithContext, rs_max_retries = 1\<rparr>"
| "get_strategy AgentError = \<lparr>rs_action = RetryWithContext, rs_max_retries = 2\<rparr>"
| "get_strategy UnknownFailure = \<lparr>rs_action = RetryWithContext, rs_max_retries = 2\<rparr>"

section \<open>Loops are bounded\<close>

text \<open>The executor's use of the tracker: ask, and record exactly when the answer is yes.\<close>

fun try_edge ::
  "('f \<Rightarrow> 'f \<Rightarrow> bool) \<Rightarrow> 'f conditional_edge \<times> 'f task_result
     \<Rightarrow> back_edge_tracker \<times> (string \<times> string) list \<Rightarrow> back_edge_tracker \<times> (string \<times> string) list" where
  "try_edge flt (edge, result) (t, fired) =
     (if should_activate flt t edge result
      then (fst (record_activation (ce_from edge) (ce_to edge) t),
            fired @ [(ce_from edge, ce_to edge)])
      else (t, fired))"

definition tracker_inv ::
  "nat \<Rightarrow> (string \<times> string \<Rightarrow> nat) \<Rightarrow> back_edge_tracker \<times> (string \<times> string) list \<Rightarrow> bool" where
  "tracker_inv gmax emax s \<longleftrightarrow> (case s of (t, fired) \<Rightarrow>
     bt_global_max t = gmax \<and> bt_global_activations t = length fired \<and> length fired \<le> gmax \<and>
     (\<forall>f to'. iteration_count t f to' = count_list fired (f, to') \<and>
        count_list fired (f, to') \<le> emax (f, to')))"

lemma tracker_inv_step:
  assumes inv: "tracker_inv gmax emax s"
    and "gmax < 2 ^ 32" "ce_max_iterations edge < 2 ^ 32"
    and "ce_max_iterations edge \<le> emax (ce_from edge, ce_to edge)"
  shows "tracker_inv gmax emax (try_edge flt (edge, result) s)"
proof -
  obtain t fired where s: "s = (t, fired)" by fastforce
  note i = inv[unfolded s tracker_inv_def prod.case]
  show ?thesis
  proof (cases "should_activate flt t edge result")
    case False
    then show ?thesis using inv by (simp add: s)
  next
    case True
    let ?k = "(ce_from edge, ce_to edge)"
    have c: "iteration_count t (ce_from edge) (ce_to edge) < ce_max_iterations edge"
      "bt_global_activations t < gmax" using True i by (auto simp: should_activate_def)
    then have w: "wrap_u32 (Suc (iteration_count t (ce_from edge) (ce_to edge)))
        = Suc (iteration_count t (ce_from edge) (ce_to edge))"
      "wrap_u32 (Suc (bt_global_activations t)) = Suc (bt_global_activations t)"
      using assms(2,3) by (auto intro!: wrap_u32_id)
    have "iteration_count (fst (record_activation (ce_from edge) (ce_to edge) t)) f to'
        = (if (f, to') = ?k then Suc (iteration_count t f to') else iteration_count t f to')" for f to'
      using w by (auto simp: iteration_count_def record_activation_def Let_def)
    then show ?thesis using True i c w assms(4)
      by (auto simp: s tracker_inv_def record_activation_def Let_def)
  qed
qed

lemma tracker_run:
  assumes "m < 2 ^ 32"
    and "\<forall>(edge, result)\<in>set tries. ce_max_iterations edge < 2 ^ 32 \<and>
           ce_max_iterations edge \<le> emax (ce_from edge, ce_to edge)"
  shows "tracker_inv m emax (fold (try_edge flt) tries (with_global_max m, []))"
proof (rule fold_invariant)
  show "tracker_inv m emax (with_global_max m, [])"
    by (simp add: tracker_inv_def with_global_max_def iteration_count_def)
  show "tracker_inv m emax (try_edge flt x s)" if "x \<in> set tries" "tracker_inv m emax s" for x s
    using tracker_inv_step[OF that(2) assms(1)] assms(2) that(1) by (cases x) blast
qed

section \<open>Repeated failures\<close>

lemma detect_circular_fix_iff:
  "0 < threshold \<Longrightarrow> detect_circular_fix attempts threshold = Some True \<longleftrightarrow>
     (\<exists>ty pre post. ty \<noteq> [] \<and> attempts = pre @ post \<and> length post = threshold \<and>
        (\<forall>a\<in>set post. at_error_type a = ty))"
proof -
  assume th: "0 < threshold"
  let ?r = "map at_error_type (take threshold (rev attempts))"
  show ?thesis
  proof
    assume d: "detect_circular_fix attempts threshold = Some True"
    then have len: "threshold \<le> length attempts" by (auto simp: detect_circular_fix_def split: if_splits)
    obtain r recent where rr: "?r = r # recent" "r \<noteq> []" "\<forall>t\<in>set (r # recent). t = r"
      using d len by (auto simp: detect_circular_fix_def list_all_iff split: list.splits if_splits)
    let ?post = "drop (length attempts - threshold) attempts"
    have post: "rev ?post = take threshold (rev attempts)" by (simp add: take_rev len)
    have "at_error_type a = r" if "a \<in> set ?post" for a
    proof -
      have "a \<in> set (take threshold (rev attempts))" using that by (metis post set_rev)
      then have "at_error_type a \<in> set ?r" by simp
      then show ?thesis using rr by metis
    qed
    then show "\<exists>ty pre post. ty \<noteq> [] \<and> attempts = pre @ post \<and> length post = threshold \<and>
        (\<forall>a\<in>set post. at_error_type a = ty)"
      using rr(2) len
      by (intro exI[of _ r] exI[of _ "take (length attempts - threshold) attempts"] exI[of _ ?post]) simp
  next
    assume "\<exists>ty pre post. ty \<noteq> [] \<and> attempts = pre @ post \<and> length post = threshold \<and>
        (\<forall>a\<in>set post. at_error_type a = ty)"
    then obtain ty pre post where p: "ty \<noteq> []" "attempts = pre @ post" "length post = threshold"
      "\<forall>a\<in>set post. at_error_type a = ty" by blast
    have "?r = map at_error_type (rev post)" using p by simp
    also have "\<dots> = map (\<lambda>_. ty) (rev post)" using p(4) by (intro map_cong) auto
    also have "\<dots> = replicate threshold ty" using p(3) by (simp add: map_replicate_const)
    finally show "detect_circular_fix attempts threshold = Some True"
      using th p by (cases threshold) (simp_all add: detect_circular_fix_def list_all_iff)
  qed
qed

section \<open>Properties\<close>

text \<open>
  C32: whatever the conditions evaluate to, a run of back-edge attempts fires each edge
  at most as often as the largest bound declared for it and all edges together at
  most as often as the global bound, and the tracker counts exactly what fired.
\<close>

theorem back_edges_bounded:
  assumes "m < 2 ^ 32"
    and "\<forall>(edge, result)\<in>set tries. ce_max_iterations edge < 2 ^ 32 \<and>
           ce_max_iterations edge \<le> emax (ce_from edge, ce_to edge)"
    and "fold (try_edge flt) tries (with_global_max m, []) = (t, fired)"
  shows "length fired \<le> m \<and> bt_global_activations t = length fired \<and>
    (\<forall>f to'. count_list fired (f, to') \<le> emax (f, to') \<and>
       iteration_count t f to' = count_list fired (f, to'))"
  using tracker_run[OF assms(1,2), of flt] unfolding assms(3) by (simp add: tracker_inv_def)

definition sample_edge :: "nat conditional_edge" where
  "sample_edge = \<lparr>ce_from = ''b'', ce_to = ''a'', ce_condition = Always, ce_max_iterations = 2\<rparr>"

definition sample_result :: "nat task_result" where
  "sample_result = \<lparr>tr_task_id = ''b'', tr_status = Complete, tr_output = ''ok'',
     tr_prompt_tokens = 3, tr_completion_tokens = 5, tr_taint = TRUSTED_PUBLIC,
     tr_validation_score = None, tr_validation_notes = []\<rparr>"

theorem back_edges_bounded_witness:
  "length (snd (fold (try_edge (<)) (replicate 5 (sample_edge, sample_result)) (with_global_max 3, []))) \<le> 3"
  using back_edges_bounded[where m = 3 and tries = "replicate 5 (sample_edge, sample_result)" and
      emax = "\<lambda>_. 2" and flt = "(<)", OF _ _ prod.collapse[symmetric]]
  by (simp add: sample_edge_def)

text \<open>
  a failure is classified as a circular fix exactly when the last three attempts
  failed with one and the same non-empty error type, and then the strategy gives up
  at once; every other failure is retried at most three times.
\<close>

theorem circular_fix_exact:
  "(classify_failure error attempts = CircularFix \<longleftrightarrow>
      (\<exists>ty pre post. ty \<noteq> [] \<and> attempts = pre @ post \<and> length post = 3 \<and>
         list_all (\<lambda>a. at_error_type a = ty) post)) \<and>
   (rs_action (get_strategy (classify_failure error attempts)) = Skip \<longleftrightarrow>
      classify_failure error attempts = CircularFix) \<and>
   rs_max_retries (get_strategy (classify_failure error attempts)) \<le> 3"
proof -
  have "classify_failure error attempts = CircularFix \<longleftrightarrow> detect_circular_fix attempts 3 = Some True"
    by (simp add: classify_failure_def Let_def)
  moreover have "rs_action (get_strategy f) = Skip \<longleftrightarrow> f = CircularFix" "rs_max_retries (get_strategy f) \<le> 3"
    for f by (cases f; simp)+
  ultimately show ?thesis using detect_circular_fix_iff[of 3 attempts] by (simp add: list_all_iff)
qed

end
