(* ===== verification/FlowTrace.thy ===== *)
theory FlowTrace
  imports Prelude
begin

text \<open>
  Execution traces (\<open>navra-flow/src/validation/trace.rs\<close>) and the prefix tree
  acceptor that generalises them (\<open>navra-flow/src/validation/pta.rs\<close>).
\<close>

record trace_event =
  te_node_id :: string
  te_status :: string
  te_timestamp_ms :: nat
  te_output_hash :: "string option"

record execution_trace =
  et_flow_id :: string
  et_events :: "trace_event list"

definition trace_new :: "string \<Rightarrow> execution_trace" where
  "trace_new flow_id = \<lparr>et_flow_id = flow_id, et_events = []\<rparr>"

definition trace_record :: "string \<Rightarrow> string \<Rightarrow> nat \<Rightarrow> execution_trace \<Rightarrow> execution_trace" where
  "trace_record node_id status timestamp_ms t =
     t\<lparr>et_events := et_events t @ [\<lparr>te_node_id = node_id, te_status = status,
        te_timestamp_ms = timestamp_ms, te_output_hash = None\<rparr>]\<rparr>"

definition node_sequence :: "execution_trace \<Rightarrow> string list" where
  "node_sequence t = map te_node_id (filter (\<lambda>e. te_status e = ''completed'') (et_events t))"

definition all_nodes :: "execution_trace \<Rightarrow> string list" where
  "all_nodes t = map te_node_id (et_events t)"

section \<open>Prefix tree acceptor\<close>

text \<open>State, children, number of traces through the node, accepting.\<close>

datatype pta_node = PtaNode string "pta_node list" nat bool

fun pta_state :: "pta_node \<Rightarrow> string" where
  "pta_state (PtaNode s cs n a) = s"

fun pta_children :: "pta_node \<Rightarrow> pta_node list" where
  "pta_children (PtaNode s cs n a) = cs"

fun pta_count :: "pta_node \<Rightarrow> nat" where
  "pta_count (PtaNode s cs n a) = n"

fun pta_accepting :: "pta_node \<Rightarrow> bool" where
  "pta_accepting (PtaNode s cs n a) = a"

definition pta_node_new :: "string \<Rightarrow> pta_node" where
  "pta_node_new s = PtaNode s [] 0 False"

fun position_of :: "string \<Rightarrow> pta_node list \<Rightarrow> nat option" where
  "position_of s [] = None"
| "position_of s (c # cs) = (if pta_state c = s then Some 0 else map_option Suc (position_of s cs))"

text \<open>The children after the call, and the index of the child that was found or pushed.\<close>

definition find_or_create_child :: "string \<Rightarrow> pta_node list \<Rightarrow> pta_node list \<times> nat" where
  "find_or_create_child s cs =
     (case position_of s cs of
        Some idx \<Rightarrow> (cs, idx)
      | None \<Rightarrow> (cs @ [pta_node_new s], length cs))"

text \<open>
  The loop of \<open>add_trace\<close> seen from the current node: its count has gone up, then
  the rest of the sequence is added below the child of its head.
\<close>

fun add_sequence :: "string list \<Rightarrow> pta_node \<Rightarrow> pta_node" where
  "add_sequence [] (PtaNode s cs n a) = PtaNode s cs (n + 1) True"
| "add_sequence (x # xs) (PtaNode s cs n a) =
     (let (cs', idx) = find_or_create_child x cs in
      PtaNode s (cs'[idx := add_sequence xs (cs' ! idx)]) (n + 1) a)"

definition pta_new :: pta_node where
  "pta_new = pta_node_new []"

definition add_trace :: "execution_trace \<Rightarrow> pta_node \<Rightarrow> pta_node" where
  "add_trace t root = add_sequence (node_sequence t) root"

fun accepts_sequence :: "string list \<Rightarrow> pta_node \<Rightarrow> bool" where
  "accepts_sequence [] node = pta_accepting node"
| "accepts_sequence (x # xs) node =
     (case List.find (\<lambda>c. pta_state c = x) (pta_children node) of
        Some child \<Rightarrow> accepts_sequence xs child
      | None \<Rightarrow> False)"

definition accepts :: "execution_trace \<Rightarrow> pta_node \<Rightarrow> bool" where
  "accepts t root = accepts_sequence (node_sequence t) root"

fun subtree_count :: "pta_node \<Rightarrow> nat" where
  "subtree_count (PtaNode s cs n a) = 1 + sum_list (map subtree_count cs)"

definition trace_count :: "pta_node \<Rightarrow> nat" where
  "trace_count root = pta_count root"

section \<open>The acceptor accepts exactly what was added\<close>

fun find_child :: "string \<Rightarrow> pta_node list \<Rightarrow> pta_node option" where
  "find_child x [] = None"
| "find_child x (c # cs) = (if pta_state c = x then Some c else find_child x cs)"

lemma find_is_find_child: "List.find (\<lambda>c. pta_state c = x) cs = find_child x cs"
  by (induction cs) auto

lemma position_of_Some:
  "position_of x cs = Some i \<Longrightarrow>
     i < length cs \<and> find_child x cs = Some (cs ! i) \<and> pta_state (cs ! i) = x \<and>
     (\<forall>c y. pta_state c = x \<longrightarrow> find_child y (cs[i := c]) = (if y = x then Some c else find_child y cs))"
proof (induction cs arbitrary: i)
  case (Cons d cs)
  show ?case
  proof (cases "pta_state d = x")
    case True
    then show ?thesis using Cons.prems by auto
  next
    case False
    then obtain j where "i = Suc j" "position_of x cs = Some j" using Cons.prems by auto
    with Cons.IH[of j] False show ?thesis by auto
  qed
qed simp

lemma position_of_None: "position_of x cs = None \<Longrightarrow> find_child x cs = None"
  by (induction cs) (auto split: if_splits)

lemma find_child_append:
  "find_child y (cs @ [c]) =
     (case find_child y cs of Some d \<Rightarrow> Some d | None \<Rightarrow> if pta_state c = y then Some c else None)"
  by (induction cs) auto

lemma add_sequence_state [simp]: "pta_state (add_sequence xs node) = pta_state node"
  by (cases "(xs, node)" rule: add_sequence.cases) (simp_all add: Let_def split: prod.split)

lemma add_sequence_child:
  "find_child y (pta_children (add_sequence (x # xs) node)) =
     (if y = x then
        Some (add_sequence xs
          (case find_child x (pta_children node) of Some c \<Rightarrow> c | None \<Rightarrow> pta_node_new x))
      else find_child y (pta_children node))"
proof -
  obtain s cs n a where node: "node = PtaNode s cs n a" by (cases node)
  show ?thesis
  proof (cases "position_of x cs")
    case (Some i)
    from position_of_Some[OF Some] show ?thesis
      by (simp add: node find_or_create_child_def Some)
  next
    case None
    from position_of_None[OF None] show ?thesis
      by (simp add: node find_or_create_child_def None find_child_append pta_node_new_def
          split: option.split)
  qed
qed

lemma add_sequence_accepting:
  "pta_accepting (add_sequence xs node) \<longleftrightarrow> xs = [] \<or> pta_accepting node"
  by (cases "(xs, node)" rule: add_sequence.cases) (simp_all add: Let_def split: prod.split)

lemma accepts_new [simp]: "\<not> accepts_sequence ys (pta_node_new s)"
  by (cases ys) (simp_all add: pta_node_new_def)

lemma accepts_add: "accepts_sequence ys (add_sequence xs node) \<longleftrightarrow> ys = xs \<or> accepts_sequence ys node"
proof (induction xs arbitrary: ys node)
  case Nil
  obtain s cs n a where "node = PtaNode s cs n a" by (cases node)
  then show ?case by (cases ys) simp_all
next
  case (Cons x xs)
  show ?case
  proof (cases ys)
    case Nil
    then show ?thesis by (simp add: add_sequence_accepting)
  next
    case (Cons y ys')
    have "accepts_sequence ys (add_sequence (x # xs) node) \<longleftrightarrow>
      (case find_child y (pta_children (add_sequence (x # xs) node)) of
         Some c \<Rightarrow> accepts_sequence ys' c | None \<Rightarrow> False)"
      by (simp add: Cons find_is_find_child)
    then show ?thesis
      unfolding add_sequence_child
      by (auto simp: Cons find_is_find_child Cons.IH split: option.splits)
  qed
qed

lemma accepts_run:
  "accepts_sequence ys (fold add_trace ts root) \<longleftrightarrow>
     accepts_sequence ys root \<or> ys \<in> node_sequence ` set ts"
  by (induction ts arbitrary: root) (auto simp: add_trace_def accepts_add)

lemma trace_count_add: "pta_count (add_sequence xs node) = pta_count node + 1"
  by (cases "(xs, node)" rule: add_sequence.cases) (simp_all add: Let_def split: prod.split)

section \<open>Properties\<close>

lemma trace_count_run: "pta_count (fold add_trace ts root) = pta_count root + length ts"
  by (induction ts arbitrary: root) (simp_all add: add_trace_def trace_count_add)

text \<open>
  the prefix-tree acceptor built from a set of traces accepts exactly the node
  sequences of those traces, whatever their order and repetitions, and counts them.
\<close>

theorem acceptor_exact:
  "(accepts t (fold add_trace ts pta_new) \<longleftrightarrow> node_sequence t \<in> node_sequence ` set ts) \<and>
   trace_count (fold add_trace ts pta_new) = length ts"
  by (simp add: accepts_def accepts_run trace_count_def trace_count_run pta_new_def pta_node_new_def[of "[]"]
      del: accepts_new) (simp add: accepts_new[unfolded pta_node_new_def])

end
