(* ===== verification/Dominator.thy ===== *)
theory Dominator
  imports FlowTrace "HOL-Library.While_Combinator"
begin

text \<open>
  Mandatory milestones of a flow, from \<open>navra-flow/src/validation/dominator.rs\<close>: the
  union graph of a set of traces, the iterative dominator computation, the
  milestones of the end node, and the validation of a trace against them.  The
  fixpoint loop is a \<open>while_option\<close>; that it returns is proved.
\<close>

section \<open>The union graph\<close>

definition add_predecessor ::
  "string \<times> string \<Rightarrow> (string, string list) hmap \<Rightarrow> (string, string list) hmap" where
  "add_predecessor e m =
     (let old = (case hm_get m (snd e) of Some ps \<Rightarrow> ps | None \<Rightarrow> []) in
      hm_insert (snd e) (if fst e \<in> set old then old else old @ [fst e]) m)"

definition windows2 :: "string list \<Rightarrow> (string \<times> string) list" where
  "windows2 xs = zip xs (tl xs)"

definition push_unseen :: "string \<Rightarrow> string list \<Rightarrow> string list" where
  "push_unseen n seen = (if n \<in> set seen then seen else seen @ [n])"

definition build_graph :: "execution_trace list \<Rightarrow> string list \<times> (string, string list) hmap" where
  "build_graph traces =
     (fold push_unseen (concat (map node_sequence traces)) [],
      fold add_predecessor (concat (map (\<lambda>t. windows2 (node_sequence t)) traces)) [])"

section \<open>The iteration\<close>

definition dom_get :: "(string, string set) hmap \<Rightarrow> string \<Rightarrow> string set" where
  "dom_get doms n = (case hm_get doms n of Some s \<Rightarrow> s | None \<Rightarrow> {})"

text \<open>A predecessor set is created by an insertion, so it has a first element.\<close>

definition new_dom ::
  "(string, string list) hmap \<Rightarrow> (string, string set) hmap \<Rightarrow> string \<Rightarrow> string set" where
  "new_dom predecessors doms node =
     (case hm_get predecessors node of
        Some preds \<Rightarrow>
          insert node (foldl (\<lambda>s p. s \<inter> dom_get doms p) (dom_get doms (hd preds)) (tl preds))
      | None \<Rightarrow> {node})"

definition dom_visit ::
  "(string, string list) hmap \<Rightarrow> string \<Rightarrow> string \<Rightarrow> bool \<times> (string, string set) hmap
     \<Rightarrow> bool \<times> (string, string set) hmap" where
  "dom_visit predecessors start node s =
     (if node = start then s
      else
        (let nd = new_dom predecessors (snd s) node in
         if nd \<noteq> dom_get (snd s) node then (True, hm_insert node nd (snd s)) else s))"

definition dom_pass ::
  "(string, string list) hmap \<Rightarrow> string list \<Rightarrow> bool \<times> (string, string set) hmap
     \<Rightarrow> bool \<times> (string, string set) hmap" where
  "dom_pass predecessors nodes s =
     fold (dom_visit predecessors (hd nodes)) nodes (False, snd s)"

definition initial_dom :: "string list \<Rightarrow> (string, string set) hmap" where
  "initial_dom nodes =
     fold (\<lambda>n m. hm_insert n (if n = hd nodes then {n} else set nodes) m) nodes []"

definition dom_loop ::
  "(string, string list) hmap \<Rightarrow> string list \<Rightarrow> (bool \<times> (string, string set) hmap) option" where
  "dom_loop predecessors nodes =
     while_option fst (dom_pass predecessors nodes) (True, initial_dom nodes)"

definition find_end_node :: "string list \<Rightarrow> (string, string list) hmap \<Rightarrow> string" where
  "find_end_node nodes predecessors =
     (let has_successor = set (concat (map snd predecessors));
          sinks = filter (\<lambda>n. n \<notin> has_successor) nodes
      in if length sinks = 1 then hd sinks
         else (case rev nodes of n # _ \<Rightarrow> n | [] \<Rightarrow> []))"

definition extract_dominators :: "execution_trace list \<Rightarrow> string list option" where
  "extract_dominators traces =
     (if traces = [] then Some []
      else
        (let (nodes, predecessors) = build_graph traces in
         if nodes = [] then Some []
         else
           (case dom_loop predecessors nodes of
              None \<Rightarrow> None
            | Some (_, doms) \<Rightarrow>
                (let end_dom = dom_get doms (find_end_node nodes predecessors) in
                 Some (filter (\<lambda>n. n \<in> end_dom) nodes)))))"

section \<open>Validation\<close>

fun position :: "string \<Rightarrow> string list \<Rightarrow> nat option" where
  "position n [] = None"
| "position n (x # xs) = (if x = n then Some 0 else map_option Suc (position n xs))"

fun validate_loop ::
  "string list \<Rightarrow> string list \<Rightarrow> string list \<Rightarrow> nat option \<Rightarrow> bool \<Rightarrow> string list \<times> bool" where
  "validate_loop sq [] missing last_pos order_violated = (missing, order_violated)"
| "validate_loop sq (dom_node # ds) missing last_pos order_violated =
     (case position dom_node sq of
        Some pos \<Rightarrow>
          validate_loop sq ds missing (Some pos)
            (case last_pos of Some prev \<Rightarrow> if pos \<le> prev then True else order_violated
             | None \<Rightarrow> order_violated)
      | None \<Rightarrow> validate_loop sq ds (missing @ [dom_node]) last_pos order_violated)"

definition validate_against_dominators ::
  "execution_trace \<Rightarrow> string list \<Rightarrow> string list + unit" where
  "validate_against_dominators trace required_dominators =
     (let (missing, order_violated) =
        validate_loop (node_sequence trace) required_dominators [] None False
      in if order_violated \<and> missing = [] then Inl [''dominator order violated'']
         else if missing = [] then Inr () else Inl missing)"

section \<open>Facts about the graph\<close>

definition pred_rel :: "(string, string list) hmap \<Rightarrow> string \<Rightarrow> string \<Rightarrow> bool" where
  "pred_rel m a b \<longleftrightarrow> (case hm_get m b of Some ps \<Rightarrow> a \<in> set ps | None \<Rightarrow> False)"

lemma add_predecessor_rel:
  "pred_rel (add_predecessor e m) a b \<longleftrightarrow> (a, b) = e \<or> pred_rel m a b"
  by (cases e) (auto simp: pred_rel_def add_predecessor_def Let_def split: option.splits)

lemma add_predecessor_nonempty:
  "\<forall>b. hm_get m b \<noteq> Some [] \<Longrightarrow> hm_get (add_predecessor e m) b \<noteq> Some []"
  by (auto simp: add_predecessor_def Let_def split: option.splits)

lemma pred_fold_rel: "pred_rel (fold add_predecessor es m) a b \<longleftrightarrow> (a, b) \<in> set es \<or> pred_rel m a b"
  by (induction es arbitrary: m) (auto simp: add_predecessor_rel)

lemma pred_fold_nonempty:
  "\<forall>b. hm_get m b \<noteq> Some [] \<Longrightarrow> hm_get (fold add_predecessor es m) b \<noteq> Some []"
  by (induction es arbitrary: m) (simp_all add: add_predecessor_nonempty)

lemma push_unseen_fold: "set (fold push_unseen xs seen) = set seen \<union> set xs"
  by (induction xs arbitrary: seen) (auto simp: push_unseen_def)

lemma push_unseen_prefix: "\<exists>r. fold push_unseen xs seen = seen @ r"
  by (induction xs arbitrary: seen) (auto simp: push_unseen_def, metis append_assoc)

lemma push_unseen_distinct: "distinct seen \<Longrightarrow> distinct (fold push_unseen xs seen)"
  by (induction xs arbitrary: seen) (auto simp: push_unseen_def)

text \<open>First-seen order: what precedes a node was seen before its first occurrence.\<close>

lemma push_unseen_order:
  "fold push_unseen xs seen = as @ b # bs \<Longrightarrow> b \<notin> set seen \<Longrightarrow> distinct seen \<Longrightarrow>
     \<exists>us vs. xs = us @ b # vs \<and> b \<notin> set us \<and> set as = set seen \<union> set us"
proof (induction xs arbitrary: seen)
  case Nil
  then show ?case by auto
next
  case (Cons x xs)
  show ?case
  proof (cases "x = b")
    case True
    then have "push_unseen x seen = seen @ [b]" using Cons.prems by (simp add: push_unseen_def)
    then have f: "fold push_unseen xs (seen @ [b]) = as @ b # bs" using Cons.prems by simp
    obtain r where r: "fold push_unseen xs (seen @ [b]) = seen @ [b] @ r"
      using push_unseen_prefix[of xs "seen @ [b]"] by auto
    have "distinct (as @ b # bs)" using push_unseen_distinct[of "seen @ [b]" xs] f Cons.prems by simp
    then have "b \<notin> set as" "b \<notin> set bs" by simp_all
    moreover have "as @ b # bs = seen @ b # r" using f r by simp
    ultimately have "as = seen" using append_Cons_eq_iff[of b as bs seen r] by simp
    then show ?thesis using True by (intro exI[of _ "[]"] exI[of _ xs]) simp
  next
    case False
    let ?seen = "push_unseen x seen"
    have "fold push_unseen xs ?seen = as @ b # bs" using Cons.prems(1) by simp
    moreover have "b \<notin> set ?seen" "distinct ?seen"
      using Cons.prems(2,3) False by (auto simp: push_unseen_def)
    ultimately obtain us vs where
      "xs = us @ b # vs" "b \<notin> set us" "set as = set ?seen \<union> set us"
      using Cons.IH by blast
    then show ?thesis using False
      by (intro exI[of _ "x # us"] exI[of _ vs]) (auto simp: push_unseen_def)
  qed
qed

section \<open>The iteration ends\<close>

lemma fold_inter: "foldl (\<lambda>s p. s \<inter> f p) a ps = a \<inter> (\<Inter>p\<in>set ps. f p)"
  by (induction ps arbitrary: a) auto

lemma new_dom_eq:
  assumes "\<forall>b. hm_get m b \<noteq> Some []"
  shows "new_dom m doms n = (if \<exists>p. pred_rel m p n
     then insert n (\<Inter>p\<in>{p. pred_rel m p n}. dom_get doms p) else {n})"
proof (cases "hm_get m n")
  case None
  then show ?thesis by (simp add: new_dom_def pred_rel_def)
next
  case (Some ps)
  then obtain q qs where ps: "ps = q # qs" using assms by (cases ps) auto
  have "{p. pred_rel m p n} = insert q (set qs)" using Some ps by (auto simp: pred_rel_def)
  moreover have "pred_rel m q n" using Some ps by (simp add: pred_rel_def)
  ultimately show ?thesis using Some ps by (auto simp: new_dom_def fold_inter)
qed

text \<open>A post-fixpoint: recomputing a node never adds a dominator.\<close>

definition shrinking :: "(string, string list) hmap \<Rightarrow> string list \<Rightarrow> (string, string set) hmap \<Rightarrow> bool" where
  "shrinking m nodes doms \<longleftrightarrow>
     (\<forall>n\<in>set nodes. n \<noteq> hd nodes \<longrightarrow> new_dom m doms n \<subseteq> dom_get doms n) \<and>
     (\<forall>n. dom_get doms n \<subseteq> set nodes) \<and> dom_get doms (hd nodes) = {hd nodes}"

definition dom_size :: "string list \<Rightarrow> (string, string set) hmap \<Rightarrow> nat" where
  "dom_size nodes doms = (\<Sum>n\<in>set nodes. card (dom_get doms n))"

lemma new_dom_mono:
  assumes "\<forall>b. hm_get m b \<noteq> Some []" "\<And>p. dom_get d p \<subseteq> dom_get d' p"
  shows "new_dom m d n \<subseteq> new_dom m d' n"
  using assms(2) unfolding new_dom_eq[OF assms(1)] by (auto 4 3)

lemma dom_get_insert [simp]: "dom_get (hm_insert n s d) p = (if p = n then s else dom_get d p)"
  by (simp add: dom_get_def)

lemma dom_visit_facts:
  assumes "\<forall>b. hm_get m b \<noteq> Some []" "shrinking m nodes d" "n \<in> set nodes"
    and "dom_visit m (hd nodes) n (c, d) = (c', d')"
  shows "shrinking m nodes d'" "dom_size nodes d' \<le> dom_size nodes d"
    "c' \<and> \<not> c \<Longrightarrow> dom_size nodes d' < dom_size nodes d"
    "\<not> c' \<Longrightarrow> \<not> c \<and> d' = d \<and> (n \<noteq> hd nodes \<longrightarrow> new_dom m d n = dom_get d n)"
proof -
  have "shrinking m nodes d' \<and> dom_size nodes d' \<le> dom_size nodes d \<and>
    (c' \<and> \<not> c \<longrightarrow> dom_size nodes d' < dom_size nodes d) \<and>
    (\<not> c' \<longrightarrow> \<not> c \<and> d' = d \<and> (n \<noteq> hd nodes \<longrightarrow> new_dom m d n = dom_get d n))"
  proof (cases "n = hd nodes \<or> new_dom m d n = dom_get d n")
    case True
    then have "dom_visit m (hd nodes) n (c, d) = (c, d)" by (auto simp: dom_visit_def Let_def)
    then show ?thesis using assms(2,4) True by auto
  next
    case False
    let ?nd = "new_dom m d n"
    have d': "d' = hm_insert n ?nd d" "c'" using assms(4) False by (auto simp: dom_visit_def Let_def)
    have sub: "?nd \<subseteq> dom_get d n" using assms(2,3) False by (simp add: shrinking_def)
    have le: "dom_get d' p \<subseteq> dom_get d p" for p using sub by (simp add: d')
    have "new_dom m d' k \<subseteq> dom_get d' k" if "k \<in> set nodes" "k \<noteq> hd nodes" for k
    proof (cases "k = n")
      case True
      then show ?thesis using new_dom_mono[OF assms(1) le, of n] by (simp add: d')
    next
      case False
      then show ?thesis using new_dom_mono[OF assms(1) le, of k] assms(2) that
        by (auto simp: d' shrinking_def)
    qed
    moreover have "dom_get d p \<subseteq> set nodes" for p using assms(2) by (simp add: shrinking_def)
    then have "dom_get d' p \<subseteq> set nodes" for p using subset_trans[OF le] by blast
    moreover have "dom_get d' (hd nodes) = {hd nodes}" using assms(2) False by (auto simp: d' shrinking_def)
    ultimately have "shrinking m nodes d'" by (simp add: shrinking_def)
    moreover have "dom_size nodes d' < dom_size nodes d"
      unfolding dom_size_def
    proof (rule sum_strict_mono_ex1)
      have fin: "finite (dom_get d p)" for p
        using assms(2) finite_subset[of "dom_get d p" "set nodes"] by (simp add: shrinking_def)
      show "\<forall>k\<in>set nodes. card (dom_get d' k) \<le> card (dom_get d k)"
        by (intro ballI card_mono fin le)
      have "?nd \<subset> dom_get d n" using sub False by blast
      then show "\<exists>k\<in>set nodes. card (dom_get d' k) < card (dom_get d k)"
        using assms(3) psubset_card_mono[OF fin] by (intro bexI[of _ n]) (auto simp: d')
    qed simp
    ultimately show ?thesis using d' by simp
  qed
  then show "shrinking m nodes d'" "dom_size nodes d' \<le> dom_size nodes d"
    "c' \<and> \<not> c \<Longrightarrow> dom_size nodes d' < dom_size nodes d"
    "\<not> c' \<Longrightarrow> \<not> c \<and> d' = d \<and> (n \<noteq> hd nodes \<longrightarrow> new_dom m d n = dom_get d n)"
    by auto
qed

lemma dom_visits_facts:
  assumes "\<forall>b. hm_get m b \<noteq> Some []" "set ns \<subseteq> set nodes"
    and "shrinking m nodes d" "fold (dom_visit m (hd nodes)) ns (c, d) = (c', d')"
  shows "shrinking m nodes d' \<and> dom_size nodes d' \<le> dom_size nodes d \<and>
    (c' \<and> \<not> c \<longrightarrow> dom_size nodes d' < dom_size nodes d) \<and>
    (\<not> c' \<longrightarrow> \<not> c \<and> d' = d \<and> (\<forall>n\<in>set ns. n \<noteq> hd nodes \<longrightarrow> new_dom m d n = dom_get d n))"
  using assms(2-)
proof (induction ns arbitrary: c d)
  case Nil
  then show ?case by simp
next
  case (Cons n ns)
  obtain c1 d1 where v: "dom_visit m (hd nodes) n (c, d) = (c1, d1)" by fastforce
  note f = dom_visit_facts[OF assms(1) Cons.prems(2) _ v]
  have n: "n \<in> set nodes" using Cons.prems(1) by simp
  have "shrinking m nodes d' \<and> dom_size nodes d' \<le> dom_size nodes d1 \<and>
    (c' \<and> \<not> c1 \<longrightarrow> dom_size nodes d' < dom_size nodes d1) \<and>
    (\<not> c' \<longrightarrow> \<not> c1 \<and> d' = d1 \<and> (\<forall>n\<in>set ns. n \<noteq> hd nodes \<longrightarrow> new_dom m d1 n = dom_get d1 n))"
    using Cons.IH[of d1 c1] Cons.prems v f(1)[OF n] by simp
  then show ?case using f(2-4)[OF n] by (cases c1) fastforce+
qed

lemma initial_dom_get:
  "dom_get (initial_dom nodes) n =
     (if n \<in> set nodes then if n = hd nodes then {n} else set nodes else {})"
proof -
  have "dom_get (fold (\<lambda>n m. hm_insert n (f n) m) ns m) n = (if n \<in> set ns then f n else dom_get m n)"
    for f :: "string \<Rightarrow> string set" and ns m
    by (induction ns arbitrary: m) auto
  then show ?thesis by (simp add: initial_dom_def dom_get_def)
qed

definition graph_ok :: "(string, string list) hmap \<Rightarrow> string list \<Rightarrow> bool" where
  "graph_ok m nodes \<longleftrightarrow> nodes \<noteq> [] \<and> (\<forall>b. hm_get m b \<noteq> Some []) \<and>
     (\<forall>a b. pred_rel m a b \<longrightarrow> a \<in> set nodes \<and> b \<in> set nodes)"

lemma initial_shrinking:
  assumes "graph_ok m nodes"
  shows "shrinking m nodes (initial_dom nodes)"
proof -
  have ne: "\<forall>b. hm_get m b \<noteq> Some []" and "nodes \<noteq> []" using assms by (auto simp: graph_ok_def)
  then have "hd nodes \<in> set nodes" by simp
  moreover have "new_dom m (initial_dom nodes) n \<subseteq> set nodes" if "n \<in> set nodes" for n
  proof (cases "\<exists>p. pred_rel m p n")
    case True
    then obtain p where "pred_rel m p n" by blast
    then have "(\<Inter>p\<in>{p. pred_rel m p n}. dom_get (initial_dom nodes) p) \<subseteq> dom_get (initial_dom nodes) p"
      by blast
    also have "\<dots> \<subseteq> set nodes" by (auto simp: initial_dom_get split: if_splits)
    finally show ?thesis using that True unfolding new_dom_eq[OF ne] by simp
  next
    case False
    then show ?thesis using that unfolding new_dom_eq[OF ne] by simp
  qed
  ultimately show ?thesis by (simp add: shrinking_def initial_dom_get)
qed

lemma dom_loop_ends:
  assumes ok: "graph_ok m nodes"
  obtains doms where "dom_loop m nodes = Some (False, doms)" and "dom_get doms (hd nodes) = {hd nodes}"
    and "\<forall>n\<in>set nodes. n \<noteq> hd nodes \<longrightarrow> dom_get doms n = new_dom m doms n"
proof -
  have ne: "\<forall>b. hm_get m b \<noteq> Some []" using ok by (simp add: graph_ok_def)
  define P where "P = (\<lambda>s. shrinking m nodes (snd s) \<and>
    (\<not> fst s \<longrightarrow> (\<forall>n\<in>set nodes. n \<noteq> hd nodes \<longrightarrow> new_dom m (snd s) n = dom_get (snd s) n)))"
  define f where "f = (\<lambda>s. 2 * dom_size nodes (snd s) + (if fst s then 1 else 0))"
  have step: "P (dom_pass m nodes s) \<and> f (dom_pass m nodes s) < f s" if Ps: "P s" and b: "fst s" for s
  proof -
    obtain d where s: "s = (True, d)" using b by (cases s) auto
    obtain c' d' where fd: "fold (dom_visit m (hd nodes)) nodes (False, d) = (c', d')" by fastforce
    have sh: "shrinking m nodes d" using Ps s by (simp add: P_def)
    note df = dom_visits_facts[OF ne subset_refl sh fd]
    have eq: "dom_pass m nodes s = (c', d')" using s fd by (simp add: dom_pass_def)
    from df have "P (c', d')" by (auto simp: P_def)
    moreover from df have "f (c', d') < f s" unfolding s f_def by (cases c') simp_all
    ultimately show ?thesis unfolding eq by blast
  qed
  have init: "P (True, initial_dom nodes)" using initial_shrinking[OF ok] by (simp add: P_def)
  obtain s where s: "while_option fst (dom_pass m nodes) (True, initial_dom nodes) = Some s"
    using measure_while_option_Some[of P fst "dom_pass m nodes" f "(True, initial_dom nodes)", OF step init]
    by blast
  have "P s" using while_option_rule[of P fst, OF _ s init] step by blast
  moreover have "\<not> fst s" using while_option_stop[OF s] .
  ultimately show thesis
    using s that[of "snd s"] by (cases s) (auto simp: shrinking_def P_def dom_loop_def)
qed

section \<open>Paths and milestones\<close>

definition is_path :: "(string \<Rightarrow> string \<Rightarrow> bool) \<Rightarrow> string \<Rightarrow> string \<Rightarrow> string list \<Rightarrow> bool" where
  "is_path R a b xs \<longleftrightarrow> xs \<noteq> [] \<and> hd xs = a \<and> last xs = b \<and> successively R xs"

text \<open>\<open>d\<close> lies on every path from the start to \<open>n\<close>.\<close>

definition on_every_path :: "(string \<Rightarrow> string \<Rightarrow> bool) \<Rightarrow> string \<Rightarrow> string \<Rightarrow> string \<Rightarrow> bool" where
  "on_every_path R start d n \<longleftrightarrow> (\<forall>xs. is_path R start n xs \<longrightarrow> d \<in> set xs)"

lemma is_path_snoc:
  "xs \<noteq> [] \<Longrightarrow> is_path R a b (xs @ [y]) \<longleftrightarrow> b = y \<and> R (last xs) y \<and> is_path R a (last xs) xs"
  by (auto simp: is_path_def successively_append_iff)

lemma is_path_prefix: "is_path R a b (xs @ y # ys) \<Longrightarrow> is_path R a y (xs @ [y])"
  by (auto simp: is_path_def successively_append_iff hd_append split: if_splits)

lemma is_path_join:
  assumes "is_path R a y xs" "is_path R c b (us @ y # ys)"
  shows "is_path R a b (xs @ ys)"
proof (cases ys)
  case Nil
  then show ?thesis using assms by (simp add: is_path_def)
next
  case (Cons z zs)
  then show ?thesis using assms
    by (auto simp: is_path_def successively_append_iff successively_Cons)
qed

lemma fixpoint_on_every_path:
  assumes ok: "graph_ok m nodes" and start: "dom_get doms (hd nodes) = {hd nodes}"
    and fp: "\<forall>n\<in>set nodes. n \<noteq> hd nodes \<longrightarrow> dom_get doms n = new_dom m doms n"
    and path: "is_path (pred_rel m) (hd nodes) n xs" and d: "d \<in> dom_get doms n"
  shows "d \<in> set xs"
  using path d
proof (induction xs arbitrary: n rule: rev_induct)
  case Nil
  then show ?case by (simp add: is_path_def)
next
  case (snoc y xs)
  show ?case
  proof (cases "xs = []")
    case True
    then have "n = hd nodes" "y = hd nodes" using snoc.prems(1) by (auto simp: is_path_def)
    then show ?thesis using snoc.prems(2) start by simp
  next
    case False
    then have p: "n = y" "pred_rel m (last xs) y" "is_path (pred_rel m) (hd nodes) (last xs) xs"
      using snoc.prems(1) by (simp_all add: is_path_snoc)
    show ?thesis
    proof (cases "y = hd nodes")
      case True
      then show ?thesis using snoc.prems(2) start p(1) by simp
    next
      case ny: False
      have "y \<in> set nodes" using ok p(2) by (auto simp: graph_ok_def)
      then have "dom_get doms y = new_dom m doms y" using fp ny by blast
      also have "\<dots> = insert y (\<Inter>q\<in>{q. pred_rel m q y}. dom_get doms q)"
        using ok p(2) by (subst new_dom_eq) (auto simp: graph_ok_def)
      finally have "d = y \<or> d \<in> dom_get doms (last xs)" using snoc.prems(2) p(1,2) by auto
      then show ?thesis using snoc.IH[OF p(3)] by auto
    qed
  qed
qed

text \<open>
  From the other side: where every other node has a predecessor, the iteration never loses a node
  that lies on every path.
\<close>

definition keeps_doms :: "(string, string list) hmap \<Rightarrow> string list \<Rightarrow> (string, string set) hmap \<Rightarrow> bool" where
  "keeps_doms m nodes doms \<longleftrightarrow>
     (\<forall>n\<in>set nodes. \<forall>d\<in>set nodes. on_every_path (pred_rel m) (hd nodes) d n \<longrightarrow> d \<in> dom_get doms n)"

definition all_entered :: "(string, string list) hmap \<Rightarrow> string list \<Rightarrow> bool" where
  "all_entered m nodes \<longleftrightarrow> (\<forall>n\<in>set nodes. n \<noteq> hd nodes \<longrightarrow> (\<exists>p. pred_rel m p n))"

lemma on_every_path_pred:
  assumes "on_every_path R s d n" "R p n" "d \<noteq> n"
  shows "on_every_path R s d p"
  unfolding on_every_path_def
proof (intro allI impI)
  fix xs
  assume xs: "is_path R s p xs"
  then have "is_path R s n (xs @ [n])" using assms(2) by (subst is_path_snoc) (auto simp: is_path_def)
  then show "d \<in> set xs" using assms(1,3) by (fastforce simp: on_every_path_def)
qed

lemma dom_visit_keeps:
  assumes ok: "graph_ok m nodes" and en: "all_entered m nodes" and n: "n \<in> set nodes"
    and k: "keeps_doms m nodes (snd s)"
  shows "keeps_doms m nodes (snd (dom_visit m (hd nodes) n s))"
proof -
  have "d \<in> new_dom m (snd s) n"
    if "d \<in> set nodes" "on_every_path (pred_rel m) (hd nodes) d n" "n \<noteq> hd nodes" for d
  proof -
    have "d = n \<or> (\<forall>p. pred_rel m p n \<longrightarrow> d \<in> dom_get (snd s) p)"
      using on_every_path_pred[OF that(2)] k ok that(1) unfolding keeps_doms_def graph_ok_def by blast
    moreover have "\<exists>p. pred_rel m p n" using en n that(3) by (simp add: all_entered_def)
    ultimately show ?thesis using ok by (subst new_dom_eq) (auto simp: graph_ok_def)
  qed
  then show ?thesis using k by (auto simp: keeps_doms_def dom_visit_def Let_def)
qed

lemma dom_loop_keeps:
  assumes ok: "graph_ok m nodes" and en: "all_entered m nodes" and l: "dom_loop m nodes = Some s"
  shows "keeps_doms m nodes (snd s)"
proof -
  have visits: "keeps_doms m nodes (snd (fold (dom_visit m (hd nodes)) ns t))"
    if "set ns \<subseteq> set nodes" "keeps_doms m nodes (snd t)" for ns t
    using that by (induction ns arbitrary: t) (simp_all add: dom_visit_keeps[OF ok en])
  have "d = hd nodes" if "on_every_path (pred_rel m) (hd nodes) d (hd nodes)" for d
    using that by (auto simp: on_every_path_def is_path_def dest: spec[of _ "[hd nodes]"])
  then have init: "keeps_doms m nodes (snd (True, initial_dom nodes))"
    by (auto simp: keeps_doms_def initial_dom_get)
  show ?thesis
    using while_option_rule[of "\<lambda>s. keeps_doms m nodes (snd s)", OF _ l[unfolded dom_loop_def] init]
    by (simp add: dom_pass_def visits)
qed

lemma build_graph_ok:
  assumes "build_graph traces = (nodes, m)" "nodes \<noteq> []"
  shows "graph_ok m nodes" "set nodes = (\<Union>t\<in>set traces. set (node_sequence t))"
    "\<And>a b. pred_rel m a b \<longleftrightarrow> (\<exists>t\<in>set traces. (a, b) \<in> set (windows2 (node_sequence t)))"
proof -
  have m: "m = fold add_predecessor (concat (map (\<lambda>t. windows2 (node_sequence t)) traces)) []"
    and n: "nodes = fold push_unseen (concat (map node_sequence traces)) []"
    using assms(1) by (simp_all add: build_graph_def)
  show rel: "pred_rel m a b \<longleftrightarrow> (\<exists>t\<in>set traces. (a, b) \<in> set (windows2 (node_sequence t)))" for a b
    by (simp add: m pred_fold_rel) (simp add: pred_rel_def)
  show sn: "set nodes = (\<Union>t\<in>set traces. set (node_sequence t))"
    by (simp add: n push_unseen_fold)
  have w: "a \<in> set sq" "b \<in> set sq" if "(a, b) \<in> set (windows2 sq)" for a b sq
    by (rule set_zip_leftD[OF that[unfolded windows2_def]],
        rule in_set_tl[OF set_zip_rightD[OF that[unfolded windows2_def]]])
  have "a \<in> set nodes \<and> b \<in> set nodes" if "pred_rel m a b" for a b
  proof -
    from that obtain t where t: "t \<in> set traces" "(a, b) \<in> set (windows2 (node_sequence t))"
      unfolding rel by blast
    from w[OF t(2)] t(1) show ?thesis unfolding sn by blast
  qed
  moreover have "\<forall>b. hm_get m b \<noteq> Some []" using pred_fold_nonempty[of "[]"] by (simp add: m)
  ultimately show "graph_ok m nodes" using assms(2) by (simp add: graph_ok_def)
qed

lemma successively_windows: "successively (\<lambda>a b. (a, b) \<in> set (windows2 xs)) xs"
  by (auto simp: successively_conv_nth windows2_def in_set_zip nth_tl intro!: exI)

lemma trace_is_path:
  assumes "build_graph traces = (nodes, m)" "nodes \<noteq> []" "t \<in> set traces" "node_sequence t \<noteq> []"
  shows "is_path (pred_rel m) (hd (node_sequence t)) (last (node_sequence t)) (node_sequence t)"
  unfolding is_path_def using assms(3,4) build_graph_ok(3)[OF assms(1,2)]
  by (auto intro: successively_mono[OF successively_windows])

text \<open>All traces begin with the same node.\<close>

definition common_start :: "execution_trace list \<Rightarrow> string \<Rightarrow> bool" where
  "common_start traces s \<longleftrightarrow> (\<forall>t\<in>set traces. node_sequence t \<noteq> [] \<and> hd (node_sequence t) = s)"

definition end_node :: "execution_trace list \<Rightarrow> string" where
  "end_node traces = (case build_graph traces of (nodes, m) \<Rightarrow> find_end_node nodes m)"

lemma hd_nodes:
  assumes "build_graph traces = (nodes, m)" "traces \<noteq> []" "common_start traces s"
  shows "nodes \<noteq> []" "hd nodes = s"
proof -
  obtain t ts where t: "traces = t # ts" using assms(2) by (cases traces) auto
  then obtain xs where xs: "node_sequence t = s # xs"
    using assms(3) by (cases "node_sequence t") (auto simp: common_start_def)
  have "nodes = fold push_unseen (xs @ concat (map node_sequence ts)) [s]"
    using assms(1) t xs by (simp add: build_graph_def push_unseen_def)
  then show "nodes \<noteq> []" "hd nodes = s"
    using push_unseen_prefix[of "xs @ concat (map node_sequence ts)" "[s]"] by auto
qed

lemma extract_dominators_spec:
  assumes "traces \<noteq> []" "common_start traces s"
  obtains nodes m ms where "build_graph traces = (nodes, m)" "nodes \<noteq> []" "hd nodes = s"
    and "extract_dominators traces = Some ms"
    and "\<And>d. d \<in> set ms \<Longrightarrow> on_every_path (pred_rel m) s d (end_node traces)"
    and "\<exists>P. ms = filter P nodes"
proof -
  obtain nodes m where g: "build_graph traces = (nodes, m)" by fastforce
  note h = hd_nodes[OF g assms]
  note ok = build_graph_ok(1)[OF g h(1)]
  obtain doms where d: "dom_loop m nodes = Some (False, doms)" "dom_get doms (hd nodes) = {hd nodes}"
    "\<forall>n\<in>set nodes. n \<noteq> hd nodes \<longrightarrow> dom_get doms n = new_dom m doms n"
    using dom_loop_ends[OF ok] by blast
  let ?ms = "filter (\<lambda>n. n \<in> dom_get doms (find_end_node nodes m)) nodes"
  have "extract_dominators traces = Some ?ms"
    using g h(1) d(1) assms(1) by (simp add: extract_dominators_def)
  moreover have "on_every_path (pred_rel m) s x (end_node traces)" if "x \<in> set ?ms" for x
    using fixpoint_on_every_path[OF ok d(2,3)] that g h(2) by (auto simp: on_every_path_def end_node_def)
  ultimately show thesis using that[OF g h] by blast
qed

lemma nodes_reached:
  assumes "build_graph traces = (nodes, m)" "traces \<noteq> []" "common_start traces s" "n \<in> set nodes"
  shows "\<exists>xs. is_path (pred_rel m) s n xs"
proof -
  note h = hd_nodes[OF assms(1-3)]
  obtain t where t: "t \<in> set traces" "n \<in> set (node_sequence t)"
    using assms(4) build_graph_ok(2)[OF assms(1) h(1)] by auto
  then obtain us vs where uv: "node_sequence t = us @ n # vs" using split_list by metis
  have "is_path (pred_rel m) s (last (node_sequence t)) (us @ n # vs)"
    using trace_is_path[OF assms(1) h(1) t(1)] assms(3) t(1) uv by (auto simp: common_start_def)
  then show ?thesis using is_path_prefix by metis
qed

lemma end_node_known: "build_graph traces = (nodes, m) \<Longrightarrow> nodes \<noteq> [] \<Longrightarrow> end_node traces \<in> set nodes"
proof -
  let ?sinks = "filter (\<lambda>n. n \<notin> set (concat (map snd m))) nodes"
  assume g: "build_graph traces = (nodes, m)" "nodes \<noteq> []"
  have "hd ?sinks \<in> set nodes" if "length ?sinks = 1"
  proof -
    have "hd ?sinks \<in> set ?sinks" using that by (intro hd_in_set) auto
    then show ?thesis by simp
  qed
  moreover have "(case rev nodes of n # _ \<Rightarrow> n | [] \<Rightarrow> []) \<in> set nodes"
    using g(2) by (cases nodes rule: rev_cases) auto
  ultimately show ?thesis using g(1) by (simp add: end_node_def find_end_node_def Let_def)
qed

text \<open>The milestones are exactly the nodes on every path from the start to the end node.\<close>

lemma extract_dominators_exact:
  assumes "traces \<noteq> []" "common_start traces s" "build_graph traces = (nodes, m)"
  shows "extract_dominators traces =
    Some (filter (\<lambda>d. on_every_path (pred_rel m) s d (end_node traces)) nodes)"
proof -
  note h = hd_nodes[OF assms(3,1,2)]
  note ok = build_graph_ok(1)[OF assms(3) h(1)]
  let ?e = "find_end_node nodes m"
  have e: "?e = end_node traces" "?e \<in> set nodes"
    using assms(3) end_node_known[OF assms(3) h(1)] by (simp_all add: end_node_def)
  have "\<exists>p. pred_rel m p n" if n: "n \<in> set nodes" "n \<noteq> hd nodes" for n
  proof -
    obtain xs where xs: "is_path (pred_rel m) s n xs" using nodes_reached[OF assms(3,1,2) n(1)] by blast
    then show ?thesis
      using n(2) h(2) by (cases xs rule: rev_cases) (auto simp: is_path_def successively_append_iff)
  qed
  then have en: "all_entered m nodes" by (simp add: all_entered_def)
  obtain doms where d: "dom_loop m nodes = Some (False, doms)" "dom_get doms (hd nodes) = {hd nodes}"
    "\<forall>n\<in>set nodes. n \<noteq> hd nodes \<longrightarrow> dom_get doms n = new_dom m doms n"
    using dom_loop_ends[OF ok] by blast
  have "d \<in> dom_get doms ?e \<longleftrightarrow> on_every_path (pred_rel m) s d (end_node traces)" if "d \<in> set nodes" for d
    using fixpoint_on_every_path[OF ok d(2,3)] dom_loop_keeps[OF ok en d(1)] that e h(2)
    by (auto simp: on_every_path_def keeps_doms_def)
  then have "filter (\<lambda>n. n \<in> dom_get doms ?e) nodes =
      filter (\<lambda>d. on_every_path (pred_rel m) s d (end_node traces)) nodes"
    by (intro filter_cong) simp_all
  then show ?thesis using assms(1,3) h(1) d(1) by (simp add: extract_dominators_def)
qed

text \<open>Two milestones of the same node: one lies on every path to the other.\<close>

lemma last_of_either:
  assumes "a \<in> set xs"
  obtains us vs where "xs = us @ a # vs" "b \<notin> set vs" "a \<notin> set vs"
  | us vs where "xs = us @ b # vs" "a \<notin> set vs" "b \<notin> set vs"
proof -
  have "\<exists>x\<in>set xs. x = a \<or> x = b" using assms by blast
  then obtain us x vs where x: "xs = us @ x # vs" "x = a \<or> x = b" "\<forall>z\<in>set vs. \<not> (z = a \<or> z = b)"
    by (rule split_list_last_propE)
  then have "a \<notin> set vs" "b \<notin> set vs" by auto
  then show thesis using x(1,2) that by metis
qed

lemma milestones_ordered:
  assumes a: "on_every_path R s a e" and b: "on_every_path R s b e" and p: "is_path R s e p"
    and "a \<noteq> b"
  shows "on_every_path R s a b \<or> on_every_path R s b a"
proof (rule ccontr)
  assume "\<not> ?thesis"
  then obtain pb pa where pb: "is_path R s b pb" "a \<notin> set pb" and pa: "is_path R s a pa" "b \<notin> set pa"
    unfolding on_every_path_def by blast
  have "a \<in> set p" using a p by (simp add: on_every_path_def)
  then show False
  proof (cases rule: last_of_either[of a p b])
    case (1 us vs)
    then have "is_path R s e (pa @ vs)" using is_path_join[OF pa(1)] p by blast
    then show False using b 1 pa(2) by (auto simp: on_every_path_def)
  next
    case (2 us vs)
    then have "is_path R s e (pb @ vs)" using is_path_join[OF pb(1)] p by blast
    then show False using a 2 pb(2) by (auto simp: on_every_path_def)
  qed
qed

section \<open>Training traces validate\<close>

lemma position_Some:
  "x \<in> set xs \<Longrightarrow> \<exists>us vs. xs = us @ x # vs \<and> x \<notin> set us \<and> position x xs = Some (length us)"
proof (induction xs)
  case (Cons y ys)
  show ?case
  proof (cases "y = x")
    case False
    then obtain us vs where "ys = us @ x # vs" "x \<notin> set us" "position x ys = Some (length us)"
      using Cons by auto
    then show ?thesis using False by (intro exI[of _ "y # us"] exI[of _ vs]) auto
  qed (auto intro!: exI[of _ "[]"])
qed simp

lemma validate_loop_sorted:
  assumes "\<forall>d\<in>set ds. position d sq = Some (pos d)" "sorted_wrt (<) (map pos ds)"
    and "\<forall>q. l = Some q \<longrightarrow> (\<forall>d\<in>set ds. q < pos d)"
  shows "validate_loop sq ds [] l False = ([], False)"
  using assms
proof (induction ds arbitrary: l)
  case (Cons d ds)
  have "validate_loop sq ds [] (Some (pos d)) False = ([], False)"
    using Cons.prems by (intro Cons.IH) auto
  then show ?case using Cons.prems(1,3) by (auto split: option.splits)
qed simp

lemma nodes_order:
  assumes "build_graph traces = (nodes, m)" "nodes = as @ b # bs"
  obtains t us vs where "t \<in> set traces" "node_sequence t = us @ b # vs" "b \<notin> set us"
    and "\<And>x. x \<in> set us \<Longrightarrow> x \<in> set as"
proof -
  have "fold push_unseen (concat (map node_sequence traces)) [] = as @ b # bs"
    using assms by (simp add: build_graph_def)
  then obtain us vs where uv: "concat (map node_sequence traces) = us @ b # vs" "b \<notin> set us" "set as = set us"
    using push_unseen_order[of "concat (map node_sequence traces)" "[]" as b bs] by auto
  have "\<exists>t xs ys. t \<in> set ts \<and> node_sequence t = xs @ b # ys \<and> set xs \<subseteq> set us"
    if "concat (map node_sequence ts) = us @ b # vs" for ts us vs
    using that
  proof (induction ts arbitrary: us)
    case (Cons t ts)
    from Cons.prems obtain zs where
      "node_sequence t @ zs = us \<and> concat (map node_sequence ts) = zs @ b # vs \<or>
       node_sequence t = us @ zs \<and> zs @ concat (map node_sequence ts) = b # vs"
      by (auto simp: append_eq_append_conv2)
    then show ?case
    proof
      assume "node_sequence t @ zs = us \<and> concat (map node_sequence ts) = zs @ b # vs"
      then show ?thesis using Cons.IH[of zs] by fastforce
    next
      assume "node_sequence t = us @ zs \<and> zs @ concat (map node_sequence ts) = b # vs"
      then show ?thesis
        using Cons.IH[of "[]"] by (cases zs) fastforce+
    qed
  qed simp
  from this[OF uv(1)] obtain t xs ys where
    "t \<in> set traces" "node_sequence t = xs @ b # ys" "set xs \<subseteq> set us" by blast
  with uv(2,3) that[of t xs ys] show thesis by auto
qed

lemma milestones_in_order:
  assumes g: "build_graph traces = (nodes, m)" "nodes \<noteq> []" and cs: "common_start traces s"
    and a: "on_every_path (pred_rel m) s a e" and b: "on_every_path (pred_rel m) s b e"
    and p: "is_path (pred_rel m) s e p" and nodes: "nodes = as @ b # bs" "a \<in> set as" "a \<noteq> b"
    and pb: "p = us @ b # vs" "b \<notin> set us"
  shows "a \<in> set us"
proof -
  let ?R = "pred_rel m"
  obtain t us' vs' where t: "t \<in> set traces" "node_sequence t = us' @ b # vs'" "b \<notin> set us'"
    using nodes_order[OF g(1) nodes(1)] by metis
  have "distinct nodes"
    using g(1) push_unseen_distinct[of "[]"] by (auto simp: build_graph_def)
  obtain as1 as2 where as: "as = as1 @ a # as2" using nodes(2) split_list by metis
  then have "nodes = as1 @ a # (as2 @ b # bs)" using nodes(1) by simp
  from nodes_order[OF g(1) this] obtain u xs ys where
    u: "u \<in> set traces" "node_sequence u = xs @ a # ys" "\<And>x. x \<in> set xs \<Longrightarrow> x \<in> set as1"
    by metis
  have "is_path ?R s (last (node_sequence u)) (xs @ a # ys)"
    using trace_is_path[OF g u(1)] cs u(1,2) by (auto simp: common_start_def)
  then have "is_path ?R s a (xs @ [a])" by (rule is_path_prefix)
  moreover have "b \<notin> set (xs @ [a])"
    using u(3) \<open>distinct nodes\<close> nodes as by auto
  ultimately have "\<not> on_every_path ?R s b a" by (auto simp: on_every_path_def)
  then have "on_every_path ?R s a b"
    using milestones_ordered[OF a b p nodes(3)] by blast
  moreover have "is_path ?R s b (us @ [b])" using is_path_prefix p pb(1) by metis
  ultimately show ?thesis using nodes(3) by (auto simp: on_every_path_def)
qed

lemma sorted_wrt_filter_nodes:
  assumes "distinct nodes"
    and "\<And>as b bs a. nodes = as @ b # bs \<Longrightarrow> a \<in> set as \<Longrightarrow> P a \<Longrightarrow> P b \<Longrightarrow>
           (f :: string \<Rightarrow> nat) a < f b"
  shows "sorted_wrt (<) (map (f :: string \<Rightarrow> nat) (filter P nodes))"
  using assms
proof (induction nodes rule: rev_induct)
  case (snoc n nodes)
  have "sorted_wrt (<) (map f (filter P nodes))"
  proof (rule snoc.IH)
    fix as b bs a assume "nodes = as @ b # bs" "a \<in> set as" "P a" "P b"
    then show "f a < f b" using snoc.prems(2)[of as b "bs @ [n]" a] by simp
  qed (use snoc.prems(1) in simp)
  moreover have "f a < f n" if "a \<in> set nodes" "P a" "P n" for a
    using snoc.prems(2)[of nodes n "[]" a] that by simp
  ultimately show ?case by (auto simp: sorted_wrt_append)
qed simp

lemma training_traces_validate:
  assumes cs: "common_start traces s" and t: "t \<in> set traces"
    and e: "end_node traces \<in> set (node_sequence t)"
  shows "\<exists>ms. extract_dominators traces = Some ms \<and> validate_against_dominators t ms = Inr ()"
proof -
  have ne: "traces \<noteq> []" using t by auto
  obtain nodes m ms P where g: "build_graph traces = (nodes, m)" "nodes \<noteq> []"
    and ex: "extract_dominators traces = Some ms"
    and dom: "\<And>d. d \<in> set ms \<Longrightarrow> on_every_path (pred_rel m) s d (end_node traces)"
    and ms: "ms = filter P nodes"
    using extract_dominators_spec[OF ne cs] by metis
  let ?R = "pred_rel m" and ?e = "end_node traces" and ?q = "node_sequence t"
  obtain pre post where q: "?q = pre @ ?e # post" using e split_list by metis
  have "is_path ?R s (last ?q) (pre @ ?e # post)"
    using trace_is_path[OF g t] cs t unfolding q[symmetric] by (auto simp: common_start_def)
  then have p: "is_path ?R s ?e (pre @ [?e])" by (rule is_path_prefix)
  have mem: "d \<in> set ?q" if "d \<in> set ms" for d
    using dom[OF that] p q unfolding on_every_path_def by fastforce
  define pos where "pos d = the (position d ?q)" for d
  have pos: "position d ?q = Some (pos d)" if "d \<in> set ms" for d
    using position_Some[OF mem[OF that]] by (auto simp: pos_def)
  have "pos a < pos b" if ab: "nodes = as @ b # bs" "a \<in> set as" "P a" "P b" for as b bs a
  proof -
    have abms: "a \<in> set ms" "b \<in> set ms" using ab by (auto simp: ms)
    have "distinct nodes" using g(1) push_unseen_distinct[of "[]"] by (auto simp: build_graph_def)
    then have "a \<noteq> b" using ab by auto
    obtain us vs where b: "pre @ [?e] = us @ b # vs" "b \<notin> set us"
      using dom[OF abms(2)] p unfolding on_every_path_def by (metis split_list_first)
    have "a \<in> set us"
      by (rule milestones_in_order[OF g cs dom[OF abms(1)] dom[OF abms(2)] p ab(1,2) \<open>a \<noteq> b\<close> b])
    then obtain us1 us2 where us: "us = us1 @ a # us2" "a \<notin> set us1" by (metis split_list_first)
    have qb: "?q = us @ b # (vs @ post)" using q b(1) by (metis append.assoc append_Cons append_Nil)
    have split: "position x (ws @ x # zs) = Some (length ws)" if "x \<notin> set ws" for x ws zs
      using that by (induction ws) auto
    have "pos b = length us" using split[OF b(2)] by (simp add: pos_def qb)
    moreover have "pos a = length us1"
      using split[OF us(2), of "us2 @ b # (vs @ post)"] by (simp add: pos_def qb us(1))
    ultimately show ?thesis using us(1) by simp
  qed
  then have "sorted_wrt (<) (map pos ms)"
    unfolding ms using g(1) push_unseen_distinct[of "[]"]
    by (intro sorted_wrt_filter_nodes) (auto simp: build_graph_def)
  then have "validate_loop ?q ms [] None False = ([], False)"
    using pos by (intro validate_loop_sorted) auto
  then show ?thesis using ex by (simp add: validate_against_dominators_def)
qed

section \<open>Properties\<close>

text \<open>
  C33: for traces with a common start the milestone extraction returns, whatever the graph, and the
  milestones are exactly the nodes that lie on every path of the union graph from the start to the
  end node, in the order the nodes were first seen; and there is such a path.
\<close>

theorem milestones_unavoidable:
  assumes "traces \<noteq> []" "common_start traces s" "build_graph traces = (nodes, m)"
  shows "extract_dominators traces =
      Some (filter (\<lambda>d. \<forall>xs. is_path (pred_rel m) s (end_node traces) xs \<longrightarrow> d \<in> set xs) nodes) \<and>
    (\<exists>xs. is_path (pred_rel m) s (end_node traces) xs)"
  using extract_dominators_exact[OF assms] hd_nodes(1)[OF assms(3,1,2)]
    nodes_reached[OF assms(3,1,2) end_node_known[OF assms(3)]]
  unfolding on_every_path_def by blast

definition sample_trace :: "string \<Rightarrow> execution_trace" where
  "sample_trace x = trace_record ''end'' ''completed'' 3
     (trace_record x ''completed'' 2 (trace_record ''s'' ''completed'' 1 (trace_new ''t'')))"

lemma sample_sequence: "node_sequence (sample_trace x) = [''s'', x, ''end'']"
  by (simp add: sample_trace_def node_sequence_def trace_record_def trace_new_def)

abbreviation sample_traces :: "execution_trace list" where
  "sample_traces \<equiv> [sample_trace ''x'', sample_trace ''y'']"

lemma sample_start: "sample_traces \<noteq> []" "common_start sample_traces ''s''"
  by (simp_all add: common_start_def sample_sequence)

theorem milestones_unavoidable_witness:
  "\<exists>ms. extract_dominators sample_traces = Some ms \<and> ''x'' \<notin> set ms \<and> ''s'' \<in> set ms"
proof -
  obtain nodes m where g: "build_graph sample_traces = (nodes, m)" by fastforce
  note h = hd_nodes[OF g sample_start]
  have rel: "pred_rel m a b \<longleftrightarrow> (\<exists>t\<in>set sample_traces. (a, b) \<in> set (windows2 (node_sequence t)))" for a b
    using build_graph_ok(3)[OF g h(1)] by blast
  have e: "end_node sample_traces = ''end''"
    by (simp add: end_node_def build_graph_def push_unseen_def add_predecessor_def find_end_node_def
        windows2_def sample_sequence Let_def)
  have "is_path (pred_rel m) ''s'' ''end'' [''s'', ''y'', ''end'']"
    by (simp add: is_path_def rel sample_sequence windows2_def)
  then have "\<not> (\<forall>xs. is_path (pred_rel m) ''s'' (end_node sample_traces) xs \<longrightarrow> ''x'' \<in> set xs)"
    unfolding e by (intro notI) (drule spec[of _ "[''s'', ''y'', ''end'']"], simp)
  moreover have "''s'' \<in> set xs" if "is_path (pred_rel m) ''s'' (end_node sample_traces) xs" for xs
    using that hd_in_set[of xs] by (auto simp: is_path_def)
  moreover have "''s'' \<in> set nodes" using h by (metis hd_in_set)
  ultimately show ?thesis
    using milestones_unavoidable[OF sample_start g] by auto
qed

text \<open>
  every training trace that reaches the end node passes validation against the
  milestones extracted from the training set: none is missing or out of order.
\<close>

theorem training_traces_pass:
  assumes "common_start traces s" "t \<in> set traces" "end_node traces \<in> set (node_sequence t)"
  shows "\<exists>ms. extract_dominators traces = Some ms \<and> validate_against_dominators t ms = Inr ()"
  by (rule training_traces_validate[OF assms])

theorem training_traces_pass_witness:
  "\<exists>ms. extract_dominators sample_traces = Some ms \<and>
     validate_against_dominators (hd sample_traces) ms = Inr ()"
proof -
  have "end_node sample_traces = ''end''"
    by (simp add: end_node_def build_graph_def push_unseen_def add_predecessor_def find_end_node_def
        windows2_def sample_sequence Let_def)
  then have "end_node sample_traces \<in> set (node_sequence (sample_trace ''x''))"
    by (simp add: sample_sequence)
  from training_traces_pass[OF sample_start(2) _ this] show ?thesis by simp
qed

end
