(* ===== verification/Verification.thy ===== *)
theory Verification
  imports FlowDag ValueStore
begin

text \<open>
  Checking of task outputs in the flow engine: mandate validation
  (\<open>navra-flow/src/validation/mandate.rs\<close>) and cross-validation by verifier agents
  (\<open>navra-flow/src/verification.rs\<close>).  Scores are \<open>f32\<close> in the code; every value
  they take is an integer far below \<open>2^24\<close>, so they are \<open>int\<close> here.  Running an agent
  is a parameter that maps a specialist, a prompt and the state of the world to the
  new world and the agent's result; so is parsing of a JSON text.
\<close>

abbreviation nl :: string where
  "nl \<equiv> [CHR 0x0A]"

abbreviation quot :: string where
  "quot \<equiv> [CHR 0x27]"

section \<open>Mandate validation\<close>

record validation_result =
  vr_score :: int
  vr_passed :: bool
  vr_notes :: "string list"

definition PASS_THRESHOLD :: int where
  "PASS_THRESHOLD = 70"

definition check_criterion :: "string \<Rightarrow> string \<Rightarrow> bool" where
  "check_criterion criterion output =
     (let keywords = filter (\<lambda>w. length w > 3) (split_whitespace criterion) in
      if keywords = [] then True
      else list_ex (\<lambda>kw. contains (to_lowercase output) (to_lowercase kw)) keywords)"

definition validate_mandate :: "('v, 'f) task \<Rightarrow> string \<Rightarrow> validation_result" where
  "validate_mandate t output =
     (let (score1, notes1) =
            (if trim_ws output = [] then (100 - 30, [''Output is empty'']) else (100, []));
          (score2, notes2) =
            (if tk_expected_output t \<noteq> None \<and> length output < 100
             then (score1 - 20, notes1 @ [''Output too short: '' @ show_nat (length output) @
                     '' chars (expected substantial output)''])
             else (score1, notes1));
          (score3, notes3) =
            fold (\<lambda>criterion (score, notes).
                    if \<not> check_criterion criterion output
                    then (score - 15, notes @ [''Missing criterion: '' @ quot @ criterion @ quot])
                    else (score, notes))
              (tk_success_criteria t) (score2, notes2);
          score = max score3 0
      in \<lparr>vr_score = score, vr_passed = score \<ge> PASS_THRESHOLD, vr_notes = notes3\<rparr>)"

section \<open>Verdicts\<close>

datatype verification_threshold = AnyVerifier | Majority | Unanimous

record verification_config =
  vc_agents :: nat
  vc_threshold :: verification_threshold
  vc_verifier_persona :: "string option"
  vc_verifier_model :: "string option"

definition verification_config_default :: verification_config where
  "verification_config_default =
     \<lparr>vc_agents = 2, vc_threshold = Majority, vc_verifier_persona = None, vc_verifier_model = None\<rparr>"

record verdict =
  vd_index :: nat
  vd_passed :: bool
  vd_findings :: "string list"

record verification_result =
  vx_passed :: bool
  vx_verdicts :: "verdict list"
  vx_findings :: "string list"
  vx_prompt_tokens :: nat
  vx_completion_tokens :: nat

text \<open>\<open>extract_json_object\<close>: depth, start of the object, position.\<close>

fun json_scan :: "string \<Rightarrow> string \<Rightarrow> int \<Rightarrow> nat option \<Rightarrow> nat \<Rightarrow> string option" where
  "json_scan txt [] depth start i = None"
| "json_scan txt (c # cs) depth start i =
     (if c = CHR ''{'' then
        json_scan txt cs (depth + 1) (if depth = 0 then Some i else start) (i + 1)
      else if c = CHR ''}'' then
        (if depth - 1 = 0 \<and> start \<noteq> None
         then Some (take (i + 1 - the start) (drop (the start) txt))
         else json_scan txt cs (depth - 1) start (i + 1))
      else json_scan txt cs depth start (i + 1))"

definition extract_json_object :: "string \<Rightarrow> string option" where
  "extract_json_object txt = json_scan txt txt 0 None 0"

definition parse_verdict :: "(string \<Rightarrow> json option) \<Rightarrow> string \<Rightarrow> nat \<Rightarrow> verdict" where
  "parse_verdict from_json response verifier_index =
     (case Option.bind (extract_json_object response) from_json of
        Some parsed \<Rightarrow>
          \<lparr>vd_index = verifier_index,
           vd_passed =
             (case Option.bind (json_get parsed ''passed'') json_bool of Some b \<Rightarrow> b | None \<Rightarrow> False),
           vd_findings =
             (case Option.bind (json_get parsed ''findings'') json_array of
                Some arr \<Rightarrow> List.map_filter json_str arr
              | None \<Rightarrow> [])\<rparr>
      | None \<Rightarrow>
          (let lower = to_lowercase response in
           \<lparr>vd_index = verifier_index,
            vd_passed =
              contains lower ''pass'' \<or> contains lower ''approved'' \<or>
              contains lower ''correct'' \<and> \<not> contains lower ''incorrect'' \<and>
                \<not> contains lower ''not correct'',
            vd_findings = [''Verifier '' @ show_nat verifier_index @ '': unparseable response'']\<rparr>))"

definition apply_threshold :: "verification_threshold \<Rightarrow> verdict list \<Rightarrow> bool" where
  "apply_threshold threshold verdicts =
     (if verdicts = [] then False
      else
        (let pass_count = length (filter vd_passed verdicts) in
         case threshold of
           AnyVerifier \<Rightarrow> pass_count > 0
         | Majority \<Rightarrow> pass_count > length verdicts div 2
         | Unanimous \<Rightarrow> pass_count = length verdicts))"

definition build_verification_prompt :: "('v, 'f) task \<Rightarrow> string \<Rightarrow> string" where
  "build_verification_prompt t output =
     ''## Verification task'' @ nl @ nl @
     ''Review the following output for correctness, completeness, and potential issues. '' @
     ''You are an independent verifier.'' @ nl @ nl @
     ''### Original mandate:'' @ nl @ tk_mandate t @ nl @ nl @
     (if tk_success_criteria t \<noteq> [] then
        ''### Success criteria:'' @ nl @
        concat (map (\<lambda>criterion. ''- '' @ criterion @ nl) (tk_success_criteria t)) @ nl
      else []) @
     (case tk_expected_output t of
        Some expected \<Rightarrow> ''### Expected output:'' @ nl @ expected @ nl @ nl
      | None \<Rightarrow> []) @
     ''### Output to verify:'' @ nl @ output @ nl @ nl @
     ''### Instructions:'' @ nl @ ''Respond with a JSON object:'' @ nl @ ''```json'' @ nl @
     ''{'' @ nl @ ''  \"passed\": true/false,'' @ nl @
     ''  \"findings\": [\"issue 1\", \"issue 2\"]'' @ nl @ ''}'' @ nl @ ''```'' @ nl @
     ''- Set `passed` to true if the output is correct, complete, and addresses the mandate.'' @ nl @
     ''- Set `passed` to false if there are significant issues.'' @ nl @
     ''- List specific findings (errors, omissions, concerns) in the `findings` array.'' @ nl @
     ''- If the output is acceptable, use an empty findings array.''"

section \<open>Running the verifiers\<close>

record agent_result =
  al_response :: string
  al_input_tokens :: nat
  al_output_tokens :: nat
  al_taint :: data_label

type_synonym 'w agent_run = "string \<Rightarrow> string \<Rightarrow> 'w \<Rightarrow> 'w \<times> (string + agent_result)"

fun run_verifiers ::
  "'w agent_run \<Rightarrow> (string \<Rightarrow> json option) \<Rightarrow> string \<Rightarrow> string \<Rightarrow> nat list \<Rightarrow> 'w \<Rightarrow> verdict list
     \<Rightarrow> nat \<Rightarrow> nat \<Rightarrow> 'w \<times> verdict list \<times> nat \<times> nat" where
  "run_verifiers run from_json specialist prompt [] w verdicts tp tc = (w, verdicts, tp, tc)"
| "run_verifiers run from_json specialist prompt (i # rest) w verdicts tp tc =
     (case run specialist prompt w of
        (w', Inr result) \<Rightarrow>
          run_verifiers run from_json specialist prompt rest w'
            (verdicts @ [parse_verdict from_json (al_response result) i])
            (wrap_u32 (tp + al_input_tokens result)) (wrap_u32 (tc + al_output_tokens result))
      | (w', Inl e) \<Rightarrow>
          run_verifiers run from_json specialist prompt rest w'
            (verdicts @ [\<lparr>vd_index = i, vd_passed = False,
               vd_findings = [''Verifier '' @ show_nat i @ '' failed: '' @ e]\<rparr>]) tp tc)"

definition push_new :: "string \<Rightarrow> string list \<Rightarrow> string list" where
  "push_new finding acc = (if finding \<in> set acc then acc else acc @ [finding])"

definition verify_result ::
  "'w agent_run \<Rightarrow> string set \<Rightarrow> (string \<Rightarrow> json option) \<Rightarrow> (verification_config, 'f) task \<Rightarrow> string
     \<Rightarrow> verification_config \<Rightarrow> 'w \<Rightarrow> 'w \<times> (flow_error + verification_result)" where
  "verify_result run specialists from_json t output config w =
     (let prompt = build_verification_prompt t output;
          specialist = (case vc_verifier_persona config of Some p \<Rightarrow> p | None \<Rightarrow> tk_specialist t)
      in if specialist \<notin> specialists then (w, Inl (UnknownSpecialist specialist))
         else
           (let (w', verdicts, tp, tc) =
                  run_verifiers run from_json specialist prompt [0..<vc_agents config] w [] 0 0
            in (w', Inr \<lparr>vx_passed = apply_threshold (vc_threshold config) verdicts,
                         vx_verdicts = verdicts,
                         vx_findings = fold push_new (concat (map vd_findings verdicts)) [],
                         vx_prompt_tokens = tp, vx_completion_tokens = tc\<rparr>)))"

section \<open>Facts\<close>

lemma run_verifiers_length:
  "run_verifiers run from_json sp p is w vs tp tc = (w', vs', tp', tc') \<Longrightarrow>
     length vs' = length vs + length is \<and> map vd_index vs' = map vd_index vs @ is"
proof (induction "is" arbitrary: w vs tp tc)
  case (Cons i "is")
  then show ?case
    by (auto simp: parse_verdict_def Let_def split: prod.splits sum.splits option.splits)
qed simp

lemma push_new_fold: "distinct acc \<Longrightarrow> distinct (fold push_new xs acc) \<and> set (fold push_new xs acc) = set acc \<union> set xs"
  by (induction xs arbitrary: acc) (auto simp: push_new_def)

lemma validate_mandate_score:
  fixes t :: "('v, 'f) task"
  defines "missed \<equiv> \<lambda>out. length (filter (\<lambda>c. \<not> check_criterion c out) (tk_success_criteria t))"
  shows "vr_score (validate_mandate t out) = max 0
    (100 - (if trim_ws out = [] then 30 else 0)
       - (if tk_expected_output t \<noteq> None \<and> length out < 100 then 20 else 0) - 15 * int (missed out))"
    and "vr_passed (validate_mandate t out) \<longleftrightarrow> vr_score (validate_mandate t out) \<ge> 70"
proof -
  let ?f = "\<lambda>criterion (score :: int, notes).
                    if \<not> check_criterion criterion out
                    then (score - 15, notes @ [''Missing criterion: '' @ quot @ criterion @ quot])
                    else (score, notes)"
  have "fst (fold ?f cs (s, ns)) = s - 15 * int (length (filter (\<lambda>c. \<not> check_criterion c out) cs))"
    for cs s ns by (induction cs arbitrary: s ns) auto
  then show "vr_score (validate_mandate t out) = max 0
    (100 - (if trim_ws out = [] then 30 else 0)
       - (if tk_expected_output t \<noteq> None \<and> length out < 100 then 20 else 0) - 15 * int (missed out))"
    unfolding validate_mandate_def missed_def by (simp add: Let_def split_def max.commute)
  show "vr_passed (validate_mandate t out) \<longleftrightarrow> vr_score (validate_mandate t out) \<ge> 70"
    by (simp add: validate_mandate_def PASS_THRESHOLD_def Let_def split_def)
qed

text \<open>
  Cross-validation decides exactly by the threshold: every configured verifier gives one
  verdict, in order; the findings are collected without repetition; no verifier at all is
  never an approval, and a majority is more than half of those asked, failed ones included.
\<close>

theorem cross_validation_exact:
  assumes "verify_result run specs from_json t out config w = (w', Inr v)"
  shows "map vd_index (vx_verdicts v) = [0..<vc_agents config] \<and>
    distinct (vx_findings v) \<and> set (vx_findings v) = (\<Union>x\<in>set (vx_verdicts v). set (vd_findings x)) \<and>
    (vx_passed v \<longleftrightarrow> 0 < vc_agents config \<and>
       (case vc_threshold config of
          AnyVerifier \<Rightarrow> \<exists>x. x \<in> set (vx_verdicts v) \<and> vd_passed x
        | Majority \<Rightarrow> 2 * length (filter vd_passed (vx_verdicts v)) > vc_agents config
        | Unanimous \<Rightarrow> filter vd_passed (vx_verdicts v) = vx_verdicts v))"
proof -
  let ?sp = "case vc_verifier_persona config of Some p \<Rightarrow> p | None \<Rightarrow> tk_specialist t"
  obtain w1 vs tp tc where r: "run_verifiers run from_json ?sp (build_verification_prompt t out)
      [0..<vc_agents config] w [] 0 0 = (w1, vs, tp, tc)" by (metis prod_cases4)
  have v: "vx_verdicts v = vs" "vx_passed v = apply_threshold (vc_threshold config) vs"
    "vx_findings v = fold push_new (concat (map vd_findings vs)) []"
    using assms r by (auto simp: verify_result_def Let_def split: if_splits)
  have ix: "map vd_index vs = [0..<vc_agents config]" and len: "length vs = vc_agents config"
    using run_verifiers_length[OF r] by auto
  have all: "length (filter vd_passed vs) = length vs \<longleftrightarrow> filter vd_passed vs = vs"
    by (metis filter_id_conv length_filter_less nat_neq_iff)
  have some: "length (filter vd_passed vs) > 0 \<longleftrightarrow> (\<exists>x. x \<in> set vs \<and> vd_passed x)"
    by (auto simp: filter_empty_conv)
  have "apply_threshold (vc_threshold config) vs \<longleftrightarrow> 0 < vc_agents config \<and>
       (case vc_threshold config of
          AnyVerifier \<Rightarrow> \<exists>x. x \<in> set vs \<and> vd_passed x
        | Majority \<Rightarrow> 2 * length (filter vd_passed vs) > vc_agents config
        | Unanimous \<Rightarrow> filter vd_passed vs = vs)"
    unfolding apply_threshold_def Let_def some all len[symmetric]
    by (cases "vc_threshold config") auto
  moreover have "distinct (vx_findings v)" "set (vx_findings v) = (\<Union>x\<in>set vs. set (vd_findings x))"
    using push_new_fold[of "[]" "concat (map vd_findings vs)"] by (simp_all add: v(3))
  ultimately show ?thesis unfolding v(1,2) using ix by blast
qed

definition sample_verified_task :: "(verification_config, unit) task" where
  "sample_verified_task = \<lparr>tk_id = ''a'', tk_specialist = ''dev'', tk_model = None, tk_mandate = ''m'',
     tk_depends_on = [], tk_inputs = [], tk_expected_output = None, tk_success_criteria = [],
     tk_max_retries = 0, tk_back_edges = [], tk_verification = Some verification_config_default,
     tk_temperature = None, tk_approval_required = False\<rparr>"

definition sample_verifier :: "unit agent_run" where
  "sample_verifier s p w = (w, Inr \<lparr>al_response = ''approved'', al_input_tokens = 1,
     al_output_tokens = 1, al_taint = TRUSTED_PUBLIC\<rparr>)"

theorem cross_validation_exact_witness:
  "\<exists>v. verify_result sample_verifier {''dev''} (\<lambda>_. None) sample_verified_task ''out''
         verification_config_default () = ((), Inr v) \<and> map vd_index (vx_verdicts v) = [0, 1]"
proof -
  obtain v where v: "verify_result sample_verifier {''dev''} (\<lambda>_. None) sample_verified_task ''out''
      verification_config_default () = ((), Inr v)"
    by (simp add: verify_result_def case_prod_beta Let_def verification_config_default_def
        sample_verified_task_def del: run_verifiers.simps upt_Suc)
  then have "map vd_index (vx_verdicts v) = [0..<vc_agents verification_config_default]"
    by (rule cross_validation_exact[THEN conjunct1])
  then have "map vd_index (vx_verdicts v) = [0, 1]"
    by (simp add: verification_config_default_def numeral_2_eq_2)
  with v show ?thesis by (intro exI[of _ v] conjI)
qed

text \<open>Without a JSON object the words decide, and a refusal that mentions passing is an approval.\<close>

lemma unparsed_refusal_approves:
  "vd_passed (parse_verdict (\<lambda>_. None) ''does not pass'' 0)"
  by (simp add: parse_verdict_def Let_def) (rule disjI1, code_simp)

end
