(* ===== verification/Truncate.thy ===== *)
theory Truncate
  imports Prelude
begin

text \<open>
  \<open>truncate_str\<close> of \<open>navra-protocol/src/lib.rs\<close>: cut a UTF-8 text to a number of
  bytes without cutting through a character.
\<close>

definition byte_of :: "char \<Rightarrow> nat" where
  "byte_of c = of_char c"

definition continuation :: "char \<Rightarrow> bool" where
  "continuation c \<longleftrightarrow> 128 \<le> byte_of c \<and> byte_of c < 192"

text \<open>\<open>str::is_char_boundary\<close>\<close>

definition is_char_boundary :: "string \<Rightarrow> nat \<Rightarrow> bool" where
  "is_char_boundary s i \<longleftrightarrow> i = 0 \<or> i = length s \<or> i < length s \<and> \<not> continuation (s ! i)"

fun back_to_boundary :: "string \<Rightarrow> nat \<Rightarrow> nat" where
  "back_to_boundary s 0 = 0"
| "back_to_boundary s (Suc n) =
     (if is_char_boundary s (Suc n) then Suc n else back_to_boundary s n)"

definition truncate_str :: "string \<Rightarrow> nat \<Rightarrow> string" where
  "truncate_str s max_bytes =
     (if length s \<le> max_bytes then s else take (back_to_boundary s max_bytes) s)"

section \<open>Well-formed UTF-8\<close>

text \<open>The number of continuation bytes that a lead byte announces.\<close>

definition trail :: "char \<Rightarrow> nat option" where
  "trail c = (let b = byte_of c in
     if b < 128 then Some 0 else if b < 192 then None else if b < 224 then Some 1
     else if b < 240 then Some 2 else if b < 248 then Some 3 else None)"

inductive utf8 :: "string \<Rightarrow> bool" where
  utf8_Nil: "utf8 []"
| utf8_char: "trail c = Some (length cs) \<Longrightarrow> list_all continuation cs \<Longrightarrow> utf8 s \<Longrightarrow> utf8 (c # cs @ s)"

inductive_cases utf8_Cons: "utf8 (c # s)"

lemma trail_lead: "trail c = Some n \<Longrightarrow> \<not> continuation c \<and> n \<le> 3"
  by (auto simp: trail_def continuation_def Let_def split: if_splits)

lemma back_to_boundary_le: "back_to_boundary s n \<le> n"
  by (induction n) auto

lemma back_to_boundary_ok: "is_char_boundary s (back_to_boundary s n)"
  by (induction n) (auto simp: is_char_boundary_def)

lemma back_to_boundary_skips: "back_to_boundary s n < j \<Longrightarrow> j \<le> n \<Longrightarrow> \<not> is_char_boundary s j"
  by (induction n) (auto split: if_splits simp: le_Suc_eq)

lemma utf8_boundary_split: "utf8 s \<Longrightarrow> is_char_boundary s i \<Longrightarrow> utf8 (take i s) \<and> utf8 (drop i s)"
proof (induction s arbitrary: i rule: utf8.induct)
  case utf8_Nil
  then show ?case by (simp add: utf8.utf8_Nil)
next
  case (utf8_char c cs s)
  show ?case
  proof (cases "i \<le> length cs")
    case True
    have "i = 0"
    proof (rule ccontr)
      assume "i \<noteq> 0"
      then obtain j where j: "i = Suc j" "j < length cs" using True by (cases i) auto
      then have "continuation (cs ! j)" using utf8_char.hyps(2) by (simp add: list_all_length)
      then have "continuation ((c # cs @ s) ! i)" using j by (simp add: nth_append)
      then show False using utf8_char.prems j by (simp add: is_char_boundary_def)
    qed
    then show ?thesis using utf8.utf8_char[OF utf8_char.hyps] by (simp add: utf8.utf8_Nil)
  next
    case False
    then obtain k where k: "i = Suc (length cs + k)" by (metis less_imp_Suc_add not_le_imp_less add_Suc)
    have "is_char_boundary s k"
      using utf8_char.prems by (auto simp: is_char_boundary_def k nth_append)
    then have "utf8 (take k s)" "utf8 (drop k s)" using utf8_char.IH by blast+
    then show ?thesis using utf8.utf8_char[OF utf8_char.hyps(1,2)] by (simp add: k)
  qed
qed

text \<open>Characters are at most four bytes long, so at most three bytes are given up.\<close>

lemma utf8_boundary_near:
  "utf8 s \<Longrightarrow> n \<le> length s \<Longrightarrow> \<exists>i\<le>n. n \<le> i + 3 \<and> is_char_boundary s i"
proof (induction s arbitrary: n rule: utf8.induct)
  case utf8_Nil
  then show ?case by (simp add: is_char_boundary_def)
next
  case (utf8_char c cs s)
  have "length cs \<le> 3" using trail_lead[OF utf8_char.hyps(1)] by simp
  show ?case
  proof (cases "n \<le> length cs")
    case True
    then show ?thesis using \<open>length cs \<le> 3\<close> by (intro exI[of _ 0]) (simp add: is_char_boundary_def)
  next
    case False
    then obtain k where k: "n = Suc (length cs + k)" by (metis less_imp_Suc_add not_le_imp_less add_Suc)
    then obtain i where i: "i \<le> k" "k \<le> i + 3" "is_char_boundary s i"
      using utf8_char.IH[of k] utf8_char.prems by auto
    have "is_char_boundary (c # cs @ s) (Suc (length cs + i))"
    proof (cases s)
      case Nil
      then show ?thesis using i(3) by (auto simp: is_char_boundary_def)
    next
      case (Cons d ds)
      have "\<not> continuation d" using utf8_char.hyps(3) trail_lead unfolding Cons by (auto elim: utf8_Cons)
      then show ?thesis using i(3) Cons by (auto simp: is_char_boundary_def nth_append nth_Cons')
    qed
    then show ?thesis using i k by (intro exI[of _ "Suc (length cs + i)"]) auto
  qed
qed

section \<open>Properties\<close>

text \<open>
  truncating well-formed UTF-8 text gives well-formed text: a prefix of at most
  the asked length that gives up at most three bytes, and the text itself when it fits.
\<close>

theorem truncation_keeps_utf8:
  assumes "utf8 s"
  shows "utf8 (truncate_str s n) \<and> prefix (truncate_str s n) s \<and> length (truncate_str s n) \<le> n \<and>
    min n (length s) \<le> length (truncate_str s n) + 3"
proof (cases "length s \<le> n")
  case True
  then show ?thesis using assms by (simp add: truncate_str_def)
next
  case False
  then have n: "n \<le> length s" by simp
  let ?b = "back_to_boundary s n"
  obtain i where i: "i \<le> n" "n \<le> i + 3" "is_char_boundary s i"
    using utf8_boundary_near[OF assms n] by blast
  then have "i \<le> ?b" using back_to_boundary_skips[of s n i] by (meson not_le)
  then have "n \<le> ?b + 3" using i(2) by linarith
  then show ?thesis
    using False back_to_boundary_le[of s n] utf8_boundary_split[OF assms back_to_boundary_ok[of s n]]
    by (simp add: truncate_str_def take_is_prefix)
qed

theorem truncation_keeps_utf8_witness:
  "utf8 (truncate_str [CHR ''a'', char_of (195::nat), char_of (169::nat)] 2)"
proof -
  have "utf8 ([char_of (195::nat)] @ [char_of (169::nat)] @ [])"
    using utf8.utf8_char[of "char_of (195::nat)" "[char_of (169::nat)]" "[]"] utf8_Nil
    by (simp add: trail_def continuation_def byte_of_def)
  then have "utf8 (CHR ''a'' # [] @ [char_of (195::nat), char_of (169::nat)])"
    by (intro utf8.utf8_char) (simp_all add: trail_def byte_of_def)
  then show ?thesis using truncation_keeps_utf8 by simp
qed

end
