(* ===== verification/FlowExec.thy ===== *)
theory FlowExec
  imports Verification FlowControl Truncate Taint
begin

text \<open>
  The executor of task graphs, \<open>navra-flow/src/executor.rs\<close>: rounds of ready tasks,
  retries with recovery, back-edges, skipping of dependents, hop limit and taint.

  Parameters, collected in \<open>exec_env\<close>: running an agent, retrieving an insight, the
  conversion of a score to \<open>f32\<close> with its comparison and parsing, parsing of JSON, and
  the iteration order of a hash set.  What the run does to the outside (events,
  insights, checkpoints) is recorded in order in \<open>ex_effects\<close>.  The conversion of
  the confidence of an insight is left as a number of hundredths.
\<close>

section \<open>State\<close>

record task_insight =
  ti_title :: string
  ti_content :: string
  ti_tags :: "string list"
  ti_confidence_hundredths :: nat
  ti_task_id :: string
  ti_mandate :: string
  ti_iterations :: nat

datatype flow_event =
    NodeStarted string string
  | NodeCompleted string string nat nat
  | NodeFailed string string
  | NodeSkipped string string
  | ToolCalled string string string
  | ToolFinished string string bool nat
  | BackEdgeActivated string string nat
  | FlowCompleted nat nat

datatype exec_effect =
    Emitted flow_event
  | Insight task_insight
  | NodeSaved string string string
  | CheckpointDeleted string

record ('w, 'f) exec_env =
  xe_run :: "'w agent_run"
  xe_specialists :: "string set"
  xe_insight_retriever :: "('w \<Rightarrow> string \<Rightarrow> string option) option"
  xe_insight_callback :: bool
  xe_max_hops :: nat
  xe_checkpoint :: "(string \<times> (string, string) hmap option) option"
  xe_event_log :: "string option"
  xe_score :: "int \<Rightarrow> 'f"
  xe_less :: "'f \<Rightarrow> 'f \<Rightarrow> bool"
  xe_parse_f32 :: "string \<Rightarrow> 'f option"
  xe_from_json :: "string \<Rightarrow> json option"
  xe_set_order :: "string set \<Rightarrow> string list"

record ('w, 'f) exec_state =
  ex_results :: "(string, 'f task_result) hmap"
  ex_completed :: "string set"
  ex_skipped :: "string set"
  ex_taint :: taint_tracker
  ex_prompt :: nat
  ex_completion :: nat
  ex_tracker :: back_edge_tracker
  ex_hops :: nat
  ex_world :: 'w
  ex_effects :: "exec_effect list"

type_synonym 'f flow_task = "(verification_config, 'f) task"
type_synonym 'f flow_graph = "(verification_config, 'f) dependency_graph"

definition emit_event ::
  "('w, 'f) exec_env \<Rightarrow> flow_event \<Rightarrow> ('w, 'f) exec_state \<Rightarrow> ('w, 'f) exec_state" where
  "emit_event env e st =
     (case xe_event_log env of
        Some _ \<Rightarrow> st\<lparr>ex_effects := ex_effects st @ [Emitted e]\<rparr>
      | None \<Rightarrow> st)"

definition emit_insight ::
  "('w, 'f) exec_env \<Rightarrow> task_insight \<Rightarrow> ('w, 'f) exec_state \<Rightarrow> ('w, 'f) exec_state" where
  "emit_insight env i st =
     (if xe_insight_callback env then st\<lparr>ex_effects := ex_effects st @ [Insight i]\<rparr> else st)"

section \<open>Prompts\<close>

definition dependency_outputs :: "'f flow_task \<Rightarrow> (string, 'f task_result) hmap \<Rightarrow> (string \<times> string) list" where
  "dependency_outputs t results =
     List.map_filter
       (\<lambda>dep. case hm_get results dep of
                Some r \<Rightarrow> if tr_status r = Complete then Some (dep, tr_output r) else None
              | None \<Rightarrow> None) (tk_depends_on t)"

definition build_task_prompt_with_insight ::
  "'f flow_task \<Rightarrow> (string, 'f task_result) hmap \<Rightarrow> string option \<Rightarrow> string" where
  "build_task_prompt_with_insight t results insight =
     (case insight of
        Some lesson \<Rightarrow> ''## Lesson learned from past attempts:'' @ nl @ lesson @ nl @ nl @ ''---'' @ nl
      | None \<Rightarrow> []) @
     (let dep_outputs = dependency_outputs t results in
      if dep_outputs \<noteq> [] then
        ''## Results from dependency tasks:'' @ nl @
        concat (map (\<lambda>(i, output). ''### '' @ i @ '':'' @ nl @ output @ nl) dep_outputs) @ ''---'' @ nl
      else []) @
     (if tk_inputs t \<noteq> [] then
        ''## Inputs:'' @ nl @
        concat (map (\<lambda>(k, v). ''- **'' @ k @ ''**: '' @ v @ nl) (tk_inputs t)) @ nl
      else []) @
     ''## Your task:'' @ nl @ tk_mandate t @
     (if tk_success_criteria t \<noteq> [] then
        nl @ nl @ ''## Success criteria:'' @
        concat (map (\<lambda>criterion. nl @ ''- '' @ criterion) (tk_success_criteria t))
      else [])"

text \<open>The separator in the attempt heading is an em dash, three bytes in UTF-8.\<close>

definition em_dash :: string where
  "em_dash = [CHR 0xE2, CHR 0x80, CHR 0x94]"

definition inject_retry_context :: "string \<Rightarrow> attempt list \<Rightarrow> string" where
  "inject_retry_context prompt attempts =
     ''## Previous attempt(s) failed:'' @ nl @ nl @
     concat (map (\<lambda>(i, a). ''### Attempt '' @ show_nat (i + 1) @ '' '' @ em_dash @ '' '' @
                  at_error_type a @ nl @ at_error a @ nl @ nl) (enumerate 0 attempts)) @
     ''Please address the issues above and try again.'' @ nl @ nl @ ''---'' @ nl @ nl @ prompt"

fun failure_name :: "failure_type \<Rightarrow> string" where
  "failure_name CircularFix = ''circularfix''"
| "failure_name EmptyOutput = ''emptyoutput''"
| "failure_name ValidationFailed = ''validationfailed''"
| "failure_name MaxIterations = ''maxiterations''"
| "failure_name AgentError = ''agenterror''"
| "failure_name UnknownFailure = ''unknown''"

definition preview :: "string \<Rightarrow> string" where
  "preview output = (if length output > 200 then truncate_str output 197 @ ''...'' else output)"

definition circular :: "attempt list \<Rightarrow> bool" where
  "circular attempts \<longleftrightarrow> detect_circular_fix attempts 3 = Some True"

section \<open>One attempt\<close>

text \<open>
  The back-edges of a completed task.  \<open>None\<close> would be a traversal of the dependents
  that does not return; it never happens on an accepted graph.
\<close>

fun fire_edges ::
  "('w, 'f) exec_env \<Rightarrow> 'f flow_graph \<Rightarrow> 'f flow_task \<Rightarrow> 'f task_result \<Rightarrow> 'f conditional_edge list
     \<Rightarrow> ('w, 'f) exec_state \<Rightarrow> ('w, 'f) exec_state option" where
  "fire_edges env dag t result [] st = Some st"
| "fire_edges env dag t result (edge # rest) st =
     (if ce_from edge = tk_id t \<and> should_activate (xe_less env) (ex_tracker st) edge result then
        (let (tracker, count) = record_activation (ce_from edge) (ce_to edge) (ex_tracker st);
             st1 = emit_event env (BackEdgeActivated (ce_from edge) (ce_to edge) count)
                     (st\<lparr>ex_tracker := tracker\<rparr>)
         in case all_dependents dag (ce_to edge) of
              None \<Rightarrow> None
            | Some dependents \<Rightarrow>
                (let removed = insert (ce_to edge) dependents in
                 fire_edges env dag t result rest
                   (st1\<lparr>ex_completed := ex_completed st1 - removed,
                        ex_results := hm_retain (\<lambda>k _. k \<notin> removed) (ex_results st1)\<rparr>)))
      else fire_edges env dag t result rest st)"

definition success_insight :: "'f flow_task \<Rightarrow> nat \<Rightarrow> string \<Rightarrow> task_insight" where
  "success_insight t retry output =
     \<lparr>ti_title = ''Success: '' @ tk_id t,
      ti_content = ''For ['' @ tk_id t @ ''] with mandate \"'' @ tk_mandate t @
        ''\", the approach succeeded in '' @ show_nat (retry + 1) @
        '' iteration(s). Key outcome: '' @ preview output @ ''.'',
      ti_tags = [''success'', ''strategy''], ti_confidence_hundredths = 85,
      ti_task_id = tk_id t, ti_mandate = tk_mandate t, ti_iterations = retry + 1\<rparr>"

definition finish_task ::
  "('w, 'f) exec_env \<Rightarrow> 'f flow_task \<Rightarrow> nat \<Rightarrow> 'f task_result \<Rightarrow> ('w, 'f) exec_state \<Rightarrow> ('w, 'f) exec_state"
where
  "finish_task env t retry result st0 =
     (let st1 = emit_insight env (success_insight t retry (tr_output result)) st0;
          st2 = (case xe_checkpoint env of
                   Some (flow_id, _) \<Rightarrow>
                     st1\<lparr>ex_effects := ex_effects st1 @ [NodeSaved flow_id (tk_id t) (tr_output result)]\<rparr>
                 | None \<Rightarrow> st1);
          st3 = emit_event env (NodeCompleted (tk_id t) (preview (tr_output result))
                  (tr_prompt_tokens result) (tr_completion_tokens result)) st2
      in st3\<lparr>ex_results := hm_insert (tk_id t) result (ex_results st3),
             ex_completed := insert (tk_id t) (ex_completed st3),
             ex_hops := ex_hops st3 + 1\<rparr>)"

datatype ('w, 'f) try_result =
    Retry "attempt list" "('w, 'f) exec_state"
  | Break bool "attempt list" "('w, 'f) exec_state"
  | Error flow_error "('w, 'f) exec_state"

definition reject ::
  "string \<Rightarrow> string \<Rightarrow> string \<Rightarrow> attempt list \<Rightarrow> ('w, 'f) exec_state \<Rightarrow> ('w, 'f) try_result" where
  "reject err error_type output attempts st =
     (let attempts' = attempts @ [\<lparr>at_error = err, at_error_type = error_type, at_output = output\<rparr>]
      in if circular attempts' then Break False attempts' st else Retry attempts' st)"

definition accept_output ::
  "('w, 'f) exec_env \<Rightarrow> 'f flow_graph \<Rightarrow> 'f conditional_edge list \<Rightarrow> 'f flow_task \<Rightarrow> nat \<Rightarrow> agent_result
     \<Rightarrow> validation_result \<Rightarrow> attempt list \<Rightarrow> ('w, 'f) exec_state \<Rightarrow> ('w, 'f) try_result option" where
  "accept_output env dag edges t retry ar v attempts st =
     (let result = \<lparr>tr_task_id = tk_id t, tr_status = Complete, tr_output = al_response ar,
             tr_prompt_tokens = al_input_tokens ar, tr_completion_tokens = al_output_tokens ar,
             tr_taint = al_taint ar, tr_validation_score = Some (xe_score env (vr_score v)),
             tr_validation_notes = vr_notes v\<rparr>
      in case fire_edges env dag t result edges st of
           None \<Rightarrow> None
         | Some st' \<Rightarrow> Some (Break True attempts (finish_task env t retry result st')))"

definition after_response ::
  "('w, 'f) exec_env \<Rightarrow> 'f flow_graph \<Rightarrow> 'f conditional_edge list \<Rightarrow> 'f flow_task \<Rightarrow> nat \<Rightarrow> agent_result
     \<Rightarrow> attempt list \<Rightarrow> ('w, 'f) exec_state \<Rightarrow> ('w, 'f) try_result option" where
  "after_response env dag edges t retry ar attempts st =
     (let v = validate_mandate t (al_response ar) in
      if vr_passed v then
        (case tk_verification t of
           None \<Rightarrow> accept_output env dag edges t retry ar v attempts st
         | Some config \<Rightarrow>
             (case verify_result (xe_run env) (xe_specialists env) (xe_from_json env) t
                     (al_response ar) config (ex_world st) of
                (w, Inl e) \<Rightarrow> Some (Error e (st\<lparr>ex_world := w\<rparr>))
              | (w, Inr ver) \<Rightarrow>
                  (let st' = st\<lparr>ex_world := w,
                         ex_prompt := wrap_u32 (ex_prompt st + vx_prompt_tokens ver),
                         ex_completion := wrap_u32 (ex_completion st + vx_completion_tokens ver)\<rparr>
                   in if \<not> vx_passed ver then
                        Some (reject
                          (''Cross-validation failed ('' @
                           show_nat (length (filter (\<lambda>v. \<not> vd_passed v) (vx_verdicts ver))) @ ''/'' @
                           show_nat (length (vx_verdicts ver)) @ '' verifiers rejected): '' @
                           join_with ''; '' (vx_findings ver))
                          ''verification_failed'' (al_response ar) attempts st')
                      else accept_output env dag edges t retry ar v attempts st')))
      else
        Some (reject
          (''Mandate validation failed (score: '' @ show_nat (nat (vr_score v)) @ ''): '' @
           join_with ''; '' (vr_notes v))
          ''validation_failed'' (al_response ar) attempts st))"

definition last_error :: "string \<Rightarrow> attempt list \<Rightarrow> string" where
  "last_error d attempts = (case rev attempts of a # _ \<Rightarrow> at_error a | [] \<Rightarrow> d)"

definition after_failure ::
  "'f flow_task \<Rightarrow> string \<Rightarrow> attempt list \<Rightarrow> ('w, 'f) exec_state \<Rightarrow> ('w, 'f) try_result" where
  "after_failure t err attempts st =
     (let failure = classify_failure err attempts;
          attempts' = attempts @ [\<lparr>at_error = err, at_error_type = failure_name failure, at_output = []\<rparr>]
      in case rs_action (get_strategy failure) of
           Abort \<Rightarrow> Error (TaskFailed (tk_id t) (last_error ''unknown error'' attempts')) st
         | Skip \<Rightarrow> Break False attempts' st
         | RetryWithContext \<Rightarrow>
             if circular attempts' then Break False attempts' st else Retry attempts' st)"

definition attempt_prompt ::
  "('w, 'f) exec_env \<Rightarrow> 'f flow_task \<Rightarrow> attempt list \<Rightarrow> ('w, 'f) exec_state \<Rightarrow> string" where
  "attempt_prompt env t attempts st =
     (let past_insight =
            Option.bind (xe_insight_retriever env) (\<lambda>r. r (ex_world st) (tk_mandate t));
          prompt = build_task_prompt_with_insight t (ex_results st) past_insight
      in if attempts \<noteq> [] then inject_retry_context prompt attempts else prompt)"

definition try_once ::
  "('w, 'f) exec_env \<Rightarrow> 'f flow_graph \<Rightarrow> 'f conditional_edge list \<Rightarrow> 'f flow_task \<Rightarrow> nat
     \<Rightarrow> attempt list \<Rightarrow> ('w, 'f) exec_state \<Rightarrow> ('w, 'f) try_result option" where
  "try_once env dag edges t retry attempts st =
     (case xe_run env (tk_specialist t) (attempt_prompt env t attempts st) (ex_world st) of
           (w, Inr ar) \<Rightarrow>
             after_response env dag edges t retry ar attempts
               (st\<lparr>ex_world := w, ex_taint := absorb (al_taint ar) (ex_taint st),
                   ex_prompt := wrap_u32 (ex_prompt st + al_input_tokens ar),
                   ex_completion := wrap_u32 (ex_completion st + al_output_tokens ar)\<rparr>)
         | (w, Inl err) \<Rightarrow> Some (after_failure t err attempts (st\<lparr>ex_world := w\<rparr>)))"

text \<open>The retries that are left, and what they end with: an error, or whether the task completed.\<close>

fun attempt_loop ::
  "('w, 'f) exec_env \<Rightarrow> 'f flow_graph \<Rightarrow> 'f conditional_edge list \<Rightarrow> 'f flow_task \<Rightarrow> nat list
     \<Rightarrow> attempt list \<Rightarrow> ('w, 'f) exec_state
     \<Rightarrow> (flow_error \<times> ('w, 'f) exec_state + bool \<times> attempt list \<times> ('w, 'f) exec_state) option" where
  "attempt_loop env dag edges t [] attempts st = Some (Inr (False, attempts, st))"
| "attempt_loop env dag edges t (retry # rest) attempts st =
     (case try_once env dag edges t retry attempts st of
        None \<Rightarrow> None
      | Some (Retry attempts' st') \<Rightarrow> attempt_loop env dag edges t rest attempts' st'
      | Some (Break task_completed attempts' st') \<Rightarrow> Some (Inr (task_completed, attempts', st'))
      | Some (Error e st') \<Rightarrow> Some (Inl (e, st')))"

section \<open>One task\<close>

definition unrun_result :: "string \<Rightarrow> task_status \<Rightarrow> string \<Rightarrow> 'f task_result" where
  "unrun_result i status output =
     \<lparr>tr_task_id = i, tr_status = status, tr_output = output, tr_prompt_tokens = 0,
      tr_completion_tokens = 0, tr_taint = TRUSTED_PUBLIC, tr_validation_score = None,
      tr_validation_notes = []\<rparr>"

definition skip_one ::
  "('w, 'f) exec_env \<Rightarrow> string \<Rightarrow> string \<Rightarrow> ('w, 'f) exec_state \<Rightarrow> ('w, 'f) exec_state" where
  "skip_one env failed skip_id st =
     (if skip_id \<notin> ex_completed st then
        (let st1 = emit_event env
               (NodeSkipped skip_id (''Dependency '' @ quot @ failed @ quot @ '' failed''))
               (st\<lparr>ex_skipped := insert skip_id (ex_skipped st)\<rparr>)
         in st1\<lparr>ex_results := hm_insert skip_id
              (unrun_result skip_id Skipped
                 (''Skipped: dependency '' @ quot @ failed @ quot @ '' failed'')) (ex_results st1)\<rparr>)
      else st)"

definition failure_insight :: "'f flow_task \<Rightarrow> string \<Rightarrow> attempt list \<Rightarrow> task_insight" where
  "failure_insight t err attempts =
     (let history = map (\<lambda>(i, a). ''Attempt '' @ show_nat (i + 1) @ '': '' @ at_error a)
                      (enumerate 0 attempts)
      in \<lparr>ti_title = ''Failure: '' @ tk_id t,
          ti_content = ''When attempting ['' @ tk_id t @ ''] with mandate \"'' @ tk_mandate t @
            ''\", the approach failed because ['' @ err @ '']. Attempt history: '' @
            join_with ''. '' history @
            ''. Avoid repeating this approach without addressing the root cause.'',
          ti_tags = [''failure'', ''lesson''], ti_confidence_hundredths = 70,
          ti_task_id = tk_id t, ti_mandate = tk_mandate t,
          ti_iterations = wrap_u32 (length attempts)\<rparr>)"

definition fail_task ::
  "('w, 'f) exec_env \<Rightarrow> 'f flow_graph \<Rightarrow> 'f flow_task \<Rightarrow> attempt list \<Rightarrow> ('w, 'f) exec_state
     \<Rightarrow> ('w, 'f) exec_state option" where
  "fail_task env dag t attempts st0 =
     (let err = last_error ''unknown failure'' attempts;
          st1 = emit_insight env (failure_insight t err attempts) st0;
          st2 = emit_event env (NodeFailed (tk_id t) err) st1;
          st3 = st2\<lparr>ex_results := hm_insert (tk_id t) (unrun_result (tk_id t) Failed err) (ex_results st2)\<rparr>
      in case all_dependents dag (tk_id t) of
           None \<Rightarrow> None
         | Some to_skip \<Rightarrow>
             (let st4 = fold (skip_one env (tk_id t)) (xe_set_order env to_skip) st3 in
              Some (st4\<lparr>ex_completed := insert (tk_id t) (ex_completed st4),
                        ex_hops := ex_hops st4 + 1\<rparr>)))"

definition run_task ::
  "('w, 'f) exec_env \<Rightarrow> 'f flow_graph \<Rightarrow> 'f conditional_edge list \<Rightarrow> 'f flow_task
     \<Rightarrow> ('w, 'f) exec_state \<Rightarrow> (flow_error \<times> ('w, 'f) exec_state + ('w, 'f) exec_state) option" where
  "run_task env dag edges t st =
     (if tk_specialist t \<notin> xe_specialists env
      then Some (Inl (UnknownSpecialist (tk_specialist t), st))
      else
        (case attempt_loop env dag edges t [0..<tk_max_retries t + 1] []
                (emit_event env (NodeStarted (tk_id t) (tk_specialist t)) st) of
           None \<Rightarrow> None
         | Some (Inl e) \<Rightarrow> Some (Inl e)
         | Some (Inr (task_completed, attempts, st')) \<Rightarrow>
             if task_completed then Some (Inr st')
             else map_option Inr (fail_task env dag t attempts st')))"

fun run_ready ::
  "('w, 'f) exec_env \<Rightarrow> 'f flow_graph \<Rightarrow> 'f conditional_edge list \<Rightarrow> 'f flow_task list
     \<Rightarrow> ('w, 'f) exec_state \<Rightarrow> (flow_error \<times> ('w, 'f) exec_state + ('w, 'f) exec_state) option" where
  "run_ready env dag edges [] st = Some (Inr st)"
| "run_ready env dag edges (t # ts) st =
     (case run_task env dag edges t st of
        None \<Rightarrow> None
      | Some (Inl e) \<Rightarrow> Some (Inl e)
      | Some (Inr st') \<Rightarrow> run_ready env dag edges ts st')"

section \<open>The run\<close>

datatype exec_phase = Active | Finished | Aborted flow_error | Diverged

definition exec_ready :: "'f flow_graph \<Rightarrow> ('w, 'f) exec_state \<Rightarrow> 'f flow_task list" where
  "exec_ready dag st =
     filter (\<lambda>t. tk_id t \<notin> ex_skipped st) (get_ready_tasks dag (ex_completed st))"

definition hop_error :: "nat \<Rightarrow> nat \<Rightarrow> flow_error" where
  "hop_error hops limit =
     OtherError (''hop limit exceeded: '' @ show_nat hops @ '' transitions (max '' @ show_nat limit @ '')'')"

definition exec_round ::
  "('w, 'f) exec_env \<Rightarrow> 'f flow_graph \<Rightarrow> 'f conditional_edge list
     \<Rightarrow> exec_phase \<times> ('w, 'f) exec_state \<Rightarrow> exec_phase \<times> ('w, 'f) exec_state" where
  "exec_round env dag edges s =
     (let st = snd s in
      if xe_max_hops env > 0 \<and> ex_hops st \<ge> xe_max_hops env
      then (Aborted (hop_error (ex_hops st) (xe_max_hops env)), st)
      else
        (let ready = exec_ready dag st in
         if ready = [] then (Finished, st)
         else
           (case run_ready env dag edges ready st of
              None \<Rightarrow> (Diverged, st)
            | Some (Inl (e, st')) \<Rightarrow> (Aborted e, st')
            | Some (Inr st') \<Rightarrow> (Active, st'))))"

definition exec_loop ::
  "('w, 'f) exec_env \<Rightarrow> 'f flow_graph \<Rightarrow> 'f conditional_edge list \<Rightarrow> ('w, 'f) exec_state
     \<Rightarrow> (exec_phase \<times> ('w, 'f) exec_state) option" where
  "exec_loop env dag edges st =
     while_option (\<lambda>s. fst s = Active) (exec_round env dag edges) (Active, st)"

fun parse_edges ::
  "(string \<Rightarrow> 'f option) \<Rightarrow> (string \<times> back_edge_definition) list
     \<Rightarrow> flow_error + 'f conditional_edge list" where
  "parse_edges parse_f32 [] = Inr []"
| "parse_edges parse_f32 ((from_task, def) # rest) =
     (case edge_from_definition parse_f32 from_task def of
        Inl e \<Rightarrow> Inl e
      | Inr edge \<Rightarrow>
          (case parse_edges parse_f32 rest of Inl e \<Rightarrow> Inl e | Inr edges \<Rightarrow> Inr (edge # edges)))"

definition edge_definitions :: "'f flow_task list \<Rightarrow> (string \<times> back_edge_definition) list" where
  "edge_definitions tasks = concat (map (\<lambda>t. map (Pair (tk_id t)) (tk_back_edges t)) tasks)"

definition resumed_state :: "('w, 'f) exec_env \<Rightarrow> 'w \<Rightarrow> ('w, 'f) exec_state" where
  "resumed_state env w =
     (let loaded = (case xe_checkpoint env of Some (_, Some done_nodes) \<Rightarrow> done_nodes | _ \<Rightarrow> []) in
      \<lparr>ex_results = fold (\<lambda>(i, output). hm_insert i (unrun_result i Complete output)) loaded [],
       ex_completed = fst ` set loaded, ex_skipped = {}, ex_taint = new_tracker, ex_prompt = 0,
       ex_completion = 0, ex_tracker = FlowControl.tracker_new, ex_hops = 0, ex_world = w,
       ex_effects = []\<rparr>)"

record 'f dag_result =
  dr_task_results :: "(string, 'f task_result) hmap"
  dr_total_prompt_tokens :: nat
  dr_total_completion_tokens :: nat
  dr_taint :: data_label

definition exec_finish ::
  "('w, 'f) exec_env \<Rightarrow> ('w, 'f) exec_state \<Rightarrow> 'f dag_result \<times> ('w, 'f) exec_state" where
  "exec_finish env st =
     (let st1 = (case xe_checkpoint env of
                   Some (flow_id, _) \<Rightarrow> st\<lparr>ex_effects := ex_effects st @ [CheckpointDeleted flow_id]\<rparr>
                 | None \<Rightarrow> st);
          st2 = emit_event env (FlowCompleted (ex_prompt st1) (ex_completion st1)) st1
      in (\<lparr>dr_task_results = ex_results st2, dr_total_prompt_tokens = ex_prompt st2,
           dr_total_completion_tokens = ex_completion st2, dr_taint = level (ex_taint st2)\<rparr>, st2))"

text \<open>\<open>run\<close>: \<open>None\<close> when it does not return; otherwise the result and the final state.\<close>

definition exec_run ::
  "('w, 'f) exec_env \<Rightarrow> 'f flow_task list \<Rightarrow> 'w
     \<Rightarrow> ((flow_error + 'f dag_result) \<times> ('w, 'f) exec_state) option" where
  "exec_run env tasks w =
     (case parse_edges (xe_parse_f32 env) (edge_definitions tasks) of
        Inl e \<Rightarrow> Some (Inl e, resumed_state env w)
      | Inr edges \<Rightarrow>
          (case graph_new tasks of
             None \<Rightarrow> None
           | Some (Inl e) \<Rightarrow> Some (Inl e, resumed_state env w)
           | Some (Inr dag) \<Rightarrow>
               (case exec_loop env dag edges (resumed_state env w) of
                  None \<Rightarrow> None
                | Some (Active, _) \<Rightarrow> None
                | Some (Diverged, _) \<Rightarrow> None
                | Some (Aborted e, st) \<Rightarrow> Some (Inl e, st)
                | Some (Finished, st) \<Rightarrow>
                    (case exec_finish env st of (r, st') \<Rightarrow> Some (Inr r, st')))))"

section \<open>Circuit breaker\<close>

type_synonym failure_counts = "(string, nat \<times> instant) hmap"

definition is_circuit_open :: "nat \<Rightarrow> nat \<Rightarrow> instant \<Rightarrow> string \<Rightarrow> failure_counts \<Rightarrow> bool" where
  "is_circuit_open threshold cooldown now tool counts =
     (case hm_get counts tool of
        Some (count, last_failure) \<Rightarrow> count \<ge> threshold \<and> now - last_failure < cooldown
      | None \<Rightarrow> False)"

definition record_failure :: "instant \<Rightarrow> string \<Rightarrow> failure_counts \<Rightarrow> failure_counts" where
  "record_failure now tool counts =
     (let entry = (case hm_get counts tool of Some e \<Rightarrow> e | None \<Rightarrow> (0, now)) in
      hm_insert tool (wrap_u64 (fst entry + 1), now) counts)"

definition record_tool_success :: "string \<Rightarrow> failure_counts \<Rightarrow> failure_counts" where
  "record_tool_success tool counts = hm_remove tool counts"

end
