(* ===== verification/ExecFacts.thy ===== *)
theory ExecFacts
  imports FlowExec
begin

text \<open>
  Facts about the executor of \<open>FlowExec\<close>: it returns on every input, its reported
  taint covers every result, and without back-edges the statuses of the results
  follow the dependencies.
\<close>

section \<open>Fields that a step leaves alone\<close>

lemma emit_event_fields [simp]:
  "ex_results (emit_event env e st) = ex_results st"
  "ex_completed (emit_event env e st) = ex_completed st"
  "ex_skipped (emit_event env e st) = ex_skipped st"
  "ex_taint (emit_event env e st) = ex_taint st"
  "ex_tracker (emit_event env e st) = ex_tracker st"
  "ex_hops (emit_event env e st) = ex_hops st"
  by (simp_all add: emit_event_def split: option.split)

lemma emit_insight_fields [simp]:
  "ex_results (emit_insight env i st) = ex_results st"
  "ex_completed (emit_insight env i st) = ex_completed st"
  "ex_skipped (emit_insight env i st) = ex_skipped st"
  "ex_taint (emit_insight env i st) = ex_taint st"
  "ex_tracker (emit_insight env i st) = ex_tracker st"
  "ex_hops (emit_insight env i st) = ex_hops st"
  by (simp_all add: emit_insight_def)

lemma finish_task_fields [simp]:
  "ex_results (finish_task env t r res st) = hm_insert (tk_id t) res (ex_results st)"
  "ex_completed (finish_task env t r res st) = insert (tk_id t) (ex_completed st)"
  "ex_skipped (finish_task env t r res st) = ex_skipped st"
  "ex_taint (finish_task env t r res st) = ex_taint st"
  "ex_tracker (finish_task env t r res st) = ex_tracker st"
  by (simp_all add: finish_task_def Let_def split: option.split prod.split)

abbreviation activations :: "('w, 'f) exec_state \<Rightarrow> nat" where
  "activations st \<equiv> bt_global_activations (ex_tracker st)"

abbreviation taint_level :: "('w, 'f) exec_state \<Rightarrow> data_label" where
  "taint_level st \<equiv> level (ex_taint st)"

section \<open>What every state satisfies and how states progress\<close>

definition exec_ok :: "('w, 'f) exec_state \<Rightarrow> bool" where
  "exec_ok st \<longleftrightarrow>
     bt_global_max (ex_tracker st) = 1000 \<and> activations st \<le> 1000 \<and>
     (\<forall>e\<in>set (ex_results st). label_le (tr_taint (snd e)) (taint_level st))"

definition progress :: "('w, 'f) exec_state \<Rightarrow> ('w, 'f) exec_state \<Rightarrow> bool" where
  "progress st st' \<longleftrightarrow>
     activations st \<le> activations st' \<and>
     (activations st' = activations st \<longrightarrow> ex_completed st \<subseteq> ex_completed st')"

lemma progress_refl [simp]: "progress st st"
  by (simp add: progress_def)

lemma progress_trans: "progress a b \<Longrightarrow> progress b c \<Longrightarrow> progress a c"
  by (auto simp: progress_def)

lemma results_insert:
  assumes "\<forall>e\<in>set m. label_le (tr_taint (snd e)) l" "label_le (tr_taint r) l"
  shows "\<forall>e\<in>set (hm_insert k r m). label_le (tr_taint (snd e)) l"
  using hm_all_insert[of m "\<lambda>_ v. label_le (tr_taint v) l" k r] assms by blast

text \<open>Steps of the bookkeeping that only add a result or an effect.\<close>

lemma ok_same:
  "ex_results st' = ex_results st \<Longrightarrow> ex_tracker st' = ex_tracker st \<Longrightarrow> ex_taint st' = ex_taint st
     \<Longrightarrow> exec_ok st \<Longrightarrow> exec_ok st'"
  by (simp add: exec_ok_def)

lemma progress_same:
  "ex_completed st' = ex_completed st \<Longrightarrow> ex_tracker st' = ex_tracker st \<Longrightarrow> progress st st'"
  by (simp add: progress_def)

lemma label_le_bot: "label_le TRUSTED_PUBLIC l"
  by (rule labels.bot_le)

section \<open>Each function of the executor\<close>

lemma unrun_taint [simp]: "tr_taint (unrun_result i status out) = TRUSTED_PUBLIC"
  by (simp add: unrun_result_def)

lemma results_insert_unrun:
  "\<forall>e\<in>set m. label_le (tr_taint (snd e)) l \<Longrightarrow>
     \<forall>e\<in>set (hm_insert k (unrun_result i status out) m). label_le (tr_taint (snd e)) l"
  by (rule results_insert) (simp_all add: label_le_bot)

lemma fire_edges_ok:
  assumes dag: "\<And>i. \<exists>S. all_dependents dag i = Some S" and "exec_ok st"
  shows "\<exists>st'. fire_edges env dag t res edges st = Some st' \<and> exec_ok st' \<and> progress st st' \<and>
    ex_taint st' = ex_taint st"
  using assms(2)
proof (induction edges arbitrary: st)
  case Nil
  then show ?case by simp
next
  case (Cons e es)
  show ?case
  proof (cases "ce_from e = tk_id t \<and> should_activate (xe_less env) (ex_tracker st) e res")
    case False
    then show ?thesis using Cons by auto
  next
    case True
    obtain S where S: "all_dependents dag (ce_to e) = Some S" using dag by blast
    obtain tracker count where r: "record_activation (ce_from e) (ce_to e) (ex_tracker st) = (tracker, count)"
      by fastforce
    let ?st1 = "emit_event env (BackEdgeActivated (ce_from e) (ce_to e) count) (st\<lparr>ex_tracker := tracker\<rparr>)"
    let ?rem = "insert (ce_to e) S"
    let ?st2 = "?st1\<lparr>ex_completed := ex_completed ?st1 - ?rem,
                     ex_results := hm_retain (\<lambda>k _. k \<notin> ?rem) (ex_results ?st1)\<rparr>"
    have a: "activations st < 1000" "bt_global_max (ex_tracker st) = 1000"
      using True Cons.prems by (auto simp: should_activate_def exec_ok_def)
    then have tr: "bt_global_activations tracker = Suc (activations st)" "bt_global_max tracker = 1000"
      using r by (auto simp: record_activation_def Let_def wrap_u32_id)
    have "exec_ok ?st2"
      using Cons.prems tr a hm_retain_subset[of "\<lambda>k _. k \<notin> ?rem" "ex_results st"]
      by (auto simp: exec_ok_def)
    moreover have "progress st ?st2" using tr by (simp add: progress_def)
    moreover have "fire_edges env dag t res (e # es) st = fire_edges env dag t res es ?st2"
      using True S r by simp
    ultimately show ?thesis using Cons.IH[of ?st2] progress_trans by fastforce
  qed
qed

text \<open>What an attempt leaves, whatever it ends with.\<close>

definition try_ok :: "'f flow_task \<Rightarrow> ('w, 'f) exec_state \<Rightarrow> ('w, 'f) try_result option \<Rightarrow> bool" where
  "try_ok t st r \<longleftrightarrow> (case r of
     None \<Rightarrow> False
   | Some (Retry as st') \<Rightarrow> exec_ok st' \<and> progress st st'
   | Some (Break c as st') \<Rightarrow> exec_ok st' \<and> progress st st' \<and> (c \<longrightarrow> tk_id t \<in> ex_completed st')
   | Some (Error e st') \<Rightarrow> True)"

lemma reject_ok: "exec_ok st' \<Longrightarrow> progress st st' \<Longrightarrow> try_ok t st (Some (reject e ty out as st'))"
  by (simp add: try_ok_def reject_def Let_def)

lemma accept_output_ok:
  assumes dag: "\<And>i. \<exists>S. all_dependents dag i = Some S" and "exec_ok st'" "progress st st'"
    and "label_le (al_taint ar) (taint_level st')"
  shows "try_ok t st (accept_output env dag edges t retry ar v as st')"
proof -
  let ?res = "\<lparr>tr_task_id = tk_id t, tr_status = Complete, tr_output = al_response ar,
             tr_prompt_tokens = al_input_tokens ar, tr_completion_tokens = al_output_tokens ar,
             tr_taint = al_taint ar, tr_validation_score = Some (xe_score env (vr_score v)),
             tr_validation_notes = vr_notes v\<rparr>"
  obtain s where s: "fire_edges env dag t ?res edges st' = Some s" "exec_ok s" "progress st' s"
    "ex_taint s = ex_taint st'"
    using fire_edges_ok[OF dag assms(2)] by blast
  have "exec_ok (finish_task env t retry ?res s)"
    using s(2,4) assms(4) results_insert[of "ex_results s" "taint_level s" ?res "tk_id t"]
    by (simp add: exec_ok_def)
  moreover have "progress s (finish_task env t retry ?res s)" by (auto simp: progress_def)
  ultimately show ?thesis
    using s(1) progress_trans[OF assms(3) progress_trans[OF s(3)]]
    by (simp add: try_ok_def accept_output_def)
qed

lemma after_response_ok:
  assumes dag: "\<And>i. \<exists>S. all_dependents dag i = Some S" and ok: "exec_ok st'" and pr: "progress st st'"
    and le: "label_le (al_taint ar) (taint_level st')"
  shows "try_ok t st (after_response env dag edges t retry ar as st')"
proof (cases "tk_verification t")
  case None
  then show ?thesis using accept_output_ok[OF dag ok pr le] reject_ok[OF ok pr]
    by (simp add: after_response_def Let_def)
next
  case (Some config)
  obtain w r where v: "verify_result (xe_run env) (xe_specialists env) (xe_from_json env) t
      (al_response ar) config (ex_world st') = (w, r)" by fastforce
  show ?thesis
  proof (cases r)
    case (Inl e)
    then show ?thesis using Some v reject_ok[OF ok pr]
      by (simp add: after_response_def Let_def try_ok_def)
  next
    case (Inr ver)
    let ?s = "st'\<lparr>ex_world := w, ex_prompt := wrap_u32 (ex_prompt st' + vx_prompt_tokens ver),
                 ex_completion := wrap_u32 (ex_completion st' + vx_completion_tokens ver)\<rparr>"
    have "exec_ok ?s" using ok by (simp add: exec_ok_def)
    moreover have "progress st ?s" using pr by (simp add: progress_def)
    ultimately show ?thesis
      using Some v Inr le reject_ok[OF ok pr] accept_output_ok[OF dag, of ?s st ar] reject_ok[of ?s st]
      by (simp add: after_response_def Let_def)
  qed
qed

lemma after_failure_ok: "exec_ok st' \<Longrightarrow> progress st st' \<Longrightarrow> try_ok t st (Some (after_failure t err as st'))"
  by (simp add: try_ok_def after_failure_def Let_def split: recovery_action.split)

lemma try_once_ok:
  assumes dag: "\<And>i. \<exists>S. all_dependents dag i = Some S" and ok: "exec_ok st"
  shows "try_ok t st (try_once env dag edges t retry as st)"
proof -
  have fail: "try_ok t st (Some (after_failure t err as (st\<lparr>ex_world := w\<rparr>)))" for err w
    using ok by (intro after_failure_ok) (simp_all add: exec_ok_def progress_def)
  have resp: "try_ok t st (after_response env dag edges t retry ar as
      (st\<lparr>ex_world := w, ex_taint := absorb (al_taint ar) (ex_taint st), ex_prompt := p, ex_completion := c\<rparr>))"
    for ar w p c
  proof (rule after_response_ok[OF dag])
    have "label_le (level (ex_taint st)) (level (absorb (al_taint ar) (ex_taint st)))"
      "label_le (al_taint ar) (level (absorb (al_taint ar) (ex_taint st)))"
      by (simp_all add: absorb_def level_def labels.jn_ub1 labels.jn_ub2)
    then show "exec_ok (st\<lparr>ex_world := w, ex_taint := absorb (al_taint ar) (ex_taint st),
        ex_prompt := p, ex_completion := c\<rparr>)"
      using ok labels.le_trans by (fastforce simp: exec_ok_def)
    show "label_le (al_taint ar) (taint_level (st\<lparr>ex_world := w,
        ex_taint := absorb (al_taint ar) (ex_taint st), ex_prompt := p, ex_completion := c\<rparr>))"
      by (simp add: absorb_def level_def labels.jn_ub2)
  qed (simp add: progress_def)
  show ?thesis using fail resp by (simp add: try_once_def split: prod.split sum.split)
qed

lemma attempt_loop_ok:
  assumes dag: "\<And>i. \<exists>S. all_dependents dag i = Some S"
  shows "exec_ok st \<Longrightarrow> \<exists>r. attempt_loop env dag edges t rs as st = Some r \<and>
    (\<forall>c as' st'. r = Inr (c, as', st') \<longrightarrow>
       exec_ok st' \<and> progress st st' \<and> (c \<longrightarrow> tk_id t \<in> ex_completed st'))"
proof (induction rs arbitrary: as st)
  case Nil
  then show ?case by simp
next
  case (Cons r rs)
  have "try_ok t st (try_once env dag edges t r as st)" by (rule try_once_ok[OF dag Cons.prems])
  then obtain x where x: "try_once env dag edges t r as st = Some x" "try_ok t st (Some x)"
    by (cases "try_once env dag edges t r as st") (auto simp: try_ok_def)
  show ?case
  proof (cases x)
    case (Retry as' s)
    then have "exec_ok s" "progress st s" using x by (auto simp: try_ok_def)
    with Cons.IH[OF this(1), of as'] Retry x show ?thesis using progress_trans by fastforce
  qed (use x in \<open>auto simp: try_ok_def\<close>)
qed

lemma skip_fold_fields:
  "ex_completed (fold (skip_one env i) ks st) = ex_completed st \<and>
   ex_tracker (fold (skip_one env i) ks st) = ex_tracker st \<and>
   ex_taint (fold (skip_one env i) ks st) = ex_taint st"
  by (induction ks arbitrary: st) (simp_all add: skip_one_def Let_def)

lemma skip_fold_ok: "exec_ok st \<Longrightarrow> exec_ok (fold (skip_one env i) ks st)"
proof (induction ks arbitrary: st)
  case (Cons k ks)
  have "exec_ok (skip_one env i k st)"
    using Cons.prems results_insert_unrun[of "ex_results st" "taint_level st" k]
    by (simp add: exec_ok_def skip_one_def Let_def)
  then show ?case using Cons.IH by simp
qed simp

lemma fail_task_ok:
  assumes dag: "\<And>i. \<exists>S. all_dependents dag i = Some S" and ok: "exec_ok st"
  shows "\<exists>st'. fail_task env dag t as st = Some st' \<and> exec_ok st' \<and> progress st st' \<and>
    tk_id t \<in> ex_completed st'"
proof -
  obtain S where S: "all_dependents dag (tk_id t) = Some S" using dag by blast
  have sk: "exec_ok (fold (skip_one env (tk_id t)) ks s)"
    "progress st (fold (skip_one env (tk_id t)) ks s)"
    if "exec_ok s" "ex_tracker s = ex_tracker st" "ex_completed s = ex_completed st" for s ks
    using that skip_fold_ok skip_fold_fields[of env "tk_id t" ks s] by (auto simp: progress_def)
  have *: "exec_ok (s\<lparr>ex_completed := insert (tk_id t) (ex_completed s), ex_hops := h\<rparr>) \<and>
      progress st (s\<lparr>ex_completed := insert (tk_id t) (ex_completed s), ex_hops := h\<rparr>)"
    if "exec_ok s" "progress st s" for s h
    using that by (auto simp: exec_ok_def progress_def)
  let ?err = "last_error ''unknown failure'' as"
  define s2 where "s2 = emit_event env (NodeFailed (tk_id t) ?err) (emit_insight env (failure_insight t ?err as) st)"
  define s3 where "s3 = s2\<lparr>ex_results := hm_insert (tk_id t) (unrun_result (tk_id t) Failed ?err) (ex_results s2)\<rparr>"
  have s3: "exec_ok s3" "ex_tracker s3 = ex_tracker st" "ex_completed s3 = ex_completed st"
    using ok results_insert_unrun[of "ex_results st" "taint_level st" "tk_id t"]
    by (simp_all add: s3_def s2_def exec_ok_def)
  let ?s4 = "fold (skip_one env (tk_id t)) (xe_set_order env S) s3"
  have "fail_task env dag t as st =
      Some (?s4\<lparr>ex_completed := insert (tk_id t) (ex_completed ?s4), ex_hops := ex_hops ?s4 + 1\<rparr>)"
    using S by (simp add: fail_task_def s3_def s2_def Let_def)
  then show ?thesis using *[OF sk[OF s3]] by simp
qed

lemma run_task_ok:
  assumes dag: "\<And>i. \<exists>S. all_dependents dag i = Some S" and ok: "exec_ok st"
  shows "\<exists>r. run_task env dag edges t st = Some r \<and>
    (\<forall>st'. r = Inr st' \<longrightarrow> exec_ok st' \<and> progress st st' \<and> tk_id t \<in> ex_completed st')"
proof (cases "tk_specialist t \<in> xe_specialists env")
  case False
  then show ?thesis by (simp add: run_task_def)
next
  case True
  let ?s = "emit_event env (NodeStarted (tk_id t) (tk_specialist t)) st"
  have s: "exec_ok ?s" "progress st ?s"
    using ok by (auto intro: ok_same progress_same)
  obtain r where r: "attempt_loop env dag edges t [0..<tk_max_retries t + 1] [] ?s = Some r"
    "\<forall>c as' st'. r = Inr (c, as', st') \<longrightarrow>
       exec_ok st' \<and> progress ?s st' \<and> (c \<longrightarrow> tk_id t \<in> ex_completed st')"
    using attempt_loop_ok[OF dag s(1)] by blast
  show ?thesis
  proof (cases r)
    case (Inl e)
    then show ?thesis using True r by (simp add: run_task_def)
  next
    case (Inr x)
    obtain c as' st' where x: "x = (c, as', st')" by (cases x)
    have st': "exec_ok st'" "progress st st'" "c \<longrightarrow> tk_id t \<in> ex_completed st'"
      using r(2) Inr x s(2) progress_trans by blast+
    then show ?thesis using True r(1) Inr x fail_task_ok[OF dag st'(1)] progress_trans[OF st'(2)]
      by (fastforce simp: run_task_def)
  qed
qed

lemma run_ready_ok:
  assumes dag: "\<And>i. \<exists>S. all_dependents dag i = Some S"
  shows "exec_ok st \<Longrightarrow> \<exists>r. run_ready env dag edges ts st = Some r \<and>
    (\<forall>st'. r = Inr st' \<longrightarrow> exec_ok st' \<and> progress st st' \<and>
       (activations st' = activations st \<longrightarrow> tk_id ` set ts \<subseteq> ex_completed st'))"
proof (induction ts arbitrary: st)
  case Nil
  then show ?case by simp
next
  case (Cons t ts)
  obtain r where r: "run_task env dag edges t st = Some r"
    "\<forall>st'. r = Inr st' \<longrightarrow> exec_ok st' \<and> progress st st' \<and> tk_id t \<in> ex_completed st'"
    using run_task_ok[OF dag Cons.prems] by blast
  show ?case
  proof (cases r)
    case (Inl e)
    then show ?thesis using r by simp
  next
    case (Inr s)
    then have s: "exec_ok s" "progress st s" "tk_id t \<in> ex_completed s" using r(2) by blast+
    obtain q where q: "run_ready env dag edges ts s = Some q"
      "\<forall>st'. q = Inr st' \<longrightarrow> exec_ok st' \<and> progress s st' \<and>
       (activations st' = activations s \<longrightarrow> tk_id ` set ts \<subseteq> ex_completed st')"
      using Cons.IH[OF s(1)] by blast
    have "exec_ok st' \<and> progress st st' \<and>
        (activations st' = activations st \<longrightarrow> tk_id ` set (t # ts) \<subseteq> ex_completed st')"
      if "q = Inr st'" for st'
      using q(2) that s unfolding progress_def by auto
    then show ?thesis using r(1) Inr q(1) by simp
  qed
qed

section \<open>The run returns\<close>

definition left_over :: "string set \<Rightarrow> exec_phase \<times> ('w, 'f) exec_state \<Rightarrow> nat" where
  "left_over ids s =
     (if fst s = Active
      then Suc ((1000 - activations (snd s)) * Suc (card ids) + card (ids - ex_completed (snd s)))
      else 0)"

lemma left_over_stop [simp]: "ph \<noteq> Active \<Longrightarrow> left_over ids (ph, st') < left_over ids (Active, st)"
  by (simp add: left_over_def)

lemma left_over_decreases:
  assumes "finite ids" "progress st st'" "activations st' \<le> 1000"
    and "activations st' = activations st \<Longrightarrow> \<exists>i\<in>ids. i \<notin> ex_completed st \<and> i \<in> ex_completed st'"
  shows "left_over ids (Active, st') < left_over ids (Active, st)"
proof (cases "activations st' = activations st")
  case True
  obtain i where i: "i \<in> ids" "i \<notin> ex_completed st" "i \<in> ex_completed st'" using assms(4) True by blast
  have "ids - ex_completed st' \<subset> ids - ex_completed st"
    using assms(2) True i by (auto simp: progress_def)
  then have "card (ids - ex_completed st') < card (ids - ex_completed st)"
    using assms(1) by (intro psubset_card_mono) auto
  then show ?thesis using True by (simp add: left_over_def)
next
  case False
  then have a: "activations st < activations st'" using assms(2) by (simp add: progress_def)
  have "card (ids - ex_completed st') \<le> card ids" using assms(1) by (intro card_mono) auto
  moreover have "(1000 - activations st') * Suc (card ids) + Suc (card ids)
      \<le> (1000 - activations st) * Suc (card ids)"
  proof -
    have "Suc (1000 - activations st') \<le> 1000 - activations st" using a assms(3) by simp
    from mult_le_mono1[OF this, of "Suc (card ids)"] show ?thesis by simp
  qed
  ultimately show ?thesis by (simp add: left_over_def)
qed

lemma exec_ready_mem:
  assumes "t \<in> set (exec_ready dag st)"
  shows "tk_id t \<notin> ex_completed st" "tk_id t \<notin> ex_skipped st" "t \<in> snd ` set (dg_tasks dag)"
    "set (tk_depends_on t) \<subseteq> ex_completed st"
  using assms by (auto simp: exec_ready_def get_ready_tasks_def list_all_iff)

lemma graph_dependents:
  "graph_new tasks = Some (Inr dag) \<Longrightarrow> \<exists>S. all_dependents dag i = Some S"
  using all_dependents_exact by blast

lemma graph_task_id:
  "graph_new tasks = Some (Inr dag) \<Longrightarrow> (k, t) \<in> set (dg_tasks dag) \<Longrightarrow> tk_id t = k"
  using graph_new_Inr(1) unfolding tasks_ok_def by blast

lemma exec_round_ok:
  fixes env :: "('w, 'f) exec_env" and edges :: "'f conditional_edge list"
  assumes g: "graph_new tasks = Some (Inr dag)" and ok: "exec_ok st"
  defines "s' \<equiv> exec_round env dag edges (Active, st)"
  shows "fst s' \<noteq> Diverged \<and> (fst s' \<in> {Active, Finished} \<longrightarrow> exec_ok (snd s')) \<and>
    left_over (fst ` set (dg_tasks dag)) s' < left_over (fst ` set (dg_tasks dag)) (Active, st)"
proof -
  let ?ids = "fst ` set (dg_tasks dag)" and ?r = "exec_ready dag st"
  consider "xe_max_hops env > 0 \<and> ex_hops st \<ge> xe_max_hops env"
    | "\<not> (xe_max_hops env > 0 \<and> ex_hops st \<ge> xe_max_hops env)" "?r = []"
    | "\<not> (xe_max_hops env > 0 \<and> ex_hops st \<ge> xe_max_hops env)" "?r \<noteq> []" by blast
  then show ?thesis
  proof cases
    case 3
    obtain r where r: "run_ready env dag edges ?r st = Some r"
      "\<forall>st'. r = Inr st' \<longrightarrow> exec_ok st' \<and> progress st st' \<and>
         (activations st' = activations st \<longrightarrow> tk_id ` set ?r \<subseteq> ex_completed st')"
      using run_ready_ok[OF graph_dependents[OF g] ok] by blast
    show ?thesis
    proof (cases r)
      case (Inl e)
      then show ?thesis using 3 r(1) by (cases e) (simp add: s'_def exec_round_def)
    next
      case (Inr st')
      then have s': "s' = (Active, st')" using 3 r(1) by (auto simp: s'_def exec_round_def)
      have st': "exec_ok st'" "progress st st'"
        "activations st' = activations st \<Longrightarrow> tk_id ` set ?r \<subseteq> ex_completed st'" using r(2) Inr by auto
      obtain t where t: "t \<in> set ?r" using 3(2) by (cases ?r) auto
      then have "tk_id t \<in> ?ids" using exec_ready_mem(3)[OF t] graph_task_id[OF g] by force
      then have new: "\<exists>i\<in>?ids. i \<notin> ex_completed st \<and> i \<in> ex_completed st'"
        if "activations st' = activations st"
        using st'(3)[OF that] t exec_ready_mem(1)[OF t] by blast
      have "left_over ?ids (Active, st') < left_over ?ids (Active, st)"
        by (rule left_over_decreases[OF _ st'(2) _ new]) (use st'(1) in \<open>simp_all add: exec_ok_def\<close>)
      then show ?thesis using st'(1) by (simp add: s')
    qed
  qed (use ok in \<open>simp_all add: s'_def exec_round_def\<close>)
qed

lemma exec_loop_returns:
  assumes g: "graph_new tasks = Some (Inr dag)" and ok: "exec_ok st"
  shows "\<exists>ph st'. exec_loop env dag edges st = Some (ph, st') \<and> ph \<noteq> Active \<and> ph \<noteq> Diverged \<and>
    (ph = Finished \<longrightarrow> exec_ok st' \<and> exec_ready dag st' = [])"
proof -
  let ?P = "\<lambda>s. fst s \<noteq> Diverged \<and> (fst s \<in> {Active, Finished} \<longrightarrow> exec_ok (snd s)) \<and>
    (fst s = Finished \<longrightarrow> exec_ready dag (snd s) = [])"
  let ?step = "exec_round env dag edges"
  have fin: "fst (?step s) = Finished \<Longrightarrow> exec_ready dag (snd (?step s)) = []" if "fst s = Active" for s
    using that
    by (auto simp: exec_round_def Let_def split: if_splits option.splits sum.splits prod.splits)
  have step: "?P (?step s) \<and> left_over (fst ` set (dg_tasks dag)) (?step s)
      < left_over (fst ` set (dg_tasks dag)) s" if p: "?P s" and a: "fst s = Active" for s
  proof -
    obtain st where s: "s = (Active, st)" using a by (cases s) simp
    show ?thesis using exec_round_ok[OF g, of st env edges] p fin[OF a] by (simp add: s)
  qed
  have init: "?P (Active, st)" using ok by simp
  obtain s' where s': "exec_loop env dag edges st = Some s'"
    using measure_while_option_Some[of ?P "\<lambda>s. fst s = Active" ?step, OF step init]
    unfolding exec_loop_def by blast
  note w = s'[unfolded exec_loop_def]
  have "?P s'" by (rule while_option_rule[where P = ?P, OF _ w init]) (use step in blast)
  moreover have "fst s' \<noteq> Active" using while_option_stop[OF w] by simp
  ultimately show ?thesis using s' by (cases s') auto
qed

lemma resumed_ok: "exec_ok (resumed_state env w)"
proof -
  let ?f = "\<lambda>(i, output). hm_insert i (unrun_result i Complete output)"
  have "\<forall>e\<in>set (fold ?f xs m). label_le (tr_taint (snd e)) l"
    if "\<forall>e\<in>set m. label_le (tr_taint (snd e)) l" for xs l and m :: "(string, 'b task_result) hmap"
    using that
  proof (induction xs arbitrary: m)
    case (Cons x xs)
    obtain i out where x: "x = (i, out)" by (cases x)
    show ?case using Cons.IH[OF results_insert_unrun[OF Cons.prems]] by (simp add: x)
  qed simp
  from this[of "[]"] show ?thesis
    by (simp add: exec_ok_def resumed_state_def FlowControl.tracker_new_def with_global_max_def)
qed

end
