(* ===== verification/ExecOutcome.thy ===== *)
theory ExecOutcome
  imports ExecFacts
begin

text \<open>
  The properties of the executor.  The statuses of the tasks are read as a function
  from identifiers; \<open>outcome_ok\<close> says how they follow the dependencies, and every step
  of a run without back-edges keeps it.
\<close>

section \<open>Statuses along the dependencies\<close>

definition finished :: "(string \<Rightarrow> task_status option) \<Rightarrow> string set" where
  "finished f = {k. f k = Some Complete \<or> f k = Some Failed}"

definition outcome_ok :: "(string \<times> string) set \<Rightarrow> (string \<Rightarrow> task_status option) \<Rightarrow> bool" where
  "outcome_ok R f \<longleftrightarrow>
     (\<forall>k. f k \<in> {None, Some Complete, Some Failed, Some Skipped}) \<and>
     (\<forall>k. f k = Some Skipped \<longleftrightarrow> (\<exists>i. f i = Some Failed \<and> (i, k) \<in> R\<^sup>+)) \<and>
     (\<forall>d k. (d, k) \<in> R \<longrightarrow> k \<in> finished f \<longrightarrow> d \<in> finished f)"

lemma outcome_ok_empty: "(\<And>k. f k = None) \<Longrightarrow> outcome_ok R f"
  by (simp add: outcome_ok_def finished_def)

lemma finished_back:
  assumes "outcome_ok R f" "(d, k) \<in> R\<^sup>+"
  shows "k \<in> finished f \<Longrightarrow> d \<in> finished f"
  using assms(2)
proof (induction rule: trancl_induct)
  case (base y)
  then show ?case using assms(1) unfolding outcome_ok_def by blast
next
  case (step y z)
  then show ?case using assms(1) unfolding outcome_ok_def by blast
qed

lemma outcome_known: "outcome_ok R f \<Longrightarrow> f k \<in> {None, Some Complete, Some Failed, Some Skipped}"
  unfolding outcome_ok_def by blast

lemma skipped_iff:
  "outcome_ok R f \<Longrightarrow> f k = Some Skipped \<longleftrightarrow> (\<exists>i. f i = Some Failed \<and> (i, k) \<in> R\<^sup>+)"
  by (simp add: outcome_ok_def)

lemma outcome_complete:
  assumes ok: "outcome_ok R f" and new: "f k = None" and deps: "\<And>d. (d, k) \<in> R \<Longrightarrow> d \<in> finished f"
  shows "outcome_ok R (f(k := Some Complete))"
proof -
  let ?g = "f(k := Some Complete)"
  have fin: "finished ?g = insert k (finished f)" by (auto simp: finished_def)
  have failed: "?g i = Some Failed \<longleftrightarrow> f i = Some Failed" for i using new by auto
  have skipped: "?g j = Some Skipped \<longleftrightarrow> f j = Some Skipped" for j using new by auto
  show ?thesis unfolding outcome_ok_def failed skipped fin
  proof (intro conjI allI impI)
    show "?g j \<in> {None, Some Complete, Some Failed, Some Skipped}" for j
      using outcome_known[OF ok, of j] by simp
    show "f j = Some Skipped \<longleftrightarrow> (\<exists>i. f i = Some Failed \<and> (i, j) \<in> R\<^sup>+)" for j
      by (rule skipped_iff[OF ok])
    show "d \<in> insert k (finished f)" if "(d, j) \<in> R" "j \<in> insert k (finished f)" for d j
      using that deps ok unfolding outcome_ok_def by blast
  qed
qed

definition fail_statuses ::
  "(string \<times> string) set \<Rightarrow> string \<Rightarrow> (string \<Rightarrow> task_status option) \<Rightarrow> string \<Rightarrow> task_status option" where
  "fail_statuses R k f = (\<lambda>j. if j = k then Some Failed else if (k, j) \<in> R\<^sup>+ then Some Skipped else f j)"

lemma outcome_fail:
  assumes ok: "outcome_ok R f" and new: "f k = None" and deps: "\<And>d. (d, k) \<in> R \<Longrightarrow> d \<in> finished f"
    and ac: "acyclic R"
  shows "outcome_ok R (fail_statuses R k f)"
proof -
  let ?g = "fail_statuses R k f"
  have irr: "(k, k) \<notin> R\<^sup>+" using ac by (simp add: acyclic_def)
  have notfin: "j \<notin> finished f" if "(k, j) \<in> R\<^sup>+" for j
    using finished_back[OF ok that] new by (auto simp: finished_def)
  have failed: "?g i = Some Failed \<longleftrightarrow> i = k \<or> f i = Some Failed" for i
    using notfin[of i] by (auto simp: fail_statuses_def finished_def)
  have skipped: "?g j = Some Skipped \<longleftrightarrow> (k, j) \<in> R\<^sup>+ \<or> f j = Some Skipped" for j
    using new irr by (auto simp: fail_statuses_def)
  have fin: "finished ?g = insert k (finished f)"
    using notfin irr by (auto simp: fail_statuses_def finished_def split: if_splits)
  show ?thesis unfolding outcome_ok_def failed skipped fin
  proof (intro conjI allI impI)
    show "?g j \<in> {None, Some Complete, Some Failed, Some Skipped}" for j
      using outcome_known[OF ok, of j] by (simp add: fail_statuses_def)
    show "(k, j) \<in> R\<^sup>+ \<or> f j = Some Skipped \<longleftrightarrow> (\<exists>i. (i = k \<or> f i = Some Failed) \<and> (i, j) \<in> R\<^sup>+)" for j
      using skipped_iff[OF ok, of j] by blast
    show "d \<in> insert k (finished f)" if "(d, j) \<in> R" "j \<in> insert k (finished f)" for d j
      using that deps ok unfolding outcome_ok_def by blast
  qed
qed

lemma pending_after_step:
  assumes ok: "outcome_ok R f" and new: "f k = None" and other: "f j = None" "j \<noteq> k"
    and deps: "\<And>d. (d, j) \<in> R \<Longrightarrow> d \<in> finished f"
  shows "(f(k := Some Complete)) j = None" "fail_statuses R k f j = None"
proof -
  show "(f(k := Some Complete)) j = None" using other by simp
  have "(k, j) \<notin> R\<^sup>+"
  proof
    assume "(k, j) \<in> R\<^sup>+"
    then obtain d where d: "(k, d) \<in> R\<^sup>*" "(d, j) \<in> R" by (meson tranclD2)
    then have "d \<in> finished f" using deps by blast
    then have "k \<in> finished f" using d(1) finished_back[OF ok] by (metis rtranclD)
    then show False using new by (simp add: finished_def)
  qed
  then show "fail_statuses R k f j = None" using other by (simp add: fail_statuses_def)
qed

lemma finished_grows:
  assumes "outcome_ok R f" "f k = None"
  shows "finished f \<subseteq> finished (f(k := Some Complete))" "finished f \<subseteq> finished (fail_statuses R k f)"
proof -
  show "finished f \<subseteq> finished (f(k := Some Complete))" using assms(2) by (auto simp: finished_def)
  have "(k, j) \<notin> R\<^sup>+" if "j \<in> finished f" for j
    using finished_back[OF assms(1) _ that, of k] assms(2) by (auto simp: finished_def)
  then show "finished f \<subseteq> finished (fail_statuses R k f)"
    by (auto simp: finished_def fail_statuses_def)
qed

section \<open>The executor keeps the outcome\<close>

definition stat :: "(string, 'f task_result) hmap \<Rightarrow> string \<Rightarrow> task_status option" where
  "stat m k = map_option tr_status (hm_get m k)"

lemma stat_insert [simp]: "stat (hm_insert k r m) = (stat m)(k := Some (tr_status r))"
  by (auto simp: stat_def)

definition books_ok :: "(string \<times> string) set \<Rightarrow> ('w, 'f) exec_state \<Rightarrow> bool" where
  "books_ok R st \<longleftrightarrow> outcome_ok R (stat (ex_results st)) \<and>
     ex_completed st = finished (stat (ex_results st)) \<and>
     ex_skipped st = {k. stat (ex_results st) k = Some Skipped}"

definition same_books :: "('w, 'f) exec_state \<Rightarrow> ('w, 'f) exec_state \<Rightarrow> bool" where
  "same_books st st' \<longleftrightarrow> ex_results st' = ex_results st \<and> ex_completed st' = ex_completed st \<and>
     ex_skipped st' = ex_skipped st"

definition completes :: "string \<Rightarrow> ('w, 'f) exec_state \<Rightarrow> ('w, 'f) exec_state \<Rightarrow> bool" where
  "completes i st st' \<longleftrightarrow> (\<exists>r. tr_status r = Complete \<and> ex_results st' = hm_insert i r (ex_results st) \<and>
     ex_completed st' = insert i (ex_completed st) \<and> ex_skipped st' = ex_skipped st)"

lemma same_books_trans: "same_books a b \<Longrightarrow> same_books b c \<Longrightarrow> same_books a c"
  by (simp add: same_books_def)

lemma same_completes: "same_books a b \<Longrightarrow> completes i b c \<Longrightarrow> completes i a c"
  by (auto simp: same_books_def completes_def)

definition try_books :: "string \<Rightarrow> ('w, 'f) exec_state \<Rightarrow> ('w, 'f) try_result option \<Rightarrow> bool" where
  "try_books i st r \<longleftrightarrow> (case r of
     Some (Retry as st') \<Rightarrow> same_books st st'
   | Some (Break c as st') \<Rightarrow> (if c then completes i st st' else same_books st st')
   | _ \<Rightarrow> True)"

lemma reject_books: "same_books st st' \<Longrightarrow> try_books i st (Some (reject e ty out as st'))"
  by (simp add: try_books_def reject_def Let_def)

lemma accept_books:
  "same_books st st' \<Longrightarrow> try_books (tk_id t) st (accept_output env dag [] t retry ar v as st')"
  unfolding try_books_def accept_output_def Let_def
  by (simp add: completes_def same_books_def) (rule exI, rule conjI[rotated], rule refl, simp)

lemma after_response_books:
  assumes "same_books st st'"
  shows "try_books (tk_id t) st (after_response env dag [] t retry ar as st')"
proof (cases "tk_verification t")
  case None
  then show ?thesis using accept_books[OF assms] reject_books[OF assms]
    by (simp add: after_response_def Let_def)
next
  case (Some config)
  obtain w r where v: "verify_result (xe_run env) (xe_specialists env) (xe_from_json env) t
      (al_response ar) config (ex_world st') = (w, r)" by fastforce
  have s: "same_books st (st'\<lparr>ex_world := w, ex_prompt := p, ex_completion := c\<rparr>)" for p c
    using assms by (simp add: same_books_def)
  show ?thesis
    using Some v reject_books[OF assms] accept_books[OF s] reject_books[OF s]
    by (cases r) (simp_all add: after_response_def Let_def try_books_def[where r = "Some (Error _ _)"])
qed

lemma try_once_books: "try_books (tk_id t) st (try_once env dag [] t retry as st)"
proof -
  have "try_books (tk_id t) st (Some (after_failure t err as (st\<lparr>ex_world := w\<rparr>)))" for err w
    by (simp add: try_books_def after_failure_def Let_def same_books_def split: recovery_action.split)
  moreover have "same_books st (st\<lparr>ex_world := w, ex_taint := ta, ex_prompt := p, ex_completion := c\<rparr>)"
    for w ta p c by (simp add: same_books_def)
  ultimately show ?thesis
    by (simp add: try_once_def after_response_books split: prod.split sum.split)
qed

lemma attempt_loop_books:
  "attempt_loop env dag [] t rs as st = Some (Inr (c, as', st')) \<Longrightarrow>
     (if c then completes (tk_id t) st st' else same_books st st')"
proof (induction rs arbitrary: as st)
  case Nil
  then show ?case by (auto simp: same_books_def)
next
  case (Cons r rs)
  note b = try_once_books[of t st env dag r as]
  consider as1 s1 where "try_once env dag [] t r as st = Some (Retry as1 s1)"
    | c1 as1 s1 where "try_once env dag [] t r as st = Some (Break c1 as1 s1)"
    using Cons.prems by (auto split: option.splits try_result.splits)
  then show ?case
  proof cases
    case 1
    then have "same_books st s1" using b by (simp add: try_books_def)
    then show ?thesis using Cons.IH[of as1 s1] Cons.prems 1
      by (auto dest: same_books_trans same_completes split: if_splits)
  next
    case 2
    then have "(c1, as1, s1) = (c, as', st')" using Cons.prems by simp
    then show ?thesis using b 2 by (simp add: try_books_def)
  qed
qed

lemma skip_fold_results:
  "stat (ex_results (fold (skip_one env i) ks st)) k =
     (if k \<in> set ks \<and> k \<notin> ex_completed st then Some Skipped else stat (ex_results st) k)"
  by (induction ks arbitrary: st) (auto simp: skip_one_def Let_def unrun_result_def)

lemma skip_fold_skipped:
  "ex_skipped (fold (skip_one env i) ks st) = ex_skipped st \<union> (set ks - ex_completed st)"
  by (induction ks arbitrary: st) (auto simp: skip_one_def Let_def)

lemma fail_task_books:
  assumes ft: "fail_task env dag t as st = Some st'" and dep: "all_dependents dag (tk_id t) = Some (R\<^sup>+ `` {tk_id t})"
    and ord: "set (xe_set_order env (R\<^sup>+ `` {tk_id t})) = R\<^sup>+ `` {tk_id t}"
    and b: "books_ok R st" and new: "stat (ex_results st) (tk_id t) = None" and ac: "acyclic R"
    and deps: "\<And>d. (d, tk_id t) \<in> R \<Longrightarrow> d \<in> ex_completed st"
  shows "books_ok R st' \<and> stat (ex_results st') = fail_statuses R (tk_id t) (stat (ex_results st))"
proof -
  let ?f = "stat (ex_results st)" and ?k = "tk_id t"
  have ok: "outcome_ok R ?f" and c: "ex_completed st = finished ?f"
    and sk: "ex_skipped st = {k. ?f k = Some Skipped}" using b by (auto simp: books_ok_def)
  have irr: "(?k, ?k) \<notin> R\<^sup>+" using ac by (simp add: acyclic_def)
  have notfin: "j \<notin> finished ?f" if "(?k, j) \<in> R\<^sup>+" for j
    using finished_back[OF ok that] new by (auto simp: finished_def)
  have st: "stat (ex_results st') = fail_statuses R ?k ?f"
    using ft dep notfin irr c ord
    by (auto simp: fail_task_def Let_def skip_fold_results fail_statuses_def unrun_result_def fun_eq_iff)
  have comp: "ex_completed st' = insert ?k (ex_completed st)"
    using ft dep by (auto simp: fail_task_def Let_def skip_fold_fields)
  have skip: "ex_skipped st' = ex_skipped st \<union> R\<^sup>+ `` {?k}"
    using ft dep notfin c ord by (auto simp: fail_task_def Let_def skip_fold_skipped)
  have "outcome_ok R (fail_statuses R ?k ?f)"
    using outcome_fail[OF ok new _ ac] deps c by blast
  moreover have "finished (fail_statuses R ?k ?f) = insert ?k (finished ?f)"
    using notfin irr by (auto simp: fail_statuses_def finished_def split: if_splits)
  moreover have "{k. fail_statuses R ?k ?f k = Some Skipped} = {k. ?f k = Some Skipped} \<union> R\<^sup>+ `` {?k}"
    using new irr by (auto simp: fail_statuses_def)
  ultimately show ?thesis using st comp skip c sk by (simp add: books_ok_def)
qed

text \<open>
  One task run on books that are in order: it ends as completed, or as failed with
  all its dependents skipped.
\<close>

lemma run_task_books:
  assumes rt: "run_task env dag [] t st = Some (Inr st')"
    and dep: "all_dependents dag (tk_id t) = Some (R\<^sup>+ `` {tk_id t})"
    and ord: "set (xe_set_order env (R\<^sup>+ `` {tk_id t})) = R\<^sup>+ `` {tk_id t}"
    and b: "books_ok R st" and new: "stat (ex_results st) (tk_id t) = None" and ac: "acyclic R"
    and deps: "\<And>d. (d, tk_id t) \<in> R \<Longrightarrow> d \<in> ex_completed st"
  shows "books_ok R st' \<and>
    (stat (ex_results st') = (stat (ex_results st))(tk_id t := Some Complete) \<or>
     stat (ex_results st') = fail_statuses R (tk_id t) (stat (ex_results st)))"
proof -
  let ?s = "emit_event env (NodeStarted (tk_id t) (tk_specialist t)) st"
  have same: "same_books st ?s" by (simp add: same_books_def)
  obtain c as s where l: "attempt_loop env dag [] t [0..<tk_max_retries t + 1] [] ?s = Some (Inr (c, as, s))"
    and r: "if c then st' = s else fail_task env dag t as s = Some st'"
    using rt by (auto simp: run_task_def split: if_splits option.splits sum.splits prod.splits)
  note bk = attempt_loop_books[OF l]
  show ?thesis
  proof (cases c)
    case True
    then have c: "completes (tk_id t) st st'" using bk r same same_completes by auto
    let ?f = "stat (ex_results st)" and ?k = "tk_id t"
    have st: "stat (ex_results st') = ?f(?k := Some Complete)" using c by (auto simp: completes_def)
    have "finished (?f(?k := Some Complete)) = insert ?k (finished ?f)" by (auto simp: finished_def)
    moreover have "{j. (?f(?k := Some Complete)) j = Some Skipped} = {j. ?f j = Some Skipped}"
      using new by auto
    moreover have "outcome_ok R (?f(?k := Some Complete))"
      using outcome_complete[of R ?f ?k] b new deps by (simp add: books_ok_def)
    ultimately show ?thesis using c b st by (auto simp: books_ok_def completes_def)
  next
    case False
    then have s: "same_books st s" using bk same same_books_trans by auto
    then have "books_ok R s" "stat (ex_results s) (tk_id t) = None"
      "\<And>d. (d, tk_id t) \<in> R \<Longrightarrow> d \<in> ex_completed s" "ex_results s = ex_results st"
      using b new deps by (simp_all add: same_books_def books_ok_def)
    then show ?thesis using fail_task_books[OF _ dep ord _ _ ac, of as s st'] False r by simp
  qed
qed

definition runnable :: "(string \<times> string) set \<Rightarrow> ('w, 'f) exec_state \<Rightarrow> 'f flow_task \<Rightarrow> bool" where
  "runnable R st t \<longleftrightarrow> stat (ex_results st) (tk_id t) = None \<and>
     (\<forall>d. (d, tk_id t) \<in> R \<longrightarrow> d \<in> ex_completed st)"

lemma run_ready_books:
  assumes dep: "\<And>i. all_dependents dag i = Some (R\<^sup>+ `` {i})"
    and ord: "\<And>i. set (xe_set_order env (R\<^sup>+ `` {i})) = R\<^sup>+ `` {i}" and ac: "acyclic R"
  shows "run_ready env dag [] ts st = Some (Inr st') \<Longrightarrow> books_ok R st \<Longrightarrow>
    \<forall>t\<in>set ts. runnable R st t \<Longrightarrow> distinct (map tk_id ts) \<Longrightarrow> books_ok R st'"
proof (induction ts arbitrary: st)
  case Nil
  then show ?case by simp
next
  case (Cons t ts)
  obtain s where s: "run_task env dag [] t st = Some (Inr s)" "run_ready env dag [] ts s = Some (Inr st')"
    using Cons.prems(1) by (auto split: option.splits sum.splits)
  have t: "stat (ex_results st) (tk_id t) = None" "\<And>d. (d, tk_id t) \<in> R \<Longrightarrow> d \<in> ex_completed st"
    using Cons.prems(3) by (auto simp: runnable_def)
  have bs: "books_ok R s"
    and upd: "stat (ex_results s) = (stat (ex_results st))(tk_id t := Some Complete) \<or>
      stat (ex_results s) = fail_statuses R (tk_id t) (stat (ex_results st))"
    using run_task_books[OF s(1) dep ord Cons.prems(2) t(1) ac t(2)] by auto
  have ok: "outcome_ok R (stat (ex_results st))" "ex_completed st = finished (stat (ex_results st))"
    "ex_completed s = finished (stat (ex_results s))"
    using Cons.prems(2) bs by (auto simp: books_ok_def)
  have "runnable R s u" if u: "u \<in> set ts" for u
  proof -
    have ru: "stat (ex_results st) (tk_id u) = None" "\<And>d. (d, tk_id u) \<in> R \<Longrightarrow> d \<in> finished (stat (ex_results st))"
      using Cons.prems(3) u ok(2) by (auto simp: runnable_def)
    have "tk_id u \<noteq> tk_id t" using Cons.prems(4) u by (metis distinct.simps(2) image_eqI list.map(2) list.set_map)
    note pend = pending_after_step[OF ok(1) t(1) ru(1) this ru(2)]
    have "stat (ex_results s) (tk_id u) = None" using upd pend by metis
    moreover have "finished (stat (ex_results st)) \<subseteq> ex_completed s"
      unfolding ok(3) using upd finished_grows[OF ok(1) t(1)] by metis
    ultimately show ?thesis using ru(2) unfolding runnable_def by blast
  qed
  then show ?case using Cons.IH[OF s(2) bs] Cons.prems(4) by simp
qed

lemma distinct_ready:
  assumes g: "graph_new tasks = Some (Inr dag)"
  shows "distinct (map tk_id (exec_ready dag st))"
proof -
  have ok: "tasks_ok (dg_tasks dag)" by (rule graph_new_Inr(1)[OF g])
  have "map tk_id (map snd (dg_tasks dag)) = map fst (dg_tasks dag)"
    using graph_task_id[OF g] by force
  moreover have "distinct (map fst (dg_tasks dag))" using ok by (simp add: tasks_ok_def hm_wf_def)
  ultimately have "distinct (map tk_id (map snd (dg_tasks dag)))" by argo
  then show ?thesis unfolding exec_ready_def get_ready_tasks_def by (intro distinct_map_filter)
qed

lemma exec_round_books:
  assumes g: "graph_new tasks = Some (Inr dag)"
    and ord: "\<And>S. finite S \<Longrightarrow> set (xe_set_order env S) = S"
    and b: "books_ok (depends_rel (dg_tasks dag)) st"
    and r: "exec_round env dag [] (Active, st) = (ph, st')" "ph \<in> {Active, Finished}"
  shows "books_ok (depends_rel (dg_tasks dag)) st'"
proof (cases "exec_ready dag st = []")
  case True
  then show ?thesis using r b by (auto simp: exec_round_def split: if_splits)
next
  case False
  let ?R = "depends_rel (dg_tasks dag)"
  have wf: "hm_wf (dg_tasks dag)" and ids: "\<And>k t. (k, t) \<in> set (dg_tasks dag) \<Longrightarrow> tk_id t = k"
    using graph_new_Inr(1)[OF g] graph_task_id[OF g] by (auto simp: tasks_ok_def)
  have fin: "finite (?R\<^sup>+ `` {i})" for i
  proof (rule finite_subset)
    show "?R\<^sup>+ `` {i} \<subseteq> fst ` set (dg_tasks dag)"
      by (auto simp: depends_rel_def elim: tranclE)
  qed simp
  have "run_ready env dag [] (exec_ready dag st) st = Some (Inr st')"
    using r False
    by (auto simp: exec_round_def split: if_splits option.splits sum.splits prod.splits)
  moreover have "runnable ?R st t" if t: "t \<in> set (exec_ready dag st)" for t
  proof -
    have "tk_id t \<notin> ex_completed st" "tk_id t \<notin> ex_skipped st" using exec_ready_mem(1,2)[OF t] by auto
    then have "stat (ex_results st) (tk_id t) = None"
      using b outcome_known[of ?R "stat (ex_results st)" "tk_id t"] by (auto simp: books_ok_def finished_def)
    moreover have "d \<in> ex_completed st" if "(d, tk_id t) \<in> ?R" for d
    proof -
      obtain k where k: "(k, t) \<in> set (dg_tasks dag)" using exec_ready_mem(3)[OF t] by auto
      then have "deps_of (dg_tasks dag) (tk_id t) = tk_depends_on t" using deps_of_mem[OF wf] ids by metis
      then show ?thesis using that exec_ready_mem(4)[OF t] by (auto simp: depends_rel_def)
    qed
    ultimately show ?thesis by (simp add: runnable_def)
  qed
  ultimately show ?thesis
    using run_ready_books[OF all_dependents_exact[OF g] ord[OF fin], of "exec_ready dag st" st st']
      valid_order_acyclic[OF graph_new_Inr(4)[OF g]] b distinct_ready[OF g] by blast
qed

lemma exec_loop_books:
  assumes g: "graph_new tasks = Some (Inr dag)"
    and ord: "\<And>S. finite S \<Longrightarrow> set (xe_set_order env S) = S"
    and b: "books_ok (depends_rel (dg_tasks dag)) st"
    and l: "exec_loop env dag [] st = Some (Finished, st')"
  shows "books_ok (depends_rel (dg_tasks dag)) st'"
proof -
  let ?P = "\<lambda>s. fst s \<in> {Active, Finished} \<longrightarrow> books_ok (depends_rel (dg_tasks dag)) (snd s)"
  have step: "?P (exec_round env dag [] s)" if p: "?P s" and a: "fst s = Active" for s
  proof -
    obtain u where s: "s = (Active, u)" using a by (cases s) simp
    obtain ph u' where r: "exec_round env dag [] (Active, u) = (ph, u')" by (cases "exec_round env dag [] (Active, u)")
    have "books_ok (depends_rel (dg_tasks dag)) u" using p by (simp add: s)
    then show ?thesis using exec_round_books[OF g ord _ r] by (simp add: s r)
  qed
  have init: "?P (Active, st)" using b by simp
  have "?P (Finished, st')"
    by (rule while_option_rule[where P = ?P, OF _ l[unfolded exec_loop_def] init]) (use step in blast)
  then show ?thesis by simp
qed

text \<open>When nothing is ready, every task has a result.\<close>

lemma books_cover:
  assumes g: "graph_new tasks = Some (Inr dag)" and b: "books_ok (depends_rel (dg_tasks dag)) st"
    and ready: "exec_ready dag st = []"
  shows "fst ` set (dg_tasks dag) \<subseteq> ex_completed st \<union> ex_skipped st"
proof (rule ccontr)
  let ?R = "depends_rel (dg_tasks dag)" and ?C = "ex_completed st \<union> ex_skipped st"
  assume "\<not> ?thesis"
  then obtain t where t: "t \<in> set (get_ready_tasks dag ?C)"
    using ready_task_exists[OF g, of ?C] by (cases "get_ready_tasks dag ?C") auto
  then obtain k where k: "(k, t) \<in> set (dg_tasks dag)" by (auto simp: get_ready_tasks_def)
  have wf: "hm_wf (dg_tasks dag)" and tk: "tk_id t = k"
    using graph_new_Inr(1)[OF g] graph_task_id[OF g k] by (auto simp: tasks_ok_def)
  have new: "k \<notin> ?C" and deps: "set (tk_depends_on t) \<subseteq> ?C"
    using t tk by (auto simp: get_ready_tasks_def list_all_iff)
  have "d \<in> ex_completed st" if d: "d \<in> set (tk_depends_on t)" for d
  proof (rule ccontr)
    assume "d \<notin> ex_completed st"
    then have "stat (ex_results st) d = Some Skipped" using deps d b by (auto simp: books_ok_def)
    then obtain i where i: "stat (ex_results st) i = Some Failed" "(i, d) \<in> ?R\<^sup>+"
      using b skipped_iff by (auto simp: books_ok_def)
    have "(d, k) \<in> ?R" using deps_of_mem[OF wf k] k d by (force simp: depends_rel_def)
    then have "(i, k) \<in> ?R\<^sup>+" using i(2) by (rule trancl_into_trancl[rotated])
    then have "stat (ex_results st) k = Some Skipped" using i(1) b skipped_iff by (auto simp: books_ok_def)
    then show False using new b by (auto simp: books_ok_def)
  qed
  then have "t \<in> set (exec_ready dag st)"
    using k new tk unfolding exec_ready_def get_ready_tasks_def by (force simp: list_all_iff)
  then show False using ready by simp
qed

section \<open>A sample run\<close>

lemma task_map_fold_ids:
  "fst ` set (fold (\<lambda>t m. hm_insert (tk_id t) t m) ts m) = fst ` set m \<union> tk_id ` set ts"
  by (induction ts arbitrary: m) (auto simp: dom_update)

lemma task_map_ids: "fst ` set (task_map_of tasks) = tk_id ` set tasks"
  unfolding task_map_of_def task_map_fold_ids by simp

lemma exec_run_Ok:
  assumes "exec_run env tasks w = Some (Inr d, st)"
  obtains edges dag s where "parse_edges (xe_parse_f32 env) (edge_definitions tasks) = Inr edges"
    "graph_new tasks = Some (Inr dag)" "exec_loop env dag edges (resumed_state env w) = Some (Finished, s)"
    "dr_task_results d = ex_results s" "dr_taint d = taint_level s"
proof -
  have fin: "dr_task_results (fst (exec_finish env s)) = ex_results s"
    "dr_taint (fst (exec_finish env s)) = taint_level s" for s
    by (simp_all add: exec_finish_def Let_def split: option.split prod.split)
  obtain edges where e: "parse_edges (xe_parse_f32 env) (edge_definitions tasks) = Inr edges"
    using assms by (cases "parse_edges (xe_parse_f32 env) (edge_definitions tasks)") (simp_all add: exec_run_def)
  obtain dag where g: "graph_new tasks = Some (Inr dag)"
    using assms e by (auto simp: exec_run_def split: option.splits sum.splits)
  obtain ph s where l: "exec_loop env dag edges (resumed_state env w) = Some (ph, s)"
    using assms e g by (cases "exec_loop env dag edges (resumed_state env w)") (auto simp: exec_run_def)
  have "ph = Finished" "d = fst (exec_finish env s)"
    using assms e g l by (simp_all add: exec_run_def split: exec_phase.splits prod.splits)
  with e g l show ?thesis using that fin by blast
qed

text \<open>A concrete environment: every agent answers with a fixed response, or fails on demand.\<close>

definition sample_agent_result :: agent_result where
  "sample_agent_result = \<lparr>al_response = ''ok'', al_input_tokens = 1, al_output_tokens = 1,
     al_taint = UNTRUSTED_PII\<rparr>"

definition sample_env :: "(unit, nat) exec_env" where
  "sample_env = \<lparr>xe_run = (\<lambda>s p w. (w, if s = ''broken'' then Inl ''max iterations'' else Inr sample_agent_result)),
     xe_specialists = {''coder'', ''broken''}, xe_insight_retriever = None, xe_insight_callback = False,
     xe_max_hops = 0, xe_checkpoint = None, xe_event_log = None, xe_score = nat,
     xe_less = (<), xe_parse_f32 = (\<lambda>_. None), xe_from_json = (\<lambda>_. None),
     xe_set_order = sorted_list_of_set\<rparr>"

definition sample_flow_task :: "string \<Rightarrow> string \<Rightarrow> string list \<Rightarrow> nat flow_task" where
  "sample_flow_task i s deps = \<lparr>tk_id = i, tk_specialist = s, tk_model = None, tk_mandate = ''m'',
     tk_depends_on = deps, tk_inputs = [], tk_expected_output = None, tk_success_criteria = [],
     tk_max_retries = 0, tk_back_edges = [], tk_verification = None, tk_temperature = None,
     tk_approval_required = False\<rparr>"

definition sample_flow :: "nat flow_task list" where
  "sample_flow = [sample_flow_task ''a'' ''coder'' [], sample_flow_task ''b'' ''broken'' [],
     sample_flow_task ''c'' ''coder'' [''b'']]"

definition sample_graph_of :: "nat flow_graph" where
  "sample_graph_of = \<lparr>dg_tasks = [(''a'', sample_flow_task ''a'' ''coder'' []),
       (''b'', sample_flow_task ''b'' ''broken'' []), (''c'', sample_flow_task ''c'' ''coder'' [''b''])],
     dg_dependents = [(''b'', [''c''])], dg_topo_order = [''b'', ''c'', ''a'']\<rparr>"

lemma sample_flow_task_simps [simp]:
  "tk_id (sample_flow_task i s ds) = i" "tk_specialist (sample_flow_task i s ds) = s"
  "tk_depends_on (sample_flow_task i s ds) = ds" "tk_max_retries (sample_flow_task i s ds) = 0"
  "tk_back_edges (sample_flow_task i s ds) = []" "tk_verification (sample_flow_task i s ds) = None"
  by (simp_all add: sample_flow_task_def)

lemma sample_map: "task_map_of sample_flow = dg_tasks sample_graph_of"
  by (simp add: task_map_of_def sample_flow_def sample_graph_of_def)

lemma sample_dependents: "dependents_of (dg_tasks sample_graph_of) = dg_dependents sample_graph_of"
  by (simp add: dependents_of_def sample_graph_of_def push_dependent_def)

lemma sample_order: "topological_sort (dg_tasks sample_graph_of) = Some (Inr (dg_topo_order sample_graph_of))"
  by (simp add: topological_sort_def sample_graph_of_def in_degrees_def or_insert_zero_def count_up_def
      kahn_step_def release_task_def while_option_unfold)

lemma sample_flow_graph: "graph_new sample_flow = Some (Inr sample_graph_of)"
proof -
  have "unknown_dependency (dg_tasks sample_graph_of) = None"
    by (simp add: sample_graph_of_def unknown_dependency_def)
  then show ?thesis by (simp add: graph_new_def sample_map sample_order sample_dependents)
qed

lemma sample_skip: "all_dependents sample_graph_of ''b'' = Some {''c''}"
  by (simp add: all_dependents_def sample_graph_of_def dependents_step_def visit_def while_option_unfold)

lemma sample_valid: "vr_passed (validate_mandate (sample_flow_task i s ds) ''ok'')"
  by (simp add: validate_mandate_def sample_flow_task_def PASS_THRESHOLD_def)

lemma sample_env_simps [simp]:
  "xe_run sample_env s p w = (w, if s = ''broken'' then Inl ''max iterations'' else Inr sample_agent_result)"
  "xe_specialists sample_env = {''coder'', ''broken''}" "xe_max_hops sample_env = 0"
  "xe_checkpoint sample_env = None" "xe_set_order sample_env = sorted_list_of_set"
  by (simp_all add: sample_env_def)

abbreviation taint_of :: "(string, 'f task_result) hmap \<Rightarrow> string \<Rightarrow> data_label option" where
  "taint_of m i \<equiv> map_option tr_taint (hm_get m i)"

lemma sample_good:
  "\<exists>s. run_task sample_env dag [] (sample_flow_task i ''coder'' ds) st = Some (Inr s) \<and>
    ex_skipped s = ex_skipped st \<and> ex_completed s = insert i (ex_completed st) \<and>
    stat (ex_results s) = (stat (ex_results st))(i := Some Complete) \<and>
    taint_of (ex_results s) i = Some UNTRUSTED_PII"
  by (simp add: run_task_def try_once_def sample_agent_result_def after_response_def accept_output_def
      sample_valid Let_def)

lemma sample_failure: "classify_failure ''max iterations'' [] = MaxIterations"
  by code_simp

lemma sample_bad:
  assumes "''c'' \<notin> ex_completed st"
  shows "\<exists>s. run_task sample_env sample_graph_of [] (sample_flow_task ''b'' ''broken'' ds) st = Some (Inr s) \<and>
    ex_skipped s = insert ''c'' (ex_skipped st) \<and> ex_completed s = insert ''b'' (ex_completed st) \<and>
    stat (ex_results s) = (stat (ex_results st))(''b'' := Some Failed, ''c'' := Some Skipped) \<and>
    (\<forall>i. i \<notin> {''b'', ''c''} \<longrightarrow> taint_of (ex_results s) i = taint_of (ex_results st) i)"
  using assms
  by (simp add: run_task_def try_once_def after_failure_def sample_failure
      fail_task_def sample_skip skip_one_def unrun_result_def Let_def)

lemma sample_run:
  obtains d st where "exec_run sample_env sample_flow () = Some (Inr d, st)"
    "stat (dr_task_results d) = [''a'' \<mapsto> Complete, ''b'' \<mapsto> Failed, ''c'' \<mapsto> Skipped]"
    "taint_of (dr_task_results d) ''a'' = Some UNTRUSTED_PII"
proof -
  let ?s0 = "resumed_state sample_env ()" and ?g = sample_graph_of
  have s0: "stat (ex_results ?s0) = Map.empty" "ex_completed ?s0 = {}" "ex_skipped ?s0 = {}"
    by (auto simp: resumed_state_def stat_def)
  from sample_good[of ?g "''a''" "[]" ?s0] obtain s1 where
    1: "run_task sample_env ?g [] (sample_flow_task ''a'' ''coder'' []) ?s0 = Some (Inr s1)"
    and s1: "ex_skipped s1 = ex_skipped ?s0" "ex_completed s1 = insert ''a'' (ex_completed ?s0)"
      "stat (ex_results s1) = (stat (ex_results ?s0))(''a'' := Some Complete)"
      "taint_of (ex_results s1) ''a'' = Some UNTRUSTED_PII"
    by (elim exE conjE) (rule that)
  have "''c'' \<notin> ex_completed s1" by (simp add: s1 s0)
  from sample_bad[OF this, of "[]"] obtain s2 where
    2: "run_task sample_env ?g [] (sample_flow_task ''b'' ''broken'' []) s1 = Some (Inr s2)"
    and s2: "ex_skipped s2 = insert ''c'' (ex_skipped s1)" "ex_completed s2 = insert ''b'' (ex_completed s1)"
      "stat (ex_results s2) = (stat (ex_results s1))(''b'' := Some Failed, ''c'' := Some Skipped)"
    and others: "\<forall>i. i \<notin> {''b'', ''c''} \<longrightarrow> taint_of (ex_results s2) i = taint_of (ex_results s1) i"
    by (elim exE conjE) (rule that)
  have ta: "taint_of (ex_results s2) ''a'' = Some UNTRUSTED_PII" using others s1(4) by simp
  have r1: "exec_ready ?g ?s0 = [sample_flow_task ''a'' ''coder'' [], sample_flow_task ''b'' ''broken'' []]"
    by (simp add: exec_ready_def get_ready_tasks_def sample_graph_of_def s0)
  have r2: "exec_ready ?g s2 = []"
    by (simp add: exec_ready_def get_ready_tasks_def sample_graph_of_def s2 s1 s0)
  have "exec_loop sample_env ?g [] ?s0 = Some (Finished, s2)"
    unfolding exec_loop_def by (simp add: while_option_unfold exec_round_def r1 r2 1 2)
  moreover have "parse_edges (xe_parse_f32 sample_env) (edge_definitions sample_flow) = Inr []"
    by (simp add: edge_definitions_def sample_flow_def)
  ultimately have "exec_run sample_env sample_flow () =
      Some (Inr (fst (exec_finish sample_env s2)), snd (exec_finish sample_env s2))"
    by (simp add: exec_run_def sample_flow_graph split: prod.split)
  moreover have "dr_task_results (fst (exec_finish sample_env s2)) = ex_results s2"
    by (simp add: exec_finish_def Let_def)
  ultimately show thesis using that s2(3) s1(3) s0(1) ta by simp
qed

section \<open>Properties\<close>

text \<open>
  C28: Running a flow returns: on every list of tasks, whatever the agents answer, whatever
  back-edges are declared and with no hop limit, the executor ends with a result or an
  error; no run is left in the loop.
\<close>

theorem execution_returns: "\<exists>r st. exec_run env tasks w = Some (r, st)"
proof (cases "parse_edges (xe_parse_f32 env) (edge_definitions tasks)")
  case (Inl e)
  then show ?thesis by (simp add: exec_run_def)
next
  case (Inr edges)
  obtain g where g: "graph_new tasks = Some g" using graph_new_returns by blast
  show ?thesis
  proof (cases g)
    case (Inl e)
    then show ?thesis using Inr g by (simp add: exec_run_def)
  next
    case dag: (Inr dag)
    obtain ph s where l: "exec_loop env dag edges (resumed_state env w) = Some (ph, s)"
      and ph: "ph \<noteq> Active" "ph \<noteq> Diverged"
      using exec_loop_returns[OF g[unfolded dag] resumed_ok, of env edges env w] by blast
    obtain r st where "exec_finish env s = (r, st)" by (cases "exec_finish env s")
    then show ?thesis unfolding exec_run_def Inr g dag using ph by (cases ph) (simp_all add: l)
  qed
qed

text \<open>
  C30: The taint reported for a flow covers every task: the label of each recorded result
  flows to the label of the whole.
\<close>

theorem execution_taint_covers:
  assumes "exec_run env tasks w = Some (Inr d, st)" "hm_get (dr_task_results d) i = Some r"
  shows "label_le (tr_taint r) (dr_taint d)"
proof -
  obtain edges dag s where g: "graph_new tasks = Some (Inr dag)"
    "exec_loop env dag edges (resumed_state env w) = Some (Finished, s)"
    "dr_task_results d = ex_results s" "dr_taint d = taint_level s"
    using exec_run_Ok[OF assms(1)] by blast
  have "exec_ok s" using exec_loop_returns[OF g(1) resumed_ok, of env edges env w] g(2) by auto
  then show ?thesis using assms(2) g(3,4) map_of_SomeD[of "ex_results s" i r] by (force simp: exec_ok_def)
qed

theorem execution_taint_covers_witness:
  "\<exists>d st r. exec_run sample_env sample_flow () = Some (Inr d, st) \<and>
     hm_get (dr_task_results d) ''a'' = Some r \<and> tr_taint r = UNTRUSTED_PII \<and> label_le (tr_taint r) (dr_taint d)"
proof -
  obtain d st where r: "exec_run sample_env sample_flow () = Some (Inr d, st)"
    "taint_of (dr_task_results d) ''a'' = Some UNTRUSTED_PII"
    using sample_run by blast
  from r(2) obtain v where v: "hm_get (dr_task_results d) ''a'' = Some v" "tr_taint v = UNTRUSTED_PII"
    by (cases "hm_get (dr_task_results d) ''a''") simp_all
  then show ?thesis using r(1) execution_taint_covers[OF r(1) v(1)] by blast
qed

text \<open>
  C29: The final statuses of an accepted run without back-edges and without a checkpoint follow the
  dependencies, for any iteration order of the sets: every task has a result, which is complete,
  failed or skipped; a task is skipped exactly when one it transitively depends on failed; and all
  dependencies of a task that was not skipped are complete.
\<close>

theorem execution_outcome:
  assumes run: "exec_run env tasks w = Some (Inr d, st)"
    and plain: "xe_checkpoint env = None" "edge_definitions tasks = []"
    and ord: "\<And>S. finite S \<Longrightarrow> set (xe_set_order env S) = S"
    and k: "k \<in> tk_id ` set tasks"
  defines "R \<equiv> depends_rel (task_map_of tasks)"
  defines "status \<equiv> \<lambda>i. map_option tr_status (hm_get (dr_task_results d) i)"
  shows "status k \<in> {Some Complete, Some Failed, Some Skipped} \<and>
    (status k = Some Skipped \<longleftrightarrow> (\<exists>i. status i = Some Failed \<and> (i, k) \<in> R\<^sup>+)) \<and>
    (status k \<noteq> Some Skipped \<longrightarrow> (\<forall>i. (i, k) \<in> R \<longrightarrow> status i = Some Complete))"
proof -
  obtain edges dag s where e: "parse_edges (xe_parse_f32 env) (edge_definitions tasks) = Inr edges"
    and g: "graph_new tasks = Some (Inr dag)" and l: "exec_loop env dag edges (resumed_state env w) = Some (Finished, s)"
    and d: "dr_task_results d = ex_results s"
    using exec_run_Ok[OF run] by blast
  have edges: "edges = []" using e plain(2) by simp
  have tm: "dg_tasks dag = task_map_of tasks" by (rule graph_new_Inr(2)[OF g])
  have b0: "books_ok R (resumed_state env w)"
    using plain(1) by (simp add: books_ok_def resumed_state_def stat_def outcome_ok_empty finished_def)
  have b: "books_ok R s" using exec_loop_books[OF g ord b0[unfolded R_def tm[symmetric]]] l edges
    by (simp add: R_def tm)
  have "exec_ready dag s = []" using exec_loop_returns[OF g resumed_ok, of env edges env w] l by auto
  then have "fst ` set (dg_tasks dag) \<subseteq> ex_completed s \<union> ex_skipped s"
    using books_cover[OF g] b by (simp add: R_def tm)
  moreover have "k \<in> fst ` set (dg_tasks dag)" using k by (simp add: tm task_map_ids)
  ultimately have c: "k \<in> finished (stat (ex_results s)) \<or> stat (ex_results s) k = Some Skipped"
    using b by (auto simp: books_ok_def)
  have ok: "outcome_ok R status" and st: "status = stat (ex_results s)"
    using b by (simp_all add: books_ok_def status_def d stat_def[abs_def])
  show ?thesis
  proof (intro conjI impI allI)
    show "status k \<in> {Some Complete, Some Failed, Some Skipped}" using c by (auto simp: st finished_def)
    show "status k = Some Skipped \<longleftrightarrow> (\<exists>i. status i = Some Failed \<and> (i, k) \<in> R\<^sup>+)"
      by (rule skipped_iff[OF ok])
    show "status i = Some Complete" if "status k \<noteq> Some Skipped" "(i, k) \<in> R" for i
    proof -
      have "i \<in> finished status" using c that ok unfolding outcome_ok_def st by blast
      moreover have "status i \<noteq> Some Failed" using that skipped_iff[OF ok, of k] by blast
      ultimately show ?thesis by (simp add: finished_def)
    qed
  qed
qed

theorem execution_outcome_witness:
  "\<exists>d st. exec_run sample_env sample_flow () = Some (Inr d, st) \<and>
     (\<exists>i. map_option tr_status (hm_get (dr_task_results d) i) = Some Failed \<and>
          (i, ''c'') \<in> (depends_rel (task_map_of sample_flow))\<^sup>+)"
proof -
  obtain d st where r: "exec_run sample_env sample_flow () = Some (Inr d, st)"
    "stat (dr_task_results d) = [''a'' \<mapsto> Complete, ''b'' \<mapsto> Failed, ''c'' \<mapsto> Skipped]"
    using sample_run by blast
  have "map_option tr_status (hm_get (dr_task_results d) ''c'') = Some Skipped"
    using r(2) by (simp add: stat_def fun_eq_iff)
  then show ?thesis using execution_outcome[OF r(1), of "''c''"] r(1)
    by (simp add: edge_definitions_def sample_flow_def)
qed

end
