(* ===== verification/Blackbox.thy ===== *)
theory Blackbox
  imports Truncate
begin

text \<open>
  The audit log of the gateway, \<open>navra-core/src/blackbox.rs\<close>.

  The SQLite table is the list of its rows in the order of the primary key \<open>seq\<close>;
  numbers stay far below \<open>2^63\<close>, so that the casts to \<open>i64\<close> change nothing.
  Parameters: SHA-256 with its hexadecimal form (\<open>sha\<close>), the personal-data filter,
  the clock, and whether an insertion reaches the disk.  The text queries with
  \<open>LIKE\<close> and the listing of sessions are not modelled.
\<close>

section \<open>Entries and chain\<close>

record blackbox_entry =
  be_seq :: nat
  be_timestamp :: int
  be_agent :: string
  be_permissions :: string
  be_session :: string
  be_tool :: string
  be_args :: string
  be_result :: string
  be_outcome :: string
  be_duration :: nat
  be_label :: string
  be_prev_hash :: string
  be_hash :: string
  be_obo_sub :: "string option"
  be_trace_id :: string
  be_act_chain :: "string option"

record chain_state =
  ch_seq :: nat
  ch_prev_hash :: string

record blackbox =
  bb_rows :: "blackbox_entry list"
  bb_chain :: chain_state
  bb_pii_filter :: "(string \<Rightarrow> string option) option"

definition zero_hash :: string where
  "zero_hash = replicate 64 (CHR ''0'')"

definition chain_preimage ::
  "nat \<Rightarrow> string \<Rightarrow> string \<Rightarrow> string \<Rightarrow> string \<Rightarrow> string \<Rightarrow> string \<Rightarrow> string" where
  "chain_preimage seq prev_hash agent tool args result outcome =
     show_nat seq @ ''|'' @ prev_hash @ ''|'' @ agent @ ''|'' @ tool @ ''|'' @ args @ ''|'' @ result
       @ ''|'' @ outcome"

definition verify_chain_link ::
  "(string \<Rightarrow> string) \<Rightarrow> nat \<Rightarrow> string \<Rightarrow> string \<Rightarrow> string \<Rightarrow> string \<Rightarrow> string \<Rightarrow> string \<Rightarrow> string
     \<Rightarrow> string \<Rightarrow> bool" where
  "verify_chain_link sha seq prev_hash expected_prev agent tool args result outcome stored_hash =
     (if prev_hash \<noteq> expected_prev then False
      else sha (chain_preimage seq prev_hash agent tool args result outcome) = stored_hash)"

section \<open>Opening and recording\<close>

definition open_blackbox :: "blackbox_entry list \<Rightarrow> blackbox" where
  "open_blackbox rows =
     \<lparr>bb_rows = rows,
      bb_chain =
        (case rev rows of
           e # _ \<Rightarrow> \<lparr>ch_seq = be_seq e, ch_prev_hash = be_hash e\<rparr>
         | [] \<Rightarrow> \<lparr>ch_seq = 0, ch_prev_hash = zero_hash\<rparr>),
      bb_pii_filter = None\<rparr>"

definition with_pii_filter :: "(string \<Rightarrow> string option) \<Rightarrow> blackbox \<Rightarrow> blackbox" where
  "with_pii_filter f bb = bb\<lparr>bb_pii_filter := Some f\<rparr>"

definition sanitize :: "blackbox \<Rightarrow> string \<Rightarrow> string" where
  "sanitize bb content =
     (case bb_pii_filter bb of
        None \<Rightarrow> content
      | Some process \<Rightarrow>
          (case process content of Some sanitized \<Rightarrow> sanitized | None \<Rightarrow> ''[redacted by PII filter]''))"

record tool_record =
  rd_agent :: string
  rd_permissions :: string
  rd_session :: string
  rd_tool :: string
  rd_args :: string
  rd_result :: string
  rd_outcome :: string
  rd_duration :: nat
  rd_label :: string
  rd_obo_sub :: "string option"
  rd_trace_id :: string
  rd_act_chain :: "string option"

text \<open>An insertion fails on a key that is taken, and when the disk does.\<close>

definition db_insert :: "bool \<Rightarrow> blackbox_entry \<Rightarrow> blackbox_entry list \<Rightarrow> blackbox_entry list" where
  "db_insert disk_ok e rows =
     (if disk_ok \<and> be_seq e \<notin> be_seq ` set rows then insort_key be_seq e rows else rows)"

definition record_with_obo ::
  "(string \<Rightarrow> string) \<Rightarrow> bool \<Rightarrow> int \<Rightarrow> tool_record \<Rightarrow> blackbox \<Rightarrow> blackbox" where
  "record_with_obo sha disk_ok now r bb =
     (let seq = wrap_u64 (ch_seq (bb_chain bb) + 1);
          prev_hash = ch_prev_hash (bb_chain bb);
          args_trunc = truncate_str (sanitize bb (rd_args r)) 4096;
          result_trunc = truncate_str (sanitize bb (rd_result r)) 4096;
          hash = sha (chain_preimage seq prev_hash (rd_agent r) (rd_tool r) args_trunc result_trunc
                        (rd_outcome r));
          entry = \<lparr>be_seq = seq, be_timestamp = now, be_agent = rd_agent r,
            be_permissions = rd_permissions r, be_session = rd_session r, be_tool = rd_tool r,
            be_args = args_trunc, be_result = result_trunc, be_outcome = rd_outcome r,
            be_duration = rd_duration r, be_label = rd_label r, be_prev_hash = prev_hash,
            be_hash = hash, be_obo_sub = rd_obo_sub r, be_trace_id = rd_trace_id r,
            be_act_chain = rd_act_chain r\<rparr>
      in bb\<lparr>bb_rows := db_insert disk_ok entry (bb_rows bb),
            bb_chain := \<lparr>ch_seq = seq, ch_prev_hash = hash\<rparr>\<rparr>)"

definition bb_record ::
  "(string \<Rightarrow> string) \<Rightarrow> bool \<Rightarrow> int \<Rightarrow> tool_record \<Rightarrow> blackbox \<Rightarrow> blackbox" where
  "bb_record sha disk_ok now r bb =
     record_with_obo sha disk_ok now (r\<lparr>rd_obo_sub := None, rd_act_chain := None\<rparr>) bb"

section \<open>Verification and queries\<close>

fun verify_rows ::
  "(string \<Rightarrow> string) \<Rightarrow> blackbox_entry list \<Rightarrow> string \<Rightarrow> nat \<Rightarrow> nat \<times> nat option" where
  "verify_rows sha [] expected_prev valid = (valid, None)"
| "verify_rows sha (e # es) expected_prev valid =
     (if be_prev_hash e \<noteq> expected_prev then (valid, Some (be_seq e))
      else if sha (chain_preimage (be_seq e) (be_prev_hash e) (be_agent e) (be_tool e) (be_args e)
                     (be_result e) (be_outcome e)) \<noteq> be_hash e
      then (valid, Some (be_seq e))
      else verify_rows sha es (be_hash e) (valid + 1))"

definition verify_chain :: "(string \<Rightarrow> string) \<Rightarrow> blackbox \<Rightarrow> nat \<times> nat option" where
  "verify_chain sha bb = verify_rows sha (bb_rows bb) zero_hash 0"

definition verify_on_open :: "(string \<Rightarrow> string) \<Rightarrow> blackbox \<Rightarrow> bool" where
  "verify_on_open sha bb = (snd (verify_chain sha bb) = None)"

definition recent :: "nat \<Rightarrow> blackbox \<Rightarrow> blackbox_entry list" where
  "recent limit bb = take limit (rev (bb_rows bb))"

definition query_session :: "string \<Rightarrow> blackbox \<Rightarrow> blackbox_entry list" where
  "query_session session_id bb = filter (\<lambda>e. be_session e = session_id) (bb_rows bb)"

definition query_trace :: "string \<Rightarrow> blackbox \<Rightarrow> blackbox_entry list" where
  "query_trace trace_id bb = filter (\<lambda>e. be_trace_id e = trace_id) (bb_rows bb)"

definition expire_older_than :: "int \<Rightarrow> nat \<Rightarrow> blackbox \<Rightarrow> blackbox \<times> nat" where
  "expire_older_than now days bb =
     (let cutoff = now - int days * 86400 * 1000;
          kept = filter (\<lambda>e. \<not> be_timestamp e < cutoff) (bb_rows bb)
      in (bb\<lparr>bb_rows := kept\<rparr>, length (bb_rows bb) - length kept))"

definition bb_count :: "blackbox \<Rightarrow> nat" where
  "bb_count bb = length (bb_rows bb)"

section \<open>The chain\<close>

definition entry_preimage :: "blackbox_entry \<Rightarrow> string" where
  "entry_preimage e = chain_preimage (be_seq e) (be_prev_hash e) (be_agent e) (be_tool e) (be_args e)
     (be_result e) (be_outcome e)"

fun chained :: "(string \<Rightarrow> string) \<Rightarrow> string \<Rightarrow> blackbox_entry list \<Rightarrow> bool" where
  "chained sha prev [] \<longleftrightarrow> True"
| "chained sha prev (e # es) \<longleftrightarrow> be_prev_hash e = prev \<and> sha (entry_preimage e) = be_hash e
     \<and> chained sha (be_hash e) es"

definition tip :: "string \<Rightarrow> blackbox_entry list \<Rightarrow> string" where
  "tip prev es = (if es = [] then prev else be_hash (last es))"

lemma verify_rows_iff:
  "snd (verify_rows sha es prev n) = None \<longleftrightarrow> chained sha prev es"
  "chained sha prev es \<Longrightarrow> verify_rows sha es prev n = (n + length es, None)"
  by (induction es arbitrary: prev n) (auto simp: entry_preimage_def)

lemma chained_append:
  "chained sha prev (xs @ ys) \<longleftrightarrow> chained sha prev xs \<and> chained sha (tip prev xs) ys"
  by (induction xs arbitrary: prev) (auto simp: tip_def)

lemma tip_append: "tip prev (xs @ ys) = tip (tip prev xs) ys"
  by (simp add: tip_def)

lemma link_is_step:
  "verify_rows sha (e # es) prev n =
     (if verify_chain_link sha (be_seq e) (be_prev_hash e) prev (be_agent e) (be_tool e) (be_args e)
           (be_result e) (be_outcome e) (be_hash e)
      then verify_rows sha es (be_hash e) (n + 1) else (n, Some (be_seq e)))"
  by (simp add: verify_chain_link_def)

text \<open>A log whose rows are numbered without gaps up to the counter of the chain.\<close>

definition bb_ok :: "(string \<Rightarrow> string) \<Rightarrow> blackbox \<Rightarrow> bool" where
  "bb_ok sha bb \<longleftrightarrow> chained sha zero_hash (bb_rows bb) \<and>
     map be_seq (bb_rows bb) = [1..<Suc (length (bb_rows bb))] \<and>
     bb_chain bb = \<lparr>ch_seq = length (bb_rows bb), ch_prev_hash = tip zero_hash (bb_rows bb)\<rparr>"

lemma insort_last: "\<forall>y\<in>set xs. f y < f x \<Longrightarrow> insort_key f x xs = xs @ [x]"
  by (induction xs) (auto simp: not_le[symmetric])

text \<open>A row numbered past the others is appended.\<close>

definition numbered_to :: "nat \<Rightarrow> blackbox \<Rightarrow> bool" where
  "numbered_to n bb \<longleftrightarrow> (\<forall>e\<in>set (bb_rows bb). be_seq e \<le> n)"

lemma bb_ok_numbered: "bb_ok sha bb \<Longrightarrow> numbered_to (ch_seq (bb_chain bb)) bb"
proof -
  assume ok: "bb_ok sha bb"
  then have "be_seq ` set (bb_rows bb) = {1..<Suc (length (bb_rows bb))}"
    by (metis bb_ok_def set_map set_upt atLeastLessThan_upt)
  then have "be_seq e \<le> length (bb_rows bb)" if "e \<in> set (bb_rows bb)" for e
    using that by (metis atLeastLessThan_iff image_eqI less_Suc_eq_le)
  then show ?thesis using ok by (simp add: numbered_to_def bb_ok_def)
qed

lemma db_insert_next:
  assumes "numbered_to n bb" "n < be_seq e"
  shows "db_insert ok e (bb_rows bb) = (if ok then bb_rows bb @ [e] else bb_rows bb)"
proof -
  have lt: "\<forall>y\<in>set (bb_rows bb). be_seq y < be_seq e" using assms by (auto simp: numbered_to_def)
  then have "be_seq e \<notin> be_seq ` set (bb_rows bb)" by force
  then show ?thesis using insort_last[of "bb_rows bb" be_seq e] lt by (simp add: db_insert_def)
qed

text \<open>What a row holds of a call: everything, with the texts filtered and cut.\<close>

definition row_of :: "blackbox \<Rightarrow> int \<times> tool_record \<Rightarrow> blackbox_entry \<Rightarrow> bool" where
  "row_of bb call e \<longleftrightarrow>
     (case call of (now, r) \<Rightarrow>
        be_timestamp e = now \<and> be_agent e = rd_agent r \<and> be_permissions e = rd_permissions r \<and>
        be_session e = rd_session r \<and> be_tool e = rd_tool r \<and>
        be_args e = truncate_str (sanitize bb (rd_args r)) 4096 \<and>
        be_result e = truncate_str (sanitize bb (rd_result r)) 4096 \<and>
        be_outcome e = rd_outcome r \<and> be_duration e = rd_duration r \<and> be_label e = rd_label r \<and>
        be_obo_sub e = rd_obo_sub r \<and> be_trace_id e = rd_trace_id r \<and> be_act_chain e = rd_act_chain r)"

lemma record_row:
  fixes now :: int and r :: tool_record and sha :: "string \<Rightarrow> string" and ok :: bool
  assumes "numbered_to (ch_seq (bb_chain bb)) bb" "ch_seq (bb_chain bb) < u64_max"
  defines "bb' \<equiv> record_with_obo sha ok now r bb"
  obtains e where "bb_rows bb' = (if ok then bb_rows bb @ [e] else bb_rows bb)" "row_of bb (now, r) e"
    "be_seq e = Suc (ch_seq (bb_chain bb))" "be_prev_hash e = ch_prev_hash (bb_chain bb)"
    "be_hash e = sha (entry_preimage e)" "bb_chain bb' = \<lparr>ch_seq = be_seq e, ch_prev_hash = be_hash e\<rparr>"
    "bb_pii_filter bb' = bb_pii_filter bb" "numbered_to (ch_seq (bb_chain bb')) bb'"
proof -
  let ?args = "truncate_str (sanitize bb (rd_args r)) 4096"
  let ?res = "truncate_str (sanitize bb (rd_result r)) 4096"
  let ?n = "Suc (ch_seq (bb_chain bb))"
  let ?h = "sha (chain_preimage ?n (ch_prev_hash (bb_chain bb)) (rd_agent r) (rd_tool r) ?args ?res (rd_outcome r))"
  let ?e = "\<lparr>be_seq = ?n, be_timestamp = now, be_agent = rd_agent r,
            be_permissions = rd_permissions r, be_session = rd_session r, be_tool = rd_tool r,
            be_args = ?args, be_result = ?res, be_outcome = rd_outcome r,
            be_duration = rd_duration r, be_label = rd_label r, be_prev_hash = ch_prev_hash (bb_chain bb),
            be_hash = ?h, be_obo_sub = rd_obo_sub r, be_trace_id = rd_trace_id r,
            be_act_chain = rd_act_chain r\<rparr>"
  have w: "wrap_u64 ?n = ?n" using assms(2) by (simp add: wrap_u64_id)
  have eq: "bb' = bb\<lparr>bb_rows := (if ok then bb_rows bb @ [?e] else bb_rows bb),
      bb_chain := \<lparr>ch_seq = ?n, ch_prev_hash = ?h\<rparr>\<rparr>"
    using db_insert_next[OF assms(1), of ?e ok] by (simp add: bb'_def record_with_obo_def Let_def w)
  have "numbered_to ?n bb'" using assms(1) by (auto simp: numbered_to_def eq)
  then show thesis using that[of ?e] by (simp add: eq row_of_def entry_preimage_def)
qed

lemma record_step:
  fixes now :: int and r :: tool_record and sha :: "string \<Rightarrow> string"
  assumes ok: "bb_ok sha bb" and len: "length (bb_rows bb) < u64_max"
  shows "bb_ok sha (record_with_obo sha True now r bb)"
    "length (bb_rows (record_with_obo sha True now r bb)) = Suc (length (bb_rows bb))"
proof -
  have c: "ch_seq (bb_chain bb) = length (bb_rows bb)" "ch_prev_hash (bb_chain bb) = tip zero_hash (bb_rows bb)"
    using ok by (simp_all add: bb_ok_def)
  obtain e where e: "bb_rows (record_with_obo sha True now r bb) = bb_rows bb @ [e]"
    "be_seq e = Suc (length (bb_rows bb))" "be_prev_hash e = tip zero_hash (bb_rows bb)"
    "be_hash e = sha (entry_preimage e)"
    "bb_chain (record_with_obo sha True now r bb) = \<lparr>ch_seq = be_seq e, ch_prev_hash = be_hash e\<rparr>"
    by (rule record_row[OF bb_ok_numbered[OF ok], of sha True now r]) (use len c in auto)
  then show "bb_ok sha (record_with_obo sha True now r bb)"
    using ok by (simp add: bb_ok_def chained_append tip_def[of _ "_ @ [_]"])
  show "length (bb_rows (record_with_obo sha True now r bb)) = Suc (length (bb_rows bb))"
    by (simp add: e(1))
qed

text \<open>A run of recordings; each comes with whether its row reaches the disk.\<close>

definition record_all ::
  "(string \<Rightarrow> string) \<Rightarrow> (bool \<times> int \<times> tool_record) list \<Rightarrow> blackbox \<Rightarrow> blackbox" where
  "record_all sha rs bb = fold (\<lambda>(disk_ok, now, r). record_with_obo sha disk_ok now r) rs bb"

lemma record_all_Cons [simp]:
  "record_all sha ((d, now, r) # rs) bb = record_all sha rs (record_with_obo sha d now r bb)"
  by (simp add: record_all_def)

lemma record_all_rows:
  "numbered_to (ch_seq (bb_chain bb)) bb \<Longrightarrow> ch_seq (bb_chain bb) + length rs \<le> u64_max \<Longrightarrow>
     \<exists>new. bb_rows (record_all sha rs bb) = bb_rows bb @ new \<and>
       list_all2 (row_of bb) (map snd (filter fst rs)) new"
proof (induction rs arbitrary: bb)
  case Nil
  then show ?case by (simp add: record_all_def)
next
  case (Cons x rs)
  obtain d now r where x: "x = (d, now, r)" by (cases x)
  let ?b = "record_with_obo sha d now r bb"
  have less: "ch_seq (bb_chain bb) < u64_max" using Cons.prems(2) by simp
  obtain e where e: "bb_rows ?b = (if d then bb_rows bb @ [e] else bb_rows bb)" "row_of bb (now, r) e"
    "be_seq e = Suc (ch_seq (bb_chain bb))"
    "bb_chain ?b = \<lparr>ch_seq = be_seq e, ch_prev_hash = be_hash e\<rparr>"
    "bb_pii_filter ?b = bb_pii_filter bb" "numbered_to (ch_seq (bb_chain ?b)) ?b"
    by (rule record_row[OF Cons.prems(1) less, of sha d now r]) blast
  have same: "row_of ?b = row_of bb" using e(5) by (intro ext) (simp add: row_of_def sanitize_def)
  obtain new where "bb_rows (record_all sha rs ?b) = bb_rows ?b @ new"
    "list_all2 (row_of bb) (map snd (filter fst rs)) new"
    using Cons.IH[OF e(6)] Cons.prems(2) e(3,4) by (auto simp: same)
  then show ?case using e(1,2) by (intro exI[of _ "(if d then [e] else []) @ new"]) (simp add: x)
qed

lemma record_all_ok:
  "bb_ok sha bb \<Longrightarrow> length (bb_rows bb) + length rs \<le> u64_max \<Longrightarrow> list_all fst rs \<Longrightarrow>
     bb_ok sha (record_all sha rs bb) \<and>
     length (bb_rows (record_all sha rs bb)) = length (bb_rows bb) + length rs"
proof (induction rs arbitrary: bb)
  case Nil
  then show ?case by (simp add: record_all_def)
next
  case (Cons x rs)
  obtain now r where x: "x = (True, now, r)" using Cons.prems(3) by (cases x) auto
  have less: "length (bb_rows bb) < u64_max" using Cons.prems(2) by simp
  note step = record_step[OF Cons.prems(1) less, of now r]
  show ?case using Cons.IH[OF step(1)] step(2) Cons.prems(2,3) by (simp add: x)
qed

lemma reopened_chain: "bb_ok sha bb \<Longrightarrow> bb_chain (open_blackbox (bb_rows bb)) = bb_chain bb"
proof (cases "bb_rows bb" rule: rev_cases)
  case (snoc es e)
  assume ok: "bb_ok sha bb"
  then have "map be_seq es @ [be_seq e] = [1..<Suc (Suc (length es))]" by (simp add: bb_ok_def snoc)
  then have "be_seq e = Suc (length es)" by (simp del: upt_Suc add: upt_Suc_append)
  then show ?thesis using ok by (simp add: bb_ok_def snoc open_blackbox_def tip_def)
qed (simp add: bb_ok_def open_blackbox_def tip_def)

section \<open>Tampering\<close>

lemma show_nat_bar: "CHR ''|'' \<notin> set (show_nat n)"
  using show_nat_digits[of "CHR ''|''" n] by auto

lemma same_preimage:
  assumes "entry_preimage e = entry_preimage e'" "CHR ''|'' \<notin> set (be_prev_hash e)" "CHR ''|'' \<notin> set (be_prev_hash e')"
  shows "be_seq e = be_seq e' \<and> be_prev_hash e = be_prev_hash e'"
proof -
  define rest where "rest x = be_agent x @ ''|'' @ be_tool x @ ''|'' @ be_args x @ ''|'' @ be_result x
    @ ''|'' @ be_outcome x" for x :: blackbox_entry
  have "entry_preimage x = show_nat (be_seq x) @ CHR ''|'' # be_prev_hash x @ CHR ''|'' # rest x" for x
    by (simp add: entry_preimage_def chain_preimage_def rest_def)
  with assms(1) have "show_nat (be_seq e) = show_nat (be_seq e') \<and>
      be_prev_hash e @ CHR ''|'' # rest e = be_prev_hash e' @ CHR ''|'' # rest e'"
    using cut_unique[OF show_nat_bar show_nat_bar] by metis
  then show ?thesis using show_nat_inj cut_unique[OF assms(2,3)] by metis
qed

text \<open>The fields of a row that the hash covers, and when their joined text is unambiguous.\<close>

definition covered_fields :: "blackbox_entry \<Rightarrow> string list" where
  "covered_fields e = [be_agent e, be_tool e, be_args e, be_result e, be_outcome e]"

definition no_bars :: "blackbox_entry \<Rightarrow> bool" where
  "no_bars e \<longleftrightarrow> list_all (\<lambda>field. CHR ''|'' \<notin> set field) (covered_fields e)"

definition same_covered :: "blackbox_entry \<Rightarrow> blackbox_entry \<Rightarrow> bool" where
  "same_covered e e' \<longleftrightarrow> be_seq e = be_seq e' \<and> be_prev_hash e = be_prev_hash e' \<and>
     entry_preimage e = entry_preimage e' \<and>
     (no_bars e \<and> no_bars e' \<longrightarrow> covered_fields e = covered_fields e')"

lemma same_preimage_covered:
  assumes "entry_preimage e = entry_preimage e'" "CHR ''|'' \<notin> set (be_prev_hash e)" "CHR ''|'' \<notin> set (be_prev_hash e')"
  shows "same_covered e e'"
proof -
  note s = same_preimage[OF assms]
  have "covered_fields e = covered_fields e'" if nb: "no_bars e" "no_bars e'"
  proof -
    let ?bar = "CHR ''|''"
    have free: "?bar \<notin> set (be_agent x)" "?bar \<notin> set (be_tool x)" "?bar \<notin> set (be_args x)"
      "?bar \<notin> set (be_result x)" if "no_bars x" for x
      using that by (simp_all add: no_bars_def covered_fields_def)
    let ?rest = "\<lambda>x. be_agent x @ ?bar # be_tool x @ ?bar # be_args x @ ?bar # be_result x @ ?bar # be_outcome x"
    have "?rest e = ?rest e'" using assms(1) s by (simp add: entry_preimage_def chain_preimage_def)
    note a = cut_unique[OF free(1)[OF nb(1)] free(1)[OF nb(2)] this]
    note t = cut_unique[OF free(2)[OF nb(1)] free(2)[OF nb(2)] conjunct2[OF a]]
    note g = cut_unique[OF free(3)[OF nb(1)] free(3)[OF nb(2)] conjunct2[OF t]]
    note r = cut_unique[OF free(4)[OF nb(1)] free(4)[OF nb(2)] conjunct2[OF g]]
    show ?thesis
      unfolding covered_fields_def
      using conjunct1[OF a] conjunct1[OF t] conjunct1[OF g] r by simp
  qed
  then show ?thesis using s assms(1) by (simp add: same_covered_def)
qed

lemma chained_bars:
  assumes "\<And>x. CHR ''|'' \<notin> set (sha x)"
  shows "chained sha prev es \<Longrightarrow> CHR ''|'' \<notin> set prev \<Longrightarrow> e \<in> set es \<Longrightarrow>
    CHR ''|'' \<notin> set (be_prev_hash e) \<and> CHR ''|'' \<notin> set (be_hash e)"
proof (induction es arbitrary: prev)
  case (Cons a es)
  have "CHR ''|'' \<notin> set (be_hash a)" using Cons.prems(1) assms by (metis chained.simps(2))
  then show ?case using Cons by auto
qed simp

definition collision :: "(string \<Rightarrow> string) \<Rightarrow> string set \<Rightarrow> string set \<Rightarrow> bool" where
  "collision sha A B \<longleftrightarrow> (\<exists>x\<in>A. \<exists>y\<in>B. x \<noteq> y \<and> sha x = sha y)"

section \<open>What the chain does not cover\<close>

text \<open>Fields outside the preimage can be changed without breaking the chain.\<close>

lemma unhashed_fields:
  "snd (verify_rows sha (es @ e\<lparr>be_timestamp := t, be_permissions := p, be_session := s, be_duration := d,
       be_label := l, be_obo_sub := ob, be_trace_id := tr, be_act_chain := ac\<rparr> # es') prev n) =
   snd (verify_rows sha (es @ e # es') prev n)"
  by (induction es arbitrary: prev n) simp_all

text \<open>A text with a bar in it can move across the fields.\<close>

lemma preimage_ambiguous:
  "chain_preimage n p ''a|b'' ''c'' args res out = chain_preimage n p ''a'' ''b|c'' args res out"
  by (simp add: chain_preimage_def)

text \<open>Deleting old rows breaks the verification of those that remain.\<close>

lemma expired_log_broken:
  assumes "bb_rows (fst (expire_older_than now days bb)) = e # es" "be_prev_hash e \<noteq> zero_hash"
  shows "verify_chain sha (fst (expire_older_than now days bb)) = (0, Some (be_seq e))"
  using assms by (simp add: verify_chain_def)

text \<open>A row that could not be written leaves a gap that verification reports as tampering.\<close>

lemma lost_row_reported:
  fixes now :: int and r :: tool_record and sha :: "string \<Rightarrow> string"
  assumes ok: "bb_ok sha bb" and len: "length (bb_rows bb) + 2 \<le> u64_max"
  defines "lost \<equiv> record_with_obo sha False now r bb"
  assumes new: "ch_prev_hash (bb_chain lost) \<noteq> tip zero_hash (bb_rows bb)"
  shows "snd (verify_chain sha (record_with_obo sha True now' r' lost)) = Some (length (bb_rows bb) + 2)"
proof -
  let ?n = "length (bb_rows bb)"
  have c: "ch_seq (bb_chain bb) = ?n" using ok by (simp add: bb_ok_def)
  have rows: "bb_rows lost = bb_rows bb \<and> ch_seq (bb_chain lost) = Suc ?n \<and>
      numbered_to (ch_seq (bb_chain lost)) lost"
    unfolding lost_def
    by (rule record_row[OF bb_ok_numbered[OF ok], of sha False now r]) (use len c in auto)
  obtain e where e: "bb_rows (record_with_obo sha True now' r' lost) = bb_rows bb @ [e]"
    "be_seq e = ?n + 2" "be_prev_hash e = ch_prev_hash (bb_chain lost)"
    by (rule record_row[of lost sha True now' r']) (use rows len in auto)
  have "verify_rows sha (xs @ [e]) prev n = verify_rows sha [e] (tip prev xs) (n + length xs)"
    if "chained sha prev xs" for xs prev n
    using that by (induction xs arbitrary: prev n) (auto simp: entry_preimage_def tip_def)
  then show ?thesis using ok new by (simp add: verify_chain_def e bb_ok_def)
qed

section \<open>Properties\<close>

text \<open>
  C34: A run of recordings on a sound log appends exactly one row for each recording whose insertion
  succeeds, in the order of the calls and with the content of the call (the two texts filtered and
  cut).  If every insertion succeeds the whole log, old and new, verifies, and reopening it goes on
  where the run stopped.  A log is sound when it is chained from the zero hash and numbered without
  gaps up to its counter, as the empty one is; the counter stays within 64 bits.
\<close>

theorem audit_log_verifies:
  fixes sha :: "string \<Rightarrow> string"
  assumes "bb_ok sha old" "length (bb_rows old) + length rs \<le> u64_max"
  defines "bb \<equiv> record_all sha rs old"
  shows "(\<exists>new. bb_rows bb = bb_rows old @ new \<and> list_all2 (row_of old) (map snd (filter fst rs)) new) \<and>
    (list_all fst rs \<longrightarrow>
       verify_chain sha bb = (length (bb_rows old) + length rs, None) \<and> bb_ok sha bb \<and>
       bb_chain (open_blackbox (bb_rows bb)) = bb_chain bb)"
proof (intro conjI impI)
  show "\<exists>new. bb_rows bb = bb_rows old @ new \<and> list_all2 (row_of old) (map snd (filter fst rs)) new"
    unfolding bb_def
    by (rule record_all_rows[OF bb_ok_numbered[OF assms(1)]]) (use assms in \<open>simp add: bb_ok_def\<close>)
  assume "list_all fst rs"
  then have ok: "bb_ok sha bb" and len: "length (bb_rows bb) = length (bb_rows old) + length rs"
    using record_all_ok[OF assms(1,2)] by (simp_all add: bb_def)
  then show "bb_ok sha bb" "bb_chain (open_blackbox (bb_rows bb)) = bb_chain bb"
    by (simp_all add: reopened_chain)
  show "verify_chain sha bb = (length (bb_rows old) + length rs, None)"
    using ok verify_rows_iff(2)[of sha zero_hash "bb_rows bb" 0] len by (simp add: verify_chain_def bb_ok_def)
qed

definition sample_record :: tool_record where
  "sample_record = \<lparr>rd_agent = ''a'', rd_permissions = ''dev'', rd_session = ''s'', rd_tool = ''file_read'',
     rd_args = ''{}'', rd_result = ''ok'', rd_outcome = ''allowed'', rd_duration = 5, rd_label = ''L'',
     rd_obo_sub = None, rd_trace_id = ''t'', rd_act_chain = None\<rparr>"

lemma empty_log_ok: "bb_ok sha (open_blackbox [])"
  by (simp add: bb_ok_def open_blackbox_def tip_def)

theorem audit_log_verifies_witness:
  "verify_chain (\<lambda>s. ''h'') (record_all (\<lambda>s. ''h'') [(True, 1, sample_record), (True, 2, sample_record)]
     (open_blackbox [])) = (2, None)"
  using audit_log_verifies[OF empty_log_ok, of "[(True, 1, sample_record), (True, 2, sample_record)]" "\<lambda>s. ''h''"]
  by (simp add: u64_max_def open_blackbox_def)

text \<open>
  C35: Tampering with what the hash covers is evident: two logs that verify, have the same length and
  end in the same hash agree row by row in the number, the previous hash, the hash and the joined
  covered text, and in each of the five covered fields where none of them contains a bar, unless two
  of their rows exhibit a collision of the hash.  The hash is assumed to print without a bar, as
  hexadecimal does.
\<close>

theorem audit_log_tamper_evident:
  assumes hex: "\<And>x. CHR ''|'' \<notin> set (sha x)"
    and v: "verify_on_open sha a" "verify_on_open sha b"
    and len: "length (bb_rows a) = length (bb_rows b)"
    and tip: "tip zero_hash (bb_rows a) = tip zero_hash (bb_rows b)"
  shows "collision sha (entry_preimage ` set (bb_rows a)) (entry_preimage ` set (bb_rows b)) \<or>
    list_all2 (\<lambda>e e'. be_seq e = be_seq e' \<and> be_prev_hash e = be_prev_hash e' \<and> be_hash e = be_hash e' \<and>
        entry_preimage e = entry_preimage e' \<and>
        (no_bars e \<and> no_bars e' \<longrightarrow> covered_fields e = covered_fields e'))
      (bb_rows a) (bb_rows b)"
proof -
  have zero: "CHR ''|'' \<notin> set zero_hash" by (simp add: zero_hash_def)
  have "collision sha (entry_preimage ` set xs) (entry_preimage ` set ys) \<or>
      list_all2 (\<lambda>e e'. be_hash e = be_hash e' \<and> same_covered e e') xs ys"
    if "length xs = length ys" "chained sha zero_hash xs" "chained sha zero_hash ys"
      "tip zero_hash xs = tip zero_hash ys" for xs ys
    using that
  proof (induction xs arbitrary: ys rule: rev_induct)
    case Nil
    then show ?case by simp
  next
    case (snoc x xs)
    obtain zs y where ys: "ys = zs @ [y]" using snoc.prems(1) by (cases ys rule: rev_cases) auto
    have x: "sha (entry_preimage x) = be_hash x" "be_prev_hash x = tip zero_hash xs" "chained sha zero_hash xs"
      and y: "sha (entry_preimage y) = be_hash y" "be_prev_hash y = tip zero_hash zs" "chained sha zero_hash zs"
      using snoc.prems(2,3) by (simp_all add: ys chained_append)
    have h: "be_hash x = be_hash y" using snoc.prems(4) by (simp add: ys tip_def)
    show ?case
    proof (cases "entry_preimage x = entry_preimage y")
      case False
      then show ?thesis using x(1) y(1) h by (force simp: collision_def ys)
    next
      case True
      have bars: "CHR ''|'' \<notin> set (be_prev_hash x)" "CHR ''|'' \<notin> set (be_prev_hash y)"
        using chained_bars[OF hex snoc.prems(2) zero] chained_bars[OF hex snoc.prems(3) zero]
        by (simp_all add: ys)
      have s: "same_covered x y" by (rule same_preimage_covered[OF True bars])
      then have "collision sha (entry_preimage ` set xs) (entry_preimage ` set zs) \<or>
          list_all2 (\<lambda>e e'. be_hash e = be_hash e' \<and> same_covered e e') xs zs"
        using snoc.IH[OF _ x(3) y(3)] snoc.prems(1) x(2) y(2) by (simp add: ys same_covered_def)
      then show ?thesis using s h by (auto simp: collision_def ys list_all2_appendI)
    qed
  qed
  moreover have "chained sha zero_hash (bb_rows a)" "chained sha zero_hash (bb_rows b)"
    using v verify_rows_iff(1)[of sha _ zero_hash 0] by (simp_all add: verify_on_open_def verify_chain_def)
  ultimately have "collision sha (entry_preimage ` set (bb_rows a)) (entry_preimage ` set (bb_rows b)) \<or>
      list_all2 (\<lambda>e e'. be_hash e = be_hash e' \<and> same_covered e e') (bb_rows a) (bb_rows b)"
    using len tip by blast
  then show ?thesis by (rule disj_forward) (assumption, erule list_all2_mono, simp add: same_covered_def)
qed

definition sample_row :: "string \<Rightarrow> blackbox_entry" where
  "sample_row res = \<lparr>be_seq = 1, be_timestamp = 1, be_agent = ''a'', be_permissions = ''dev'',
     be_session = ''s'', be_tool = ''t'', be_args = [], be_result = res, be_outcome = ''allowed'',
     be_duration = 1, be_label = ''L'', be_prev_hash = zero_hash, be_hash = ''h'', be_obo_sub = None,
     be_trace_id = [], be_act_chain = None\<rparr>"

theorem audit_log_tamper_evident_witness:
  "collision (\<lambda>s. ''h'') {entry_preimage (sample_row ''ok'')} {entry_preimage (sample_row ''changed'')}"
proof -
  have "verify_on_open (\<lambda>s. ''h'') (open_blackbox [sample_row res])" for res
    by (simp add: verify_on_open_def verify_chain_def open_blackbox_def sample_row_def)
  moreover have "entry_preimage (sample_row ''ok'') \<noteq> entry_preimage (sample_row ''changed'')"
    by (simp add: entry_preimage_def chain_preimage_def sample_row_def)
  ultimately show ?thesis
    using audit_log_tamper_evident[of "\<lambda>s. ''h''" "open_blackbox [sample_row ''ok'']"
        "open_blackbox [sample_row ''changed'']"]
    by (simp add: open_blackbox_def tip_def sample_row_def)
qed

end
