(* ===== verification/Routing.thy ===== *)
theory Routing
  imports ValueStore
begin

text \<open>
  Fuzzy resolution of tool names, \<open>navra-core/src/server/routing.rs\<close>: the Levenshtein
  distance computed in a matrix, the overlap of argument names, and the ranked
  candidates.  The matrix is a list of rows updated cell by cell as the loops do.

  Scores are \<open>f32\<close>; their type and the three operations the code uses on them are
  parameters: the combined score of a distance, a length and an overlap given as
  numerator and denominator, the test \<open>\<ge>\<close> and the strict order of the sort.  No score
  is a NaN, because both divisors are positive, so the sort is by a total preorder and
  a stable sort has one result.
\<close>

section \<open>Edit distance\<close>

definition cell :: "nat list list \<Rightarrow> nat \<Rightarrow> nat \<Rightarrow> nat" where
  "cell m i j = m ! i ! j"

definition set_cell :: "nat \<Rightarrow> nat \<Rightarrow> nat \<Rightarrow> nat list list \<Rightarrow> nat list list" where
  "set_cell i j v m = m[i := (m ! i)[j := v]]"

definition edit_init :: "nat \<Rightarrow> nat \<Rightarrow> nat list list" where
  "edit_init a_len b_len =
     fold (\<lambda>j. set_cell 0 j j) [0..<b_len + 1]
       (fold (\<lambda>i. set_cell i 0 i) [0..<a_len + 1]
          (replicate (a_len + 1) (replicate (b_len + 1) 0)))"

definition edit_cell :: "string \<Rightarrow> string \<Rightarrow> nat \<Rightarrow> nat \<Rightarrow> nat list list \<Rightarrow> nat list list" where
  "edit_cell a b i j m =
     (let cost = (if a ! (i - 1) = b ! (j - 1) then 0 else 1) in
      set_cell i j
        (min (min (cell m (i - 1) j + 1) (cell m i (j - 1) + 1)) (cell m (i - 1) (j - 1) + cost)) m)"

definition edit_distance :: "string \<Rightarrow> string \<Rightarrow> nat" where
  "edit_distance a b =
     cell (fold (\<lambda>i. fold (edit_cell a b i) [1..<length b + 1]) [1..<length a + 1]
             (edit_init (length a) (length b)))
       (length a) (length b)"

section \<open>Candidates\<close>

record 'f tool_routing_config =
  auto_route_threshold :: 'f
  suggestion_threshold :: 'f
  routing_enabled :: bool

record 'f routing_candidate =
  cand_name :: string
  cand_score :: 'f
  cand_distance :: nat

record 'f score_ops =
  so_score :: "nat \<Rightarrow> nat \<Rightarrow> nat \<times> nat \<Rightarrow> 'f"
  so_ge :: "'f \<Rightarrow> 'f \<Rightarrow> bool"
  so_less :: "'f \<Rightarrow> 'f \<Rightarrow> bool"
  so_zero :: 'f

text \<open>The overlap as a fraction; \<open>0/1\<close> when both sides are empty.\<close>

definition argument_jaccard :: "json \<Rightarrow> string list option option \<Rightarrow> nat \<times> nat" where
  "argument_jaccard request_args schema_props =
     (let request_keys = (case request_args of JObject flds \<Rightarrow> fst ` set flds | _ \<Rightarrow> {});
          schema_keys = (case schema_props of Some (Some props) \<Rightarrow> set props | _ \<Rightarrow> {})
      in if request_keys = {} \<and> schema_keys = {} then (0, 1)
         else (card (request_keys \<inter> schema_keys), card (request_keys \<union> schema_keys)))"

fun insert_ranked ::
  "('f \<Rightarrow> 'f \<Rightarrow> bool) \<Rightarrow> 'f routing_candidate \<Rightarrow> 'f routing_candidate list \<Rightarrow> 'f routing_candidate list" where
  "insert_ranked lt c [] = [c]"
| "insert_ranked lt c (d # ds) =
     (if lt (cand_score c) (cand_score d) then d # insert_ranked lt c ds else c # d # ds)"

definition sort_ranked ::
  "('f \<Rightarrow> 'f \<Rightarrow> bool) \<Rightarrow> 'f routing_candidate list \<Rightarrow> 'f routing_candidate list" where
  "sort_ranked lt cs = foldr (insert_ranked lt) cs []"

definition score_candidate ::
  "'f score_ops \<Rightarrow> string \<Rightarrow> json \<Rightarrow> (string, string list option) hmap \<Rightarrow> 'f tool_routing_config
     \<Rightarrow> string \<Rightarrow> 'f routing_candidate option" where
  "score_candidate ops unknown_name request_args tool_schemas config name =
     (let dist = edit_distance unknown_name name;
          max_len = max (length unknown_name) (length name)
      in if max_len = 0 then None
         else
           (let score = so_score ops dist max_len
                  (argument_jaccard request_args (hm_get tool_schemas name))
            in if so_ge ops score (suggestion_threshold config)
               then Some \<lparr>cand_name = name, cand_score = score, cand_distance = dist\<rparr>
               else None))"

definition find_candidates ::
  "'f score_ops \<Rightarrow> string \<Rightarrow> string list \<Rightarrow> json \<Rightarrow> (string, string list option) hmap
     \<Rightarrow> 'f tool_routing_config \<Rightarrow> 'f routing_candidate list" where
  "find_candidates ops unknown_name registered_names request_args tool_schemas config =
     (if \<not> routing_enabled config then []
      else
        take 5 (sort_ranked (so_less ops)
          (List.map_filter (score_candidate ops unknown_name request_args tool_schemas config)
             registered_names)))"

section \<open>Edits\<close>

text \<open>One insertion, deletion or substitution of a byte.\<close>

inductive edit1 :: "string \<Rightarrow> string \<Rightarrow> bool" where
  ins: "edit1 (p @ s) (p @ x # s)"
| del: "edit1 (p @ x # s) (p @ s)"
| sub: "edit1 (p @ x # s) (p @ y # s)"

fun lev :: "string \<Rightarrow> string \<Rightarrow> nat" where
  "lev [] b = length b"
| "lev (x # a) [] = Suc (length a)"
| "lev (x # a) (y # b) =
     min (min (lev a (y # b) + 1) (lev (x # a) b + 1)) (lev a b + (if x = y then 0 else 1))"

lemma lev_Nil2 [simp]: "lev a [] = length a"
  by (cases a) auto

lemma lev_refl [simp]: "lev a a = 0"
  by (induction a) auto

lemma lev_del_left: "lev (x # s) c \<le> lev s c + 1"
  by (cases c) auto

lemma lev_ins_right: "lev s (y # c) \<le> lev s c + 1"
  by (cases s) auto

lemma lev_ins_left: "lev s c \<le> lev (x # s) c + 1"
proof (induction c)
  case (Cons y c)
  then show ?case using lev_ins_right[of s y c] by auto
qed simp

lemma lev_sub_left: "lev (x # s) c \<le> lev (y # s) c + 1"
proof (induction c)
  case (Cons z c)
  then show ?case using lev_ins_left[of s "z # c" x] by auto
qed simp

lemma lev_context: "(\<And>c. lev a c \<le> lev b c + 1) \<Longrightarrow> lev (z # a) c \<le> lev (z # b) c + 1"
proof (induction c)
  case Nil
  then show ?case using Nil[of "[]"] by simp
next
  case (Cons y c)
  have "lev a (y # c) \<le> lev b (y # c) + 1" "lev a c \<le> lev b c + 1" by (rule Cons.prems)+
  then show ?case using Cons.IH[OF Cons.prems] by auto
qed

lemma lev_edit1: "edit1 a b \<Longrightarrow> lev a c \<le> lev b c + 1"
proof (induction arbitrary: c rule: edit1.induct)
  case (ins p s x)
  show ?case
  proof (induction p arbitrary: c)
    case (Cons z p)
    from lev_context[OF this] show ?case by simp
  qed (use lev_ins_left in simp)
next
  case (del p x s)
  show ?case
  proof (induction p arbitrary: c)
    case (Cons z p)
    from lev_context[OF this] show ?case by simp
  qed (use lev_del_left in simp)
next
  case (sub p x s y)
  show ?case
  proof (induction p arbitrary: c)
    case (Cons z p)
    from lev_context[OF this] show ?case by simp
  qed (use lev_sub_left in simp)
qed

lemma lev_minimal: "(edit1 ^^ n) a b \<Longrightarrow> lev a b \<le> n"
proof (induction n arbitrary: a)
  case (Suc n)
  then obtain a' where "edit1 a a'" "(edit1 ^^ n) a' b" by (meson relpowp_Suc_D2)
  then show ?case using Suc.IH lev_edit1[of a a' b] by fastforce
qed simp

lemma edit1_Cons: "edit1 a b \<Longrightarrow> edit1 (x # a) (x # b)"
  by (induction rule: edit1.induct)
    (use edit1.ins[of "x # _"] edit1.del[of "x # _"] edit1.sub[of "x # _"] in auto)

lemma edits_Cons: "(edit1 ^^ n) a b \<Longrightarrow> (edit1 ^^ n) (x # a) (x # b)"
proof (induction n arbitrary: b)
  case (Suc n)
  then show ?case by (auto intro: edit1_Cons elim!: relcomppE)
qed simp

lemma edits_front: "edit1 a a' \<Longrightarrow> (edit1 ^^ n) a' b \<Longrightarrow> (edit1 ^^ Suc n) a b"
  by (rule relpowp_Suc_I2)

lemma edits_lev: "(edit1 ^^ lev a b) a b"
proof (induction a b rule: lev.induct)
  case (1 b)
  show ?case
  proof (induction b)
    case (Cons y b)
    have "edit1 [] [y]" using edit1.ins[of "[]" "[]" y] by simp
    then show ?case using edits_front edits_Cons[OF Cons] by (metis length_Cons lev.simps(1))
  qed simp
next
  case (2 x a)
  have "(edit1 ^^ length s) s []" for s
  proof (induction s)
    case (Cons y s)
    have "edit1 (y # s) s" using edit1.del[of "[]" y s] by simp
    then show ?case using edits_front[OF _ Cons] by simp
  qed simp
  from this[of "x # a"] show ?case by simp
next
  case (3 x a y b)
  have d: "(edit1 ^^ Suc (lev a (y # b))) (x # a) (y # b)"
    using edits_front[OF _ 3(1)] edit1.del[of "[]" x a] by simp
  have i: "(edit1 ^^ Suc (lev (x # a) b)) (x # a) (y # b)"
    using edits_front[OF _ edits_Cons[OF 3(2)]] edit1.ins[of "[]" "x # a" y] by simp
  have s: "(edit1 ^^ (lev a b + (if x = y then 0 else 1))) (x # a) (y # b)"
    using edits_Cons[OF 3(3), of y] edits_front[OF _ edits_Cons[OF 3(3), of y]] edit1.sub[of "[]" x a y] by auto
  show ?case using d i s by (simp add: min_def)
qed

lemma edit1_rev: "edit1 a b \<Longrightarrow> edit1 (rev a) (rev b)"
proof (induction rule: edit1.induct)
  case (ins p s x)
  then show ?case using edit1.ins[of "rev s" "rev p" x] by simp
next
  case (del p x s)
  then show ?case using edit1.del[of "rev s" x "rev p"] by simp
next
  case (sub p x s y)
  then show ?case using edit1.sub[of "rev s" x "rev p" y] by simp
qed

lemma edits_rev: "(edit1 ^^ n) a b \<Longrightarrow> (edit1 ^^ n) (rev a) (rev b)"
proof (induction n arbitrary: b)
  case (Suc n)
  then show ?case by (auto intro: edit1_rev elim!: relcomppE)
qed simp

lemma lev_rev: "lev (rev a) (rev b) = lev a b"
proof (rule antisym)
  show "lev (rev a) (rev b) \<le> lev a b" by (rule lev_minimal[OF edits_rev[OF edits_lev]])
  show "lev a b \<le> lev (rev a) (rev b)" using lev_minimal[OF edits_rev[OF edits_lev[of "rev a" "rev b"]]] by simp
qed

lemma lev_least: "lev a b = (LEAST n. (edit1 ^^ n) a b)"
  by (rule Least_equality[symmetric]) (auto intro: edits_lev lev_minimal)

section \<open>The matrix\<close>

definition shaped :: "nat \<Rightarrow> nat \<Rightarrow> nat list list \<Rightarrow> bool" where
  "shaped la lb m \<longleftrightarrow> length m = Suc la \<and> (\<forall>r\<in>set m. length r = Suc lb)"

lemma shaped_set_cell: "shaped la lb m \<Longrightarrow> i \<le> la \<Longrightarrow> shaped la lb (set_cell i j v m)"
  by (auto simp: shaped_def set_cell_def dest!: set_update_subset_insert[THEN subsetD])

lemma cell_set_cell:
  assumes "shaped la lb m" "i \<le> la" "j \<le> lb"
  shows "cell (set_cell i j v m) i' j' = (if i' = i \<and> j' = j then v else cell m i' j')"
proof -
  have "length (m ! i) = Suc lb" "length m = Suc la" using assms by (auto simp: shaped_def)
  then show ?thesis using assms by (auto simp: cell_def set_cell_def nth_list_update)
qed

definition prefix_lev :: "string \<Rightarrow> string \<Rightarrow> nat \<Rightarrow> nat \<Rightarrow> nat" where
  "prefix_lev a b i j = lev (rev (take i a)) (rev (take j b))"

lemma prefix_lev_0: "j \<le> length b \<Longrightarrow> prefix_lev a b 0 j = j" "i \<le> length a \<Longrightarrow> prefix_lev a b i 0 = i"
  by (simp_all add: prefix_lev_def)

lemma prefix_lev_Suc:
  assumes "i < length a" "j < length b"
  shows "prefix_lev a b (Suc i) (Suc j) =
    min (min (prefix_lev a b i (Suc j) + 1) (prefix_lev a b (Suc i) j + 1))
      (prefix_lev a b i j + (if a ! i = b ! j then 0 else 1))"
  using assms by (simp add: prefix_lev_def take_Suc_conv_app_nth)

definition filled :: "string \<Rightarrow> string \<Rightarrow> nat \<Rightarrow> nat \<Rightarrow> nat list list \<Rightarrow> bool" where
  "filled a b i j m \<longleftrightarrow> shaped (length a) (length b) m \<and>
     (\<forall>i' j'. i' \<le> length a \<longrightarrow> j' \<le> length b \<longrightarrow> (i' = 0 \<or> j' = 0 \<or> i' < i \<or> i' = i \<and> j' \<le> j) \<longrightarrow>
        cell m i' j' = prefix_lev a b i' j')"

lemma filled_corner:
  "filled a b (length a) (length b) m \<Longrightarrow> cell m (length a) (length b) = prefix_lev a b (length a) (length b)"
  unfolding filled_def by blast

lemma filled_cell:
  assumes f: "filled a b i (j - 1) m" and b: "1 \<le> i" "i \<le> length a" "1 \<le> j" "j \<le> length b"
  shows "filled a b i j (edit_cell a b i j m)"
proof -
  obtain i0 j0 where ij: "i = Suc i0" "j = Suc j0" using b by (metis Suc_pred' One_nat_def Suc_le_lessD)
  have sh: "shaped (length a) (length b) m" using f by (simp add: filled_def)
  have "cell m i0 (Suc j0) = prefix_lev a b i0 (Suc j0)" "cell m (Suc i0) j0 = prefix_lev a b (Suc i0) j0"
    "cell m i0 j0 = prefix_lev a b i0 j0"
    using f b by (auto simp: filled_def ij)
  then have "edit_cell a b i j m = set_cell i j (prefix_lev a b i j) m"
    using b by (simp add: edit_cell_def ij prefix_lev_Suc Let_def)
  then show ?thesis unfolding filled_def
  proof (intro conjI allI impI, goal_cases)
    case 1
    then show ?case by (simp add: shaped_set_cell[OF sh b(2)])
  next
    case (2 i' j')
    show ?case
    proof (cases "i' = i \<and> j' = j")
      case True
      then show ?thesis using 2(1) by (simp add: cell_set_cell[OF sh b(2,4)])
    next
      case False
      then have "i' = 0 \<or> j' = 0 \<or> i' < i \<or> i' = i \<and> j' \<le> j - 1" using 2(4) by auto
      then have "cell m i' j' = prefix_lev a b i' j'" using f 2(2,3) unfolding filled_def by blast
      then show ?thesis unfolding 2(1) cell_set_cell[OF sh b(2,4)] using False by simp
    qed
  qed
qed

lemma filled_row:
  "filled a b i 0 m \<Longrightarrow> 1 \<le> i \<Longrightarrow> i \<le> length a \<Longrightarrow> n \<le> length b \<Longrightarrow>
     filled a b i n (fold (edit_cell a b i) [1..<n + 1] m)"
proof (induction n)
  case (Suc n)
  then have "filled a b i n (fold (edit_cell a b i) [1..<n + 1] m)" by simp
  then show ?case using filled_cell[of a b i "Suc n"] Suc.prems by simp
qed simp

lemma filled_next: "filled a b i (length b) m \<Longrightarrow> filled a b (Suc i) 0 m"
  by (auto simp: filled_def less_Suc_eq)

lemma filled_rows:
  "filled a b 0 (length b) m \<Longrightarrow> n \<le> length a \<Longrightarrow>
     filled a b n (length b) (fold (\<lambda>i. fold (edit_cell a b i) [1..<length b + 1]) [1..<n + 1] m)"
proof (induction n)
  case (Suc n)
  then have "filled a b (Suc n) 0 (fold (\<lambda>i. fold (edit_cell a b i) [1..<length b + 1]) [1..<n + 1] m)"
    by (intro filled_next) simp
  from filled_row[OF this _ Suc.prems(2), of "length b"] show ?case by simp
qed simp

lemma init_columns:
  assumes "shaped la lb m" "n \<le> Suc la"
  shows "shaped la lb (fold (\<lambda>i. set_cell i 0 i) [0..<n] m) \<and>
    (\<forall>i j. cell (fold (\<lambda>i. set_cell i 0 i) [0..<n] m) i j = (if j = 0 \<and> i < n then i else cell m i j))"
  using assms(2)
proof (induction n)
  case (Suc n)
  then show ?case using shaped_set_cell[of la lb _ n] cell_set_cell[of la lb _ n 0] by (auto simp: less_Suc_eq)
qed (simp add: assms(1))

lemma init_rows:
  assumes "shaped la lb m" "n \<le> Suc lb"
  shows "shaped la lb (fold (\<lambda>j. set_cell 0 j j) [0..<n] m) \<and>
    (\<forall>i j. cell (fold (\<lambda>j. set_cell 0 j j) [0..<n] m) i j = (if i = 0 \<and> j < n then j else cell m i j))"
  using assms(2)
proof (induction n)
  case (Suc n)
  then show ?case using shaped_set_cell[of la lb _ 0] cell_set_cell[of la lb _ 0 n] by (auto simp: less_Suc_eq)
qed (simp add: assms(1))

lemma filled_init: "filled a b 0 (length b) (edit_init (length a) (length b))"
proof -
  let ?la = "length a" and ?lb = "length b"
  have "shaped ?la ?lb (replicate (?la + 1) (replicate (?lb + 1) 0))" by (simp add: shaped_def)
  note c = init_columns[OF this, of "?la + 1"]
  note r = init_rows[OF conjunct1[OF c], of "?lb + 1"]
  show ?thesis using c r by (auto simp: filled_def edit_init_def prefix_lev_0)
qed

section \<open>Properties\<close>

text \<open>
  The distance computed by the matrix is the least number of single-byte insertions,
  deletions and substitutions that turn one name into the other.
\<close>

theorem edit_distance_least: "edit_distance a b = (LEAST n. (edit1 ^^ n) a b)"
proof -
  have "filled a b (length a) (length b)
      (fold (\<lambda>i. fold (edit_cell a b i) [1..<length b + 1]) [1..<length a + 1] (edit_init (length a) (length b)))"
    by (rule filled_rows[OF filled_init]) simp
  from filled_corner[OF this] have "edit_distance a b = prefix_lev a b (length a) (length b)"
    unfolding edit_distance_def .
  also have "\<dots> = lev a b" by (simp add: prefix_lev_def lev_rev)
  finally show ?thesis unfolding lev_least .
qed

lemma insert_ranked_set: "set (insert_ranked lt c cs) = insert c (set cs)"
  by (induction cs) auto

lemma sort_ranked_set: "set (sort_ranked lt cs) = set cs"
  by (induction cs) (auto simp: sort_ranked_def insert_ranked_set)

lemma candidate_known:
  assumes "c \<in> set (find_candidates ops name names args schemas config)"
  shows "cand_name c \<in> set names" "cand_distance c = edit_distance name (cand_name c)"
proof -
  have "c \<in> set (List.map_filter (score_candidate ops name args schemas config) names)"
    using assms by (auto simp: find_candidates_def sort_ranked_set split: if_splits dest: in_set_takeD)
  then obtain n where "n \<in> set names" "score_candidate ops name args schemas config n = Some c"
    by (auto simp: map_filter_def)
  then show "cand_name c \<in> set names" "cand_distance c = edit_distance name (cand_name c)"
    by (auto simp: score_candidate_def Let_def split: if_splits)
qed

end
