(* ===== verification/ToolTypes.thy ===== *)
theory ToolTypes
  imports ValueStore
begin

text \<open>
  Results of tool calls, from \<open>navra-protocol/src/compat.rs\<close>, and the requests for
  input that an upstream server may answer with instead (\<open>navra-core/src/server/handlers.rs\<close>):
  the texts in them are collected, filtered and written back by position.  The shapes
  are those of the rmcp crate as far as the code looks into them; kinds of content and
  of requests it does not look into are opaque.
\<close>

section \<open>Results\<close>

datatype content =
    TextContent string
  | TextResource "string option" string
  | BlobResource string
  | BinaryContent string

fun as_text :: "content \<Rightarrow> string option" where
  "as_text (TextContent s) = Some s"
| "as_text _ = None"

record call_tool_result =
  cr_content :: "content list"
  cr_is_error :: "bool option"

definition result_success :: "content list \<Rightarrow> call_tool_result" where
  "result_success c = \<lparr>cr_content = c, cr_is_error = Some False\<rparr>"

definition error_msg :: "string \<Rightarrow> call_tool_result" where
  "error_msg msg = \<lparr>cr_content = [TextContent msg], cr_is_error = Some True\<rparr>"

definition is_err :: "call_tool_result \<Rightarrow> bool" where
  "is_err r \<longleftrightarrow> cr_is_error r = Some True"

section \<open>Requests for input\<close>

datatype sampling_block = TextBlock string | OtherBlock string

datatype sampling_content = Single sampling_block | Multiple "sampling_block list"

datatype elicitation = FormElicitation string | UrlElicitation string | OtherElicitation string

datatype input_request =
    Elicit elicitation
  | CreateMessage "string option" "sampling_content list"
  | ListRoots
  | OtherRequest string

record input_required =
  ir_requests :: "(string, input_request) hmap option"
  ir_state :: "string option"

fun sampling_blocks :: "sampling_content \<Rightarrow> sampling_block list" where
  "sampling_blocks (Single b) = [b]"
| "sampling_blocks (Multiple bs) = bs"

fun block_texts :: "sampling_block \<Rightarrow> string list" where
  "block_texts (TextBlock s) = [s]"
| "block_texts (OtherBlock _) = []"

definition content_texts :: "sampling_content \<Rightarrow> string list" where
  "content_texts m = concat (map block_texts (sampling_blocks m))"

fun request_texts :: "input_request \<Rightarrow> string list" where
  "request_texts (Elicit (FormElicitation message)) = [message]"
| "request_texts (Elicit (UrlElicitation message)) = [message]"
| "request_texts (Elicit (OtherElicitation _)) = []"
| "request_texts (CreateMessage sys msgs) =
     (case sys of Some system \<Rightarrow> [system] | None \<Rightarrow> []) @
     concat (map content_texts msgs)"
| "request_texts ListRoots = []"
| "request_texts (OtherRequest _) = []"

definition input_request_texts :: "input_required \<Rightarrow> string list" where
  "input_request_texts ir =
     (case ir_requests ir of
        None \<Rightarrow> []
      | Some requests \<Rightarrow> concat (map (\<lambda>(_, r). request_texts r) requests))"

text \<open>One position of the filtered texts: a replacement, or the text that is there.\<close>

definition replace_at :: "string option list \<Rightarrow> nat \<Rightarrow> string \<Rightarrow> string" where
  "replace_at texts idx s =
     (if idx < length texts then (case texts ! idx of Some r \<Rightarrow> r | None \<Rightarrow> s) else s)"

text \<open>The index is not advanced over the blocks of a sampling message.\<close>

fun write_block :: "string option list \<Rightarrow> nat \<Rightarrow> sampling_block \<Rightarrow> sampling_block" where
  "write_block texts idx (TextBlock s) = TextBlock (replace_at texts idx s)"
| "write_block texts idx (OtherBlock x) = OtherBlock x"

fun write_content :: "string option list \<Rightarrow> nat \<Rightarrow> sampling_content \<Rightarrow> sampling_content" where
  "write_content texts idx (Single b) = Single (write_block texts idx b)"
| "write_content texts idx (Multiple bs) = Multiple (map (write_block texts idx) bs)"

fun write_request :: "string option list \<Rightarrow> nat \<Rightarrow> input_request \<Rightarrow> input_request \<times> nat" where
  "write_request texts idx (Elicit (FormElicitation message)) =
     (Elicit (FormElicitation (replace_at texts idx message)), idx + 1)"
| "write_request texts idx (Elicit (UrlElicitation message)) =
     (Elicit (UrlElicitation (replace_at texts idx message)), idx + 1)"
| "write_request texts idx (Elicit (OtherElicitation x)) = (Elicit (OtherElicitation x), idx)"
| "write_request texts idx (CreateMessage sys msgs) =
     (let idx' = (case sys of Some _ \<Rightarrow> idx + 1 | None \<Rightarrow> idx) in
      (CreateMessage (map_option (replace_at texts idx) sys) (map (write_content texts idx') msgs), idx'))"
| "write_request texts idx ListRoots = (ListRoots, idx)"
| "write_request texts idx (OtherRequest x) = (OtherRequest x, idx)"

fun write_requests ::
  "string option list \<Rightarrow> nat \<Rightarrow> (string, input_request) hmap \<Rightarrow> (string, input_request) hmap" where
  "write_requests texts idx [] = []"
| "write_requests texts idx ((k, r) # rs) =
     (let (r', idx') = write_request texts idx r in (k, r') # write_requests texts idx' rs)"

definition write_back_input_request_texts :: "string option list \<Rightarrow> input_required \<Rightarrow> input_required" where
  "write_back_input_request_texts texts ir =
     (case ir_requests ir of
        None \<Rightarrow> ir
      | Some requests \<Rightarrow> ir\<lparr>ir_requests := Some (write_requests texts 0 requests)\<rparr>)"

section \<open>Responses\<close>

datatype tool_response =
    Completed call_tool_result
  | InputRequired input_required
  | TaskResponse string
  | UnknownResponse string

fun flatten_tool_response :: "tool_response \<Rightarrow> call_tool_result" where
  "flatten_tool_response (Completed result) = result"
| "flatten_tool_response (InputRequired _) = error_msg
     (''tool requested interactive input (MCP input_required), which this surface cannot provide; '' @
      ''retry with an MCP client that supports multi-round tool calls'')"
| "flatten_tool_response (TaskResponse _) = error_msg
     (''tool returned a task result (SEP-2663 tasks extension), which navra does not forward'')"
| "flatten_tool_response (UnknownResponse _) = error_msg ''tool returned an unsupported response kind''"

section \<open>Writing back\<close>

fun sampling_texts :: "input_request \<Rightarrow> string list" where
  "sampling_texts (CreateMessage sys msgs) = concat (map content_texts msgs)"
| "sampling_texts _ = []"

definition replace_from :: "string option list \<Rightarrow> nat \<Rightarrow> string list \<Rightarrow> string list" where
  "replace_from texts idx ss = map (\<lambda>(i, s). replace_at texts i s) (enumerate idx ss)"

lemma replace_from_Cons [simp]:
  "replace_from texts idx (s # ss) = replace_at texts idx s # replace_from texts (Suc idx) ss"
  by (simp add: replace_from_def)

lemma replace_from_Nil [simp]: "replace_from texts idx [] = []"
  by (simp add: replace_from_def)

lemma replace_from_append:
  "replace_from texts idx (xs @ ys) = replace_from texts idx xs @ replace_from texts (idx + length xs) ys"
  by (simp add: replace_from_def enumerate_append_eq)

lemma no_text_block: "block_texts b = [] \<Longrightarrow> block_texts (write_block texts i b) = []"
  by (cases b) auto

lemma no_text_content: "content_texts m = [] \<Longrightarrow> content_texts (write_content texts i m) = []"
  by (cases m) (auto simp: no_text_block content_texts_def)

lemma no_text_contents:
  "concat (map content_texts msgs) = [] \<Longrightarrow>
     concat (map content_texts (map (write_content texts i) msgs)) = []"
  by (induction msgs) (simp_all add: no_text_content)

lemma write_request_exact:
  assumes "sampling_texts r = []"
  shows "request_texts (fst (write_request texts idx r)) = replace_from texts idx (request_texts r) \<and>
    snd (write_request texts idx r) = idx + length (request_texts r)"
proof (cases r)
  case (Elicit e)
  then show ?thesis by (cases e) auto
next
  case (CreateMessage sys msgs)
  have a: "concat (map content_texts msgs) = []" using assms by (simp add: CreateMessage)
  note b = no_text_contents[OF a]
  show ?thesis unfolding CreateMessage using a b by (cases sys) (simp_all add: Let_def del: concat_eq_Nil_conv map_map)
qed auto

lemma write_requests_exact:
  "\<forall>e\<in>set rs. sampling_texts (snd e) = [] \<Longrightarrow>
     concat (map (\<lambda>(_, r). request_texts r) (write_requests texts idx rs)) =
       replace_from texts idx (concat (map (\<lambda>(_, r). request_texts r) rs))"
proof (induction rs arbitrary: idx)
  case (Cons a rs)
  obtain k r where a: "a = (k, r)" by (cases a)
  have "sampling_texts r = []" using Cons.prems by (simp add: a)
  note w = write_request_exact[OF this, of texts idx]
  obtain r' idx' where r': "write_request texts idx r = (r', idx')" by (cases "write_request texts idx r")
  show ?case using Cons w r' by (simp add: a replace_from_append)
qed simp

lemma replace_all: "length ts = length ss \<Longrightarrow> replace_from (pre @ map Some ts) (length pre) ss = ts"
proof (induction ts arbitrary: ss pre)
  case (Cons t ts)
  then obtain s ss' where ss: "ss = s # ss'" by (cases ss) auto
  have "replace_from ((pre @ [Some t]) @ map Some ts) (length (pre @ [Some t])) ss' = ts"
    using Cons by (intro Cons.IH) (simp add: ss)
  then show ?case by (simp add: ss replace_at_def nth_append)
qed simp

text \<open>
  A request without text blocks in sampling messages carries exactly the filtered texts
  after they are written back.
\<close>

theorem filtered_texts_written_back:
  assumes "ir_requests ir = Some rs" "\<forall>e\<in>set rs. sampling_texts (snd e) = []"
    and "length ts = length (input_request_texts ir)"
  shows "input_request_texts (write_back_input_request_texts (map Some ts) ir) = ts"
proof -
  have "input_request_texts (write_back_input_request_texts (map Some ts) ir) =
      replace_from (map Some ts) 0 (input_request_texts ir)"
    using write_requests_exact[OF assms(2), of "map Some ts" 0] assms(1)
    by (simp add: write_back_input_request_texts_def input_request_texts_def)
  then show ?thesis using replace_all[OF assms(3), of "[]"] by simp
qed

definition sample_input_required :: input_required where
  "sample_input_required = \<lparr>ir_requests = Some [(''a'', Elicit (FormElicitation ''key?'')),
     (''b'', CreateMessage (Some ''sys'') [Multiple [OtherBlock ''img'']])], ir_state = None\<rparr>"

theorem filtered_texts_written_back_witness:
  "input_request_texts (write_back_input_request_texts (map Some [''x'', ''y'']) sample_input_required) =
     [''x'', ''y'']"
  by (rule filtered_texts_written_back[where rs = "the (ir_requests sample_input_required)"])
    (simp_all add: sample_input_required_def input_request_texts_def content_texts_def)

text \<open>With text blocks the positions go wrong: two messages come back as the first one twice.\<close>

lemma sampling_write_back_wrong:
  "let ir = \<lparr>ir_requests = Some [(''m'', CreateMessage None
       [Single (TextBlock ''one''), Single (TextBlock ''two'')])], ir_state = None\<rparr>
   in input_request_texts (write_back_input_request_texts (map Some (input_request_texts ir)) ir) =
     [''one'', ''one'']"
  by (simp add: input_request_texts_def write_back_input_request_texts_def replace_at_def content_texts_def)

end
