(* ===== verification/Hooks.thy ===== *)
theory Hooks
  imports ToolTypes Taint
begin

text \<open>
  The hook pipeline, \<open>navra-safety-hooks/src/hooks/pipeline.rs\<close> with the decisions of
  \<open>hooks/mod.rs\<close>.  A hook may keep state, so it maps a world to a decision and the
  next world; \<open>None\<close> is a hook that did not answer within the timeout.  The call
  context \<open>'c\<close>, model requests \<open>'q\<close> and model responses \<open>'a\<close> are opaque.
\<close>

section \<open>Decisions\<close>

datatype hook_decision =
    Continue
  | ModifyArgs json
  | ModifyResult call_tool_result
  | Block string
  | Simulate call_tool_result
  | PendingHook string

datatype 'q pre_model_decision = PreContinue | ModifyRequest 'q | PreBlock string

datatype ('q, 'a) post_model_decision = PostContinue | ModifyResponse 'a | RetryModel 'q | PostBlock string

datatype pre_hook_outcome =
    Proceed json
  | Simulated call_tool_result
  | Blocked string
  | PendingApproval string string

datatype 'q pre_model_outcome = ProceedModel 'q | BlockedModel string

datatype ('q, 'a) post_model_outcome = AcceptModel 'a | RetriedModel 'q | BlockedResponse string

record ('w, 'c) hook =
  hk_name :: string
  hk_pre :: "string \<Rightarrow> json \<Rightarrow> 'c \<Rightarrow> tool_annotations option \<Rightarrow> 'w \<Rightarrow> hook_decision option \<times> 'w"
  hk_post :: "string \<Rightarrow> json \<Rightarrow> call_tool_result \<Rightarrow> 'c \<Rightarrow> 'w \<Rightarrow> hook_decision option \<times> 'w"
  hk_end :: "string \<Rightarrow> string \<Rightarrow> nat \<Rightarrow> 'w \<Rightarrow> 'w"

record ('w, 'c, 'q, 'a) model_hook =
  mh_pre :: "'q \<Rightarrow> 'c \<Rightarrow> 'w \<Rightarrow> 'q pre_model_decision option \<times> 'w"
  mh_post :: "'q \<Rightarrow> 'a \<Rightarrow> 'c \<Rightarrow> 'w \<Rightarrow> ('q, 'a) post_model_decision option \<times> 'w"

definition has_hooks :: "('w, 'c) hook list \<Rightarrow> bool" where
  "has_hooks hooks \<longleftrightarrow> hooks \<noteq> []"

definition timed_out :: hook_decision where
  "timed_out = Block ''hook timed out: security check failed''"

definition decided :: "hook_decision option \<Rightarrow> hook_decision" where
  "decided d = (case d of Some x \<Rightarrow> x | None \<Rightarrow> timed_out)"

section \<open>The pipeline\<close>

fun run_pre ::
  "('w, 'c) hook list \<Rightarrow> string \<Rightarrow> json \<Rightarrow> 'c \<Rightarrow> tool_annotations option \<Rightarrow> 'w \<Rightarrow> pre_hook_outcome \<times> 'w"
where
  "run_pre [] tool args ctx ann w = (Proceed args, w)"
| "run_pre (h # hs) tool args ctx ann w =
     (case hk_pre h tool args ctx ann w of
        (d, w') \<Rightarrow>
          (case decided d of
             Continue \<Rightarrow> run_pre hs tool args ctx ann w'
           | ModifyArgs new_args \<Rightarrow> run_pre hs tool new_args ctx ann w'
           | Block reason \<Rightarrow> (Blocked reason, w')
           | Simulate result \<Rightarrow> (Simulated result, w')
           | PendingHook i \<Rightarrow>
               (PendingApproval i (''hook '' @ [CHR 0x27] @ hk_name h @ [CHR 0x27] @
                  '' requires approval for '' @ [CHR 0x27] @ tool @ [CHR 0x27]), w')
           | ModifyResult _ \<Rightarrow> run_pre hs tool args ctx ann w'))"

fun post_loop ::
  "('w, 'c) hook list \<Rightarrow> string \<Rightarrow> json \<Rightarrow> call_tool_result \<Rightarrow> 'c \<Rightarrow> 'w \<Rightarrow> call_tool_result \<times> 'w" where
  "post_loop [] tool args result ctx w = (result, w)"
| "post_loop (h # hs) tool args result ctx w =
     (case hk_post h tool args result ctx w of
        (d, w') \<Rightarrow>
          (case decided d of
             ModifyResult new_result \<Rightarrow> post_loop hs tool args new_result ctx w'
           | Block reason \<Rightarrow> (error_msg reason, w')
           | _ \<Rightarrow> post_loop hs tool args result ctx w'))"

definition run_post ::
  "('w, 'c) hook list \<Rightarrow> string \<Rightarrow> json \<Rightarrow> call_tool_result \<Rightarrow> 'c \<Rightarrow> 'w \<Rightarrow> call_tool_result \<times> 'w" where
  "run_post hooks tool args result ctx w = post_loop (rev hooks) tool args result ctx w"

fun run_pre_model ::
  "('w, 'c, 'q, 'a) model_hook list \<Rightarrow> 'q \<Rightarrow> 'c \<Rightarrow> 'w \<Rightarrow> 'q pre_model_outcome \<times> 'w" where
  "run_pre_model [] request ctx w = (ProceedModel request, w)"
| "run_pre_model (h # hs) request ctx w =
     (case mh_pre h request ctx w of
        (d, w') \<Rightarrow>
          (case (case d of Some x \<Rightarrow> x | None \<Rightarrow> PreBlock ''hook timed out: model call blocked'') of
             PreContinue \<Rightarrow> run_pre_model hs request ctx w'
           | ModifyRequest new_req \<Rightarrow> run_pre_model hs new_req ctx w'
           | PreBlock reason \<Rightarrow> (BlockedModel reason, w')))"

fun post_model_loop ::
  "('w, 'c, 'q, 'a) model_hook list \<Rightarrow> 'q \<Rightarrow> 'a \<Rightarrow> 'c \<Rightarrow> 'w \<Rightarrow> ('q, 'a) post_model_outcome \<times> 'w" where
  "post_model_loop [] request response ctx w = (AcceptModel response, w)"
| "post_model_loop (h # hs) request response ctx w =
     (case mh_post h request response ctx w of
        (d, w') \<Rightarrow>
          (case (case d of Some x \<Rightarrow> x | None \<Rightarrow> PostBlock ''hook timed out: model response blocked'') of
             PostContinue \<Rightarrow> post_model_loop hs request response ctx w'
           | ModifyResponse new_resp \<Rightarrow> post_model_loop hs request new_resp ctx w'
           | RetryModel new_req \<Rightarrow> (RetriedModel new_req, w')
           | PostBlock reason \<Rightarrow> (BlockedResponse reason, w')))"

definition run_post_model ::
  "('w, 'c, 'q, 'a) model_hook list \<Rightarrow> 'q \<Rightarrow> 'a \<Rightarrow> 'c \<Rightarrow> 'w \<Rightarrow> ('q, 'a) post_model_outcome \<times> 'w" where
  "run_post_model hooks request response ctx w = post_model_loop (rev hooks) request response ctx w"

definition run_session_end :: "('w, 'c) hook list \<Rightarrow> string \<Rightarrow> string \<Rightarrow> nat \<Rightarrow> 'w \<Rightarrow> 'w" where
  "run_session_end hooks session_id agent_name tool_count w =
     fold (\<lambda>h. hk_end h session_id agent_name tool_count) hooks w"

section \<open>Runs of the hooks\<close>

text \<open>
  \<open>passed tool ctx ann hs (args, w) (args', w')\<close>: every hook answered in time and let the
  call go on, each seeing the arguments its predecessor left.
\<close>

inductive passed ::
  "string \<Rightarrow> 'c \<Rightarrow> tool_annotations option \<Rightarrow> ('w, 'c) hook list \<Rightarrow> json \<times> 'w \<Rightarrow> json \<times> 'w \<Rightarrow> bool"
  for tool ctx ann where
  pass_all: "passed tool ctx ann [] s s"
| pass_same: "hk_pre h tool args ctx ann w = (Some d, w') \<Longrightarrow> d = Continue \<or> (\<exists>r. d = ModifyResult r) \<Longrightarrow>
     passed tool ctx ann hs (args, w') s \<Longrightarrow> passed tool ctx ann (h # hs) (args, w) s"
| pass_new: "hk_pre h tool args ctx ann w = (Some (ModifyArgs args'), w') \<Longrightarrow>
     passed tool ctx ann hs (args', w') s \<Longrightarrow> passed tool ctx ann (h # hs) (args, w) s"

inductive_simps passed_Cons: "passed tool ctx ann (h # hs) (args, w) s'"
inductive_simps passed_Nil [simp]: "passed tool ctx ann [] s s'"

lemma decided_simps [simp]: "decided (Some d) = d" "decided None = timed_out"
  by (simp_all add: decided_def)

lemma run_pre_passed:
  "run_pre hs tool args ctx ann w = (Proceed args', w') \<longleftrightarrow> passed tool ctx ann hs (args, w) (args', w')"
proof (induction hs arbitrary: args w)
  case (Cons h hs)
  obtain d w1 where d: "hk_pre h tool args ctx ann w = (d, w1)" by fastforce
  show ?case
  proof (cases d)
    case None
    then show ?thesis using d by (simp add: timed_out_def passed_Cons)
  next
    case (Some x)
    then show ?thesis using d Cons.IH by (cases x) (simp_all add: passed_Cons)
  qed
qed auto

lemma passed_append:
  "passed tool ctx ann (hs @ ks) s s' \<longleftrightarrow> (\<exists>s1. passed tool ctx ann hs s s1 \<and> passed tool ctx ann ks s1 s')"
proof (induction hs arbitrary: s)
  case (Cons h hs)
  show ?case by (cases s) (simp add: passed_Cons Cons.IH, blast)
qed simp

section \<open>Properties\<close>

text \<open>
  C36: The pipeline fails closed: a call proceeds exactly when every hook, in order, answered in
  time and let it go on, each seeing the arguments its predecessor left; and adding
  hooks can only stop more calls.
\<close>

theorem hooks_fail_closed:
  "(run_pre hs tool args ctx ann w = (Proceed args', w') \<longleftrightarrow> passed tool ctx ann hs (args, w) (args', w')) \<and>
   (run_pre (hs @ ks) tool args ctx ann w = (Proceed args', w') \<longleftrightarrow>
      (\<exists>args1 w1. run_pre hs tool args ctx ann w = (Proceed args1, w1) \<and>
         run_pre ks tool args1 ctx ann w1 = (Proceed args', w')))"
  by (auto simp: run_pre_passed passed_append)

lemma post_block_is_error:
  "hk_post h tool args result ctx w = (None, w') \<Longrightarrow>
     run_post (hs @ [h]) tool args result ctx w =
       (error_msg ''hook timed out: security check failed'', w')"
  by (simp add: run_post_def timed_out_def)

end
