(* ===== verification/Sessions.thy ===== *)
theory Sessions
  imports Taint Interfaces
begin

text \<open>
  The sessions of the gateway, \<open>navra-core/src/session.rs\<close>.  Both backends of the code
  keep a map from identifiers to sessions under a lock; they behave alike, and the map
  is modelled once.  The agent \<open>'a\<close> and the client information \<open>'i\<close> are opaque.
\<close>

section \<open>Sessions\<close>

record ('a, 'i) session =
  se_id :: string
  se_agent :: 'a
  se_client_info :: 'i
  se_initialized :: bool
  se_context_label :: data_label
  se_created_at :: int
  se_last_accessed :: int

type_synonym ('a, 'i) sessions = "(string, ('a, 'i) session) hmap"

definition session_create :: "('a, 'i) session \<Rightarrow> ('a, 'i) sessions \<Rightarrow> ('a, 'i) sessions" where
  "session_create s m = hm_insert (se_id s) s m"

definition session_get :: "string \<Rightarrow> ('a, 'i) sessions \<Rightarrow> ('a, 'i) session option" where
  "session_get i m = hm_get m i"

definition session_remove ::
  "string \<Rightarrow> ('a, 'i) sessions \<Rightarrow> ('a, 'i) sessions \<times> ('a, 'i) session option" where
  "session_remove i m = (hm_remove i m, hm_get m i)"

definition session_count :: "('a, 'i) sessions \<Rightarrow> nat" where
  "session_count m = length m"

definition update_context_label :: "string \<Rightarrow> data_label \<Rightarrow> ('a, 'i) sessions \<Rightarrow> ('a, 'i) sessions" where
  "update_context_label i l m =
     (case hm_get m i of
        Some s \<Rightarrow> hm_insert i (s\<lparr>se_context_label := join (se_context_label s) l\<rparr>) m
      | None \<Rightarrow> m)"

definition context_label :: "string \<Rightarrow> ('a, 'i) sessions \<Rightarrow> data_label" where
  "context_label i m = (case hm_get m i of Some s \<Rightarrow> se_context_label s | None \<Rightarrow> TRUSTED_PUBLIC)"

text \<open>The backend sets the level; the store calls it only to lower it.\<close>

definition backend_declassify :: "string \<Rightarrow> confidentiality \<Rightarrow> ('a, 'i) sessions \<Rightarrow> ('a, 'i) sessions" where
  "backend_declassify i c m =
     (case hm_get m i of
        Some s \<Rightarrow> hm_insert i (s\<lparr>se_context_label := (se_context_label s)\<lparr>confidentiality := c\<rparr>\<rparr>) m
      | None \<Rightarrow> m)"

definition declassify_context_label ::
  "string \<Rightarrow> confidentiality \<Rightarrow> ('a, 'i) sessions \<Rightarrow> ('a, 'i) sessions \<times> data_label" where
  "declassify_context_label i c m =
     (let cur = context_label i m in
      if c < confidentiality cur
      then (let m' = backend_declassify i c m in (m', context_label i m'))
      else (m, cur))"

definition session_touch :: "int \<Rightarrow> string \<Rightarrow> ('a, 'i) sessions \<Rightarrow> ('a, 'i) sessions" where
  "session_touch now i m =
     (case hm_get m i of Some s \<Rightarrow> hm_insert i (s\<lparr>se_last_accessed := now\<rparr>) m | None \<Rightarrow> m)"

definition session_expire :: "int \<Rightarrow> nat \<Rightarrow> ('a, 'i) sessions \<Rightarrow> ('a, 'i) sessions" where
  "session_expire now max_age m = hm_retain (\<lambda>_ s. se_last_accessed s > now - int max_age) m"

definition session_list_all :: "('a, 'i) sessions \<Rightarrow> ('a, 'i) session list" where
  "session_list_all m = map snd m"

text \<open>\<open>McpServer::ensure_session\<close>, for clients that did not initialise one.\<close>

definition ensure_session :: "int \<Rightarrow> string \<Rightarrow> 'a \<Rightarrow> 'i \<Rightarrow> ('a, 'i) sessions \<Rightarrow> ('a, 'i) sessions" where
  "ensure_session now i agent client m =
     (if session_get i m = None then
        session_create \<lparr>se_id = i, se_agent = agent, se_client_info = client, se_initialized = True,
          se_context_label = TRUSTED_PUBLIC, se_created_at = now, se_last_accessed = now\<rparr> m
      else m)"

section \<open>Labels\<close>

lemma context_label_update [simp]:
  "context_label j (update_context_label i l m) =
     (if j = i \<and> hm_get m i \<noteq> None then join (context_label i m) l else context_label j m)"
  by (auto simp: context_label_def update_context_label_def split: option.split)

lemma context_label_declassify [simp]:
  "context_label j (fst (declassify_context_label i c m)) =
     (if j = i \<and> c < confidentiality (context_label i m) \<and> hm_get m i \<noteq> None
      then (context_label i m)\<lparr>confidentiality := c\<rparr> else context_label j m)"
  by (auto simp: context_label_def declassify_context_label_def backend_declassify_def Let_def split: option.split)

lemma context_label_touch [simp]: "context_label j (session_touch now i m) = context_label j m"
  by (auto simp: context_label_def session_touch_def split: option.split)

lemma ensured: "hm_get (ensure_session now i agent client m) i \<noteq> None"
  by (auto simp: ensure_session_def session_get_def session_create_def)

lemma context_label_ensure [simp]:
  "context_label j (ensure_session now i agent client m) = context_label j m"
  by (auto simp: context_label_def ensure_session_def session_get_def session_create_def split: option.split)

end
