(* ===== verification/Pseudonym.thy ===== *)
theory Pseudonym
  imports Prelude
begin

text \<open>
  Pseudonyms for personal data, \<open>navra-safety/src/pseudonym.rs\<close>: the mapping from real
  values to names like \<open>Person_A\<close>, one counter per prefix, and the reverser for audits.
  Counters stay below \<open>2^64\<close>; the two read-write locks make every call one step.
\<close>

section \<open>Names\<close>

definition category_prefix :: "string \<Rightarrow> string" where
  "category_prefix category =
     (if category = ''person'' then ''Person''
      else if category = ''location'' then ''Location''
      else if category = ''organization'' then ''Organization''
      else if category = ''email'' then ''Email''
      else if category = ''phone'' \<or> category = ''phone-eu'' then ''Phone''
      else if category = ''ssn'' \<or> category = ''nir'' then ''ID''
      else if category = ''credit-card'' \<or> category = ''iban'' then ''Account''
      else if category = ''ip-address'' then ''Address''
      else if category = ''username'' then ''User''
      else if category = ''demographic'' then ''Demographic''
      else if category = ''misc-entity'' then ''Entity''
      else ''Item'')"

definition letter :: "nat \<Rightarrow> char" where
  "letter n = char_of (65 + n)"

fun suffix_loop :: "nat \<Rightarrow> string \<Rightarrow> string" where
  "suffix_loop remaining result =
     (let result' = letter (remaining mod 26) # result in
      if remaining < 26 then result' else suffix_loop (remaining div 26 - 1) result')"

declare suffix_loop.simps [simp del]

definition counter_to_suffix :: "nat \<Rightarrow> string" where
  "counter_to_suffix n = (if n < 26 then [letter n] else suffix_loop n [])"

section \<open>The map\<close>

record pseudonym_map =
  pm_mapping :: "(string, string) hmap"
  pm_counters :: "(string, nat) hmap"

definition pseudonym_map_new :: pseudonym_map where
  "pseudonym_map_new = \<lparr>pm_mapping = [], pm_counters = []\<rparr>"

definition get_or_create :: "string \<Rightarrow> string \<Rightarrow> pseudonym_map \<Rightarrow> pseudonym_map \<times> string" where
  "get_or_create real_value category m =
     (case hm_get (pm_mapping m) real_value of
        Some pseudo \<Rightarrow> (m, pseudo)
      | None \<Rightarrow>
          (let prefix = category_prefix category;
               counter = (case hm_get (pm_counters m) prefix of Some n \<Rightarrow> n | None \<Rightarrow> 0);
               pseudonym = prefix @ ''_'' @ counter_to_suffix counter
           in (\<lparr>pm_mapping = hm_insert real_value pseudonym (pm_mapping m),
                pm_counters = hm_insert prefix (counter + 1) (pm_counters m)\<rparr>, pseudonym)))"

definition extract_reverser :: "pseudonym_map \<Rightarrow> (string, string) hmap" where
  "extract_reverser m = fold (\<lambda>(real, pseudo). hm_insert pseudo real) (pm_mapping m) []"

definition reverser_resolve :: "(string, string) hmap \<Rightarrow> string \<Rightarrow> string option" where
  "reverser_resolve rv pseudonym = hm_get rv pseudonym"

text \<open>The values of a text, one after the other.\<close>

fun pseudonym_run :: "(string \<times> string) list \<Rightarrow> pseudonym_map \<Rightarrow> pseudonym_map \<times> string list" where
  "pseudonym_run [] m = (m, [])"
| "pseudonym_run ((real, category) # calls) m =
     (let (m', p) = get_or_create real category m;
          (m'', ps) = pseudonym_run calls m'
      in (m'', p # ps))"

section \<open>Different names\<close>

lemma suffix_loop_acc: "suffix_loop n acc = suffix_loop n [] @ acc"
proof (induction n arbitrary: acc rule: less_induct)
  case (less n)
  show ?case
  proof (cases "n < 26")
    case False
    then have small: "n div 26 - 1 < n" by linarith
    have "suffix_loop n acc = suffix_loop (n div 26 - 1) (letter (n mod 26) # acc)"
      using False by (subst suffix_loop.simps) (simp add: Let_def)
    also have "\<dots> = suffix_loop (n div 26 - 1) [] @ letter (n mod 26) # acc"
      by (rule less.IH[OF small])
    also have "\<dots> = suffix_loop (n div 26 - 1) [letter (n mod 26)] @ acc"
      using less.IH[OF small, of "[letter (n mod 26)]"] by simp
    also have "\<dots> = suffix_loop n [] @ acc"
      using False by (subst (2) suffix_loop.simps) (simp add: Let_def)
    finally show ?thesis .
  qed (simp add: suffix_loop.simps Let_def)
qed

definition suffix_number :: "string \<Rightarrow> nat" where
  "suffix_number = foldl (\<lambda>a c. a * 26 + (of_char c - 64)) 0"

lemma letter_number: "n < 26 \<Longrightarrow> of_char (letter n) - (64::nat) = n + 1"
  by (simp add: letter_def)

lemma suffix_number_loop: "suffix_number (suffix_loop n []) = n + 1"
proof (induction n rule: less_induct)
  case (less n)
  show ?case
  proof (cases "n < 26")
    case True
    then show ?thesis by (simp add: suffix_loop.simps suffix_number_def letter_number del: One_nat_def)
  next
    case False
    then have "suffix_loop n [] = suffix_loop (n div 26 - 1) [] @ [letter (n mod 26)]"
      using suffix_loop_acc[of "n div 26 - 1" "[letter (n mod 26)]"]
      by (subst suffix_loop.simps) (simp add: Let_def)
    moreover have "suffix_number (suffix_loop (n div 26 - 1) []) = n div 26 - 1 + 1"
      using False by (intro less.IH) linarith
    ultimately have "suffix_number (suffix_loop n []) = (n div 26) * 26 + (n mod 26 + 1)"
      using False letter_number[of "n mod 26"] by (simp add: suffix_number_def)
    then show ?thesis by simp
  qed
qed

lemma counter_to_suffix_loop: "counter_to_suffix n = suffix_loop n []"
proof (cases "n < 26")
  case True
  then show ?thesis by (subst suffix_loop.simps) (simp add: counter_to_suffix_def)
qed (simp add: counter_to_suffix_def)

lemma counter_to_suffix_inj: "counter_to_suffix m = counter_to_suffix n \<Longrightarrow> m = n"
  by (metis add_right_imp_eq counter_to_suffix_loop suffix_number_loop)

lemma if_both: "Q x \<Longrightarrow> Q y \<Longrightarrow> Q (if b then x else y)"
  by (cases b) (simp_all only: if_True if_False)

lemma prefix_plain: "CHR ''_'' \<notin> set (category_prefix c)"
  unfolding category_prefix_def
  by (intro if_both[where Q = "\<lambda>s. CHR ''_'' \<notin> set s"]) simp_all

lemma name_inj:
  assumes "category_prefix c @ ''_'' @ counter_to_suffix m = category_prefix d @ ''_'' @ counter_to_suffix n"
  shows "category_prefix c = category_prefix d \<and> m = n"
proof -
  have "category_prefix c @ CHR ''_'' # counter_to_suffix m = category_prefix d @ CHR ''_'' # counter_to_suffix n"
    using assms by simp
  from cut_unique[OF prefix_plain prefix_plain this] show ?thesis using counter_to_suffix_inj by blast
qed

section \<open>The invariant\<close>

definition counted :: "pseudonym_map \<Rightarrow> string \<Rightarrow> bool" where
  "counted m pseudo \<longleftrightarrow>
     (\<exists>c k n. pseudo = category_prefix c @ ''_'' @ counter_to_suffix k
        \<and> hm_get (pm_counters m) (category_prefix c) = Some n \<and> k < n)"

definition pm_ok :: "pseudonym_map \<Rightarrow> bool" where
  "pm_ok m \<longleftrightarrow> hm_wf (pm_mapping m) \<and> distinct (map snd (pm_mapping m))
     \<and> (\<forall>p\<in>snd ` set (pm_mapping m). counted m p)"

lemma update_new: "hm_get m k = None \<Longrightarrow> hm_insert k v m = m @ [(k, v)]"
  by (induction m) (auto split: if_splits)

lemma get_or_create_new:
  assumes "hm_get (pm_mapping m) r = None"
  obtains p n where "get_or_create r c m =
      (\<lparr>pm_mapping = pm_mapping m @ [(r, p)],
        pm_counters = hm_insert (category_prefix c) (n + 1) (pm_counters m)\<rparr>, p)"
    "p = category_prefix c @ ''_'' @ counter_to_suffix n"
    "n = (case hm_get (pm_counters m) (category_prefix c) of Some n \<Rightarrow> n | None \<Rightarrow> 0)"
  using assms by (simp add: get_or_create_def Let_def update_new)

lemma get_or_create_ok:
  assumes ok: "pm_ok m"
  shows "pm_ok (fst (get_or_create r c m)) \<and>
    hm_get (pm_mapping (fst (get_or_create r c m))) = (hm_get (pm_mapping m))(r \<mapsto> snd (get_or_create r c m))"
proof (cases "hm_get (pm_mapping m) r")
  case (Some p)
  then show ?thesis using ok by (simp add: get_or_create_def fun_upd_idem)
next
  case None
  then obtain p n where step: "get_or_create r c m =
      (\<lparr>pm_mapping = pm_mapping m @ [(r, p)],
        pm_counters = hm_insert (category_prefix c) (n + 1) (pm_counters m)\<rparr>, p)"
    and p: "p = category_prefix c @ ''_'' @ counter_to_suffix n"
    and n: "n = (case hm_get (pm_counters m) (category_prefix c) of Some n \<Rightarrow> n | None \<Rightarrow> 0)"
    by (rule get_or_create_new)
  define m' where "m' = fst (get_or_create r c m)"
  have m': "pm_mapping m' = pm_mapping m @ [(r, p)]"
    "pm_counters m' = hm_insert (category_prefix c) (n + 1) (pm_counters m)"
    by (simp_all add: m'_def step)
  have fresh: "p \<notin> snd ` set (pm_mapping m)"
  proof
    assume "p \<in> snd ` set (pm_mapping m)"
    then have "counted m p" using ok by (auto simp: pm_ok_def)
    then obtain d k l where q: "p = category_prefix d @ ''_'' @ counter_to_suffix k"
      "hm_get (pm_counters m) (category_prefix d) = Some l" "k < l" unfolding counted_def by blast
    have same: "category_prefix c = category_prefix d \<and> n = k"
      by (rule name_inj) (use p q(1) in simp)
    then have "n = l" unfolding n by (simp only: q(2) option.case)
    then show False using same q(3) by simp
  qed
  have "counted m' q" if old: "counted m q" for q
  proof -
    obtain d k l where q: "q = category_prefix d @ ''_'' @ counter_to_suffix k"
      "hm_get (pm_counters m) (category_prefix d) = Some l" "k < l" using old unfolding counted_def by blast
    have "\<exists>l'. hm_get (pm_counters m') (category_prefix d) = Some l' \<and> k < l'"
      using q n by (cases "category_prefix d = category_prefix c") (simp_all add: m')
    then show ?thesis using q(1) unfolding counted_def by blast
  qed
  moreover have "counted m' p" unfolding counted_def by (rule exI[of _ c], rule exI[of _ n], simp add: m' p)
  moreover have "hm_wf (pm_mapping m')" using ok None by (auto simp: m' pm_ok_def hm_wf_def map_of_eq_None_iff)
  ultimately have "pm_ok m'" using ok fresh by (auto simp: pm_ok_def m')
  moreover have "hm_get (pm_mapping m') = (hm_get (pm_mapping m))(r \<mapsto> p)"
    using None by (auto simp: m' map_add_def fun_eq_iff split: option.splits)
  ultimately show ?thesis by (simp add: m'_def step)
qed

lemma pseudonym_run_ok:
  "pm_ok m \<Longrightarrow> pseudonym_run calls m = (m', ps) \<Longrightarrow>
     pm_ok m' \<and> hm_get (pm_mapping m) \<subseteq>\<^sub>m hm_get (pm_mapping m') \<and>
     map (hm_get (pm_mapping m')) (map fst calls) = map Some ps"
proof (induction calls arbitrary: m ps)
  case (Cons call calls)
  obtain r c where call: "call = (r, c)" by fastforce
  obtain m1 p where g: "get_or_create r c m = (m1, p)" by fastforce
  obtain ps' where run: "pseudonym_run calls m1 = (m', ps')" and ps: "ps = p # ps'"
    using Cons.prems(2) by (auto simp: call g split: prod.splits)
  have m1: "pm_ok m1" "hm_get (pm_mapping m1) = (hm_get (pm_mapping m))(r \<mapsto> p)"
    using get_or_create_ok[OF Cons.prems(1), of r c] by (simp_all add: g)
  note IH = Cons.IH[OF m1(1) run]
  have "hm_get (pm_mapping m) r \<in> {None, Some p}"
    using g by (cases "hm_get (pm_mapping m) r") (simp_all add: get_or_create_def)
  then have "hm_get (pm_mapping m) \<subseteq>\<^sub>m hm_get (pm_mapping m1)"
    by (auto simp: m1(2) map_le_def)
  moreover have "hm_get (pm_mapping m') r = Some p"
    using IH m1(2) by (auto simp: map_le_def dom_def)
  ultimately show ?case using IH by (auto simp: call ps intro: map_le_trans)
qed simp

lemma reverser_fold:
  "distinct (map snd es) \<Longrightarrow> (r, p) \<in> set es \<Longrightarrow> hm_get (fold (\<lambda>(real, pseudo). hm_insert pseudo real) es acc) p = Some r"
proof (induction es arbitrary: acc)
  case (Cons e es)
  have keep: "q \<notin> snd ` set es \<Longrightarrow>
      hm_get (fold (\<lambda>(real, pseudo). hm_insert pseudo real) es acc) q = hm_get acc q" for q acc
    by (induction es arbitrary: acc) auto
  show ?case using Cons keep[of p] by (cases e) force
qed simp

lemma reverser_inverse:
  assumes "pm_ok m" "hm_get (pm_mapping m) r = Some p"
  shows "reverser_resolve (extract_reverser m) p = Some r"
  using assms reverser_fold[of "pm_mapping m" r p "[]"] map_of_SomeD[of "pm_mapping m" r p]
  by (simp add: pm_ok_def reverser_resolve_def extract_reverser_def)

text \<open>
  C39: Pseudonyms are consistent and reversible: whatever values are replaced in whatever
  order, one renaming gives all the pseudonyms, and the reverser leads every one of
  them back to the value it stands for, so no two values share a pseudonym.
\<close>

theorem pseudonyms_reversible:
  "case pseudonym_run calls pseudonym_map_new of (m, ps) \<Rightarrow>
     (\<exists>f. ps = map (f \<circ> fst) calls) \<and>
     map (reverser_resolve (extract_reverser m)) ps = map (Some \<circ> fst) calls"
proof -
  obtain m ps where run: "pseudonym_run calls pseudonym_map_new = (m, ps)" by fastforce
  have "pm_ok pseudonym_map_new" by (simp add: pm_ok_def pseudonym_map_new_def)
  from pseudonym_run_ok[OF this run] have ok: "pm_ok m"
    and names: "map (hm_get (pm_mapping m)) (map fst calls) = map Some ps" by blast+
  have len: "length ps = length calls" using arg_cong[OF names, of length] by simp
  have each: "hm_get (pm_mapping m) (fst (calls ! i)) = Some (ps ! i)" if "i < length calls" for i
    using arg_cong[OF names, of "\<lambda>xs. xs ! i"] that len by simp
  have "ps = map ((\<lambda>r. the (hm_get (pm_mapping m) r)) \<circ> fst) calls"
    using each len by (intro nth_equalityI) simp_all
  moreover have "map (reverser_resolve (extract_reverser m)) ps = map (Some \<circ> fst) calls"
    using each len reverser_inverse[OF ok] by (intro nth_equalityI) simp_all
  ultimately show ?thesis by (auto simp: run)
qed

end
