(* ===== verification/Safety.thy ===== *)
theory Safety
  imports Labels Pseudonym Truncate "HOL-Library.Product_Lexorder"
begin

text \<open>
  Content filtering, \<open>navra-safety/src/lib.rs\<close>: findings, the actions on them, redaction
  and pseudonymisation of the spans, the metrics, and the recommendation to lower a label
  after full redaction.

  Filters are functions from the text and its context to findings; the two kinds of
  filter differ only in being awaited.  Confidences are \<open>f32\<close>, a type parameter with its
  two comparisons.  Slicing a text with its ends in the wrong order panics, which is \<open>None\<close>.
\<close>

section \<open>Categories\<close>

definition PII_CATEGORIES :: "string list" where
  "PII_CATEGORIES =
     [''ssn'', ''credit-card'', ''phone'', ''email'', ''person'', ''location'', ''organization'',
      ''misc-entity'', ''identity-document'', ''ip-address'', ''temporal-pii'', ''username'',
      ''password'', ''demographic'', ''path-username'', ''address'', ''date'', ''secret'', ''url'',
      ''account-number'', ''credit-card'', ''vehicle-id'', ''device-fingerprint'']"

definition is_pii_category :: "string list \<Rightarrow> string \<Rightarrow> bool" where
  "is_pii_category custom category \<longleftrightarrow> category \<in> set PII_CATEGORIES \<or> category \<in> set custom"

definition register_pii_categories :: "string list \<Rightarrow> string list \<Rightarrow> string list" where
  "register_pii_categories categories custom =
     fold (\<lambda>cat custom. if cat \<notin> set PII_CATEGORIES \<and> cat \<notin> set custom then custom @ [cat] else custom)
       categories custom"

section \<open>Findings and actions\<close>

record 'c finding =
  f_start :: nat
  f_end :: nat
  f_category :: string
  f_confidence :: 'c

record 'c f32_ops =
  fl_less :: "'c \<Rightarrow> 'c \<Rightarrow> bool"
  fl_ge :: "'c \<Rightarrow> 'c \<Rightarrow> bool"
  fl_zero :: 'c

datatype filter_action = PassAction | RedactAction | PseudonymizeAction | BlockAction

record declassification =
  dc_new_confidentiality :: "confidentiality option"
  dc_action :: filter_action
  dc_findings_count :: nat
  dc_all_handled :: bool
  dc_reason :: string

text \<open>Arrow, dash and section sign of the messages in UTF-8.\<close>

definition utf8_arrow :: string where "utf8_arrow = [CHR 0xE2, CHR 0x86, CHR 0x92]"
definition utf8_dash :: string where "utf8_dash = [CHR 0xE2, CHR 0x80, CHR 0x94]"

definition from_filter_result :: "filter_action \<Rightarrow> nat \<Rightarrow> bool \<Rightarrow> declassification" where
  "from_filter_result action findings_count all_handled =
     (let (new_conf, reason) =
        (case action of
           RedactAction \<Rightarrow>
             if findings_count > 0 \<and> all_handled then
               (Some Sensitive,
                ''Full redaction: '' @ show_nat findings_count @
                '' PII findings replaced with [REDACTED] markers. '' @
                ''Structural metadata retained (markers reveal PII existed). '' @
                ''Declassified Pii '' @ utf8_arrow @ '' Sensitive.'')
             else if findings_count > 0 \<and> \<not> all_handled then
               (None,
                ''Partial redaction: not all '' @ show_nat findings_count @ '' findings were handled. '' @
                ''Declassification denied '' @ utf8_dash @ '' raw PII may remain.'')
             else (None, ''No PII findings detected.'')
         | PseudonymizeAction \<Rightarrow>
             (None,
              ''Pseudonymization: '' @ show_nat findings_count @
              '' findings replaced with pseudonyms. No declassification '' @ utf8_dash @
              '' pseudonymized data is still personal data under GDPR Article 4(5) (reversible with key).'')
         | PassAction \<Rightarrow> (None, ''No filtering applied. Label unchanged.'')
         | BlockAction \<Rightarrow> (None, ''Content blocked. No declassification needed.''))
      in \<lparr>dc_new_confidentiality = new_conf, dc_action = action, dc_findings_count = findings_count,
          dc_all_handled = all_handled, dc_reason = reason\<rparr>)"

definition recommends_declassification :: "declassification \<Rightarrow> confidentiality option" where
  "recommends_declassification d = (if dc_all_handled d then dc_new_confidentiality d else None)"

type_synonym declassification_ledger = "declassification list"

definition ledger_record :: "declassification \<Rightarrow> declassification_ledger \<Rightarrow> declassification_ledger" where
  "ledger_record r l = l @ [r]"

definition ledger_drain :: "declassification_ledger \<Rightarrow> declassification_ledger \<times> declassification list" where
  "ledger_drain l = ([], l)"

section \<open>Metrics\<close>

record pii_metrics =
  pm_total_scans :: nat
  pm_pii_detected :: nat
  pm_pii_redacted :: nat
  pm_pii_blocked :: nat
  pm_by_category :: "(string, nat) hmap"

definition metrics_new :: pii_metrics where
  "metrics_new = \<lparr>pm_total_scans = 0, pm_pii_detected = 0, pm_pii_redacted = 0, pm_pii_blocked = 0,
     pm_by_category = []\<rparr>"

definition count_category :: "string \<Rightarrow> (string, nat) hmap \<Rightarrow> (string, nat) hmap" where
  "count_category cat m =
     hm_insert cat ((case hm_get m cat of Some n \<Rightarrow> n | None \<Rightarrow> 0) + 1) m"

definition metrics_record ::
  "string list \<Rightarrow> 'c finding list \<Rightarrow> filter_action \<Rightarrow> pii_metrics \<Rightarrow> pii_metrics" where
  "metrics_record custom findings action m =
     (let m1 = m\<lparr>pm_total_scans := wrap_u64 (pm_total_scans m + 1)\<rparr>;
          pii = filter (\<lambda>f. is_pii_category custom (f_category f)) findings
      in if pii = [] then m1
         else
           (let m2 = m1\<lparr>pm_pii_detected := wrap_u64 (pm_pii_detected m1 + length pii)\<rparr>;
                m3 = (case action of
                        RedactAction \<Rightarrow> m2\<lparr>pm_pii_redacted := wrap_u64 (pm_pii_redacted m2 + length pii)\<rparr>
                      | PseudonymizeAction \<Rightarrow> m2\<lparr>pm_pii_redacted := wrap_u64 (pm_pii_redacted m2 + length pii)\<rparr>
                      | BlockAction \<Rightarrow> m2\<lparr>pm_pii_blocked := wrap_u64 (pm_pii_blocked m2 + length pii)\<rparr>
                      | PassAction \<Rightarrow> m2)
            in m3\<lparr>pm_by_category := fold (\<lambda>f. count_category (f_category f)) pii (pm_by_category m3)\<rparr>))"

definition metrics_snapshot :: "pii_metrics \<Rightarrow> pii_metrics" where
  "metrics_snapshot m = m"

definition metrics_reset :: "pii_metrics \<Rightarrow> pii_metrics" where
  "metrics_reset m = metrics_new"

section \<open>Rewriting the spans\<close>

definition snap_to_char_boundary :: "string \<Rightarrow> nat \<Rightarrow> nat" where
  "snap_to_char_boundary s pos = back_to_boundary s (min pos (length s))"

definition str_slice :: "string \<Rightarrow> nat \<Rightarrow> nat \<Rightarrow> string" where
  "str_slice s a b = take (b - a) (drop a s)"

definition sort_findings :: "'c finding list \<Rightarrow> 'c finding list" where
  "sort_findings = sort_key (\<lambda>f. (f_start f, - int (f_end f)))"

definition marker :: "string \<Rightarrow> string" where
  "marker category = ''[REDACTED:'' @ category @ '']''"

definition redact_step ::
  "'c f32_ops \<Rightarrow> 'c \<Rightarrow> string \<Rightarrow> 'c finding \<Rightarrow> string \<times> nat \<Rightarrow> string \<times> nat" where
  "redact_step ops threshold content f acc =
     (let (result, pos) = acc in
      if fl_less ops (f_confidence f) threshold then (result, pos)
      else
        (let start = snap_to_char_boundary content (f_start f);
             fin = snap_to_char_boundary content (f_end f)
         in if start < pos then (result, pos)
            else
              ((if start > pos then result @ str_slice content pos start else result) @ marker (f_category f),
               fin)))"

definition redact :: "'c f32_ops \<Rightarrow> string \<Rightarrow> 'c finding list \<Rightarrow> 'c \<Rightarrow> string" where
  "redact ops content findings threshold =
     (if findings = [] then content
      else
        (let (result, pos) = fold (redact_step ops threshold content) (sort_findings findings) ([], 0)
         in if pos < length content then result @ drop pos content else result))"

fun pseudonymize_loop ::
  "string \<Rightarrow> 'c finding list \<Rightarrow> pseudonym_map \<Rightarrow> string \<Rightarrow> nat \<Rightarrow> (pseudonym_map \<times> string) option" where
  "pseudonymize_loop content [] pmap result pos =
     Some (pmap, if pos < length content then result @ drop pos content else result)"
| "pseudonymize_loop content (f # fs) pmap result pos =
     (let start = snap_to_char_boundary content (f_start f);
          fin = snap_to_char_boundary content (f_end f)
      in if start < pos then pseudonymize_loop content fs pmap result pos
         else if fin < start then None
         else
           (let (pmap', pseudonym) = get_or_create (str_slice content start fin) (f_category f) pmap
            in pseudonymize_loop content fs pmap'
                 ((if start > pos then result @ str_slice content pos start else result) @ pseudonym) fin))"

definition pseudonymize ::
  "string \<Rightarrow> 'c finding list \<Rightarrow> pseudonym_map \<Rightarrow> (pseudonym_map \<times> string) option" where
  "pseudonymize content findings pmap =
     (if findings = [] then Some (pmap, content)
      else pseudonymize_loop content (sort_findings findings) pmap [] 0)"

text \<open>The findings are sorted in place where they are replaced.\<close>

definition apply_action ::
  "'c f32_ops \<Rightarrow> filter_action \<Rightarrow> string \<Rightarrow> 'c finding list \<Rightarrow> pseudonym_map \<Rightarrow> 'c
     \<Rightarrow> (pseudonym_map \<times> (string + string) \<times> 'c finding list) option" where
  "apply_action ops action content findings pmap threshold =
     (case action of
        PassAction \<Rightarrow> Some (pmap, Inr content, findings)
      | BlockAction \<Rightarrow> Some (pmap, Inl ''Content blocked by security policy'', findings)
      | RedactAction \<Rightarrow> Some (pmap, Inr (redact ops content findings threshold), sort_findings findings)
      | PseudonymizeAction \<Rightarrow>
          (case pseudonymize content findings pmap of
             None \<Rightarrow> None
           | Some (pmap', out) \<Rightarrow> Some (pmap', Inr out, sort_findings findings)))"

section \<open>The pipeline\<close>

record filter_context =
  fc_agent_name :: string
  fc_operation :: string
  fc_path :: "string option"

type_synonym 'c content_filter = "string \<Rightarrow> filter_context \<Rightarrow> 'c finding list"

record 'c filter_pipeline =
  fp_filters :: "'c content_filter list"
  fp_model_filters :: "'c content_filter list"
  fp_action :: filter_action
  fp_pseudonym_map :: pseudonym_map
  fp_metrics :: "pii_metrics option"
  fp_redaction_threshold :: 'c

definition with_pseudonym_map :: "'c f32_ops \<Rightarrow> filter_action \<Rightarrow> pseudonym_map \<Rightarrow> 'c filter_pipeline" where
  "with_pseudonym_map ops action pmap =
     \<lparr>fp_filters = [], fp_model_filters = [], fp_action = action, fp_pseudonym_map = pmap,
      fp_metrics = None, fp_redaction_threshold = fl_zero ops\<rparr>"

definition pipeline_new :: "'c f32_ops \<Rightarrow> filter_action \<Rightarrow> 'c filter_pipeline" where
  "pipeline_new ops action = with_pseudonym_map ops action pseudonym_map_new"

definition set_redaction_threshold :: "'c \<Rightarrow> 'c filter_pipeline \<Rightarrow> 'c filter_pipeline" where
  "set_redaction_threshold threshold p = p\<lparr>fp_redaction_threshold := threshold\<rparr>"

definition all_findings_handled :: "'c f32_ops \<Rightarrow> 'c filter_pipeline \<Rightarrow> 'c finding list \<Rightarrow> bool" where
  "all_findings_handled ops p findings \<longleftrightarrow>
     list_all (\<lambda>f. fl_ge ops (f_confidence f) (fp_redaction_threshold p)) findings"

definition set_metrics :: "pii_metrics \<Rightarrow> 'c filter_pipeline \<Rightarrow> 'c filter_pipeline" where
  "set_metrics m p = p\<lparr>fp_metrics := Some m\<rparr>"

definition add_filter :: "'c content_filter \<Rightarrow> 'c filter_pipeline \<Rightarrow> 'c filter_pipeline" where
  "add_filter f p = p\<lparr>fp_filters := fp_filters p @ [f]\<rparr>"

definition add_model_filter :: "'c content_filter \<Rightarrow> 'c filter_pipeline \<Rightarrow> 'c filter_pipeline" where
  "add_model_filter f p = p\<lparr>fp_model_filters := fp_model_filters p @ [f]\<rparr>"

definition has_filters :: "'c filter_pipeline \<Rightarrow> bool" where
  "has_filters p \<longleftrightarrow> fp_filters p \<noteq> [] \<or> fp_model_filters p \<noteq> []"

definition no_filters :: "'c filter_pipeline \<Rightarrow> bool" where
  "no_filters p \<longleftrightarrow> fp_filters p = [] \<and> fp_model_filters p = []"

definition scan_sync :: "'c filter_pipeline \<Rightarrow> string \<Rightarrow> filter_context \<Rightarrow> 'c finding list" where
  "scan_sync p content ctx = concat (map (\<lambda>f. f content ctx) (fp_filters p))"

definition note_metrics :: "string list \<Rightarrow> 'c finding list \<Rightarrow> 'c filter_pipeline \<Rightarrow> 'c filter_pipeline" where
  "note_metrics custom findings p =
     (case fp_metrics p of
        None \<Rightarrow> p
      | Some m \<Rightarrow> p\<lparr>fp_metrics := Some (metrics_record custom findings (fp_action p) m)\<rparr>)"

definition act_on ::
  "'c f32_ops \<Rightarrow> string \<Rightarrow> 'c finding list \<Rightarrow> 'c filter_pipeline
     \<Rightarrow> ('c filter_pipeline \<times> (string + string) \<times> 'c finding list) option" where
  "act_on ops content findings p =
     (case apply_action ops (fp_action p) content findings (fp_pseudonym_map p) (fp_redaction_threshold p) of
        None \<Rightarrow> None
      | Some (pmap, out, findings') \<Rightarrow> Some (p\<lparr>fp_pseudonym_map := pmap\<rparr>, out, findings'))"

definition run_pipeline_with_findings ::
  "'c f32_ops \<Rightarrow> string list \<Rightarrow> string \<Rightarrow> filter_context \<Rightarrow> bool \<Rightarrow> 'c filter_pipeline
     \<Rightarrow> ('c filter_pipeline \<times> (string + string) \<times> 'c finding list) option" where
  "run_pipeline_with_findings ops custom content ctx include_sync p =
     (if fp_action p = PassAction \<or> no_filters p then Some (p, Inr content, [])
      else
        (let findings = (if include_sync then scan_sync p content ctx else [])
         in if include_sync \<and> findings \<noteq> [] \<and> fp_action p = BlockAction
            then act_on ops content findings (note_metrics custom findings p)
            else
              (let all = findings @ concat (map (\<lambda>f. f content ctx) (fp_model_filters p));
                   p' = note_metrics custom all p
               in if all = [] then Some (p', Inr content, []) else act_on ops content all p')))"

definition run_pipeline ::
  "'c f32_ops \<Rightarrow> string list \<Rightarrow> string \<Rightarrow> filter_context \<Rightarrow> bool \<Rightarrow> 'c filter_pipeline
     \<Rightarrow> ('c filter_pipeline \<times> (string + string)) option" where
  "run_pipeline ops custom content ctx include_sync p =
     (if fp_action p = PassAction \<or> no_filters p then Some (p, Inr content)
      else
        (let findings = (if include_sync then scan_sync p content ctx else [])
         in if include_sync \<and> findings \<noteq> [] \<and> fp_action p = BlockAction
            then map_option (\<lambda>(p', out, _). (p', out)) (act_on ops content findings (note_metrics custom findings p))
            else
              (let all = findings @ concat (map (\<lambda>f. f content ctx) (fp_model_filters p));
                   p' = note_metrics custom all p
               in if all = [] then Some (p', Inr content)
                  else map_option (\<lambda>(p', out, _). (p', out)) (act_on ops content all p'))))"

definition process_outbound ::
  "'c f32_ops \<Rightarrow> string list \<Rightarrow> string \<Rightarrow> filter_context \<Rightarrow> 'c filter_pipeline
     \<Rightarrow> ('c filter_pipeline \<times> (string + string)) option" where
  "process_outbound ops custom content ctx p = run_pipeline ops custom content ctx True p"

definition process_inbound ::
  "'c f32_ops \<Rightarrow> string list \<Rightarrow> string \<Rightarrow> filter_context \<Rightarrow> 'c filter_pipeline
     \<Rightarrow> ('c filter_pipeline \<times> (string + string)) option" where
  "process_inbound ops custom content ctx p = run_pipeline ops custom content ctx True p"

definition process_outbound_with_findings ::
  "'c f32_ops \<Rightarrow> string list \<Rightarrow> string \<Rightarrow> filter_context \<Rightarrow> 'c filter_pipeline
     \<Rightarrow> ('c filter_pipeline \<times> (string + string) \<times> 'c finding list) option" where
  "process_outbound_with_findings ops custom content ctx p =
     run_pipeline_with_findings ops custom content ctx True p"

definition process_with_declassification ::
  "'c f32_ops \<Rightarrow> string list \<Rightarrow> string \<Rightarrow> filter_context \<Rightarrow> 'c filter_pipeline
     \<Rightarrow> ('c filter_pipeline \<times> (string + string) \<times> declassification) option" where
  "process_with_declassification ops custom content ctx p =
     (case run_pipeline_with_findings ops custom content ctx True p of
        None \<Rightarrow> None
      | Some (p', result, findings) \<Rightarrow>
          (let all_handled = ((case result of Inr _ \<Rightarrow> True | Inl _ \<Rightarrow> False)
                              \<and> all_findings_handled ops p' findings)
           in Some (p', result, from_filter_result (fp_action p') (length findings) all_handled)))"

definition process_text ::
  "'c f32_ops \<Rightarrow> string list \<Rightarrow> string \<Rightarrow> filter_context \<Rightarrow> 'c filter_pipeline
     \<Rightarrow> ('c filter_pipeline \<times> (string + string)) option" where
  "process_text ops custom content ctx p =
     (if fp_action p = PassAction \<or> no_filters p then Some (p, Inr content)
      else
        (let findings = scan_sync p content ctx;
             p' = note_metrics custom findings p
         in if findings = [] then Some (p', Inr content)
            else map_option (\<lambda>(p', out, _). (p', out)) (act_on ops content findings p')))"

section \<open>Profiles\<close>

text \<open>\<open>mk\<close> gives the filter of a name; the pattern catalogues are its business.\<close>

definition add_all_regex_filters :: "(string \<Rightarrow> 'c content_filter) \<Rightarrow> 'c filter_pipeline \<Rightarrow> 'c filter_pipeline" where
  "add_all_regex_filters mk p =
     fold (\<lambda>n. add_filter (mk n))
       [''SecretFilter'', ''PiiFilter'', ''PathPiiFilter'', ''SsrfFilter'', ''ExfilDetectionFilter'',
        ''ContextPoisoningFilter'', ''PromptInjectionFilter'', ''TieredInjectionFilter''] p"

definition build_pipeline ::
  "'c f32_ops \<Rightarrow> (string \<Rightarrow> 'c content_filter) \<Rightarrow> string \<Rightarrow> 'c filter_pipeline" where
  "build_pipeline ops mk profile =
     (if profile = ''standard'' then add_all_regex_filters mk (pipeline_new ops RedactAction)
      else if profile = ''pseudonymize'' then add_all_regex_filters mk (pipeline_new ops PseudonymizeAction)
      else if profile = ''secrets-only'' then add_filter (mk ''SecretFilter'') (pipeline_new ops RedactAction)
      else if profile = ''block'' then add_all_regex_filters mk (pipeline_new ops BlockAction)
      else if profile = ''guardian'' \<or> profile = ''guardian-deep''
      then add_all_regex_filters mk (pipeline_new ops RedactAction)
      else if profile = ''multi-label'' then add_all_regex_filters mk (pipeline_new ops BlockAction)
      else if profile = ''none'' \<or> profile = [] then pipeline_new ops PassAction
      else add_all_regex_filters mk (pipeline_new ops RedactAction))"

section \<open>What redaction leaves\<close>

datatype piece = Kept nat nat | Marked string

fun render :: "string \<Rightarrow> piece \<Rightarrow> string" where
  "render content (Kept a b) = str_slice content a b"
| "render content (Marked c) = marker c"

fun kept :: "piece \<Rightarrow> nat list" where
  "kept (Kept a b) = [a..<b]"
| "kept (Marked c) = []"

definition clear :: "'c finding set \<Rightarrow> nat \<Rightarrow> bool" where
  "clear F i \<longleftrightarrow> (\<forall>f\<in>F. \<not> (f_start f \<le> i \<and> i < f_end f))"

text \<open>A span of whole characters of the text.\<close>

definition placed :: "string \<Rightarrow> 'c finding \<Rightarrow> bool" where
  "placed content f \<longleftrightarrow> f_start f \<le> f_end f \<and> f_end f \<le> length content \<and>
     is_char_boundary content (f_start f) \<and> is_char_boundary content (f_end f)"

text \<open>Two spans are disjoint or one lies in the other.\<close>

definition nested_or_apart :: "'c finding \<Rightarrow> 'c finding \<Rightarrow> bool" where
  "nested_or_apart f g \<longleftrightarrow> f_end f \<le> f_start g \<or> f_end g \<le> f_start f
     \<or> f_start g \<le> f_start f \<and> f_end f \<le> f_end g \<or> f_start f \<le> f_start g \<and> f_end g \<le> f_end f"

lemma snap_boundary: "is_char_boundary s i \<Longrightarrow> i \<le> length s \<Longrightarrow> snap_to_char_boundary s i = i"
  by (cases i) (simp_all add: snap_to_char_boundary_def)

lemma clear_insert: "clear (insert f F) i \<longleftrightarrow> clear F i \<and> \<not> (f_start f \<le> i \<and> i < f_end f)"
  by (auto simp: clear_def)

definition redacted_to :: "string \<Rightarrow> 'c finding set \<Rightarrow> string \<Rightarrow> nat \<Rightarrow> bool" where
  "redacted_to content F result pos \<longleftrightarrow>
     (\<exists>ps. result = concat (map (render content) ps) \<and> concat (map kept ps) = filter (clear F) [0..<pos] \<and>
       {c. Marked c \<in> set ps} \<subseteq> f_category ` F)"

lemma redacted_skip:
  assumes "redacted_to content F result pos" "f_end f \<le> pos"
    and "\<exists>g\<in>F. f_start g \<le> f_start f \<and> f_end f \<le> f_end g \<or> f_end f \<le> f_start f"
  shows "redacted_to content (insert f F) result pos"
proof -
  have "filter (clear (insert f F)) [0..<pos] = filter (clear F) [0..<pos]"
    using assms(3) by (intro filter_cong) (auto simp: clear_def)
  then show ?thesis using assms(1) by (fastforce simp: redacted_to_def)
qed

lemma kept_up_to:
  assumes "\<forall>g\<in>F. f_end g \<le> pos" "pos \<le> b"
  shows "filter (clear F) [0..<b] = filter (clear F) [0..<pos] @ [pos..<b]"
proof -
  have "[0..<b] = [0..<pos] @ [pos..<b]" using assms(2) upt_add_eq_append[of 0 pos "b - pos"] by simp
  moreover have "filter (clear F) [pos..<b] = [pos..<b]"
    using assms(1) by (intro filter_True) (auto simp: clear_def)
  ultimately show ?thesis by simp
qed

lemma redacted_mark:
  assumes r: "redacted_to content F result pos" and ends: "\<forall>g\<in>F. f_end g \<le> pos"
    and f: "pos \<le> f_start f" "f_start f \<le> f_end f"
  shows "redacted_to content (insert f F)
    (result @ str_slice content pos (f_start f) @ marker (f_category f)) (f_end f)"
proof -
  obtain ps where ps: "result = concat (map (render content) ps)"
    "concat (map kept ps) = filter (clear F) [0..<pos]" "{c. Marked c \<in> set ps} \<subseteq> f_category ` F" using r by (auto simp: redacted_to_def)
  have "[0..<f_end f] = [0..<f_start f] @ [f_start f..<f_end f]"
    using f(2) upt_add_eq_append[of 0 "f_start f" "f_end f - f_start f"] by simp
  moreover have "filter (clear (insert f F)) [f_start f..<f_end f] = []"
    by (simp add: clear_insert filter_empty_conv)
  moreover have "filter (clear (insert f F)) [0..<f_start f] = filter (clear F) [0..<f_start f]"
    by (intro filter_cong) (auto simp: clear_insert)
  ultimately have "filter (clear (insert f F)) [0..<f_end f] = filter (clear F) [0..<pos] @ [pos..<f_start f]"
    using kept_up_to[OF ends f(1)] by simp
  then show ?thesis unfolding redacted_to_def
    by (intro exI[of _ "ps @ [Kept pos (f_start f), Marked (f_category f)]"]) (use ps(3) in \<open>auto simp: ps(1,2)\<close>)
qed

lemma str_slice_empty: "str_slice s a a = []"
  by (simp add: str_slice_def)

text \<open>One finding after those that sort before it.\<close>

lemma redact_step_ok:
  assumes r: "redacted_to content F result pos"
    and ends: "\<forall>g\<in>F. f_end g \<le> pos" and last: "pos = 0 \<or> (\<exists>g\<in>F. f_end g = pos)"
    and sorted: "\<forall>g\<in>F. (f_start g, - int (f_end g)) \<le> (f_start f, - int (f_end f))"
    and f: "placed content f" "\<forall>g\<in>F. nested_or_apart f g" "\<not> fl_less ops (f_confidence f) threshold"
    and step: "redact_step ops threshold content f (result, pos) = (result', pos')"
  shows "redacted_to content (insert f F) result' pos' \<and> (\<forall>g\<in>insert f F. f_end g \<le> pos') \<and>
    (\<exists>g\<in>insert f F. f_end g = pos')"
proof -
  have snap: "snap_to_char_boundary content (f_start f) = f_start f"
    "snap_to_char_boundary content (f_end f) = f_end f" and le: "f_start f \<le> f_end f"
    using f(1) by (auto simp: placed_def intro!: snap_boundary)
  show ?thesis
  proof (cases "f_start f < pos")
    case True
    then obtain g where g: "g \<in> F" "f_end g = pos" using last by auto
    have "nested_or_apart f g" "(f_start g, - int (f_end g)) \<le> (f_start f, - int (f_end f))"
      using f(2) sorted g(1) by auto
    then have inside: "f_end f \<le> pos" "f_start g \<le> f_start f \<and> f_end f \<le> f_end g \<or> f_end f \<le> f_start f"
      using True le g(2) by (auto simp: nested_or_apart_def)
    have "redacted_to content (insert f F) result pos"
      using inside g(1) by (intro redacted_skip[OF r]) blast+
    then show ?thesis using step True ends inside(1) g f(3) by (auto simp: redact_step_def snap)
  next
    case False
    then have "pos \<le> f_start f" by simp
    note marked = redacted_mark[OF r ends this le]
    have "(result', pos') = (result @ str_slice content pos (f_start f) @ marker (f_category f), f_end f)"
      using step False f(3) by (cases "pos < f_start f") (auto simp: redact_step_def snap str_slice_empty)
    then show ?thesis using marked ends \<open>pos \<le> f_start f\<close> le by fastforce
  qed
qed

lemma redact_fold_ok:
  assumes "sorted (map (\<lambda>f. (f_start f, - int (f_end f))) fs)"
    "\<forall>f\<in>set fs. placed content f \<and> \<not> fl_less ops (f_confidence f) threshold"
    "\<forall>f\<in>set fs. \<forall>g\<in>set fs. nested_or_apart f g"
    "fold (redact_step ops threshold content) fs ([], 0) = (result, pos)"
  shows "redacted_to content (set fs) result pos \<and> (\<forall>g\<in>set fs. f_end g \<le> pos) \<and>
    (pos = 0 \<or> (\<exists>g\<in>set fs. f_end g = pos))"
  using assms
proof (induction fs arbitrary: result pos rule: rev_induct)
  case Nil
  then show ?case by (auto simp: redacted_to_def intro!: exI[of _ "[]"])
next
  case (snoc f fs)
  obtain r p where rp: "fold (redact_step ops threshold content) fs ([], 0) = (r, p)" by fastforce
  have IH: "redacted_to content (set fs) r p" "\<forall>g\<in>set fs. f_end g \<le> p"
    "p = 0 \<or> (\<exists>g\<in>set fs. f_end g = p)"
    using snoc.IH[OF _ _ _ rp] snoc.prems(1-3) by (simp_all add: sorted_append)
  have "redact_step ops threshold content f (r, p) = (result, pos)" using snoc.prems(4) rp by simp
  moreover have "\<forall>g\<in>set fs. (f_start g, - int (f_end g)) \<le> (f_start f, - int (f_end f))"
    using snoc.prems(1) by (simp add: sorted_append)
  ultimately show ?case
    using redact_step_ok[OF IH, of f ops threshold result pos] snoc.prems(2,3) by auto
qed

lemma redact_exact:
  assumes "\<forall>f\<in>set fs. placed content f \<and> \<not> fl_less ops (f_confidence f) threshold"
    "\<forall>f\<in>set fs. \<forall>g\<in>set fs. nested_or_apart f g"
  shows "redacted_to content (set fs) (redact ops content fs threshold) (length content)"
proof (cases "fs = []")
  case True
  then show ?thesis unfolding redacted_to_def
    by (intro exI[of _ "[Kept 0 (length content)]"]) (simp add: redact_def str_slice_def clear_def)
next
  case False
  obtain r p where rp: "fold (redact_step ops threshold content) (sort_findings fs) ([], 0) = (r, p)"
    by fastforce
  have s: "set (sort_findings fs) = set fs" "sorted (map (\<lambda>f. (f_start f, - int (f_end f))) (sort_findings fs))"
    by (simp_all add: sort_findings_def)
  have to: "redacted_to content (set fs) r p" "\<forall>g\<in>set fs. f_end g \<le> p" "p = 0 \<or> (\<exists>g\<in>set fs. f_end g = p)"
    using redact_fold_ok[OF s(2) _ _ rp] assms by (auto simp: s(1))
  then have p: "p \<le> length content" using assms(1) by (auto simp: placed_def)
  obtain ps where ps: "r = concat (map (render content) ps)"
    "concat (map kept ps) = filter (clear (set fs)) [0..<p]" "{c. Marked c \<in> set ps} \<subseteq> f_category ` set fs" using to(1) by (auto simp: redacted_to_def)
  have "redact ops content fs threshold = r @ str_slice content p (length content)"
    using False by (simp add: redact_def rp str_slice_def)
  then show ?thesis unfolding redacted_to_def
    by (intro exI[of _ "ps @ [Kept p (length content)]"]) (use ps(3) in \<open>auto simp: ps(1,2) kept_up_to[OF to(2) p]\<close>)
qed

section \<open>Properties\<close>

definition all_scans :: "'c filter_pipeline \<Rightarrow> string \<Rightarrow> filter_context \<Rightarrow> 'c finding list" where
  "all_scans p content ctx = concat (map (\<lambda>f. f content ctx) (fp_filters p @ fp_model_filters p))"

lemma recommends_iff:
  "recommends_declassification (from_filter_result action n handled) = Some c \<longleftrightarrow>
     c = Sensitive \<and> action = RedactAction \<and> n > 0 \<and> handled"
  by (cases action) (auto simp: recommends_declassification_def from_filter_result_def)

lemma redacting_pipeline:
  assumes "run_pipeline_with_findings ops custom content ctx True p = Some (p', out, findings)"
    "fp_action p = RedactAction" "findings \<noteq> []"
  shows "findings = sort_findings (all_scans p content ctx) \<and>
    out = Inr (redact ops content (all_scans p content ctx) (fp_redaction_threshold p)) \<and>
    fp_redaction_threshold p' = fp_redaction_threshold p"
  using assms
  by (auto simp: run_pipeline_with_findings_def act_on_def apply_action_def all_scans_def scan_sync_def
    note_metrics_def Let_def split: if_splits option.splits)

lemma pipeline_keeps_action:
  "run_pipeline_with_findings ops custom content ctx b p = Some (p', out, findings) \<Longrightarrow> fp_action p' = fp_action p"
  by (auto simp: run_pipeline_with_findings_def act_on_def note_metrics_def Let_def
    split: if_splits option.splits)

text \<open>
  C37: A recommendation to lower the label is justified: it is made only by a redacting
  pipeline, it recommends \<open>Sensitive\<close>, and the text it comes with consists of markers and
  of exactly the bytes of the original outside every finding, as long as the findings are
  whole characters that do not overlap partially.
\<close>

theorem declassified_text_is_clean:
  assumes ieee: "\<forall>x y. fl_ge ops x y \<longrightarrow> \<not> fl_less ops x y"
    and run: "process_with_declassification ops custom content ctx p = Some (p', out, d)"
    and lower: "recommends_declassification d = Some c"
    and spans: "\<forall>f\<in>set (all_scans p content ctx). placed content f"
      "\<forall>f\<in>set (all_scans p content ctx). \<forall>g\<in>set (all_scans p content ctx). nested_or_apart f g"
  shows "c = Sensitive \<and> fp_action p = RedactAction \<and>
    (\<exists>txt. out = Inr txt \<and> redacted_to content (set (all_scans p content ctx)) txt (length content))"
proof -
  obtain findings where r: "run_pipeline_with_findings ops custom content ctx True p = Some (p', out, findings)"
    and d: "d = from_filter_result (fp_action p') (length findings)
      ((case out of Inr _ \<Rightarrow> True | Inl _ \<Rightarrow> False) \<and> all_findings_handled ops p' findings)"
    using run by (auto simp: process_with_declassification_def Let_def split: option.splits)
  from lower have c: "c = Sensitive" "fp_action p' = RedactAction" "findings \<noteq> []"
    "all_findings_handled ops p' findings" unfolding d recommends_iff by auto
  have act: "fp_action p = RedactAction" using pipeline_keeps_action[OF r] c(2) by simp
  note done_by = redacting_pipeline[OF r act c(3)]
  have "set findings = set (all_scans p content ctx)" using done_by by (simp add: sort_findings_def)
  then have "\<forall>f\<in>set (all_scans p content ctx). \<not> fl_less ops (f_confidence f) (fp_redaction_threshold p)"
    using c(4) ieee done_by by (auto simp: all_findings_handled_def list_all_iff)
  then have "redacted_to content (set (all_scans p content ctx))
      (redact ops content (all_scans p content ctx) (fp_redaction_threshold p)) (length content)"
    using spans by (intro redact_exact) auto
  then show ?thesis using done_by c(1) act by blast
qed

definition nat_ops :: "nat f32_ops" where
  "nat_ops = \<lparr>fl_less = (<), fl_ge = (\<ge>), fl_zero = 0\<rparr>"

definition ssn_filter :: "nat content_filter" where
  "ssn_filter content ctx = [\<lparr>f_start = 3, f_end = 14, f_category = ''ssn'', f_confidence = 1\<rparr>]"

definition sample_pipeline :: "nat filter_pipeline" where
  "sample_pipeline = add_filter ssn_filter (pipeline_new nat_ops RedactAction)"

definition sample_context :: filter_context where
  "sample_context = \<lparr>fc_agent_name = ''a'', fc_operation = ''read'', fc_path = None\<rparr>"

lemma sample_scans: "all_scans sample_pipeline ''id 123-45-6789 ok'' sample_context =
    [\<lparr>f_start = 3, f_end = 14, f_category = ''ssn'', f_confidence = 1\<rparr>]"
  by (simp add: all_scans_def sample_pipeline_def add_filter_def pipeline_new_def with_pseudonym_map_def
    ssn_filter_def)

theorem declassified_text_is_clean_witness:
  "\<exists>p' out d. process_with_declassification nat_ops [] ''id 123-45-6789 ok'' sample_context sample_pipeline
      = Some (p', out, d) \<and> out = Inr ''id [REDACTED:ssn] ok'' \<and>
     (\<exists>txt. out = Inr txt \<and> redacted_to ''id 123-45-6789 ok''
        (set (all_scans sample_pipeline ''id 123-45-6789 ok'' sample_context)) txt (length ''id 123-45-6789 ok''))"
proof -
  have redacted: "redact nat_ops ''id 123-45-6789 ok''
      [\<lparr>f_start = 3, f_end = 14, f_category = ''ssn'', f_confidence = 1\<rparr>] 0 = ''id [REDACTED:ssn] ok''"
    by code_simp
  have scans: "scan_sync sample_pipeline ''id 123-45-6789 ok'' sample_context =
      [\<lparr>f_start = 3, f_end = 14, f_category = ''ssn'', f_confidence = 1\<rparr>]"
    by (simp add: scan_sync_def sample_pipeline_def add_filter_def pipeline_new_def with_pseudonym_map_def
      ssn_filter_def)
  have sample_fields: "fp_action sample_pipeline = RedactAction" "fp_filters sample_pipeline = [ssn_filter]"
    "fp_model_filters sample_pipeline = []" "fp_metrics sample_pipeline = None"
    "fp_redaction_threshold sample_pipeline = 0" "sample_pipeline\<lparr>fp_pseudonym_map := fp_pseudonym_map sample_pipeline\<rparr> = sample_pipeline"
    by (simp_all add: sample_pipeline_def add_filter_def pipeline_new_def with_pseudonym_map_def nat_ops_def)
  have run: "process_with_declassification nat_ops [] ''id 123-45-6789 ok'' sample_context sample_pipeline =
      Some (sample_pipeline, Inr ''id [REDACTED:ssn] ok'', from_filter_result RedactAction 1 True)"
    unfolding process_with_declassification_def run_pipeline_with_findings_def
    by (simp add: scans sample_fields act_on_def apply_action_def note_metrics_def all_findings_handled_def
      nat_ops_def no_filters_def sort_findings_def redacted[unfolded nat_ops_def, simplified])
  have "recommends_declassification (from_filter_result RedactAction 1 True) = Some Sensitive"
    by (simp add: recommends_iff)
  from declassified_text_is_clean[OF _ run this] show ?thesis unfolding run
    by (auto simp: sample_scans nat_ops_def placed_def is_char_boundary_def continuation_def byte_of_def
      nested_or_apart_def)
qed

text \<open>
  Partial overlap is not handled: the tail of a finding that begins inside another one stays
  in the text, and the lower label is recommended all the same.
\<close>

lemma overlap_leaks_tail:
  "redact nat_ops ''Jean Dupont 0612345678''
     [\<lparr>f_start = 0, f_end = 11, f_category = ''person'', f_confidence = 1\<rparr>,
      \<lparr>f_start = 5, f_end = 22, f_category = ''phone'', f_confidence = 1\<rparr>] 0
   = ''[REDACTED:person] 0612345678''"
  by code_simp

end
