(* ===== verification/Ssrf.thy ===== *)
theory Ssrf
  imports Safety "HOL-Library.Word"
begin

text \<open>
  The filter for requests to internal addresses, \<open>navra-safety/src/ssrf.rs\<close>.  The three
  regular expressions are parameters that give the matches of a text with their offsets;
  what the code decides about a match is modelled in full, down to the parsing of
  decimal, octal and hexadecimal octets.
\<close>

unbundle bit_operations_syntax

type_synonym octets = "8 word \<times> 8 word \<times> 8 word \<times> 8 word"

section \<open>Numbers\<close>

definition is_ascii_digit :: "char \<Rightarrow> bool" where
  "is_ascii_digit c \<longleftrightarrow> 48 \<le> (of_char c :: nat) \<and> (of_char c :: nat) \<le> 57"

text \<open>\<open>char::to_digit\<close> and the number of a run of digits.\<close>

definition to_digit :: "nat \<Rightarrow> char \<Rightarrow> nat option" where
  "to_digit radix c =
     (let n = of_char c :: nat;
          v = (if 48 \<le> n \<and> n \<le> 57 then n - 48
               else if 97 \<le> n \<and> n \<le> 122 then n - 87
               else if 65 \<le> n \<and> n \<le> 90 then n - 55 else 36)
      in if v < radix then Some v else None)"

fun digits_value :: "nat \<Rightarrow> nat \<Rightarrow> string \<Rightarrow> nat option" where
  "digits_value radix acc [] = Some acc"
| "digits_value radix acc (c # cs) =
     (case to_digit radix c of None \<Rightarrow> None | Some d \<Rightarrow> digits_value radix (acc * radix + d) cs)"

text \<open>\<open>from_str_radix\<close> of an unsigned type: one plus sign is allowed, overflow is an error.\<close>

definition from_str_radix :: "nat \<Rightarrow> nat \<Rightarrow> string \<Rightarrow> nat option" where
  "from_str_radix bits radix s =
     (if s = [] then None
      else
        (case digits_value radix 0 (if hd s = CHR ''+'' \<and> length s > 1 then tl s else s) of
           Some v \<Rightarrow> if v < 2 ^ bits then Some v else None
         | None \<Rightarrow> None))"

section \<open>Addresses\<close>

definition parse_octet :: "string \<Rightarrow> (8 word) option" where
  "parse_octet s =
     (let below = (\<lambda>r. case r of Some v \<Rightarrow> if v > 255 then None else Some (of_nat v) | None \<Rightarrow> None) in
      if s = [] then None
      else
        (case strip_prefix (to_lowercase s) ''0x'' of
           Some hex \<Rightarrow> if hex = [] then None else below (from_str_radix 16 16 hex)
         | None \<Rightarrow>
             if starts_with s ''0'' \<and> length s > 1 \<and> list_all is_ascii_digit (tl s)
             then below (from_str_radix 16 8 s)
             else below (from_str_radix 16 10 s)))"

definition normalize_ip :: "string \<Rightarrow> octets option" where
  "normalize_ip host =
     (case split_on (CHR ''.'') host of
        [p, q, r, s] \<Rightarrow>
          (case (parse_octet p, parse_octet q, parse_octet r, parse_octet s) of
             (Some a, Some b, Some c, Some d) \<Rightarrow> Some (a, b, c, d)
           | _ \<Rightarrow> None)
      | _ \<Rightarrow> None)"

definition u32_to_octets :: "32 word \<Rightarrow> octets" where
  "u32_to_octets v =
     (ucast (drop_bit 24 v AND 0xFF), ucast (drop_bit 16 v AND 0xFF), ucast (drop_bit 8 v AND 0xFF),
      ucast (v AND 0xFF))"

definition decode_hex_integer :: "string \<Rightarrow> octets option" where
  "decode_hex_integer s =
     (case strip_prefix s ''0x'' of
        None \<Rightarrow> None
      | Some hex \<Rightarrow>
          if hex = [] \<or> length hex > 8 then None
          else map_option (\<lambda>v. u32_to_octets (of_nat v)) (from_str_radix 32 16 hex))"

definition is_private_ipv4 :: "octets \<Rightarrow> bool" where
  "is_private_ipv4 x =
     (case x of (a, b, c, d) \<Rightarrow>
        a = 10 \<or> (a = 172 \<and> 16 \<le> b \<and> b \<le> 31) \<or> (a = 192 \<and> b = 168) \<or> a = 127
        \<or> (a, b, c, d) = (0, 0, 0, 0) \<or> (a = 169 \<and> b = 254) \<or> (a, b, c, d) = (100, 100, 100, 200)
        \<or> (a, b, c, d) = (192, 0, 0, 192))"

definition is_cloud_metadata_ip :: "octets \<Rightarrow> bool" where
  "is_cloud_metadata_ip x \<longleftrightarrow>
     x = (169, 254, 169, 254) \<or> x = (100, 100, 100, 200) \<or> x = (192, 0, 0, 192)"

definition has_encoded_octets :: "string \<Rightarrow> bool" where
  "has_encoded_octets host \<longleftrightarrow>
     list_ex (\<lambda>part. starts_with (to_lowercase part) ''0x''
                \<or> starts_with part ''0'' \<and> length part > 1 \<and> list_all is_ascii_digit (tl part))
       (split_on (CHR ''.'') host)"

definition u16_to_octets :: "16 word \<Rightarrow> 8 word \<times> 8 word" where
  "u16_to_octets h = (ucast (drop_bit 8 h AND 0xFF), ucast (h AND 0xFF))"

definition is_ipv6_mapped_hex_private :: "string \<Rightarrow> bool" where
  "is_ipv6_mapped_hex_private addr =
     (case strip_prefix addr ''::ffff:'' of
        None \<Rightarrow> False
      | Some rest \<Rightarrow>
          (case split_on (CHR '':'') rest of
             [hi, lo] \<Rightarrow>
               (case (from_str_radix 16 16 hi, from_str_radix 16 16 lo) of
                  (Some h, Some l) \<Rightarrow>
                    (let (a, b) = u16_to_octets (of_nat h); (c, d) = u16_to_octets (of_nat l)
                     in is_private_ipv4 (a, b, c, d))
                | _ \<Rightarrow> False)
           | _ \<Rightarrow> False))"

section \<open>Hosts\<close>

fun after_sub :: "string \<Rightarrow> string \<Rightarrow> string option" where
  "after_sub pat [] = (if pat = [] then Some [] else None)"
| "after_sub pat (c # cs) =
     (if starts_with (c # cs) pat then Some (drop (length pat) (c # cs)) else after_sub pat cs)"

definition strip_userinfo :: "string \<Rightarrow> string" where
  "strip_userinfo after_scheme =
     (case split_once (CHR ''@'') after_scheme of
        Some (candidate, rest) \<Rightarrow> if CHR ''/'' \<notin> set candidate then rest else after_scheme
      | None \<Rightarrow> after_scheme)"

definition strip_port :: "string \<Rightarrow> string" where
  "strip_port host_port =
     (if CHR '':'' \<in> set host_port then
        (let after_colon = rev (takeWhile (\<lambda>c. c \<noteq> CHR '':'') (rev host_port)) in
         if list_all is_ascii_digit after_colon
         then take (length host_port - length after_colon - 1) host_port else host_port)
      else host_port)"

definition extract_host :: "string \<Rightarrow> string" where
  "extract_host url =
     (case after_sub ''://'' url of
        None \<Rightarrow> []
      | Some after_scheme \<Rightarrow>
          (let after_userinfo = strip_userinfo after_scheme in
           if starts_with after_userinfo ''['' \<and> CHR '']'' \<in> set after_userinfo
           then takeWhile (\<lambda>c. c \<noteq> CHR '']'') after_userinfo @ '']''
           else strip_port (takeWhile (\<lambda>c. c \<noteq> CHR ''/'' \<and> c \<noteq> CHR ''?'' \<and> c \<noteq> CHR ''#'') after_userinfo)))"

definition ssrf_finding :: "'c \<Rightarrow> nat \<Rightarrow> nat \<Rightarrow> string \<Rightarrow> 'c finding" where
  "ssrf_finding one start url_len category =
     \<lparr>f_start = start, f_end = start + url_len, f_category = category, f_confidence = one\<rparr>"

definition check_mapped :: "'c \<Rightarrow> string \<Rightarrow> nat \<Rightarrow> nat \<Rightarrow> 'c finding option" where
  "check_mapped one host start url_len =
     (case normalize_ip (drop 7 host) of
        Some octets \<Rightarrow>
          if is_private_ipv4 octets then Some (ssrf_finding one start url_len ''ssrf-encoded-ip'')
          else if is_ipv6_mapped_hex_private (to_lowercase host)
          then Some (ssrf_finding one start url_len ''ssrf-encoded-ip'') else None
      | None \<Rightarrow>
          if is_ipv6_mapped_hex_private (to_lowercase host)
          then Some (ssrf_finding one start url_len ''ssrf-encoded-ip'') else None)"

definition check_ipv6 :: "'c \<Rightarrow> string \<Rightarrow> nat \<Rightarrow> nat \<Rightarrow> 'c finding option" where
  "check_ipv6 one addr start url_len =
     (let lower = to_lowercase addr;
          found = Some (ssrf_finding one start url_len ''ssrf-encoded-ip'')
      in if lower = ''::1'' then found
         else if starts_with lower ''::ffff:'' \<and> check_mapped one addr start url_len \<noteq> None then found
         else if starts_with lower ''fc'' \<or> starts_with lower ''fd'' then found
         else if starts_with lower ''fe8'' \<or> starts_with lower ''fe9'' \<or> starts_with lower ''fea''
              \<or> starts_with lower ''feb'' then found
         else None)"

definition check_dotted :: "'c \<Rightarrow> string \<Rightarrow> nat \<Rightarrow> nat \<Rightarrow> 'c finding option" where
  "check_dotted one host start url_len =
     (case normalize_ip host of
        Some octets \<Rightarrow>
          if is_private_ipv4 octets then
            Some (ssrf_finding one start url_len
              (if is_cloud_metadata_ip octets then ''ssrf-metadata''
               else if has_encoded_octets host then ''ssrf-encoded-ip'' else ''ssrf-private-ip''))
          else None
      | None \<Rightarrow> None)"

definition private_number :: "octets option \<Rightarrow> bool" where
  "private_number x = (case x of Some octets \<Rightarrow> is_private_ipv4 octets | None \<Rightarrow> False)"

definition decimal_integer :: "string \<Rightarrow> octets option" where
  "decimal_integer host =
     (if list_all is_ascii_digit host \<and> length host \<ge> 7 then
        (case from_str_radix 64 10 host of
           Some v \<Rightarrow> if v \<le> 0xFFFFFFFF then Some (u32_to_octets (of_nat v)) else None
         | None \<Rightarrow> None)
      else None)"

definition check_host_ip :: "'c \<Rightarrow> string \<Rightarrow> nat \<Rightarrow> nat \<Rightarrow> 'c finding option" where
  "check_host_ip one host start url_len =
     (let lower = to_lowercase host;
          encoded = Some (ssrf_finding one start url_len ''ssrf-encoded-ip'')
      in if starts_with host ''['' \<and> ends_with host '']''
         then check_ipv6 one (take (length host - 2) (tl host)) start url_len
         else if starts_with lower ''::ffff:'' \<and> check_mapped one host start url_len \<noteq> None then encoded
         else if starts_with lower ''0x'' \<and> CHR ''.'' \<notin> set host \<and> private_number (decode_hex_integer lower)
         then encoded
         else if private_number (decimal_integer host) then encoded
         else check_dotted one host start url_len)"

definition DANGEROUS_SCHEMES :: "string list" where
  "DANGEROUS_SCHEMES = [''file://'', ''gopher://'', ''ftp://'', ''data://'', ''dict://'', ''ldap://'']"

definition METADATA_DOMAINS :: "string list" where
  "METADATA_DOMAINS = [''metadata.google.internal'', ''metadata.goog'']"

definition check_url :: "'c \<Rightarrow> string \<Rightarrow> nat \<Rightarrow> 'c finding list" where
  "check_url one url start =
     (if list_ex (starts_with (to_lowercase url)) DANGEROUS_SCHEMES
      then [ssrf_finding one start (length url) ''ssrf-dangerous-scheme'']
      else
        (let host = extract_host url in
         if host = [] then []
         else if to_lowercase host \<in> set METADATA_DOMAINS
         then [ssrf_finding one start (length url) ''ssrf-metadata'']
         else (case check_host_ip one host start (length url) of Some f \<Rightarrow> [f] | None \<Rightarrow> [])))"

section \<open>Scanning\<close>

text \<open>A match is its text and its offset.\<close>

record ssrf_filter =
  url_re :: "string \<Rightarrow> (string \<times> nat) list"
  bare_ip_re :: "string \<Rightarrow> (string \<times> nat) list"
  ipv6_url_re :: "string \<Rightarrow> (string \<times> nat) list"

definition dominated :: "'c finding list \<Rightarrow> string \<times> nat \<Rightarrow> bool" where
  "dominated findings m \<longleftrightarrow>
     list_ex (\<lambda>f. f_start f \<le> snd m \<and> f_end f \<ge> snd m + length (fst m)) findings"

definition scan_ipv6_match :: "'c \<Rightarrow> string \<times> nat \<Rightarrow> 'c finding list \<Rightarrow> 'c finding list" where
  "scan_ipv6_match one m findings =
     (if dominated findings m then findings else findings @ check_url one (fst m) (snd m))"

definition scan_bare_match :: "'c \<Rightarrow> string \<times> nat \<Rightarrow> 'c finding list \<Rightarrow> 'c finding list" where
  "scan_bare_match one m findings =
     (if dominated findings m then findings
      else
        (case normalize_ip (hd (split_on (CHR '':'') (fst m))) of
           Some octets \<Rightarrow>
             if is_cloud_metadata_ip octets
             then findings @ [ssrf_finding one (snd m) (length (fst m)) ''ssrf-metadata'']
             else findings
         | None \<Rightarrow> findings))"

definition ssrf_scan :: "'c \<Rightarrow> ssrf_filter \<Rightarrow> 'c content_filter" where
  "ssrf_scan one flt content ctx =
     fold (scan_bare_match one) (bare_ip_re flt content)
       (fold (scan_ipv6_match one) (ipv6_url_re flt content)
         (concat (map (\<lambda>m. check_url one (fst m) (snd m)) (url_re flt content))))"

end
