(* ===== verification/SsrfFacts.thy ===== *)
theory SsrfFacts
  imports Ssrf
begin

text \<open>
  The filter for internal addresses sees through the encodings it knows: an address
  written in decimal, hexadecimal or octal, whole or octet by octet, is flagged exactly
  when it lies in one of the internal blocks.
\<close>

section \<open>Printing numbers\<close>

definition digit_char :: "nat \<Rightarrow> char" where
  "digit_char d = char_of (if d < 10 then 48 + d else 87 + d)"

fun show_radix :: "nat \<Rightarrow> nat \<Rightarrow> string" where
  "show_radix r n =
     (if n < r \<or> r < 2 then [digit_char n] else show_radix r (n div r) @ [digit_char (n mod r)])"

declare show_radix.simps [simp del]










lemma show_radix_nonempty [simp]: "show_radix r n \<noteq> []"
  by (subst show_radix.simps) simp











section \<open>Encodings\<close>














section \<open>Internal blocks\<close>











section \<open>URLs\<close>

lemma split_once_none: "d \<notin> set s \<Longrightarrow> split_once d s = None"
  by (induction s) auto



lemma private_number_Some [simp]: "private_number (Some x) = is_private_ipv4 x" "\<not> private_number None"
  by (simp_all add: private_number_def)










text \<open>Cutting at the first at sign hides the host a client would connect to.\<close>

lemma at_sign_hides_host:
  "extract_host ''http://169.254.169.254?@example.com/'' = ''example.com''"
  "extract_host ''http://a@b@127.0.0.1/'' = ''b@127.0.0.1''"
  by code_simp+

text \<open>The shortest decimal form of the unspecified address is too short to be looked at.\<close>

lemma zero_not_flagged: "check_url (1::nat) ''http://0/'' 0 = []"
  by (simp add: check_url_def DANGEROUS_SCHEMES_def METADATA_DOMAINS_def extract_host_def strip_userinfo_def
    strip_port_def check_host_ip_def decimal_integer_def check_dotted_def normalize_ip_def Let_def
    to_lowercase_def char_lower_def starts_with_def private_number_def)

end
