(* ===== verification/PiiPatterns.thy ===== *)
theory PiiPatterns
  imports Ssrf
begin

text \<open>
  Detection of secrets and personal data, \<open>navra-safety/src/regex.rs\<close>: the scans of the
  filters and the validators that confirm a match.  Regular expressions are parameters: \<open>rx\<close>
  maps the name of a pattern to its matches, as start and end offsets, in a text.
\<close>

section \<open>Validators\<close>

definition validate_ssn :: "string \<Rightarrow> bool" where
  "validate_ssn s =
     (case split_on (CHR ''-'') s of
        [p, q, r] \<Rightarrow>
          (let num = (\<lambda>t. case from_str_radix 16 10 t of Some v \<Rightarrow> v | None \<Rightarrow> 0);
               area = num p; grp = num q; serial = num r
           in area \<noteq> 0 \<and> area \<noteq> 666 \<and> area < 900 \<and> grp \<noteq> 0 \<and> serial \<noteq> 0)
      | _ \<Rightarrow> False)"

definition digit_of :: "char \<Rightarrow> nat" where
  "digit_of c = of_char c - 48"

definition digits_in :: "string \<Rightarrow> nat list" where
  "digits_in s = map digit_of (filter is_ascii_digit s)"

fun luhn_loop :: "nat list \<Rightarrow> nat \<Rightarrow> bool \<Rightarrow> nat" where
  "luhn_loop [] acc dbl = acc"
| "luhn_loop (digit # ds) acc dbl =
     luhn_loop ds
       (acc + (if dbl then (let d = digit * 2 in if d > 9 then d - 9 else d) else digit)) (\<not> dbl)"

definition validate_luhn :: "string \<Rightarrow> bool" where
  "validate_luhn s =
     (let digits = digits_in s in
      if length digits < 13 \<or> length digits > 19 then False
      else if list_all (\<lambda>d. d = 0) digits then False
      else luhn_loop (rev digits) 0 False mod 10 = 0)"

definition validate_nir :: "string \<Rightarrow> bool" where
  "validate_nir s =
     (let digits = filter is_ascii_digit s in
      if length digits \<noteq> 15 then False
      else
        (case from_str_radix 64 10 (take 13 digits) of
           None \<Rightarrow> False
         | Some body \<Rightarrow>
             (case from_str_radix 64 10 (take 2 (drop 13 digits)) of
                None \<Rightarrow> False
              | Some key \<Rightarrow> key = 97 - body mod 97)))"

definition is_ascii_uppercase :: "char \<Rightarrow> bool" where
  "is_ascii_uppercase c \<longleftrightarrow> 65 \<le> (of_char c :: nat) \<and> (of_char c :: nat) \<le> 90"

fun iban_numeric :: "string \<Rightarrow> string option" where
  "iban_numeric [] = Some []"
| "iban_numeric (c # cs) =
     (if is_ascii_digit c then map_option (\<lambda>r. c # r) (iban_numeric cs)
      else if is_ascii_uppercase c
      then map_option (\<lambda>r. show_nat (of_char c - 65 + 10) @ r) (iban_numeric cs)
      else None)"

function iban_remainder :: "string \<Rightarrow> nat \<Rightarrow> nat" where
  "iban_remainder numeric remainder =
     (if numeric = [] then remainder
      else
        iban_remainder (drop 9 numeric)
          ((case from_str_radix 64 10 (show_nat remainder @ take 9 numeric) of Some v \<Rightarrow> v | None \<Rightarrow> 0)
             mod 97))"
  by auto
termination by (relation "measure (length \<circ> fst)") auto

declare iban_remainder.simps [simp del]

text \<open>Slicing a text inside a character panics.\<close>

definition validate_iban :: "string \<Rightarrow> bool option" where
  "validate_iban s =
     (let cleaned = filter (\<lambda>c. \<not> ascii_whitespace c) s in
      if length cleaned < 5 \<or> length cleaned > 34 then Some False
      else if \<not> is_char_boundary cleaned 4 then None
      else
        (case iban_numeric (drop 4 cleaned @ take 4 cleaned) of
           None \<Rightarrow> Some False
         | Some numeric \<Rightarrow> Some (iban_remainder numeric 0 = 1)))"

definition validate_siret :: "string \<Rightarrow> bool" where
  "validate_siret s =
     (let digits = digits_in s in
      if length digits \<noteq> 14 then False
      else
        sum_list (map (\<lambda>(i, d). let v = (if i mod 2 = 0 then d * 2 else d) in if v > 9 then v - 9 else v)
          (enumerate 0 digits)) mod 10 = 0)"

definition validate_public_ip :: "string \<Rightarrow> bool" where
  "validate_public_ip s =
     (case List.map_filter (from_str_radix 8 10) (split_on (CHR ''.'') s) of
        [a, b, c, d] \<Rightarrow>
          if a = 127 then False
          else if a = 0 \<and> b = 0 \<and> c = 0 \<and> d = 0 then False
          else if a = 10 then False
          else if a = 172 \<and> 16 \<le> b \<and> b \<le> 31 then False
          else if a = 192 \<and> b = 168 then False
          else True
      | _ \<Rightarrow> False)"

type_synonym regexes = "string \<Rightarrow> string \<Rightarrow> (nat \<times> nat) list"

fun overlaps_matches :: "nat \<Rightarrow> nat \<Rightarrow> (nat \<times> nat) list \<Rightarrow> bool" where
  "overlaps_matches start fin [] = False"
| "overlaps_matches start fin ((a, b) # ms) =
     (if a > fin then False else if a < fin \<and> b > start then True else overlaps_matches start fin ms)"

definition overlaps_pattern :: "regexes \<Rightarrow> string \<Rightarrow> nat \<Rightarrow> nat \<Rightarrow> string \<Rightarrow> bool" where
  "overlaps_pattern rx content start fin re = overlaps_matches start fin (rx re content)"

definition validate_phone_context :: "regexes \<Rightarrow> string \<Rightarrow> nat \<Rightarrow> nat \<Rightarrow> bool" where
  "validate_phone_context rx content start fin =
     (if overlaps_pattern rx content start fin ''ISO_DATETIME_RE'' then False
      else if overlaps_pattern rx content start fin ''UUID_RE'' then False else True)"

definition validate_not_structured_data :: "regexes \<Rightarrow> string \<Rightarrow> nat \<Rightarrow> nat \<Rightarrow> bool" where
  "validate_not_structured_data rx content start fin =
     (if overlaps_pattern rx content start fin ''ISO_DATETIME_RE'' then False
      else if overlaps_pattern rx content start fin ''UUID_RE'' then False else True)"

section \<open>Filters\<close>

definition found :: "'c \<Rightarrow> string \<Rightarrow> nat \<times> nat \<Rightarrow> 'c finding" where
  "found confidence category m =
     \<lparr>f_start = fst m, f_end = snd m, f_category = category, f_confidence = confidence\<rparr>"

text \<open>The scan of the filters whose patterns are a category and an expression.\<close>

definition pattern_scan :: "'c \<Rightarrow> (string \<times> (string \<Rightarrow> (nat \<times> nat) list)) list \<Rightarrow> 'c content_filter" where
  "pattern_scan confidence patterns content ctx =
     concat (map (\<lambda>(category, find). map (found confidence category) (find content)) patterns)"

text \<open>Custom patterns: \<open>compile\<close> is the regular expression compiler.\<close>

definition custom_filter_new ::
  "(string \<Rightarrow> (string \<Rightarrow> (nat \<times> nat) list) option) \<Rightarrow> (string \<times> string) list
     \<Rightarrow> (string \<times> (string \<Rightarrow> (nat \<times> nat) list)) list" where
  "custom_filter_new compile patterns =
     List.map_filter (\<lambda>(category, pattern). map_option (\<lambda>re. (category, re)) (compile pattern)) patterns"

fun custom_pii_filter_new ::
  "(string \<Rightarrow> string + (string \<Rightarrow> (nat \<times> nat) list)) \<Rightarrow> (string \<times> string \<times> string) list
     \<Rightarrow> string + (string \<times> (string \<Rightarrow> (nat \<times> nat) list)) list" where
  "custom_pii_filter_new compile [] = Inr []"
| "custom_pii_filter_new compile ((name, pattern, category) # ps) =
     (case compile pattern of
        Inl e \<Rightarrow> Inl (''Invalid PII pattern '' @ [CHR 0x27] @ name @ [CHR 0x27] @ '': '' @ e)
      | Inr re \<Rightarrow>
          (case custom_pii_filter_new compile ps of
             Inl e \<Rightarrow> Inl e
           | Inr rest \<Rightarrow> Inr ((category, re) # rest)))"

definition custom_categories :: "(string \<times> (string \<Rightarrow> (nat \<times> nat) list)) list \<Rightarrow> string list" where
  "custom_categories patterns = map fst patterns"

record pii_pattern =
  pp_category :: string
  pp_validator :: "(string \<Rightarrow> bool) option"
  pp_context_validator :: "(string \<Rightarrow> nat \<Rightarrow> nat \<Rightarrow> bool) option"

text \<open>An IBAN match is plain ASCII, so its validator does not panic.\<close>

definition pii_filter_new :: "regexes \<Rightarrow> pii_pattern list" where
  "pii_filter_new rx =
     (let p = (\<lambda>c v ctx. \<lparr>pp_category = c, pp_validator = v, pp_context_validator = ctx\<rparr>) in
      [p ''ssn'' (Some validate_ssn) None,
       p ''siret'' (Some validate_siret) None,
       p ''credit-card'' (Some validate_luhn) (Some (validate_not_structured_data rx)),
       p ''phone'' None (Some (validate_phone_context rx)),
       p ''email'' None None,
       p ''nir'' (Some validate_nir) None,
       p ''iban'' (Some (\<lambda>s. validate_iban s = Some True)) None,
       p ''passport'' None None,
       p ''phone-eu'' None None,
       p ''ip-address'' (Some validate_public_ip) None])"

definition pii_match ::
  "'c \<Rightarrow> string \<Rightarrow> pii_pattern \<Rightarrow> nat \<times> nat \<Rightarrow> 'c finding list \<Rightarrow> 'c finding list" where
  "pii_match one content pat m findings =
     (if (case pp_validator pat of Some v \<Rightarrow> \<not> v (str_slice content (fst m) (snd m)) | None \<Rightarrow> False)
      then findings
      else if (case pp_context_validator pat of Some v \<Rightarrow> \<not> v content (fst m) (snd m) | None \<Rightarrow> False)
      then findings
      else if list_ex (\<lambda>f. f_start f = fst m \<and> f_end f = snd m \<and> f_category f \<noteq> pp_category pat) findings
      then findings
      else findings @ [found one (pp_category pat) m])"

definition pii_scan :: "'c \<Rightarrow> regexes \<Rightarrow> 'c content_filter" where
  "pii_scan one rx content ctx =
     fold (\<lambda>pat. fold (pii_match one content pat) (rx (pp_category pat) content)) (pii_filter_new rx) []"

definition looks_like_personal_name :: "string \<Rightarrow> bool" where
  "looks_like_personal_name username \<longleftrightarrow> CHR ''.'' \<in> set username \<or> CHR ''-'' \<in> set username"

text \<open>\<open>captures\<close> gives the spans of the user names in home directory paths.\<close>

definition path_pii_scan :: "'c \<Rightarrow> (string \<Rightarrow> (nat \<times> nat) list) \<Rightarrow> string list \<Rightarrow> 'c content_filter" where
  "path_pii_scan one captures system_users content ctx =
     map (found one ''path-username'')
       (filter (\<lambda>m. let username = str_slice content (fst m) (snd m) in
                    username \<notin> set system_users \<and> looks_like_personal_name username)
          (captures content))"

section \<open>Checksums\<close>

definition luhn_weight :: "bool \<Rightarrow> nat \<Rightarrow> nat" where
  "luhn_weight dbl d = (if dbl then (if d * 2 > 9 then d * 2 - 9 else d * 2) else d)"

fun luhn_sum :: "nat list \<Rightarrow> bool \<Rightarrow> nat" where
  "luhn_sum [] dbl = 0"
| "luhn_sum (d # ds) dbl = luhn_weight dbl d + luhn_sum ds (\<not> dbl)"

lemma luhn_loop_sum: "luhn_loop ds n dbl = n + luhn_sum ds dbl"
  by (induction ds arbitrary: n dbl) (simp_all add: luhn_weight_def Let_def)

lemma luhn_sum_append:
  "luhn_sum (xs @ ys) dbl = luhn_sum xs dbl + luhn_sum ys (dbl = even (length xs))"
proof (induction xs arbitrary: dbl)
  case (Cons x xs)
  have "((\<not> dbl) = even (length xs)) = (dbl = even (length (x # xs)))" by (cases dbl) simp_all
  then show ?case using Cons by simp
qed simp

lemma luhn_weight_inj:
  assumes "d < 10" "e < 10" "luhn_weight dbl d mod 10 = luhn_weight dbl e mod 10"
  shows "d = e"
proof -
  have "luhn_weight b d < 10" if "d < 10" for b d
    using that by (auto simp: luhn_weight_def)
  then have "luhn_weight dbl d = luhn_weight dbl e" using assms by simp
  then show ?thesis using assms(1,2) by (auto simp: luhn_weight_def split: if_splits) presburger+
qed

lemma digits_in_split: "is_ascii_digit c \<Longrightarrow> digits_in (xs @ c # ys) = digits_in xs @ digit_of c # digits_in ys"
  by (simp add: digits_in_def)

lemma digit_of_bound: "is_ascii_digit c \<Longrightarrow> digit_of c < 10"
  by (simp add: is_ascii_digit_def digit_of_def) linarith

lemma digit_of_inj:
  assumes "is_ascii_digit c" "is_ascii_digit d" "digit_of c = digit_of d"
  shows "c = d"
proof -
  have "(of_char x :: nat) = 48 + digit_of x" if "is_ascii_digit x" for x
    using that by (simp add: is_ascii_digit_def digit_of_def)
  then have "(of_char c :: nat) = of_char d" using assms by (simp only:)
  then show ?thesis by (simp only: of_char_eq_iff)
qed

lemma multiple_of_10: "n mod 10 = 0 \<Longrightarrow> n < 20 \<Longrightarrow> n = 0 \<or> n = (10 :: nat)"
  by presburger

lemma mod_cancel:
  assumes "(r + x) mod 10 = 0" "(r + y) mod 10 = (0 :: nat)"
  shows "x mod 10 = y mod 10"
proof -
  have "r mod 10 + z mod 10 = 0 \<or> r mod 10 + z mod 10 = 10" if z: "(r + z) mod 10 = 0" for z
  proof -
    have "(r mod 10 + z mod 10) mod 10 = 0" using z by (simp add: mod_add_eq)
    moreover have "r mod 10 + z mod 10 < 20" using mod_less_divisor[of 10 r] mod_less_divisor[of 10 z] by (intro add_strict_mono[of _ 10 _ 10, simplified]) simp_all
    ultimately show ?thesis by (rule multiple_of_10)
  qed
  moreover have "p + u = 0 \<or> p + u = 10 \<Longrightarrow> p + v = 0 \<or> p + v = 10 \<Longrightarrow> u < 10 \<Longrightarrow> v < 10 \<Longrightarrow> u = v"
    for p u v :: nat by auto
  ultimately show ?thesis using assms by (metis mod_less_divisor zero_less_numeral)
qed

lemma luhn_one_digit:
  assumes "luhn_sum (xs @ d # ys) dbl mod 10 = 0" "luhn_sum (xs @ e # ys) dbl mod 10 = 0" "d < 10" "e < 10"
  shows "d = e"
proof -
  define b where "b = (dbl = even (length xs))"
  define r where "r = luhn_sum xs dbl + luhn_sum ys (\<not> b)"
  have "luhn_sum (xs @ z # ys) dbl = r + luhn_weight b z" for z
    unfolding luhn_sum_append luhn_sum.simps b_def[symmetric] r_def by linarith
  then have "luhn_weight b d mod 10 = luhn_weight b e mod 10"
    using assms(1,2) by (intro mod_cancel[of r]) simp_all
  then show ?thesis using luhn_weight_inj assms(3,4) by blast
qed

lemma luhn_valid: "validate_luhn s \<Longrightarrow> luhn_sum (rev (digits_in s)) False mod 10 = 0"
  by (auto simp: validate_luhn_def Let_def luhn_loop_sum split: if_splits)

text \<open>
  The card check detects every single wrong digit: of two texts that differ in one
  digit, at most one is a valid number.
\<close>

theorem luhn_detects_wrong_digit:
  assumes "validate_luhn (xs @ c # ys)" "validate_luhn (xs @ d # ys)" "is_ascii_digit c" "is_ascii_digit d"
  shows "c = d"
proof -
  have "luhn_sum (rev (digits_in ys) @ digit_of c # rev (digits_in xs)) False mod 10 = 0"
    "luhn_sum (rev (digits_in ys) @ digit_of d # rev (digits_in xs)) False mod 10 = 0"
    using luhn_valid[OF assms(1)] luhn_valid[OF assms(2)] by (simp_all add: digits_in_split assms(3,4))
  then have "digit_of c = digit_of d"
    using luhn_one_digit[of "rev (digits_in ys)" "digit_of c" "rev (digits_in xs)" False "digit_of d"]
      digit_of_bound assms(3,4) by simp
  then show ?thesis by (rule digit_of_inj[OF assms(3,4)])
qed

theorem luhn_detects_wrong_digit_witness:
  "validate_luhn (''4111 1111 1111 11'' @ CHR ''1'' # ''1'') \<and>
   \<not> validate_luhn (''4111 1111 1111 11'' @ CHR ''7'' # ''1'')"
proof -
  have v: "validate_luhn (''4111 1111 1111 11'' @ CHR ''1'' # ''1'')" by code_simp
  have d: "is_ascii_digit (CHR ''1'')" "is_ascii_digit (CHR ''7'')" by (simp_all add: is_ascii_digit_def)
  show ?thesis using v luhn_detects_wrong_digit[OF v _ d] by fastforce
qed

text \<open>The company number is the same check on fourteen digits, zeros included.\<close>

lemma siret_sum:
  "sum_list (map (\<lambda>(i, d). let v = (if i mod 2 = 0 then d * 2 else d) in if v > 9 then v - 9 else v)
     (enumerate n ds)) = luhn_sum ds (even n)" if "list_all (\<lambda>d. d < 10) ds"
  using that by (induction ds arbitrary: n) (auto simp: luhn_weight_def Let_def even_iff_mod_2_eq_zero mod_Suc)

lemma luhn_sum_rev: "luhn_sum (rev ds) dbl = luhn_sum ds (dbl \<noteq> even (length ds))"
  by (induction ds arbitrary: dbl) (auto simp: luhn_sum_append)

lemma siret_is_luhn:
  assumes "length (digits_in s) = 14"
  shows "validate_siret s \<longleftrightarrow> validate_luhn s \<or> list_all (\<lambda>d. d = 0) (digits_in s)"
proof -
  let ?ds = "digits_in s"
  have "list_all (\<lambda>d. d < 10) ?ds" by (auto simp: list_all_iff digits_in_def digit_of_bound)
  then have "validate_siret s \<longleftrightarrow> luhn_sum ?ds True mod 10 = 0"
    using siret_sum[of ?ds 0] assms by (simp add: validate_siret_def)
  moreover have "luhn_sum (rev ?ds) False = luhn_sum ?ds True"
    using assms by (simp add: luhn_sum_rev)
  moreover have "luhn_sum ds b = 0" if "list_all (\<lambda>d. d = 0) ds" for ds :: "nat list" and b
    using that by (induction ds arbitrary: b) (simp_all add: luhn_weight_def)
  ultimately show ?thesis using assms by (auto simp: validate_luhn_def Let_def luhn_loop_sum)
qed

section \<open>Account numbers\<close>

text \<open>The number an account number stands for: letters count two digits.\<close>

definition iban_number :: "string \<Rightarrow> nat" where
  "iban_number s =
     foldl (\<lambda>a c. if is_ascii_digit c then a * 10 + digit_of c else a * 100 + (of_char c - 55)) 0 s"

definition decimal_number :: "nat \<Rightarrow> string \<Rightarrow> nat" where
  "decimal_number a s = foldl (\<lambda>a c. a * 10 + digit_of c) a s"

lemma decimal_number_append: "decimal_number a (s @ t) = decimal_number (decimal_number a s) t"
  by (simp add: decimal_number_def)

lemma digits_value_decimal: "list_all is_ascii_digit s \<Longrightarrow> digits_value 10 a s = Some (decimal_number a s)"
proof (induction s arbitrary: a)
  case (Cons c s)
  then have "to_digit 10 c = Some (digit_of c)" by (auto simp: to_digit_def is_ascii_digit_def digit_of_def Let_def)
  then show ?case using Cons by (simp add: decimal_number_def)
qed (simp add: decimal_number_def)

lemma decimal_number_bound: "list_all is_ascii_digit s \<Longrightarrow> decimal_number a s < (a + 1) * 10 ^ length s"
proof (induction s arbitrary: a)
  case (Cons c s)
  have "decimal_number (a * 10 + digit_of c) s < (a * 10 + digit_of c + 1) * 10 ^ length s" using Cons by simp
  also have "\<dots> \<le> ((a + 1) * 10) * 10 ^ length s"
    using digit_of_bound[of c] Cons.prems by (intro mult_le_mono1) simp
  finally show ?case by (simp add: decimal_number_def algebra_simps)
qed (simp add: decimal_number_def)

lemma decimal_number_linear: "decimal_number a s = a * 10 ^ length s + decimal_number 0 s"
proof (induction s arbitrary: a)
  case (Cons c s)
  show ?case using Cons[of "a * 10 + digit_of c"] Cons[of "digit_of c"]
    by (simp add: decimal_number_def algebra_simps)
qed (simp add: decimal_number_def)

lemma show_nat_all_digits: "list_all is_ascii_digit (show_nat n)"
  using show_nat_digits by (auto simp: list_all_iff is_ascii_digit_def)

lemma show_nat_number: "decimal_number 0 (show_nat n) = n"
  using show_nat_decode by (simp add: decimal_number_def digit_of_def)

lemma chunk_value:
  assumes "r < 97" "list_all is_ascii_digit chunk" "length chunk \<le> 9"
  shows "from_str_radix 64 10 (show_nat r @ chunk) = Some (r * 10 ^ length chunk + decimal_number 0 chunk)"
proof -
  have digits: "list_all is_ascii_digit (show_nat r @ chunk)" using assms(2) show_nat_all_digits by simp
  have "decimal_number 0 (show_nat r @ chunk) = decimal_number r chunk"
    by (simp add: decimal_number_append show_nat_number)
  moreover have "decimal_number r chunk < 2 ^ 64"
  proof -
    have "decimal_number r chunk < (r + 1) * 10 ^ length chunk" by (rule decimal_number_bound[OF assms(2)])
    also have "\<dots> \<le> 97 * 10 ^ 9" using assms by (intro mult_le_mono power_increasing) simp_all
    also have "\<dots> < (2::nat) ^ 64" by simp
    finally show ?thesis .
  qed
  moreover have nonempty: "show_nat r \<noteq> []" by (subst show_nat.simps) simp
  moreover have "is_ascii_digit (hd (show_nat r @ chunk))"
    using digits nonempty by (cases "show_nat r") auto
  then have "hd (show_nat r @ chunk) \<noteq> CHR ''+''" by (auto simp: is_ascii_digit_def)
  ultimately show ?thesis using digits_value_decimal[OF digits] decimal_number_linear[of r chunk]
    by (simp add: from_str_radix_def)
qed

lemma iban_remainder_mod:
  "list_all is_ascii_digit s \<Longrightarrow> r < 97 \<Longrightarrow> iban_remainder s r = decimal_number r s mod 97"
proof (induction s r rule: iban_remainder.induct)
  case (1 s r)
  show ?case
  proof (cases "s = []")
    case False
    define n where "n = r * 10 ^ length (take 9 s) + decimal_number 0 (take 9 s)"
    have ok: "list_all is_ascii_digit (take 9 s)" "list_all is_ascii_digit (drop 9 s)"
      using 1(2) by (metis append_take_drop_id list_all_append)+
    have read: "from_str_radix 64 10 (show_nat r @ take 9 s) = Some n"
      using chunk_value[OF 1(3) ok(1)] by (simp add: n_def)
    have "iban_remainder s r = iban_remainder (drop 9 s) (n mod 97)"
      using False read by (subst iban_remainder.simps) simp
    also have "\<dots> = decimal_number (n mod 97) (drop 9 s) mod 97" using 1(1)[OF False] ok(2) read by simp
    also have "\<dots> = decimal_number n (drop 9 s) mod 97"
      by (subst (1 2) decimal_number_linear) (metis mod_add_left_eq mod_mult_left_eq)
    also have "n = decimal_number r (take 9 s)" unfolding n_def by (rule decimal_number_linear[symmetric])
    also have "decimal_number (decimal_number r (take 9 s)) (drop 9 s) = decimal_number r s"
      by (simp flip: decimal_number_append)
    finally show ?thesis .
  qed (use 1 in \<open>simp add: iban_remainder.simps decimal_number_def\<close>)
qed

lemma letter_digits:
  assumes "is_ascii_uppercase c"
  shows "decimal_number a (show_nat (of_char c - 65 + 10)) = a * 100 + (of_char c - 55)"
proof -
  define n where "n = of_char c - (65::nat) + 10"
  have n: "10 \<le> n" "n < 36" "n = of_char c - 55" using assms by (auto simp: n_def is_ascii_uppercase_def)
  have "show_nat n = [char_of (48 + n div 10), char_of (48 + n mod 10)]"
    using n(1,2) by (subst show_nat.simps, subst show_nat.simps) auto
  then have "length (show_nat n) = 2" by simp
  then show ?thesis using decimal_number_linear[of a "show_nat n"] show_nat_number[of n] n(3)
    by (simp add: n_def)
qed

lemma iban_numeric_chars:
  "iban_numeric s = Some t \<Longrightarrow>
     list_all is_ascii_digit t \<and> list_all (\<lambda>c. is_ascii_digit c \<or> is_ascii_uppercase c) s"
proof (induction s arbitrary: t)
  case (Cons c s)
  then show ?case using show_nat_all_digits by (auto split: if_splits)
qed simp

lemma iban_numeric_number:
  "iban_numeric s = Some t \<Longrightarrow> decimal_number a t =
     foldl (\<lambda>a c. if is_ascii_digit c then a * 10 + digit_of c else a * 100 + (of_char c - 55)) a s"
proof (induction s arbitrary: t a)
  case (Cons c s)
  show ?case
  proof (cases "is_ascii_digit c")
    case True
    then obtain r where r: "iban_numeric s = Some r" "t = c # r" using Cons.prems by auto
    then have "decimal_number a t = decimal_number (a * 10 + digit_of c) r" by (simp add: decimal_number_def)
    then show ?thesis using Cons.IH[OF r(1)] True by simp
  next
    case False
    then obtain r where r: "iban_numeric s = Some r" "t = show_nat (of_char c - 65 + 10) @ r"
      and c: "is_ascii_uppercase c" using Cons.prems by (auto split: if_splits)
    then have "decimal_number a t = decimal_number (a * 100 + (of_char c - 55)) r"
      by (simp only: decimal_number_append letter_digits)
    then show ?thesis using Cons.IH[OF r(1)] False by simp
  qed
qed (simp add: decimal_number_def)

lemma iban_numeric_total:
  "list_all (\<lambda>c. is_ascii_digit c \<or> is_ascii_uppercase c) s \<Longrightarrow> iban_numeric s \<noteq> None"
  by (induction s) auto

text \<open>
  C40: The account check by chunks of nine digits decides the remainder modulo 97 of the whole
  number, which has up to 68 digits, with the first four characters moved to the end;
  no chunk overflows 64 bits.
\<close>

theorem iban_is_mod_97:
  "validate_iban s =
     (let cleaned = filter (\<lambda>c. \<not> ascii_whitespace c) s;
          rotated = drop 4 cleaned @ take 4 cleaned
      in if length cleaned < 5 \<or> length cleaned > 34 then Some False
         else if \<not> is_char_boundary cleaned 4 then None
         else Some (list_all (\<lambda>c. is_ascii_digit c \<or> is_ascii_uppercase c) rotated
                    \<and> iban_number rotated mod 97 = 1))"
proof -
  have "(case iban_numeric r of None \<Rightarrow> Some False | Some numeric \<Rightarrow> Some (iban_remainder numeric 0 = 1)) =
      Some (list_all (\<lambda>c. is_ascii_digit c \<or> is_ascii_uppercase c) r \<and> iban_number r mod 97 = 1)" for r
  proof (cases "iban_numeric r")
    case None
    then show ?thesis using iban_numeric_total[of r] by auto
  next
    case (Some t)
    then have "list_all (\<lambda>c. is_ascii_digit c \<or> is_ascii_uppercase c) r" "list_all is_ascii_digit t"
      "decimal_number 0 t = iban_number r"
      using iban_numeric_chars[of r t] iban_numeric_number[of r t 0] by (simp_all add: iban_number_def)
    then show ?thesis using iban_remainder_mod[of t 0] Some by simp
  qed
  then show ?thesis by (simp add: validate_iban_def Let_def)
qed

section \<open>Categories that do not count as personal data\<close>

text \<open>
  Five categories of the filter for personal data are missing from \<open>PII_CATEGORIES\<close>: their
  findings neither raise the label of the session nor enter the metrics.
\<close>

lemma uncounted_categories:
  "filter (\<lambda>c. \<not> is_pii_category [] c) (map pp_category (pii_filter_new rx)) =
     [''siret'', ''nir'', ''iban'', ''passport'', ''phone-eu'']"
  by (simp add: pii_filter_new_def is_pii_category_def PII_CATEGORIES_def)

end
