(* ===== verification/Gateway.thy ===== *)
theory Gateway
  imports Blackbox Routing Hooks Sessions Safety Authn PathAcl ToolAccess Quota SessionPerms ProcessTable
begin

text \<open>
  The tool call of the gateway, \<open>McpServer::handle_call_tool\<close> of
  \<open>navra-core/src/server/handlers.rs\<close> with its entry in \<open>navra_handler.rs\<close>: the gates in the
  order of the code, the hooks, the dispatch, the filtering of the result, the labels, the
  declassification and the records.

  A call is one step: calls of other clients come before or after it.  Registered tools
  and policies do not change during a call.  Tool handlers and hooks are functions of a
  world state and of the declassification ledger, Cedar, OPA and DMN are functions of what they are
  asked, and the clock and the fresh identifiers of a call are a record.  \<open>None\<close> is a panic:
  a poisoned rate limiter or a filter with a reversed span.
\<close>

section \<open>State\<close>

record gw_metrics =
  gm_calls_total :: nat
  gm_calls_denied :: nat
  gm_calls_errors :: nat
  gm_duration_us_sum :: nat
  gm_cedar_denials :: nat
  gm_dmn_denials :: nat
  gm_routing_decisions :: nat
  gm_taint_elevations :: nat

datatype upstream_operation = UpRead | UpWrite | UpDeny

datatype policy_decision = PolicyAllow | PolicyDeny string

record call_params =
  cp_name :: string
  cp_arguments :: "(string \<times> json) list option"
  cp_input_responses :: "json option"
  cp_request_state :: "string option"

record 'w gw_context =
  gx_call :: "'w call_context"
  gx_input_responses :: "json option"
  gx_request_state :: "string option"

type_synonym 'u hook_world = "declassification_ledger option \<times> 'u"

text \<open>
  The handler of a tool: a function of the world, or one of the three tools of the gateway,
  which work on the variables of the session.
\<close>

datatype ('w, 'u) tool_handler =
    Handler "json \<Rightarrow> 'w gw_context \<Rightarrow> 'u hook_world \<Rightarrow> tool_response \<times> 'u hook_world"
  | VarList
  | VarInspect
  | VarDrop

record ('w, 'u) registered_tool =
  rt_annotations :: "tool_annotations option"
  rt_schema_props :: "string list option"
  rt_handler :: "('w, 'u) tool_handler"

definition register_gateway_tools ::
  "(string, ('w, 'u) registered_tool) hmap \<Rightarrow> (string, ('w, 'u) registered_tool) hmap" where
  "register_gateway_tools tools =
     hm_insert ''navra_var_drop'' \<lparr>rt_annotations = None, rt_schema_props = Some [''id''], rt_handler = VarDrop\<rparr>
       (hm_insert ''navra_var_inspect'' \<lparr>rt_annotations = None, rt_schema_props = Some [''id''], rt_handler = VarInspect\<rparr>
         (hm_insert ''navra_var_list'' \<lparr>rt_annotations = None, rt_schema_props = None, rt_handler = VarList\<rparr> tools))"

record ('w, 'u, 'c) gw_config =
  gc_glob :: glob_engine
  gc_home :: "string option"
  gc_canonicalize :: "string \<Rightarrow> string option"
  gc_json_text :: "json \<Rightarrow> string"
  gc_json_pretty :: "json \<Rightarrow> string"
  gc_show_score :: "'c \<Rightarrow> string"
  gc_f32 :: "'c f32_ops"
  gc_score :: "'c score_ops"
  gc_custom_pii :: "string list"
  gc_sha :: "string \<Rightarrow> string"
  gc_encoders :: encoders
  gc_tools :: "(string, ('w, 'u) registered_tool) hmap"
  gc_tool_permissions :: "(string, tool_permissions) hmap"
  gc_agent_operations :: "(string, string set) hmap"
  gc_tool_operations :: "(string, upstream_operation) hmap"
  gc_domain_rules :: "(string, domain_rules) hmap"
  gc_tool_classifications :: "(string, resource_class) hmap"
  gc_path_acls :: "(string, path_acl) hmap"
  gc_trusted_paths :: "(string, string list) hmap"
  gc_ifc_policies :: "(string, tainted_write_policy) hmap"
  gc_hooks :: "('u hook_world, 'w gw_context) hook list"
  gc_cedar :: "(string \<Rightarrow> string \<Rightarrow> string \<Rightarrow> (string, string) hmap \<Rightarrow> policy_decision) option"
  gc_cedar_v2 :: bool
  gc_upstream_tools :: "(string, string list) hmap"
  gc_upstream_modules :: "string set"
  gc_opa :: "(string \<Rightarrow> string \<Rightarrow> string \<Rightarrow> (string, string) hmap \<Rightarrow> policy_decision option) option"
  gc_dmn :: "((string, string) hmap \<Rightarrow> policy_decision) option"
  gc_routing :: "'c tool_routing_config"
  gc_authority :: "declassification_authority option"

record ('w, 'u, 'i, 'c) gw_state =
  gs_paused :: bool
  gs_quota :: quota_engine
  gs_permits :: "(string, nat) hmap"
  gs_processes :: process_table
  gs_session_perms :: session_store
  gs_values :: "content value_store_map"
  gs_sessions :: "('w agent_identity, 'i) sessions"
  gs_witnesses :: "(string \<times> declassification_witness) list"
  gs_pipelines :: "(string, 'c filter_pipeline) hmap"
  gs_blackbox :: "blackbox option"
  gs_metrics :: gw_metrics
  gs_world :: "'u hook_world"

record call_clock =
  ck_instant :: instant
  ck_seconds :: nat
  ck_epoch :: int
  ck_millis :: int
  ck_duration_us :: nat
  ck_trace_id :: string
  ck_var_id :: string
  ck_disk_ok :: bool

section \<open>Accounting\<close>

definition bump :: "nat \<Rightarrow> nat" where
  "bump n = wrap_u64 (n + 1)"

definition agent_name :: "'w gw_context \<Rightarrow> string" where
  "agent_name ctx = ai_name (cc_agent (gx_call ctx))"

definition permission_set :: "'w gw_context \<Rightarrow> string" where
  "permission_set ctx = ai_permissions (cc_agent (gx_call ctx))"

definition agent_ring :: "'w gw_context \<Rightarrow> nat option" where
  "agent_ring ctx = map_option rc_ring (ai_capabilities (cc_agent (gx_call ctx)))"

definition session_id :: "'w gw_context \<Rightarrow> string" where
  "session_id ctx = cc_session_id (gx_call ctx)"

definition note_denied ::
  "call_clock \<Rightarrow> 'w gw_context \<Rightarrow> ('w, 'u, 'i, 'c) gw_state \<Rightarrow> ('w, 'u, 'i, 'c) gw_state" where
  "note_denied ck ctx st =
     st\<lparr>gs_processes := record_denied (ck_instant ck) (agent_name ctx) (permission_set ctx)
          (ai_did (cc_agent (gx_call ctx))) (agent_ring ctx) (gs_processes st)\<rparr>"

definition count_denied :: "('w, 'u, 'i, 'c) gw_state \<Rightarrow> ('w, 'u, 'i, 'c) gw_state" where
  "count_denied st = st\<lparr>gs_metrics := (gs_metrics st)\<lparr>gm_calls_denied := bump (gm_calls_denied (gs_metrics st))\<rparr>\<rparr>"

definition finish_call ::
  "'w gw_context \<Rightarrow> string \<Rightarrow> ('w, 'u, 'i, 'c) gw_state \<Rightarrow> ('w, 'u, 'i, 'c) gw_state" where
  "finish_call ctx tool st = st\<lparr>gs_processes := complete_call (agent_name ctx) tool (gs_processes st)\<rparr>"

text \<open>Arguments, result, outcome, duration and label of one row of the audit log.\<close>

definition audit ::
  "('w, 'u, 'c) gw_config \<Rightarrow> call_clock \<Rightarrow> 'w gw_context \<Rightarrow> string \<Rightarrow> string \<Rightarrow> string \<Rightarrow> string \<Rightarrow> nat
     \<Rightarrow> string \<Rightarrow> ('w, 'u, 'i, 'c) gw_state \<Rightarrow> ('w, 'u, 'i, 'c) gw_state" where
  "audit cfg ck ctx tool args result outcome duration label st =
     st\<lparr>gs_blackbox := map_option
          (bb_record (gc_sha cfg) (ck_disk_ok ck) (ck_millis ck)
             \<lparr>rd_agent = agent_name ctx, rd_permissions = permission_set ctx, rd_session = session_id ctx,
              rd_tool = tool, rd_args = args, rd_result = result, rd_outcome = outcome,
              rd_duration = duration, rd_label = label, rd_obo_sub = None,
              rd_trace_id = ck_trace_id ck, rd_act_chain = None\<rparr>)
          (gs_blackbox st)\<rparr>"

definition quoted :: "string \<Rightarrow> string" where
  "quoted s = [CHR 0x27] @ s @ [CHR 0x27]"

section \<open>Gates\<close>

text \<open>A gate lets the call go on in a state, or answers it, or panics.\<close>

datatype 's gate_result = Pass 's | Refuse 's string | Panic

fun then_gate :: "'s gate_result \<Rightarrow> ('s \<Rightarrow> 's gate_result) \<Rightarrow> 's gate_result" where
  "then_gate (Pass s) g = g s"
| "then_gate (Refuse s m) g = Refuse s m"
| "then_gate Panic g = Panic"

definition denied_message :: "string \<Rightarrow> string" where
  "denied_message tool = ''Permission denied: '' @ quoted tool"

definition pause_gate :: "('w, 'u, 'i, 'c) gw_state \<Rightarrow> ('w, 'u, 'i, 'c) gw_state gate_result" where
  "pause_gate st =
     (if gs_paused st
      then Refuse st ''Server is paused. Resume from the system tray to continue.'' else Pass st)"

definition quota_gate ::
  "call_clock \<Rightarrow> 'w gw_context \<Rightarrow> ('w, 'u, 'i, 'c) gw_state \<Rightarrow> ('w, 'u, 'i, 'c) gw_state gate_result" where
  "quota_gate ck ctx st =
     (if has_limits (gs_quota st) then
        (case quota_check (ck_instant ck) (agent_name ctx) (permission_set ctx) (gs_quota st) of
           (q, None) \<Rightarrow> Panic
         | (q, Some True) \<Rightarrow> Pass (st\<lparr>gs_quota := q\<rparr>)
         | (q, Some False) \<Rightarrow>
             Refuse (st\<lparr>gs_quota := q\<rparr>) (''Rate limit exceeded for agent '' @ quoted (agent_name ctx)))
      else Pass st)"

text \<open>A semaphore is created with the bound of the first call and keeps it.\<close>

definition acquire_permit ::
  "string \<Rightarrow> nat \<Rightarrow> (string, nat) hmap \<Rightarrow> (string, nat) hmap \<times> bool" where
  "acquire_permit agent max_concurrent sems =
     (let available = (case hm_get sems agent of Some n \<Rightarrow> n | None \<Rightarrow> max_concurrent) in
      if available = 0 then (hm_insert agent available sems, False)
      else (hm_insert agent (available - 1) sems, True))"

definition concurrency_gate ::
  "'w gw_context \<Rightarrow> ('w, 'u, 'i, 'c) gw_state \<Rightarrow> ('w, 'u, 'i, 'c) gw_state gate_result" where
  "concurrency_gate ctx st =
     (case ai_max_concurrent (cc_agent (gx_call ctx)) of
        None \<Rightarrow> Pass st
      | Some m \<Rightarrow>
          (case acquire_permit (agent_name ctx) m (gs_permits st) of
             (sems, True) \<Rightarrow> Pass (st\<lparr>gs_permits := sems\<rparr>)
           | (sems, False) \<Rightarrow>
               Refuse (st\<lparr>gs_permits := sems\<rparr>)
                 (''Concurrency limit ('' @ show_nat m @ '') reached for agent '' @ quoted (agent_name ctx))))"

definition release_permit ::
  "'w gw_context \<Rightarrow> ('w, 'u, 'i, 'c) gw_state \<Rightarrow> ('w, 'u, 'i, 'c) gw_state" where
  "release_permit ctx st =
     (case ai_max_concurrent (cc_agent (gx_call ctx)) of
        None \<Rightarrow> st
      | Some m \<Rightarrow>
          (case hm_get (gs_permits st) (agent_name ctx) of
             None \<Rightarrow> st
           | Some n \<Rightarrow> st\<lparr>gs_permits := hm_insert (agent_name ctx) (n + 1) (gs_permits st)\<rparr>))"

definition tool_gate ::
  "('w, 'u, 'c) gw_config \<Rightarrow> call_clock \<Rightarrow> string \<Rightarrow> json \<Rightarrow> 'w gw_context
     \<Rightarrow> ('w, 'u, 'i, 'c) gw_state \<Rightarrow> ('w, 'u, 'i, 'c) gw_state gate_result" where
  "tool_gate cfg ck tool args ctx st =
     (case ai_capabilities (cc_agent (gx_call ctx)) of
        Some caps \<Rightarrow>
          if list_ex (\<lambda>pat. glob_accepts (gc_glob cfg) pat tool) (rc_tools caps) then Pass st
          else
            Refuse (audit cfg ck ctx tool (gc_json_text cfg args) ''Permission denied: capability token''
                      ''denied_acl'' 0 ''N/A'' (count_denied (note_denied ck ctx st)))
              (''Permission denied: tool '' @ quoted tool @ '' not in capability token grants'')
      | None \<Rightarrow>
          (case hm_get (gc_tool_permissions cfg) (permission_set ctx) of
             None \<Rightarrow> Pass st
           | Some tp \<Rightarrow>
               (case tool_check (gc_glob cfg) tp tool of
                  ToolDeny \<Rightarrow>
                    Refuse (note_denied ck ctx st)
                      (''Permission denied: tool '' @ quoted tool @ '' is blocked'')
                | ToolApprove \<Rightarrow>
                    (case store_check_tool (ck_seconds ck) (session_id ctx) tool (gs_session_perms st) of
                       (perms, granted) \<Rightarrow>
                         if granted then Pass (st\<lparr>gs_session_perms := perms\<rparr>)
                         else Refuse (note_denied ck ctx (st\<lparr>gs_session_perms := perms\<rparr>))
                                (''Approval required: '' @ quoted tool))
                | ToolAllow \<Rightarrow> Pass st)))"

definition operation_gate ::
  "('w, 'u, 'c) gw_config \<Rightarrow> call_clock \<Rightarrow> string \<Rightarrow> 'w gw_context
     \<Rightarrow> ('w, 'u, 'i, 'c) gw_state \<Rightarrow> ('w, 'u, 'i, 'c) gw_state gate_result" where
  "operation_gate cfg ck tool ctx st =
     (case (hm_get (gc_agent_operations cfg) (permission_set ctx), hm_get (gc_tool_operations cfg) tool) of
        (Some ops, Some tool_op) \<Rightarrow>
          if tool_op = UpWrite \<and> ''write'' \<notin> ops then Refuse (note_denied ck ctx st) (denied_message tool)
          else if tool_op = UpDeny then Refuse st (denied_message tool)
          else Pass st
      | _ \<Rightarrow> Pass st)"

definition domain_gate ::
  "('w, 'u, 'c) gw_config \<Rightarrow> call_clock \<Rightarrow> string \<Rightarrow> 'w gw_context
     \<Rightarrow> ('w, 'u, 'i, 'c) gw_state \<Rightarrow> ('w, 'u, 'i, 'c) gw_state gate_result" where
  "domain_gate cfg ck tool ctx st =
     (case (hm_get (gc_domain_rules cfg) (permission_set ctx), hm_get (gc_tool_classifications cfg) tool) of
        (Some rules, Some class) \<Rightarrow>
          if domain_check rules class = DomainDeny
          then Refuse (count_denied (note_denied ck ctx st)) (denied_message tool)
          else Pass st
      | _ \<Rightarrow> Pass st)"


text \<open>The resource a policy engine is asked about: the first of the keys that is present, as a text.\<close>

definition first_arg :: "string list \<Rightarrow> json \<Rightarrow> string option" where
  "first_arg keys args =
     (case List.map_filter (json_get args) keys of v # _ \<Rightarrow> json_str v | [] \<Rightarrow> None)"

definition policy_resource :: "json \<Rightarrow> string option" where
  "policy_resource args = first_arg [''path'', ''repo'', ''uri''] args"

definition resource_or_default :: "json \<Rightarrow> string" where
  "resource_or_default args = (case policy_resource args of Some r \<Rightarrow> r | None \<Rightarrow> ''_default'')"

definition base_context :: "'w gw_context \<Rightarrow> (string, string) hmap" where
  "base_context ctx = [(''permission_set'', permission_set ctx), (''session_id'', session_id ctx)]"

definition is_upstream_tool :: "('w, 'u, 'c) gw_config \<Rightarrow> string \<Rightarrow> bool" where
  "is_upstream_tool cfg tool_name \<longleftrightarrow>
     list_ex (\<lambda>(module, tools). module \<in> gc_upstream_modules cfg \<and> tool_name \<in> set tools)
       (gc_upstream_tools cfg)"

definition cedar_gate ::
  "('w, 'u, 'c) gw_config \<Rightarrow> call_clock \<Rightarrow> string \<Rightarrow> json \<Rightarrow> 'w gw_context
     \<Rightarrow> ('w, 'u, 'i, 'c) gw_state \<Rightarrow> ('w, 'u, 'i, 'c) gw_state gate_result" where
  "cedar_gate cfg ck tool args ctx st =
     (case gc_cedar cfg of
        None \<Rightarrow> Pass st
      | Some is_authorized \<Rightarrow>
          (let namespaced = gc_cedar_v2 cfg \<and> is_upstream_tool cfg tool;
               action = (if namespaced then ''upstream_tool_call'' else tool);
               context = (if namespaced then hm_insert ''tool_name'' tool (base_context ctx)
                          else base_context ctx)
           in (case is_authorized (agent_name ctx) action (resource_or_default args) context of
                 PolicyAllow \<Rightarrow> Pass st
               | PolicyDeny reason \<Rightarrow>
                   Refuse ((note_denied ck ctx st)\<lparr>gs_metrics :=
                       (gs_metrics st)\<lparr>gm_cedar_denials := bump (gm_cedar_denials (gs_metrics st))\<rparr>\<rparr>)
                     (denied_message tool))))"

text \<open>Without the lock of the OPA engine the call goes on.\<close>

definition opa_gate ::
  "('w, 'u, 'c) gw_config \<Rightarrow> call_clock \<Rightarrow> string \<Rightarrow> json \<Rightarrow> 'w gw_context
     \<Rightarrow> ('w, 'u, 'i, 'c) gw_state \<Rightarrow> ('w, 'u, 'i, 'c) gw_state gate_result" where
  "opa_gate cfg ck tool args ctx st =
     (case gc_opa cfg of
        None \<Rightarrow> Pass st
      | Some is_authorized \<Rightarrow>
          (case is_authorized (agent_name ctx) tool (resource_or_default args) (base_context ctx) of
             Some (PolicyDeny reason) \<Rightarrow> Refuse (note_denied ck ctx st) (denied_message tool)
           | _ \<Rightarrow> Pass st))"

definition with_resource :: "json \<Rightarrow> (string, string) hmap \<Rightarrow> (string, string) hmap" where
  "with_resource args m =
     (case policy_resource args of Some r \<Rightarrow> hm_insert ''resource'' r m | None \<Rightarrow> m)"

definition count_dmn_denial :: "('w, 'u, 'i, 'c) gw_state \<Rightarrow> ('w, 'u, 'i, 'c) gw_state" where
  "count_dmn_denial st =
     st\<lparr>gs_metrics := (gs_metrics st)\<lparr>gm_dmn_denials := bump (gm_dmn_denials (gs_metrics st))\<rparr>\<rparr>"

definition dmn_gate ::
  "('w, 'u, 'c) gw_config \<Rightarrow> call_clock \<Rightarrow> string \<Rightarrow> json \<Rightarrow> 'w gw_context
     \<Rightarrow> ('w, 'u, 'i, 'c) gw_state \<Rightarrow> ('w, 'u, 'i, 'c) gw_state gate_result" where
  "dmn_gate cfg ck tool args ctx st =
     (case gc_dmn cfg of
        None \<Rightarrow> Pass st
      | Some evaluate \<Rightarrow>
          (case evaluate (with_resource args
                  [(''agent_name'', agent_name ctx), (''tool_name'', tool),
                   (''permission_set'', permission_set ctx), (''session_id'', session_id ctx),
                   (''phase'', ''input'')]) of
             PolicyAllow \<Rightarrow> Pass st
           | PolicyDeny reason \<Rightarrow>
               Refuse (count_dmn_denial (note_denied ck ctx st)) (denied_message tool)))"

definition annotations_of :: "('w, 'u, 'c) gw_config \<Rightarrow> string \<Rightarrow> tool_annotations option" where
  "annotations_of cfg tool = Option.bind (hm_get (gc_tools cfg) tool) rt_annotations"

definition path_gate ::
  "('w, 'u, 'c) gw_config \<Rightarrow> call_clock \<Rightarrow> string \<Rightarrow> json \<Rightarrow> 'w gw_context
     \<Rightarrow> ('w, 'u, 'i, 'c) gw_state \<Rightarrow> ('w, 'u, 'i, 'c) gw_state gate_result" where
  "path_gate cfg ck tool args ctx st =
     (case (first_arg [''path'', ''file_path'', ''repo_path''] args,
            hm_get (gc_path_acls cfg) (permission_set ctx)) of
        (Some path, Some acl) \<Rightarrow>
          (let tool_op = (if is_write_tool tool (annotations_of cfg tool) then ''write'' else ''read'') in
           if check_acl (gc_glob cfg) (gc_home cfg) acl tool_op path = Allowed then Pass st
           else Refuse (count_denied (note_denied ck ctx st))
                  (''Access denied: path '' @ quoted path @ '' blocked by ACL policy''))
      | _ \<Rightarrow> Pass st)"

text \<open>The gates that look at the call before its variables are resolved.\<close>

definition policy_gates ::
  "('w, 'u, 'c) gw_config \<Rightarrow> call_clock \<Rightarrow> string \<Rightarrow> json \<Rightarrow> 'w gw_context
     \<Rightarrow> ('w, 'u, 'i, 'c) gw_state \<Rightarrow> ('w, 'u, 'i, 'c) gw_state gate_result" where
  "policy_gates cfg ck tool args ctx st =
     then_gate (then_gate (then_gate (then_gate (then_gate (then_gate
       (tool_gate cfg ck tool args ctx st)
       (operation_gate cfg ck tool ctx))
       (domain_gate cfg ck tool ctx))
       (cedar_gate cfg ck tool args ctx))
       (opa_gate cfg ck tool args ctx))
       (dmn_gate cfg ck tool args ctx))
       (path_gate cfg ck tool args ctx)"

fun resolve_message :: "resolve_error \<Rightarrow> string" where
  "resolve_message (VariableNotFound var_id) = ''Variable not found: '' @ var_id"

text \<open>The store of the session, which a first call creates, and the arguments without references.\<close>

definition session_store_of :: "content value_store_map \<Rightarrow> nat \<Rightarrow> content value_store" where
  "session_store_of values h = vsm_heap values ! h"

definition with_store ::
  "nat \<Rightarrow> (content value_store \<Rightarrow> content value_store) \<Rightarrow> ('w, 'u, 'i, 'c) gw_state \<Rightarrow> ('w, 'u, 'i, 'c) gw_state" where
  "with_store h f st =
     st\<lparr>gs_values := (gs_values st)\<lparr>vsm_heap :=
          (vsm_heap (gs_values st))[h := f (session_store_of (gs_values st) h)]\<rparr>\<rparr>"

definition resolve_arguments ::
  "call_clock \<Rightarrow> json \<Rightarrow> 'w gw_context \<Rightarrow> ('w, 'u, 'i, 'c) gw_state
     \<Rightarrow> ('w, 'u, 'i, 'c) gw_state \<times> nat \<times> (resolve_error + resolved_args)" where
  "resolve_arguments ck args ctx st =
     (case vsm_get_or_create (session_id ctx) (gs_values st) of
        (values, h) \<Rightarrow>
          (st\<lparr>gs_values := values\<rparr>, h,
           resolve_variable_refs as_text (ck_seconds ck) args (session_store_of values h)))"

definition write_label :: "'w gw_context \<Rightarrow> resolved_args \<Rightarrow> data_label" where
  "write_label ctx resolved =
     (if ra_referenced_vars resolved = [] then level (cc_taint (gx_call ctx))
      else ra_effective_label resolved)"

definition ifc_gate ::
  "('w, 'u, 'c) gw_config \<Rightarrow> call_clock \<Rightarrow> string \<Rightarrow> resolved_args \<Rightarrow> 'w gw_context
     \<Rightarrow> ('w, 'u, 'i, 'c) gw_state \<Rightarrow> ('w, 'u, 'i, 'c) gw_state gate_result" where
  "ifc_gate cfg ck tool resolved ctx st =
     (if is_write_tool tool (annotations_of cfg tool) \<and> integrity (write_label ctx resolved) = Untrusted
      then
        (case hm_get (gc_ifc_policies cfg) (permission_set ctx) of
           Some TW_Deny \<Rightarrow> Refuse (note_denied ck ctx st) (denied_message tool)
         | Some TW_Approve \<Rightarrow> Refuse (note_denied ck ctx st) (''Approval required: '' @ quoted tool)
         | Some TW_Allow \<Rightarrow> Pass st
         | None \<Rightarrow> Refuse (note_denied ck ctx st) (denied_message tool))
      else Pass st)"

end
