(* ===== verification/GatewayCall.thy ===== *)
theory GatewayCall
  imports Gateway
begin

text \<open>
  The part of \<open>McpServer::handle_call_tool\<close> after its gates: the hooks, the dispatch to a
  handler or a similarly named tool, the filtering of the result, its label, the stored
  variable, the declassification and the records; then the whole call and its entry,
  \<open>call_tool\<close> of \<open>navra_handler.rs\<close>.
\<close>

section \<open>Filtering of results\<close>

type_synonym 'c filtered = "('c filter_pipeline \<times> (string + content list) \<times> declassification list) option"

fun filter_blocks ::
  "'c f32_ops \<Rightarrow> string list \<Rightarrow> filter_context \<Rightarrow> content list \<Rightarrow> 'c filter_pipeline
     \<Rightarrow> content list \<Rightarrow> declassification list \<Rightarrow> 'c filtered" where
  "filter_blocks ops custom fctx [] p out recs = Some (p, Inr out, recs)"
| "filter_blocks ops custom fctx (TextContent s # cs) p out recs =
     (case process_with_declassification ops custom s fctx p of
        None \<Rightarrow> None
      | Some (p', Inr processed, d) \<Rightarrow>
          filter_blocks ops custom fctx cs p' (out @ [TextContent processed]) (recs @ [d])
      | Some (p', Inl reason, d) \<Rightarrow> Some (p', Inl reason, recs @ [d]))"
| "filter_blocks ops custom fctx (TextResource mime s # cs) p out recs =
     (if (case mime of Some m \<Rightarrow> starts_with m ''text/'' | None \<Rightarrow> False) then
        (case process_with_declassification ops custom s fctx p of
           None \<Rightarrow> None
         | Some (p', Inr processed, d) \<Rightarrow>
             filter_blocks ops custom fctx cs p' (out @ [TextContent processed]) (recs @ [d])
         | Some (p', Inl reason, d) \<Rightarrow> Some (p', Inl reason, recs @ [d]))
      else filter_blocks ops custom fctx cs p (out @ [TextResource mime s]) recs)"
| "filter_blocks ops custom fctx (BlobResource b # cs) p out recs =
     Some (p, Inl ''Non-text resource content blocked by safety pipeline'', recs)"
| "filter_blocks ops custom fctx (BinaryContent b # cs) p out recs =
     Some (p, Inl ''Non-text content (image/audio) blocked by safety pipeline (no binary filter configured)'',
       recs)"

definition apply_safety_filter ::
  "'c f32_ops \<Rightarrow> string list \<Rightarrow> call_tool_result \<Rightarrow> string \<Rightarrow> string \<Rightarrow> 'c filter_pipeline
     \<Rightarrow> ('c filter_pipeline \<times> call_tool_result \<times> declassification list) option" where
  "apply_safety_filter ops custom result agent tool p =
     map_option (\<lambda>(p', filtered, recs).
         (p', (case filtered of Inl reason \<Rightarrow> error_msg reason
               | Inr content \<Rightarrow> result\<lparr>cr_content := content\<rparr>), recs))
       (filter_blocks ops custom \<lparr>fc_agent_name = agent, fc_operation = tool, fc_path = None\<rparr>
          (cr_content result) p [] [])"

text \<open>Hooks when there are any, else the pipeline of the permission set; then the ledger.\<close>

definition drain_ledger ::
  "('w, 'u, 'i, 'c) gw_state \<Rightarrow> ('w, 'u, 'i, 'c) gw_state \<times> declassification list" where
  "drain_ledger st =
     (case gs_world st of
        (Some ledger, u) \<Rightarrow>
          (let (ledger', recs) = ledger_drain ledger in (st\<lparr>gs_world := (Some ledger', u)\<rparr>, recs))
      | (None, u) \<Rightarrow> (st, []))"

definition post_filter ::
  "('w, 'u, 'c) gw_config \<Rightarrow> string \<Rightarrow> json \<Rightarrow> call_tool_result \<Rightarrow> 'w gw_context
     \<Rightarrow> ('w, 'u, 'i, 'c) gw_state
     \<Rightarrow> (call_tool_result \<times> declassification list \<times> ('w, 'u, 'i, 'c) gw_state) option" where
  "post_filter cfg tool args result ctx st =
     map_option (\<lambda>(filtered, recs, st1). case drain_ledger st1 of (st2, drained) \<Rightarrow> (filtered, recs @ drained, st2))
       (if has_hooks (gc_hooks cfg) then
          (case run_post (gc_hooks cfg) tool args result ctx (gs_world st) of
             (filtered, w) \<Rightarrow> Some (filtered, [], st\<lparr>gs_world := w\<rparr>))
        else
          (case hm_get (gs_pipelines st) (permission_set ctx) of
             Some p \<Rightarrow>
               if has_filters p then
                 map_option (\<lambda>(p', filtered, recs).
                     (filtered, recs, st\<lparr>gs_pipelines := hm_insert (permission_set ctx) p' (gs_pipelines st)\<rparr>))
                   (apply_safety_filter (gc_f32 cfg) (gc_custom_pii cfg) result (agent_name ctx) tool p)
               else Some (result, [], st)
           | None \<Rightarrow> Some (result, [], st)))"

definition filter_input_required ::
  "('w, 'u, 'c) gw_config \<Rightarrow> input_required \<Rightarrow> string \<Rightarrow> json \<Rightarrow> 'w gw_context
     \<Rightarrow> ('w, 'u, 'i, 'c) gw_state
     \<Rightarrow> ((call_tool_result + input_required) \<times> declassification list \<times> ('w, 'u, 'i, 'c) gw_state) option" where
  "filter_input_required cfg ir tool args ctx st =
     (let originals = input_request_texts ir in
      if originals = [] then Some (Inr ir, [], st)
      else
        map_option (\<lambda>(filtered, recs, st').
            (if is_err filtered then Inl (error_msg ''upstream input request blocked by safety pipeline'')
             else Inr (write_back_input_request_texts
                         (map as_text (take (length originals) (cr_content filtered))) ir),
             recs, st'))
          (post_filter cfg tool args (result_success (map TextContent originals)) ctx st))"

section \<open>Labels\<close>

definition result_label_for ::
  "('w, 'u, 'c) gw_config \<Rightarrow> string \<Rightarrow> json \<Rightarrow> 'w gw_context \<Rightarrow> ('w, 'u, 'i, 'c) gw_state
     \<Rightarrow> data_label \<times> ('w, 'u, 'i, 'c) gw_state" where
  "result_label_for cfg tool args ctx st =
     (if is_external_read_tool tool then
        (let trusted =
               (case Option.bind (json_get args ''path'') json_str of
                  Some p \<Rightarrow>
                    (case hm_get (gc_trusted_paths cfg) (permission_set ctx) of
                       Some patterns \<Rightarrow>
                         is_trusted_path (gc_glob cfg) (gc_home cfg) (gc_canonicalize cfg) p patterns
                     | None \<Rightarrow> False)
                | None \<Rightarrow> False)
         in if \<not> trusted then
              (UNTRUSTED_PUBLIC,
               st\<lparr>gs_metrics := (gs_metrics st)\<lparr>gm_taint_elevations := bump (gm_taint_elevations (gs_metrics st))\<rparr>\<rparr>)
            else (TRUSTED_PUBLIC, st))
      else (TRUSTED_PUBLIC, st))"

text \<open>\<open>any_findings\<close>, \<open>any_partial\<close> and the highest recommended step-down of the records.\<close>

definition aggregate_step ::
  "declassification \<Rightarrow> bool \<times> bool \<times> confidentiality option \<Rightarrow> bool \<times> bool \<times> confidentiality option" where
  "aggregate_step d acc =
     (case acc of (any, partly, recommended) \<Rightarrow>
        if dc_findings_count d = 0 then acc
        else
          (True, partly \<or> \<not> dc_all_handled d,
           (case dc_new_confidentiality d of
              Some conf \<Rightarrow> Some (case recommended of Some prev \<Rightarrow> max prev conf | None \<Rightarrow> conf)
            | None \<Rightarrow> recommended)))"

definition aggregate :: "declassification list \<Rightarrow> bool \<times> bool \<times> confidentiality option" where
  "aggregate recs = fold aggregate_step recs (False, False, None)"

definition any_findings :: "declassification list \<Rightarrow> bool" where
  "any_findings recs = fst (aggregate recs)"

definition declassify_to :: "declassification list \<Rightarrow> confidentiality option" where
  "declassify_to recs =
     (case aggregate recs of (any, partly, recommended) \<Rightarrow>
        if any \<and> \<not> partly then recommended else None)"

definition elevated_label :: "data_label \<Rightarrow> declassification list \<Rightarrow> data_label" where
  "elevated_label l recs =
     (if any_findings recs then l\<lparr>confidentiality := max (confidentiality l) Pii\<rparr> else l)"

text \<open>The label of an intermediate round, \<open>elevated_confidentiality\<close> of the records included.\<close>

definition elevated_confidentiality :: "declassification list \<Rightarrow> confidentiality" where
  "elevated_confidentiality recs =
     (if list_ex (\<lambda>r. dc_findings_count r > 0) recs then Pii else Public)"

definition absorb_context :: "data_label \<Rightarrow> 'w gw_context \<Rightarrow> 'w gw_context" where
  "absorb_context l ctx =
     ctx\<lparr>gx_call := (gx_call ctx)\<lparr>cc_taint := absorb l (cc_taint (gx_call ctx))\<rparr>\<rparr>"

definition absorb_session ::
  "data_label \<Rightarrow> 'w gw_context \<Rightarrow> ('w, 'u, 'i, 'c) gw_state \<Rightarrow> ('w, 'u, 'i, 'c) gw_state" where
  "absorb_session l ctx st = st\<lparr>gs_sessions := update_context_label (session_id ctx) l (gs_sessions st)\<rparr>"

definition label_debug :: "data_label \<Rightarrow> string" where
  "label_debug l =
     ''DataLabel { integrity: '' @ integrity_debug (integrity l) @ '', confidentiality: '' @
       confidentiality_debug (confidentiality l) @ '' }''"

section \<open>Storing and declassifying\<close>

definition store_result ::
  "call_clock \<Rightarrow> string \<Rightarrow> nat \<Rightarrow> call_tool_result \<Rightarrow> data_label \<Rightarrow> ('w, 'u, 'i, 'c) gw_state
     \<Rightarrow> ('w, 'u, 'i, 'c) gw_state" where
  "store_result ck tool h result label st =
     with_store h (\<lambda>vs. fst (vs_store (ck_seconds ck)
         \<lparr>sv_id = ck_var_id ck, sv_content = cr_content result, sv_label = label, sv_source_tool = tool,
          sv_created_at = ck_seconds ck, sv_is_error = is_err result\<rparr> vs)) st"

definition mention_variable :: "call_clock \<Rightarrow> call_tool_result \<Rightarrow> call_tool_result" where
  "mention_variable ck result =
     result\<lparr>cr_content := cr_content result @
       [TextContent (''\<newline>---\<newline>_var: '' @ ck_var_id ck @ ''_'')]\<rparr>"

definition record_witness ::
  "string \<Rightarrow> declassification_witness \<Rightarrow> (string \<times> declassification_witness) list
     \<Rightarrow> (string \<times> declassification_witness) list" where
  "record_witness session w ws = (if length ws \<ge> 1024 then drop 512 ws else ws) @ [(session, w)]"

definition redaction_justification :: "string \<Rightarrow> declassification list \<Rightarrow> string" where
  "redaction_justification tool recs =
     ''post-call safety filter on '' @ quoted tool @ '': full redaction of '' @
     show_nat (sum_list (map dc_findings_count recs)) @ '' finding(s) '' @ utf8_dash @
     '' all findings replaced with [REDACTED] markers''"

text \<open>Returns the label that the records of the call carry, and the context after it.\<close>

definition declassify_result ::
  "('w, 'u, 'c) gw_config \<Rightarrow> call_clock \<Rightarrow> string \<Rightarrow> nat \<Rightarrow> call_tool_result \<Rightarrow> declassification list
     \<Rightarrow> data_label \<Rightarrow> 'w gw_context \<Rightarrow> ('w, 'u, 'i, 'c) gw_state
     \<Rightarrow> data_label \<times> 'w gw_context \<times> ('w, 'u, 'i, 'c) gw_state" where
  "declassify_result cfg ck tool h stored recs label ctx st =
     (case (declassify_to recs, gc_authority cfg) of
        (Some new_conf, Some authority) \<Rightarrow>
          (case declassify (gc_encoders cfg) (ck_epoch ck) new_conf authority
                  (redaction_justification tool recs) (cc_taint (gx_call ctx)) of
             (taint, Some w) \<Rightarrow>
               (let final = level taint;
                    st1 = st\<lparr>gs_witnesses := record_witness (session_id ctx) w (gs_witnesses st),
                             gs_sessions := fst (declassify_context_label (session_id ctx) new_conf (gs_sessions st))\<rparr>;
                    st2 = with_store h (\<lambda>vs. fst (vs_update (ck_var_id ck) (cr_content stored) final vs)) st1
                in (final, ctx\<lparr>gx_call := (gx_call ctx)\<lparr>cc_taint := taint\<rparr>\<rparr>,
                    audit cfg ck ctx tool (redaction_justification tool recs)
                      (''witness: '' @ label_display (original_label w) @ '' -> '' @ label_display (new_label w))
                      ''declassified'' 0 (label_debug final) st2))
           | (taint, None) \<Rightarrow> (label, ctx, st))
      | _ \<Rightarrow> (label, ctx, st))"

section \<open>The rest of the call\<close>

definition result_text :: "call_tool_result \<Rightarrow> string" where
  "result_text result = concat (List.map_filter as_text (cr_content result))"

definition add_duration :: "call_clock \<Rightarrow> ('w, 'u, 'i, 'c) gw_state \<Rightarrow> ('w, 'u, 'i, 'c) gw_state" where
  "add_duration ck st =
     st\<lparr>gs_metrics := (gs_metrics st)\<lparr>gm_duration_us_sum :=
          wrap_u64 (gm_duration_us_sum (gs_metrics st) + ck_duration_us ck)\<rparr>\<rparr>"

definition note_error :: "call_tool_result \<Rightarrow> ('w, 'u, 'i, 'c) gw_state \<Rightarrow> ('w, 'u, 'i, 'c) gw_state" where
  "note_error result st =
     (if is_err result
      then st\<lparr>gs_metrics := (gs_metrics st)\<lparr>gm_calls_errors := bump (gm_calls_errors (gs_metrics st))\<rparr>\<rparr>
      else st)"

definition output_gate ::
  "('w, 'u, 'c) gw_config \<Rightarrow> string \<Rightarrow> json \<Rightarrow> call_tool_result \<Rightarrow> 'w gw_context
     \<Rightarrow> ('w, 'u, 'i, 'c) gw_state \<Rightarrow> call_tool_result \<times> ('w, 'u, 'i, 'c) gw_state" where
  "output_gate cfg tool args result ctx st =
     (case gc_dmn cfg of
        None \<Rightarrow> (result, st)
      | Some evaluate \<Rightarrow>
          (case evaluate (with_resource args
                  [(''agent_name'', agent_name ctx), (''tool_name'', tool),
                   (''permission_set'', permission_set ctx), (''phase'', ''output''),
                   (''tool_output'', truncate_str (result_text result) 2048)]) of
             PolicyAllow \<Rightarrow> (result, st)
           | PolicyDeny reason \<Rightarrow>
               (error_msg (''Output blocked by policy: '' @ reason), count_dmn_denial st)))"

definition complete_result ::
  "('w, 'u, 'c) gw_config \<Rightarrow> call_clock \<Rightarrow> string \<Rightarrow> json \<Rightarrow> call_tool_result \<Rightarrow> nat \<Rightarrow> 'w gw_context
     \<Rightarrow> ('w, 'u, 'i, 'c) gw_state \<Rightarrow> (call_tool_result \<times> ('w, 'u, 'i, 'c) gw_state) option" where
  "complete_result cfg ck tool args raw h ctx st =
     (case result_label_for cfg tool args ctx (note_error raw (add_duration ck st)) of
        (base, st1) \<Rightarrow>
          (case post_filter cfg tool args raw ctx st1 of
             None \<Rightarrow> None
           | Some (filtered, recs, st2) \<Rightarrow>
               (let label = elevated_label base recs;
                    ctx1 = absorb_context label ctx;
                    st3 = store_result ck tool h filtered label (absorb_session label ctx st2);
                    result = mention_variable ck filtered
                in (case declassify_result cfg ck tool h filtered recs label ctx1 st3 of
                      (final, ctx2, st4) \<Rightarrow>
                        (let st5 = finish_call ctx tool st4;
                             st6 = audit cfg ck ctx tool (gc_json_text cfg args)
                                     (truncate_str (result_text result) 4096)
                                     (if is_err result then ''error'' else ''allowed'')
                                     (ck_duration_us ck) (label_debug final) st5
                         in Some (output_gate cfg tool args result ctx st6))))))"

definition input_round ::
  "('w, 'u, 'c) gw_config \<Rightarrow> call_clock \<Rightarrow> string \<Rightarrow> json \<Rightarrow> input_required \<Rightarrow> 'w gw_context
     \<Rightarrow> ('w, 'u, 'i, 'c) gw_state \<Rightarrow> (tool_response \<times> ('w, 'u, 'i, 'c) gw_state) option" where
  "input_round cfg ck tool args ir ctx st =
     map_option (\<lambda>(checked, recs, st1).
         (case checked of
            Inl blocked \<Rightarrow> (Completed blocked, st1)
          | Inr ir' \<Rightarrow>
              (case result_label_for cfg tool args ctx (add_duration ck st1) of
                 (base, st2) \<Rightarrow>
                   (let label = base\<lparr>confidentiality := max (confidentiality base) (elevated_confidentiality recs)\<rparr>
                    in (InputRequired ir',
                        audit cfg ck ctx tool (gc_json_text cfg args) ''input_required'' ''input_required''
                          (ck_duration_us ck) (label_debug label)
                          (finish_call ctx tool (absorb_session label ctx st2)))))))
       (filter_input_required cfg ir tool args ctx st)"

text \<open>The gateway's own tools; \<open>Err\<close> of a missing argument is a result like any other.\<close>

definition summary_json :: "stored_value_summary \<Rightarrow> json" where
  "summary_json s =
     JObject [(''id'', JString (sum_id s)), (''is_error'', JBool (sum_is_error s)),
              (''label'', JString (label_display (sum_label s))), (''source_tool'', JString (sum_source_tool s))]"

definition var_list ::
  "('w, 'u, 'c) gw_config \<Rightarrow> call_clock \<Rightarrow> content value_store \<Rightarrow> call_tool_result" where
  "var_list cfg ck vs =
     result_success [TextContent (gc_json_pretty cfg
       (JArray (map summary_json (vs_list (ck_seconds ck) vs))))]"

definition missing_variable :: "string \<Rightarrow> call_tool_result" where
  "missing_variable var_id = error_msg (''Variable not found: '' @ var_id)"

definition missing_id :: call_tool_result where
  "missing_id = error_msg (''Missing '' @ quoted ''id'' @ '' argument'')"

definition var_inspect ::
  "call_clock \<Rightarrow> json \<Rightarrow> 'w gw_context \<Rightarrow> nat \<Rightarrow> ('w, 'u, 'i, 'c) gw_state
     \<Rightarrow> call_tool_result \<times> ('w, 'u, 'i, 'c) gw_state" where
  "var_inspect ck args ctx h st =
     (case Option.bind (json_get args ''id'') json_str of
        None \<Rightarrow> (missing_id, st)
      | Some var_id \<Rightarrow>
          (case vs_get (ck_seconds ck) var_id (session_store_of (gs_values st) h) of
             Some stored \<Rightarrow> (result_success (sv_content stored), absorb_session (sv_label stored) ctx st)
           | None \<Rightarrow> (missing_variable var_id, st)))"

definition var_drop :: "json \<Rightarrow> nat \<Rightarrow> ('w, 'u, 'i, 'c) gw_state \<Rightarrow> call_tool_result \<times> ('w, 'u, 'i, 'c) gw_state" where
  "var_drop args h st =
     (case Option.bind (json_get args ''id'') json_str of
        None \<Rightarrow> (missing_id, st)
      | Some var_id \<Rightarrow>
          (case vs_remove var_id (session_store_of (gs_values st) h) of
             (vs, Some _) \<Rightarrow>
               (result_success [TextContent (''Variable '' @ var_id @ '' removed'')], with_store h (\<lambda>_. vs) st)
           | (vs, None) \<Rightarrow> (missing_variable var_id, with_store h (\<lambda>_. vs) st)))"

definition call_handler ::
  "('w, 'u, 'c) gw_config \<Rightarrow> call_clock \<Rightarrow> ('w, 'u) registered_tool \<Rightarrow> json \<Rightarrow> 'w gw_context
     \<Rightarrow> ('w, 'u, 'i, 'c) gw_state \<Rightarrow> tool_response \<times> ('w, 'u, 'i, 'c) gw_state" where
  "call_handler cfg ck t args ctx st =
     (let (values, h) = vsm_get_or_create (session_id ctx) (gs_values st); st1 = st\<lparr>gs_values := values\<rparr> in
      case rt_handler t of
        Handler f \<Rightarrow> (case f args ctx (gs_world st) of (response, w) \<Rightarrow> (response, st\<lparr>gs_world := w\<rparr>))
      | VarList \<Rightarrow> (Completed (var_list cfg ck (session_store_of values h)), st1)
      | VarInspect \<Rightarrow> (case var_inspect ck args ctx h st1 of (r, st2) \<Rightarrow> (Completed r, st2))
      | VarDrop \<Rightarrow> (case var_drop args h st1 of (r, st2) \<Rightarrow> (Completed r, st2)))"

definition unknown_tool :: "string \<Rightarrow> string" where
  "unknown_tool tool = ''Unknown tool: '' @ tool"

definition suggestion :: "('c \<Rightarrow> string) \<Rightarrow> 'c routing_candidate \<Rightarrow> string" where
  "suggestion show_score c = ''  - '' @ cand_name c @ '' (score: '' @ show_score (cand_score c) @ '')''"

text \<open>\<open>Inl\<close> is an early return, \<open>Inr\<close> the response of a handler.\<close>

definition dispatch ::
  "('w, 'u, 'c) gw_config \<Rightarrow> call_clock \<Rightarrow> string \<Rightarrow> json \<Rightarrow> 'w gw_context \<Rightarrow> ('w, 'u, 'i, 'c) gw_state
     \<Rightarrow> (call_tool_result \<times> ('w, 'u, 'i, 'c) gw_state) + (tool_response \<times> ('w, 'u, 'i, 'c) gw_state)" where
  "dispatch cfg ck tool args ctx st =
     (case hm_get (gc_tools cfg) tool of
        Some t \<Rightarrow> Inr (call_handler cfg ck t args ctx st)
      | None \<Rightarrow>
          (case find_candidates (gc_score cfg) tool (map fst (gc_tools cfg)) args
                  (map (\<lambda>(n, t). (n, rt_schema_props t)) (gc_tools cfg)) (gc_routing cfg) of
             [] \<Rightarrow>
               Inl (error_msg (unknown_tool tool),
                    audit cfg ck ctx tool (gc_json_text cfg args) ''Unknown tool'' ''error'' 0 ''N/A''
                      (finish_call ctx tool st))
           | best # others \<Rightarrow>
               if so_ge (gc_score cfg) (cand_score best) (auto_route_threshold (gc_routing cfg)) \<and>
                  cand_distance best \<le> 2 \<and>
                  so_less (gc_score cfg) (so_zero (gc_score cfg)) (auto_route_threshold (gc_routing cfg))
               then
                 (let st1 = st\<lparr>gs_metrics :=
                        (gs_metrics st)\<lparr>gm_routing_decisions := bump (gm_routing_decisions (gs_metrics st))\<rparr>\<rparr>
                  in (case hm_get (gc_tools cfg) (cand_name best) of
                        Some t \<Rightarrow> Inr (call_handler cfg ck t args ctx st1)
                      | None \<Rightarrow> Inr (Completed (error_msg (unknown_tool tool)), st1)))
               else
                 Inl (error_msg (unknown_tool tool @ ''. Did you mean:\<newline>'' @
                        join_with ''\<newline>'' (map (suggestion (gc_show_score cfg)) (best # others))),
                      finish_call ctx tool st)))"

definition respond ::
  "('w, 'u, 'c) gw_config \<Rightarrow> call_clock \<Rightarrow> string \<Rightarrow> json \<Rightarrow> nat \<Rightarrow> tool_response \<Rightarrow> 'w gw_context
     \<Rightarrow> ('w, 'u, 'i, 'c) gw_state \<Rightarrow> (tool_response \<times> ('w, 'u, 'i, 'c) gw_state) option" where
  "respond cfg ck tool args h response ctx st =
     (case response of
        Completed result \<Rightarrow>
          map_option (\<lambda>(r, st'). (Completed r, st')) (complete_result cfg ck tool args result h ctx st)
      | InputRequired ir \<Rightarrow> input_round cfg ck tool args ir ctx st
      | other \<Rightarrow> Some (Completed (flatten_tool_response other), st))"

definition execute_tool ::
  "('w, 'u, 'c) gw_config \<Rightarrow> call_clock \<Rightarrow> string \<Rightarrow> json \<Rightarrow> nat \<Rightarrow> 'w gw_context
     \<Rightarrow> ('w, 'u, 'i, 'c) gw_state \<Rightarrow> (tool_response \<times> ('w, 'u, 'i, 'c) gw_state) option" where
  "execute_tool cfg ck tool args h ctx st =
     (case dispatch cfg ck tool args ctx st of
        Inl (result, st') \<Rightarrow> Some (Completed result, st')
      | Inr (response, st') \<Rightarrow> respond cfg ck tool args h response ctx st')"

definition admit_call ::
  "('w, 'u, 'c) gw_config \<Rightarrow> call_clock \<Rightarrow> string \<Rightarrow> json \<Rightarrow> nat \<Rightarrow> 'w gw_context
     \<Rightarrow> ('w, 'u, 'i, 'c) gw_state \<Rightarrow> (tool_response \<times> ('w, 'u, 'i, 'c) gw_state) option" where
  "admit_call cfg ck tool args h ctx st =
     (let st1 = st\<lparr>gs_processes := record_call (ck_instant ck) (agent_name ctx) (permission_set ctx)
                     (ai_did (cc_agent (gx_call ctx))) (agent_ring ctx) tool (gs_processes st)\<rparr>
      in if has_hooks (gc_hooks cfg) then
           (case run_pre (gc_hooks cfg) tool args ctx (annotations_of cfg tool) (gs_world st1) of
              (Proceed args', w) \<Rightarrow> execute_tool cfg ck tool args' h ctx (st1\<lparr>gs_world := w\<rparr>)
            | (Simulated result, w) \<Rightarrow>
                Some (Completed result, finish_call ctx tool (st1\<lparr>gs_world := w\<rparr>))
            | (Blocked reason, w) \<Rightarrow>
                Some (Completed (error_msg (denied_message tool)), finish_call ctx tool (st1\<lparr>gs_world := w\<rparr>))
            | (PendingApproval request reason, w) \<Rightarrow>
                Some (Completed (error_msg (''Approval required: '' @ quoted tool @ '' (request: '' @ request @ '')'')),
                      st1\<lparr>gs_world := w\<rparr>))
         else execute_tool cfg ck tool args h ctx st1)"

definition refused :: "string \<Rightarrow> tool_response" where
  "refused message = Completed (error_msg message)"

definition checked_call ::
  "('w, 'u, 'c) gw_config \<Rightarrow> call_clock \<Rightarrow> string \<Rightarrow> json \<Rightarrow> 'w gw_context
     \<Rightarrow> ('w, 'u, 'i, 'c) gw_state \<Rightarrow> (tool_response \<times> ('w, 'u, 'i, 'c) gw_state) option" where
  "checked_call cfg ck tool args ctx st =
     (case policy_gates cfg ck tool args ctx st of
        Panic \<Rightarrow> None
      | Refuse st1 m \<Rightarrow> Some (refused m, st1)
      | Pass st1 \<Rightarrow>
          (case resolve_arguments ck args ctx st1 of
             (st2, h, Inl e) \<Rightarrow> Some (refused (resolve_message e), count_denied (note_denied ck ctx st2))
           | (st2, h, Inr resolved) \<Rightarrow>
               (case ifc_gate cfg ck tool resolved ctx st2 of
                  Panic \<Rightarrow> None
                | Refuse st3 m \<Rightarrow> Some (refused m, st3)
                | Pass st3 \<Rightarrow> admit_call cfg ck tool (ra_arguments resolved) h ctx st3)))"

text \<open>The sandbox of a capability token and the fields of a retried round go into the context.\<close>

definition prepare_context :: "call_params \<Rightarrow> 'w gw_context \<Rightarrow> 'w gw_context" where
  "prepare_context params ctx =
     (let call = gx_call ctx;
          sandbox = (case cc_sandbox call of
                       Some s \<Rightarrow> Some s
                     | None \<Rightarrow> Option.bind (ai_capabilities (cc_agent call)) rc_sandbox)
      in ctx\<lparr>gx_call := call\<lparr>cc_sandbox := sandbox\<rparr>,
             gx_input_responses := cp_input_responses params, gx_request_state := cp_request_state params\<rparr>)"

definition call_arguments :: "call_params \<Rightarrow> json" where
  "call_arguments params = JObject (case cp_arguments params of Some m \<Rightarrow> m | None \<Rightarrow> [])"

text \<open>The permit of the semaphore is given back wherever the call returns.\<close>

definition handle_call_tool ::
  "('w, 'u, 'c) gw_config \<Rightarrow> call_clock \<Rightarrow> call_params \<Rightarrow> 'w gw_context
     \<Rightarrow> ('w, 'u, 'i, 'c) gw_state \<Rightarrow> (tool_response \<times> ('w, 'u, 'i, 'c) gw_state) option" where
  "handle_call_tool cfg ck params ctx0 st0 =
     (let st = st0\<lparr>gs_metrics := (gs_metrics st0)\<lparr>gm_calls_total := bump (gm_calls_total (gs_metrics st0))\<rparr>\<rparr>;
          ctx = prepare_context params ctx0
      in (case then_gate (then_gate (pause_gate st) (quota_gate ck ctx)) (concurrency_gate ctx) of
            Panic \<Rightarrow> None
          | Refuse st1 m \<Rightarrow> Some (refused m, st1)
          | Pass st1 \<Rightarrow>
              map_option (\<lambda>(response, st2). (response, release_permit ctx st2))
                (checked_call cfg ck (cp_name params) (call_arguments params) ctx st1)))"

section \<open>The entry\<close>

definition session_id_for :: "'w agent_identity \<Rightarrow> string" where
  "session_id_for agent = ''rmcp:'' @ ai_name agent"

definition session_context :: "'w agent_identity \<Rightarrow> string \<Rightarrow> data_label \<Rightarrow> 'w gw_context" where
  "session_context agent session label =
     absorb_context label
       \<lparr>gx_call = call_context_new agent session, gx_input_responses = None, gx_request_state = None\<rparr>"

definition MRTR_DOWNGRADE :: string where
  "MRTR_DOWNGRADE =
     ''upstream requested interactive input (MCP input_required), which requires protocol version '' @
     ''2026-07-28 and an MRTR-capable client''"

definition call_tool ::
  "('w, 'u, 'c) gw_config \<Rightarrow> call_clock \<Rightarrow> 'i \<Rightarrow> bool \<Rightarrow> 'w agent_identity \<Rightarrow> call_params
     \<Rightarrow> ('w, 'u, 'i, 'c) gw_state \<Rightarrow> (tool_response \<times> ('w, 'u, 'i, 'c) gw_state) option" where
  "call_tool cfg ck client supports_mrtr agent params st0 =
     (let session = session_id_for agent;
          st = st0\<lparr>gs_sessions := ensure_session (ck_epoch ck) session agent client (gs_sessions st0)\<rparr>;
          ctx = session_context agent session (context_label session (gs_sessions st))
      in map_option (\<lambda>(response, st').
             (case response of
                InputRequired ir \<Rightarrow>
                  if supports_mrtr then response else Completed (error_msg MRTR_DOWNGRADE)
              | _ \<Rightarrow> response, st'))
           (handle_call_tool cfg ck params ctx st))"

end
