(* ===== verification/GatewayGates.thy ===== *)
theory GatewayGates
  imports GatewayCall
begin

text \<open>
  What the gates of a tool call decide.  \<open>call_allowed\<close> states it without their order: one
  condition per gate over the state at the entry.  The gates implement it, a refused call has no effect, and
  where the engines of third parties are off the decision is the one of the Verus model in
  \<open>handlers.rs\<close>.
\<close>

section \<open>The decision\<close>

definition rate_ok :: "call_clock \<Rightarrow> 'w gw_context \<Rightarrow> ('w, 'u, 'i, 'c) gw_state \<Rightarrow> bool" where
  "rate_ok ck ctx st \<longleftrightarrow> has_limits (gs_quota st) \<longrightarrow>
     snd (quota_check (ck_instant ck) (agent_name ctx) (permission_set ctx) (gs_quota st)) = Some True"

definition permit_free :: "'w gw_context \<Rightarrow> ('w, 'u, 'i, 'c) gw_state \<Rightarrow> bool" where
  "permit_free ctx st \<longleftrightarrow>
     (case ai_max_concurrent (cc_agent (gx_call ctx)) of
        None \<Rightarrow> True
      | Some m \<Rightarrow> (case hm_get (gs_permits st) (agent_name ctx) of Some n \<Rightarrow> n | None \<Rightarrow> m) > 0)"

definition tool_permitted ::
  "('w, 'u, 'c) gw_config \<Rightarrow> call_clock \<Rightarrow> string \<Rightarrow> 'w gw_context \<Rightarrow> ('w, 'u, 'i, 'c) gw_state \<Rightarrow> bool" where
  "tool_permitted cfg ck tool ctx st \<longleftrightarrow>
     (case ai_capabilities (cc_agent (gx_call ctx)) of
        Some caps \<Rightarrow> list_ex (\<lambda>pat. glob_accepts (gc_glob cfg) pat tool) (rc_tools caps)
      | None \<Rightarrow>
          (case hm_get (gc_tool_permissions cfg) (permission_set ctx) of
             None \<Rightarrow> True
           | Some tp \<Rightarrow>
               tool_check (gc_glob cfg) tp tool = ToolAllow \<or>
               tool_check (gc_glob cfg) tp tool = ToolApprove \<and>
               snd (store_check_tool (ck_seconds ck) (session_id ctx) tool (gs_session_perms st))))"

definition operation_granted :: "('w, 'u, 'c) gw_config \<Rightarrow> string \<Rightarrow> 'w gw_context \<Rightarrow> bool" where
  "operation_granted cfg tool ctx \<longleftrightarrow>
     (case (hm_get (gc_agent_operations cfg) (permission_set ctx), hm_get (gc_tool_operations cfg) tool) of
        (Some ops, Some UpWrite) \<Rightarrow> ''write'' \<in> ops
      | (Some ops, Some UpDeny) \<Rightarrow> False
      | _ \<Rightarrow> True)"

definition domain_granted :: "('w, 'u, 'c) gw_config \<Rightarrow> string \<Rightarrow> 'w gw_context \<Rightarrow> bool" where
  "domain_granted cfg tool ctx \<longleftrightarrow>
     (case (hm_get (gc_domain_rules cfg) (permission_set ctx), hm_get (gc_tool_classifications cfg) tool) of
        (Some rules, Some class) \<Rightarrow> domain_check rules class \<noteq> DomainDeny
      | _ \<Rightarrow> True)"

text \<open>The three engines: each that is configured has to let the call pass.\<close>

definition cedar_allows :: "('w, 'u, 'c) gw_config \<Rightarrow> string \<Rightarrow> json \<Rightarrow> 'w gw_context \<Rightarrow> bool" where
  "cedar_allows cfg tool args ctx \<longleftrightarrow>
     (case gc_cedar cfg of
        None \<Rightarrow> True
      | Some decide \<Rightarrow>
          (if gc_cedar_v2 cfg \<and> is_upstream_tool cfg tool
           then decide (agent_name ctx) ''upstream_tool_call'' (resource_or_default args)
                  (hm_insert ''tool_name'' tool (base_context ctx))
           else decide (agent_name ctx) tool (resource_or_default args) (base_context ctx)) = PolicyAllow)"

definition opa_allows :: "('w, 'u, 'c) gw_config \<Rightarrow> string \<Rightarrow> json \<Rightarrow> 'w gw_context \<Rightarrow> bool" where
  "opa_allows cfg tool args ctx \<longleftrightarrow>
     (case gc_opa cfg of
        None \<Rightarrow> True
      | Some decide \<Rightarrow>
          decide (agent_name ctx) tool (resource_or_default args) (base_context ctx) \<in> {None, Some PolicyAllow})"

definition dmn_allows :: "('w, 'u, 'c) gw_config \<Rightarrow> string \<Rightarrow> json \<Rightarrow> 'w gw_context \<Rightarrow> bool" where
  "dmn_allows cfg tool args ctx \<longleftrightarrow>
     (case gc_dmn cfg of
        None \<Rightarrow> True
      | Some decide \<Rightarrow>
          decide (with_resource args
            [(''agent_name'', agent_name ctx), (''tool_name'', tool), (''permission_set'', permission_set ctx),
             (''session_id'', session_id ctx), (''phase'', ''input'')]) = PolicyAllow)"

definition path_granted :: "('w, 'u, 'c) gw_config \<Rightarrow> string \<Rightarrow> json \<Rightarrow> 'w gw_context \<Rightarrow> bool" where
  "path_granted cfg tool args ctx \<longleftrightarrow>
     (case (first_arg [''path'', ''file_path'', ''repo_path''] args,
            hm_get (gc_path_acls cfg) (permission_set ctx)) of
        (Some path, Some acl) \<Rightarrow>
          check_acl (gc_glob cfg) (gc_home cfg) acl
            (if is_write_tool tool (annotations_of cfg tool) then ''write'' else ''read'') path = Allowed
      | _ \<Rightarrow> True)"

definition flow_granted :: "('w, 'u, 'c) gw_config \<Rightarrow> string \<Rightarrow> resolve_error + resolved_args
     \<Rightarrow> 'w gw_context \<Rightarrow> bool" where
  "flow_granted cfg tool resolved ctx \<longleftrightarrow>
     (case resolved of
        Inl e \<Rightarrow> False
      | Inr r \<Rightarrow>
          is_write_tool tool (annotations_of cfg tool) \<longrightarrow>
          integrity (write_label ctx r) = Untrusted \<longrightarrow>
          hm_get (gc_ifc_policies cfg) (permission_set ctx) = Some TW_Allow)"


definition call_allowed ::
  "('w, 'u, 'c) gw_config \<Rightarrow> call_clock \<Rightarrow> call_params \<Rightarrow> 'w gw_context \<Rightarrow> ('w, 'u, 'i, 'c) gw_state \<Rightarrow> bool"
where
  "call_allowed cfg ck params ctx0 st \<longleftrightarrow>
     (let ctx = prepare_context params ctx0; tool = cp_name params; args = call_arguments params in
      \<not> gs_paused st \<and> rate_ok ck ctx st \<and> permit_free ctx st \<and>
      tool_permitted cfg ck tool ctx st \<and> operation_granted cfg tool ctx \<and> domain_granted cfg tool ctx \<and>
      cedar_allows cfg tool args ctx \<and> opa_allows cfg tool args ctx \<and> dmn_allows cfg tool args ctx \<and>
      path_granted cfg tool args ctx \<and>
      flow_granted cfg tool (snd (snd (resolve_arguments ck args ctx st))) ctx)"

section \<open>The gates\<close>

text \<open>What a call can leave behind beyond its accounts.\<close>

definition same_effects :: "('w, 'u, 'i, 'c) gw_state \<Rightarrow> ('w, 'u, 'i, 'c) gw_state \<Rightarrow> bool" where
  "same_effects st st' \<longleftrightarrow>
     gs_world st' = gs_world st \<and> gs_sessions st' = gs_sessions st \<and>
     gs_witnesses st' = gs_witnesses st \<and> gs_pipelines st' = gs_pipelines st"

definition decides :: "('w, 'u, 'i, 'c) gw_state \<Rightarrow> bool \<Rightarrow> ('w, 'u, 'i, 'c) gw_state gate_result \<Rightarrow> bool" where
  "decides st allowed g \<longleftrightarrow>
     (case g of
        Pass st' \<Rightarrow> allowed \<and> same_effects st st' \<and> gs_values st' = gs_values st
      | Refuse st' m \<Rightarrow> \<not> allowed \<and> same_effects st st' \<and> gs_values st' = gs_values st
      | Panic \<Rightarrow> \<not> allowed)"

lemma same_effects_refl [simp]: "same_effects st st"
  by (simp add: same_effects_def)

lemma same_effects_trans: "same_effects a b \<Longrightarrow> same_effects b c \<Longrightarrow> same_effects a c"
  by (simp add: same_effects_def)

lemma accounts_keep [simp]:
  "gs_world (note_denied ck ctx st) = gs_world st" "gs_sessions (note_denied ck ctx st) = gs_sessions st"
  "gs_witnesses (note_denied ck ctx st) = gs_witnesses st" "gs_pipelines (note_denied ck ctx st) = gs_pipelines st"
  "gs_values (note_denied ck ctx st) = gs_values st"
  "gs_world (count_denied st) = gs_world st" "gs_sessions (count_denied st) = gs_sessions st"
  "gs_witnesses (count_denied st) = gs_witnesses st" "gs_pipelines (count_denied st) = gs_pipelines st"
  "gs_values (count_denied st) = gs_values st"
  "gs_world (count_dmn_denial st) = gs_world st" "gs_sessions (count_dmn_denial st) = gs_sessions st"
  "gs_witnesses (count_dmn_denial st) = gs_witnesses st" "gs_pipelines (count_dmn_denial st) = gs_pipelines st"
  "gs_values (count_dmn_denial st) = gs_values st"
  "gs_world (finish_call ctx tool st) = gs_world st" "gs_sessions (finish_call ctx tool st) = gs_sessions st"
  "gs_witnesses (finish_call ctx tool st) = gs_witnesses st" "gs_pipelines (finish_call ctx tool st) = gs_pipelines st"
  "gs_values (finish_call ctx tool st) = gs_values st"
  by (simp_all add: note_denied_def count_denied_def count_dmn_denial_def finish_call_def)

lemma audit_keeps [simp]:
  "gs_world (audit cfg ck ctx tool args r oc d l st) = gs_world st"
  "gs_sessions (audit cfg ck ctx tool args r oc d l st) = gs_sessions st"
  "gs_witnesses (audit cfg ck ctx tool args r oc d l st) = gs_witnesses st"
  "gs_pipelines (audit cfg ck ctx tool args r oc d l st) = gs_pipelines st"
  "gs_values (audit cfg ck ctx tool args r oc d l st) = gs_values st"
  by (simp_all add: audit_def)

lemma release_keeps [simp]:
  "gs_world (release_permit ctx st) = gs_world st" "gs_sessions (release_permit ctx st) = gs_sessions st"
  "gs_witnesses (release_permit ctx st) = gs_witnesses st" "gs_pipelines (release_permit ctx st) = gs_pipelines st"
  "gs_values (release_permit ctx st) = gs_values st"
  by (simp_all add: release_permit_def split: option.split)

lemma pause_decides: "decides st (\<not> gs_paused st) (pause_gate st)"
  by (simp add: decides_def pause_gate_def)

lemma quota_decides: "decides st (rate_ok ck ctx st) (quota_gate ck ctx st)"
  by (auto simp: decides_def quota_gate_def rate_ok_def same_effects_def
      split: prod.split option.split bool.split)

lemma permit_decides: "decides st (permit_free ctx st) (concurrency_gate ctx st)"
  by (auto simp: decides_def concurrency_gate_def permit_free_def same_effects_def acquire_permit_def Let_def
      split: prod.split option.split bool.split)

lemma tool_decides: "decides st (tool_permitted cfg ck tool ctx st) (tool_gate cfg ck tool args ctx st)"
  by (auto simp: decides_def tool_gate_def tool_permitted_def same_effects_def
      split: prod.split option.split tool_policy.split)

lemma operation_decides:
  "decides st (operation_granted cfg tool ctx) (operation_gate cfg ck tool ctx st)"
  by (auto simp: decides_def operation_gate_def operation_granted_def same_effects_def
      split: option.split upstream_operation.split)

lemma domain_decides:
  "decides st (domain_granted cfg tool ctx) (domain_gate cfg ck tool ctx st)"
  by (auto simp: decides_def domain_gate_def domain_granted_def same_effects_def split: option.split)

lemma cedar_decides:
  "decides st (cedar_allows cfg tool args ctx) (cedar_gate cfg ck tool args ctx st)"
  by (auto simp: decides_def cedar_gate_def cedar_allows_def same_effects_def Let_def
      split: option.split policy_decision.split)

lemma opa_decides:
  "decides st (opa_allows cfg tool args ctx) (opa_gate cfg ck tool args ctx st)"
  by (auto simp: decides_def opa_gate_def opa_allows_def same_effects_def
      split: option.split policy_decision.split)

lemma dmn_decides:
  "decides st (dmn_allows cfg tool args ctx) (dmn_gate cfg ck tool args ctx st)"
  by (auto simp: decides_def dmn_gate_def dmn_allows_def same_effects_def
      split: option.split policy_decision.split)

lemma path_decides:
  "decides st (path_granted cfg tool args ctx) (path_gate cfg ck tool args ctx st)"
  by (auto simp: decides_def path_gate_def path_granted_def same_effects_def Let_def split: option.split)

lemma flow_decides:
  "decides st (flow_granted cfg tool (Inr r) ctx) (ifc_gate cfg ck tool r ctx st)"
  by (auto simp: decides_def ifc_gate_def flow_granted_def same_effects_def
      split: option.split tainted_write_policy.split)

lemma then_decides:
  "decides st p g \<Longrightarrow> (\<And>st'. g = Pass st' \<Longrightarrow> decides st' q (f st')) \<Longrightarrow> decides st (p \<and> q) (then_gate g f)"
  by (cases g) (auto simp: decides_def split: gate_result.splits dest: same_effects_trans)


lemma decides_Pass:
  "decides st p g \<Longrightarrow> g = Pass st' \<Longrightarrow> same_effects st st' \<and> gs_values st' = gs_values st"
  by (simp add: decides_def)

text \<open>The gates at the door.\<close>

definition door :: "call_clock \<Rightarrow> 'w gw_context \<Rightarrow> ('w, 'u, 'i, 'c) gw_state \<Rightarrow> ('w, 'u, 'i, 'c) gw_state gate_result" where
  "door ck ctx st = then_gate (then_gate (pause_gate st) (quota_gate ck ctx)) (concurrency_gate ctx)"

lemma quota_Pass:
  "quota_gate ck ctx st = Pass st' \<Longrightarrow>
     gs_permits st' = gs_permits st \<and> gs_session_perms st' = gs_session_perms st"
  by (auto simp: quota_gate_def split: if_splits prod.splits option.splits bool.splits)

lemma permit_Pass: "concurrency_gate ctx st = Pass st' \<Longrightarrow> gs_session_perms st' = gs_session_perms st"
  by (auto simp: concurrency_gate_def split: option.splits prod.splits bool.splits)

lemma pause_Pass: "pause_gate st = Pass st' \<Longrightarrow> st' = st"
  by (simp add: pause_gate_def split: if_splits)

lemma then_Pass: "then_gate g f = Pass st' \<longleftrightarrow> (\<exists>s. g = Pass s \<and> f s = Pass st')"
  by (cases g) auto

lemma door_decides: "decides st (\<not> gs_paused st \<and> rate_ok ck ctx st \<and> permit_free ctx st) (door ck ctx st)"
  unfolding door_def
proof (subst conj_assoc [symmetric], intro then_decides pause_decides)
  fix s assume "pause_gate st = Pass s"
  then show "decides s (rate_ok ck ctx st) (quota_gate ck ctx s)" using quota_decides by (auto dest: pause_Pass)
next
  fix s assume "then_gate (pause_gate st) (quota_gate ck ctx) = Pass s"
  then have "gs_permits s = gs_permits st" by (auto simp: then_Pass dest: pause_Pass quota_Pass)
  then have "permit_free ctx s = permit_free ctx st" by (simp add: permit_free_def split: option.split)
  then show "decides s (permit_free ctx st) (concurrency_gate ctx s)" using permit_decides[of s ctx] by simp
qed

lemma door_Pass: "door ck ctx st = Pass st' \<Longrightarrow> gs_session_perms st' = gs_session_perms st"
  by (auto simp: door_def then_Pass dest!: pause_Pass quota_Pass permit_Pass)

lemma policy_decides:
  "decides st (tool_permitted cfg ck tool ctx st \<and> operation_granted cfg tool ctx \<and> domain_granted cfg tool ctx \<and>
      cedar_allows cfg tool args ctx \<and> opa_allows cfg tool args ctx \<and> dmn_allows cfg tool args ctx \<and>
      path_granted cfg tool args ctx)
     (policy_gates cfg ck tool args ctx st)"
  unfolding policy_gates_def conj_assoc [symmetric]
  by (intro then_decides tool_decides operation_decides domain_decides cedar_decides opa_decides
      dmn_decides path_decides)

lemma resolve_values:
  "gs_values s = gs_values st \<Longrightarrow> snd (resolve_arguments ck args ctx s) = snd (resolve_arguments ck args ctx st)"
  by (simp add: resolve_arguments_def split: prod.split)

lemma resolve_keeps:
  "resolve_arguments ck args ctx st = (st', h, r) \<Longrightarrow> same_effects st st'"
  by (auto simp: resolve_arguments_def same_effects_def split: prod.splits)


lemma then_Panic: "then_gate g f = Panic \<longleftrightarrow> g = Panic \<or> (\<exists>s. g = Pass s \<and> f s = Panic)"
  by (cases g) auto

lemma no_panic [simp]:
  "pause_gate st \<noteq> Panic" "concurrency_gate ctx st \<noteq> Panic" "tool_gate cfg ck tool args ctx st \<noteq> Panic"
  "operation_gate cfg ck tool ctx st \<noteq> Panic" "domain_gate cfg ck tool ctx st \<noteq> Panic"
  "cedar_gate cfg ck tool args ctx st \<noteq> Panic" "opa_gate cfg ck tool args ctx st \<noteq> Panic"
  "dmn_gate cfg ck tool args ctx st \<noteq> Panic" "path_gate cfg ck tool args ctx st \<noteq> Panic"
  "ifc_gate cfg ck tool r ctx st \<noteq> Panic"
  by (simp_all add: pause_gate_def concurrency_gate_def tool_gate_def operation_gate_def domain_gate_def
      cedar_gate_def opa_gate_def dmn_gate_def path_gate_def ifc_gate_def Let_def
      split: option.split prod.split bool.split tool_policy.split upstream_operation.split
        policy_decision.split tainted_write_policy.split)

lemma policy_no_panic [simp]: "policy_gates cfg ck tool args ctx st \<noteq> Panic"
  by (simp add: policy_gates_def then_Panic)

definition limiter_poisoned :: "call_clock \<Rightarrow> 'w gw_context \<Rightarrow> ('w, 'u, 'i, 'c) gw_state \<Rightarrow> bool" where
  "limiter_poisoned ck ctx st \<longleftrightarrow>
     snd (quota_check (ck_instant ck) (agent_name ctx) (permission_set ctx) (gs_quota st)) = None"

lemma door_Panic: "door ck ctx st = Panic \<Longrightarrow> limiter_poisoned ck ctx st"
  by (auto simp: door_def then_Panic quota_gate_def limiter_poisoned_def dest!: pause_Pass
      split: if_splits prod.splits option.splits bool.splits)

lemma checked_call_exact:
  "if tool_permitted cfg ck tool ctx st \<and> operation_granted cfg tool ctx \<and> domain_granted cfg tool ctx \<and>
      cedar_allows cfg tool args ctx \<and> opa_allows cfg tool args ctx \<and> dmn_allows cfg tool args ctx \<and>
      path_granted cfg tool args ctx \<and> flow_granted cfg tool (snd (snd (resolve_arguments ck args ctx st))) ctx
   then \<exists>st1 h r. same_effects st st1 \<and> snd (resolve_arguments ck args ctx st) = (h, Inr r) \<and>
     gs_values st1 = gs_values (fst (resolve_arguments ck args ctx st)) \<and>
     checked_call cfg ck tool args ctx st = admit_call cfg ck tool (ra_arguments r) h ctx st1
   else \<exists>m st'. checked_call cfg ck tool args ctx st = Some (refused m, st') \<and> same_effects st st' \<and>
     gs_values st' \<in> {gs_values st, gs_values (fst (resolve_arguments ck args ctx st))}"
  (is "if ?p1 \<and> ?p2 \<and> ?p3 \<and> ?p4 \<and> ?p5 \<and> ?p6 \<and> ?p7 \<and> ?flow then ?then else ?else")
proof -
  note d = policy_decides[of st cfg ck tool ctx args]
  show ?thesis
  proof (cases "policy_gates cfg ck tool args ctx st")
    case (Refuse st' m)
    then show ?thesis using d by (auto simp: decides_def checked_call_def)
  next
    case (Pass st1)
    then have ok: "?p1 \<and> ?p2 \<and> ?p3 \<and> ?p4 \<and> ?p5 \<and> ?p6 \<and> ?p7" "same_effects st st1"
      "gs_values st1 = gs_values st" using d by (auto simp: decides_def)
    obtain st2 h x where r: "resolve_arguments ck args ctx st1 = (st2, h, x)" by (metis prod_cases3)
    have x: "snd (resolve_arguments ck args ctx st) = (h, x)"
      using resolve_values[OF ok(3), of ck args ctx] r by simp
    have v: "gs_values st2 = gs_values (fst (resolve_arguments ck args ctx st))"
      using r ok(3) by (auto simp: resolve_arguments_def split: prod.splits)
    have s2: "same_effects st st2" using ok(2) resolve_keeps[OF r] by (rule same_effects_trans)
    show ?thesis
    proof (cases x)
      case (Inl e)
      then show ?thesis using Pass r s2 x ok(1) v
        by (auto simp: checked_call_def flow_granted_def same_effects_def)
    next
      case (Inr rv)
      note f = flow_decides[of st2 cfg tool rv ctx ck]
      show ?thesis
      proof (cases "ifc_gate cfg ck tool rv ctx st2")
        case p: (Pass st3)
        then have "?flow" "same_effects st st3" "gs_values st3 = gs_values st2"
          using f s2 x Inr by (auto simp: decides_def intro: same_effects_trans)
        then show ?thesis using ok(1) p Pass r x Inr v by (auto simp: checked_call_def)
      next
        case p: (Refuse st3 m)
        then have "\<not> ?flow" "same_effects st st3" "gs_values st3 = gs_values st2" using f s2 x Inr by (auto simp: decides_def intro: same_effects_trans)
        then show ?thesis using p Pass r Inr v by (auto simp: checked_call_def)
      qed simp
    qed
  qed simp
qed

lemma tool_permitted_door: "door ck ctx st = Pass st' \<Longrightarrow> tool_permitted cfg ck tool ctx st' = tool_permitted cfg ck tool ctx st"
  using door_Pass by (fastforce simp: tool_permitted_def split: option.split)

lemma call_exact:
  fixes params :: call_params and ctx0 :: "'w gw_context"
  defines "ctx \<equiv> prepare_context params ctx0" and "tool \<equiv> cp_name params" and "args \<equiv> call_arguments params"
  shows "if call_allowed cfg ck params ctx0 st
   then \<exists>st1 h r. same_effects st st1 \<and> snd (resolve_arguments ck args ctx st) = (h, Inr r) \<and>
     gs_values st1 = gs_values (fst (resolve_arguments ck args ctx st)) \<and>
     handle_call_tool cfg ck params ctx0 st =
       map_option (\<lambda>(response, s). (response, release_permit ctx s))
         (admit_call cfg ck tool (ra_arguments r) h ctx st1)
   else handle_call_tool cfg ck params ctx0 st = None \<and> limiter_poisoned ck ctx st \<or>
     (\<exists>m st'. handle_call_tool cfg ck params ctx0 st = Some (refused m, st') \<and> same_effects st st' \<and>
       gs_values st' \<in> {gs_values st, gs_values (fst (resolve_arguments ck args ctx st))})"
proof -
  define s0 where "s0 = st\<lparr>gs_metrics := (gs_metrics st)\<lparr>gm_calls_total := bump (gm_calls_total (gs_metrics st))\<rparr>\<rparr>"
  have s0: "same_effects st s0" "gs_values s0 = gs_values st" "gs_paused s0 = gs_paused st"
    "rate_ok ck ctx s0 = rate_ok ck ctx st" "permit_free ctx s0 = permit_free ctx st"
    "tool_permitted cfg ck tool ctx s0 = tool_permitted cfg ck tool ctx st"
    "limiter_poisoned ck ctx s0 = limiter_poisoned ck ctx st"
    by (simp_all add: s0_def same_effects_def rate_ok_def permit_free_def tool_permitted_def limiter_poisoned_def
        split: option.split)
  have h: "handle_call_tool cfg ck params ctx0 st =
      (case door ck ctx s0 of Panic \<Rightarrow> None | Refuse st1 m \<Rightarrow> Some (refused m, st1)
       | Pass st1 \<Rightarrow> map_option (\<lambda>(response, st2). (response, release_permit ctx st2)) (checked_call cfg ck tool args ctx st1))"
    unfolding handle_call_tool_def door_def s0_def ctx_def tool_def args_def Let_def by (rule refl)
  note d = door_decides[of s0 ck ctx]
  have allowed: "call_allowed cfg ck params ctx0 st \<longleftrightarrow>
      (\<not> gs_paused s0 \<and> rate_ok ck ctx s0 \<and> permit_free ctx s0) \<and> tool_permitted cfg ck tool ctx st \<and>
      operation_granted cfg tool ctx \<and> domain_granted cfg tool ctx \<and> cedar_allows cfg tool args ctx \<and>
      opa_allows cfg tool args ctx \<and> dmn_allows cfg tool args ctx \<and> path_granted cfg tool args ctx \<and>
      flow_granted cfg tool (snd (snd (resolve_arguments ck args ctx st))) ctx"
    using s0(3-6) by (simp add: call_allowed_def ctx_def tool_def args_def Let_def)
  show ?thesis
  proof (cases "door ck ctx s0")
    case (Pass s1)
    have s1: "same_effects st s1" "gs_values s1 = gs_values st"
      using d Pass s0(1,2) by (auto simp: decides_def intro: same_effects_trans)
    have t: "tool_permitted cfg ck tool ctx s1 = tool_permitted cfg ck tool ctx st"
      using tool_permitted_door[OF Pass] s0(6) by simp
    note r = resolve_values[OF s1(2), of ck args ctx]
    have v: "gs_values (fst (resolve_arguments ck args ctx s1)) = gs_values (fst (resolve_arguments ck args ctx st))"
      using s1(2) by (simp add: resolve_arguments_def split: prod.split)
    have iff: "call_allowed cfg ck params ctx0 st \<longleftrightarrow> tool_permitted cfg ck tool ctx s1 \<and> operation_granted cfg tool ctx \<and>
        domain_granted cfg tool ctx \<and> cedar_allows cfg tool args ctx \<and> opa_allows cfg tool args ctx \<and>
        dmn_allows cfg tool args ctx \<and> path_granted cfg tool args ctx \<and>
        flow_granted cfg tool (snd (snd (resolve_arguments ck args ctx s1))) ctx"
      using d Pass by (simp add: allowed decides_def t r)
    note c = checked_call_exact[of cfg ck tool ctx s1 args]
    show ?thesis
    proof (cases "call_allowed cfg ck params ctx0 st")
      case True
      with c iff obtain st1 hh rv where
        e: "same_effects s1 st1" "snd (resolve_arguments ck args ctx s1) = (hh, Inr rv)"
          "gs_values st1 = gs_values (fst (resolve_arguments ck args ctx s1))"
          "checked_call cfg ck tool args ctx s1 = admit_call cfg ck tool (ra_arguments rv) hh ctx st1" by auto
      show ?thesis unfolding if_P[OF True]
        by (rule exI[of _ st1], rule exI[of _ hh], rule exI[of _ rv])
          (use e r v in \<open>simp add: h Pass same_effects_trans[OF s1(1) e(1)]\<close>)
    next
      case False
      with c iff obtain m s2 where
        e: "checked_call cfg ck tool args ctx s1 = Some (refused m, s2)" "same_effects s1 s2"
          "gs_values s2 \<in> {gs_values s1, gs_values (fst (resolve_arguments ck args ctx s1))}" by auto
      have "same_effects st (release_permit ctx s2)"
        using same_effects_trans[OF s1(1) e(2)] by (simp add: same_effects_def)
      then show ?thesis unfolding if_not_P[OF False]
        using e(3) by (auto simp: h Pass e(1) s1(2) v)
    qed
  next
    case (Refuse s1 m)
    then have "\<not> call_allowed cfg ck params ctx0 st" "same_effects st s1" "gs_values s1 = gs_values st"
      using d s0(1,2) by (auto simp: decides_def allowed intro: same_effects_trans)
    then show ?thesis by (auto simp: h Refuse)
  next
    case Panic
    then have "\<not> call_allowed cfg ck params ctx0 st" "limiter_poisoned ck ctx st"
      using d door_Panic[OF Panic] s0(7) by (auto simp: decides_def allowed)
    then show ?thesis by (simp add: h Panic)
  qed
qed

lemma allowed_call:
  assumes a: "call_allowed cfg ck params ctx st" and h: "handle_call_tool cfg ck params ctx st = Some (resp, st')"
  shows "\<exists>st1 hd rv st2. same_effects st st1 \<and>
    snd (resolve_arguments ck (call_arguments params) (prepare_context params ctx) st) = (hd, Inr rv) \<and>
    gs_values st1 = gs_values (fst (resolve_arguments ck (call_arguments params) (prepare_context params ctx) st)) \<and>
    admit_call cfg ck (cp_name params) (ra_arguments rv) hd (prepare_context params ctx) st1 = Some (resp, st2) \<and>
    st' = release_permit (prepare_context params ctx) st2"
proof -
  obtain st1 hd rv where e: "same_effects st st1"
    "snd (resolve_arguments ck (call_arguments params) (prepare_context params ctx) st) = (hd, Inr rv)"
    "gs_values st1 = gs_values (fst (resolve_arguments ck (call_arguments params) (prepare_context params ctx) st))"
    and "handle_call_tool cfg ck params ctx st =
       map_option (\<lambda>(response, s). (response, release_permit (prepare_context params ctx) s))
         (admit_call cfg ck (cp_name params) (ra_arguments rv) hd (prepare_context params ctx) st1)"
    using call_exact[of cfg ck params ctx st, unfolded if_P[OF a]] by blast
  moreover from this(4) h have "map_option (\<lambda>(response, s). (response, release_permit (prepare_context params ctx) s))
      (admit_call cfg ck (cp_name params) (ra_arguments rv) hd (prepare_context params ctx) st1) = Some (resp, st')"
    by simp
  then have "\<exists>st2. admit_call cfg ck (cp_name params) (ra_arguments rv) hd (prepare_context params ctx) st1 = Some (resp, st2) \<and>
      st' = release_permit (prepare_context params ctx) st2" by auto
  ultimately show ?thesis by blast
qed

lemma refused_call:
  "\<not> call_allowed cfg ck params ctx st \<Longrightarrow> handle_call_tool cfg ck params ctx st = Some (r, st') \<Longrightarrow>
     (\<exists>m. r = refused m) \<and> same_effects st st' \<and>
     gs_values st' \<in> {gs_values st, gs_values (fst (resolve_arguments ck (call_arguments params)
       (prepare_context params ctx) st))}"
  using call_exact[of cfg ck params ctx st] by auto

section \<open>The model of the gates in the source\<close>

text \<open>\<open>spec_gate_pipeline\<close> of the source: 0 passes, 1 denies, 2 asks for approval.\<close>

definition spec_gate_pipeline :: "nat \<Rightarrow> bool \<Rightarrow> nat \<Rightarrow> bool \<Rightarrow> bool \<Rightarrow> nat \<Rightarrow> bool \<Rightarrow> nat" where
  "spec_gate_pipeline tool_policy ops_allowed acl_result ifc_write ifc_tainted ifc_policy within_rate =
     (if tool_policy = 1 then 1
      else if tool_policy = 2 then 2
      else if \<not> ops_allowed then 1
      else if acl_result = 1 then 1
      else if acl_result = 2 then 2
      else if ifc_write \<and> ifc_tainted \<and> (ifc_policy = 2 \<or> ifc_policy = 3) then 1
      else if ifc_write \<and> ifc_tainted \<and> ifc_policy = 1 then 2
      else if \<not> within_rate then 1
      else 0)"

text \<open>What it is given for a concrete call.\<close>

definition tool_policy_code ::
  "('w, 'u, 'c) gw_config \<Rightarrow> call_clock \<Rightarrow> string \<Rightarrow> 'w gw_context \<Rightarrow> ('w, 'u, 'i, 'c) gw_state \<Rightarrow> nat" where
  "tool_policy_code cfg ck tool ctx st =
     (case ai_capabilities (cc_agent (gx_call ctx)) of
        Some caps \<Rightarrow> if list_ex (\<lambda>pat. glob_accepts (gc_glob cfg) pat tool) (rc_tools caps) then 0 else 1
      | None \<Rightarrow>
          (case hm_get (gc_tool_permissions cfg) (permission_set ctx) of
             None \<Rightarrow> 0
           | Some tp \<Rightarrow>
               (case tool_check (gc_glob cfg) tp tool of
                  ToolAllow \<Rightarrow> 0
                | ToolDeny \<Rightarrow> 1
                | ToolApprove \<Rightarrow>
                    if snd (store_check_tool (ck_seconds ck) (session_id ctx) tool (gs_session_perms st)) then 0 else 2)))"

definition acl_code :: "('w, 'u, 'c) gw_config \<Rightarrow> string \<Rightarrow> json \<Rightarrow> 'w gw_context \<Rightarrow> nat" where
  "acl_code cfg tool args ctx =
     (case (first_arg [''path'', ''file_path'', ''repo_path''] args,
            hm_get (gc_path_acls cfg) (permission_set ctx)) of
        (Some path, Some acl) \<Rightarrow>
          (case check_acl (gc_glob cfg) (gc_home cfg) acl
                  (if is_write_tool tool (annotations_of cfg tool) then ''write'' else ''read'') path of
             Allowed \<Rightarrow> 0
           | NeedsApproval \<Rightarrow> 2
           | _ \<Rightarrow> 1)
      | _ \<Rightarrow> 0)"

definition ifc_policy_code :: "('w, 'u, 'c) gw_config \<Rightarrow> 'w gw_context \<Rightarrow> nat" where
  "ifc_policy_code cfg ctx =
     (case hm_get (gc_ifc_policies cfg) (permission_set ctx) of
        Some TW_Allow \<Rightarrow> 0 | Some TW_Approve \<Rightarrow> 1 | Some TW_Deny \<Rightarrow> 2 | None \<Rightarrow> 3)"

definition model_outcome ::
  "('w, 'u, 'c) gw_config \<Rightarrow> call_clock \<Rightarrow> string \<Rightarrow> json \<Rightarrow> 'w gw_context \<Rightarrow> ('w, 'u, 'i, 'c) gw_state
     \<Rightarrow> resolved_args \<Rightarrow> nat" where
  "model_outcome cfg ck tool args ctx st r =
     spec_gate_pipeline (tool_policy_code cfg ck tool ctx st) (operation_granted cfg tool ctx)
       (acl_code cfg tool args ctx) (is_write_tool tool (annotations_of cfg tool))
       (integrity (write_label ctx r) = Untrusted) (ifc_policy_code cfg ctx) (rate_ok ck ctx st)"

lemma codes:
  "tool_policy_code cfg ck tool ctx st = 0 \<longleftrightarrow> tool_permitted cfg ck tool ctx st"
  "tool_policy_code cfg ck tool ctx st \<in> {0, 1, 2}"
  "acl_code cfg tool args ctx = 0 \<longleftrightarrow> path_granted cfg tool args ctx" "acl_code cfg tool args ctx \<in> {0, 1, 2}"
  "ifc_policy_code cfg ctx = 0 \<longleftrightarrow> hm_get (gc_ifc_policies cfg) (permission_set ctx) = Some TW_Allow"
  "ifc_policy_code cfg ctx \<in> {0, 1, 2, 3}"
  by (auto simp: tool_policy_code_def tool_permitted_def acl_code_def path_granted_def ifc_policy_code_def
      split: option.split tool_policy.split permission_result.split tainted_write_policy.split)

lemma pipeline_zero:
  assumes "tp \<in> {0, 1, 2}" "acl \<in> {0, 1, 2}" "pol \<in> {0, 1, 2, 3}"
  shows "spec_gate_pipeline tp ops acl wr tainted pol rate = 0 \<longleftrightarrow>
    tp = 0 \<and> ops \<and> acl = 0 \<and> (wr \<longrightarrow> tainted \<longrightarrow> pol = 0) \<and> rate"
  using assms by (auto simp: spec_gate_pipeline_def)

end
