(* ===== verification/GatewayFacts.thy ===== *)
theory GatewayFacts
  imports GatewayGates
begin

text \<open>
  What a tool call does to the labels of the sessions and to the stored variables, over whole
  calls and over sequences of them.
\<close>

section \<open>Calls that only raise labels\<close>

definition session_label :: "string \<Rightarrow> ('w, 'u, 'i, 'c) gw_state \<Rightarrow> data_label" where
  "session_label sid st = context_label sid (gs_sessions st)"

text \<open>Other sessions are untouched, the session stays, its label does not drop, nothing is recorded.\<close>

definition rises :: "string \<Rightarrow> ('w, 'u, 'i, 'c) gw_state \<Rightarrow> ('w, 'u, 'i, 'c) gw_state \<Rightarrow> bool" where
  "rises sid st st' \<longleftrightarrow>
     (\<forall>s. s \<noteq> sid \<longrightarrow> hm_get (gs_sessions st') s = hm_get (gs_sessions st) s) \<and>
     (hm_get (gs_sessions st) sid \<noteq> None \<longrightarrow> hm_get (gs_sessions st') sid \<noteq> None) \<and>
     label_le (session_label sid st) (session_label sid st') \<and>
     gs_witnesses st' = gs_witnesses st"

lemma rises_same: "gs_sessions st' = gs_sessions st \<Longrightarrow> gs_witnesses st' = gs_witnesses st \<Longrightarrow> rises sid st st'"
  by (simp add: rises_def session_label_def labels.le_refl)

lemma rises_refl [simp]: "rises sid st st"
  by (simp add: rises_same)

lemma rises_trans: "rises sid a b \<Longrightarrow> rises sid b c \<Longrightarrow> rises sid a c"
  unfolding rises_def by (auto intro: labels.le_trans)

lemma same_effects_rises: "same_effects a b \<Longrightarrow> rises sid a b"
  by (simp add: same_effects_def rises_same)

lemma rises_absorb: "rises (session_id ctx) st (absorb_session l ctx st)"
  by (auto simp: rises_def absorb_session_def session_label_def update_context_label_def context_label_def
      labels.jn_ub1 labels.le_refl split: option.split)

lemma label_absorb:
  "hm_get (gs_sessions st) (session_id ctx) \<noteq> None \<Longrightarrow>
     session_label (session_id ctx) (absorb_session l ctx st) = join (session_label (session_id ctx) st) l"
  by (auto simp: session_label_def absorb_session_def)

lemma rises_update [simp]:
  "rises sid (st\<lparr>gs_metrics := m\<rparr>) st' = rises sid st st'" "rises sid (st\<lparr>gs_world := w\<rparr>) st' = rises sid st st'"
  "rises sid (st\<lparr>gs_processes := p\<rparr>) st' = rises sid st st'" "rises sid (st\<lparr>gs_values := v\<rparr>) st' = rises sid st st'"
  "rises sid st (st'\<lparr>gs_world := w\<rparr>) = rises sid st st'"
  by (simp_all add: rises_def session_label_def)

lemma drain_keeps [simp]:
  "gs_sessions (fst (drain_ledger st)) = gs_sessions st" "gs_witnesses (fst (drain_ledger st)) = gs_witnesses st"
  "gs_values (fst (drain_ledger st)) = gs_values st"
  by (simp_all add: drain_ledger_def Let_def case_prod_unfold split: prod.split option.split)

lemma post_filter_keeps:
  "post_filter cfg tool args raw ctx st = Some (r, recs, st') \<Longrightarrow>
     gs_sessions st' = gs_sessions st \<and> gs_witnesses st' = gs_witnesses st \<and> gs_values st' = gs_values st"
  by (auto simp: post_filter_def case_prod_unfold split: if_splits option.splits)

lemma result_label_keeps:
  "result_label_for cfg tool args ctx st = (l, st') \<Longrightarrow>
     gs_sessions st' = gs_sessions st \<and> gs_witnesses st' = gs_witnesses st \<and> gs_values st' = gs_values st"
  by (auto simp: result_label_for_def Let_def split: if_splits)

lemma metrics_keep [simp]:
  "gs_sessions (add_duration ck st) = gs_sessions st" "gs_witnesses (add_duration ck st) = gs_witnesses st"
  "gs_values (add_duration ck st) = gs_values st"
  "gs_sessions (note_error r st) = gs_sessions st" "gs_witnesses (note_error r st) = gs_witnesses st"
  "gs_values (note_error r st) = gs_values st"
  by (simp_all add: add_duration_def note_error_def)

lemma store_keeps [simp]:
  "gs_sessions (with_store h f st) = gs_sessions st" "gs_witnesses (with_store h f st) = gs_witnesses st"
  "gs_sessions (store_result ck tool h r l st) = gs_sessions st"
  "gs_witnesses (store_result ck tool h r l st) = gs_witnesses st"
  by (simp_all add: with_store_def store_result_def)

lemma output_keeps:
  "output_gate cfg tool args r ctx st = (r', st') \<Longrightarrow>
     gs_sessions st' = gs_sessions st \<and> gs_witnesses st' = gs_witnesses st \<and> gs_values st' = gs_values st"
  by (auto simp: output_gate_def split: option.splits policy_decision.splits)

lemma input_filter_keeps:
  "filter_input_required cfg ir tool args ctx st = Some (r, recs, st') \<Longrightarrow>
     gs_sessions st' = gs_sessions st \<and> gs_witnesses st' = gs_witnesses st \<and> gs_values st' = gs_values st"
  by (auto simp: filter_input_required_def Let_def split: if_splits dest!: post_filter_keeps)

lemma handler_rises:
  "call_handler cfg ck t args ctx st = (r, st') \<Longrightarrow> rises (session_id ctx) st st'"
  by (auto simp: call_handler_def Let_def var_inspect_def var_drop_def rises_same
      split: prod.splits option.splits tool_handler.splits
      intro: rises_trans[OF rises_same rises_absorb])

lemma dispatch_rises:
  "dispatch cfg ck tool args ctx st = Inl (r, st') \<Longrightarrow> rises (session_id ctx) st st'"
  "dispatch cfg ck tool args ctx st = Inr (rs, st') \<Longrightarrow> rises (session_id ctx) st st'"
  by (auto simp: dispatch_def Let_def rises_same split: option.splits list.splits if_splits
      dest!: handler_rises intro: rises_trans[OF rises_same])


section \<open>Declassification\<close>

definition ctx_label :: "'w gw_context \<Rightarrow> data_label" where
  "ctx_label ctx = level (cc_taint (gx_call ctx))"

text \<open>
  \<open>declassified\<close>: one signed witness of the configured authority is recorded, for this
  session, and the session's confidentiality is the one it records.
\<close>

definition declassified ::
  "('w, 'u, 'c) gw_config \<Rightarrow> string \<Rightarrow> ('w, 'u, 'i, 'c) gw_state \<Rightarrow> ('w, 'u, 'i, 'c) gw_state \<Rightarrow> bool" where
  "declassified cfg sid st st' \<longleftrightarrow>
     (\<forall>s. s \<noteq> sid \<longrightarrow> hm_get (gs_sessions st') s = hm_get (gs_sessions st) s) \<and>
     integrity (session_label sid st) \<le> integrity (session_label sid st') \<and>
     (\<exists>w auth. gc_authority cfg = Some auth \<and> gs_witnesses st' = record_witness sid w (gs_witnesses st) \<and>
        step_down w \<and> declassifier w = da_name auth \<and>
        (honest_signer (da_signer auth) \<longrightarrow> witness_verify (gc_encoders cfg) (da_signer auth) w) \<and>
        confidentiality (session_label sid st') = confidentiality (new_label w))"

definition accounted ::
  "('w, 'u, 'c) gw_config \<Rightarrow> string \<Rightarrow> ('w, 'u, 'i, 'c) gw_state \<Rightarrow> ('w, 'u, 'i, 'c) gw_state \<Rightarrow> bool" where
  "accounted cfg sid st st' \<longleftrightarrow> rises sid st st' \<or> declassified cfg sid st st'"

lemma label_le_integrity: "label_le a b \<Longrightarrow> integrity a \<le> integrity b"
  by (simp add: label_le_def)

lemma label_le_conf: "label_le a b \<Longrightarrow> confidentiality a \<le> confidentiality b"
  by (simp add: label_le_def)

lemma accounted_after:
  assumes r: "rises sid a b" and "accounted cfg sid b c"
  shows "accounted cfg sid a c"
proof (cases "rises sid b c")
  case True
  then show ?thesis using rises_trans[OF r] by (simp add: accounted_def)
next
  case False
  then have d: "declassified cfg sid b c" using assms(2) by (simp add: accounted_def)
  have "integrity (session_label sid a) \<le> integrity (session_label sid c)"
    using r d by (auto simp: rises_def declassified_def dest!: label_le_integrity intro: order_trans)
  moreover have "gs_witnesses b = gs_witnesses a"
    "\<forall>s. s \<noteq> sid \<longrightarrow> hm_get (gs_sessions b) s = hm_get (gs_sessions a) s" using r by (auto simp: rises_def)
  ultimately have "declassified cfg sid a c" using d unfolding declassified_def by metis
  then show ?thesis by (simp add: accounted_def)
qed

lemma accounted_before:
  "accounted cfg sid a b \<Longrightarrow> gs_sessions c = gs_sessions b \<Longrightarrow> gs_witnesses c = gs_witnesses b \<Longrightarrow> accounted cfg sid a c"
  by (simp add: accounted_def rises_def declassified_def session_label_def)

lemma declassify_result_accounted:
  assumes "declassify_result cfg ck tool h stored recs label ctx st = (final, ctx', st')"
    and "hm_get (gs_sessions st) (session_id ctx) \<noteq> None"
    and "confidentiality (ctx_label ctx) \<le> confidentiality (session_label (session_id ctx) st)"
  shows "accounted cfg (session_id ctx) st st'"
proof (cases "declassify_to recs")
  case None
  then show ?thesis using assms(1) by (simp add: declassify_result_def accounted_def)
next
  case c: (Some c)
  show ?thesis
  proof (cases "gc_authority cfg")
    case None
    then show ?thesis using assms(1) c by (simp add: declassify_result_def accounted_def)
  next
    case auth: (Some auth)
    show ?thesis
    proof (cases rule: declassify_cases[of "gc_encoders cfg" "ck_epoch ck" c auth
          "redaction_justification tool recs" "cc_taint (gx_call ctx)"])
      case kept
      then show ?thesis using assms(1) c auth by (simp add: declassify_result_def accounted_def)
    next
      case (lowered w)
      have s: "c < confidentiality (session_label (session_id ctx) st)"
        using lowered(2) assms(3) by (simp add: ctx_label_def level_def)
      have st': "gs_sessions st' = fst (declassify_context_label (session_id ctx) c (gs_sessions st))"
        "gs_witnesses st' = record_witness (session_id ctx) w (gs_witnesses st)"
        using assms(1) by (auto simp: declassify_result_def c auth lowered(1) audit_def Let_def)
      have other: "s \<noteq> session_id ctx \<Longrightarrow> hm_get (gs_sessions st') s = hm_get (gs_sessions st) s" for s
        by (simp add: st' declassify_context_label_def backend_declassify_def Let_def split: option.split)
      have l: "session_label (session_id ctx) st' = (session_label (session_id ctx) st)\<lparr>confidentiality := c\<rparr>"
        using s assms(2) by (simp add: session_label_def st')
      have "declassified cfg (session_id ctx) st st'"
        unfolding declassified_def
        by (intro conjI allI impI other exI[of _ w] exI[of _ auth])
          (simp_all add: l auth st'(2) lowered(3,5,6) lowered(7))
      then show ?thesis by (simp add: accounted_def)
    qed
  qed
qed


section \<open>Whole calls\<close>

text \<open>The session of the call exists and its label is not below the one the call carries.\<close>

definition ctx_ok :: "'w gw_context \<Rightarrow> ('w, 'u, 'i, 'c) gw_state \<Rightarrow> bool" where
  "ctx_ok ctx st \<longleftrightarrow> hm_get (gs_sessions st) (session_id ctx) \<noteq> None \<and>
     confidentiality (ctx_label ctx) \<le> confidentiality (session_label (session_id ctx) st)"

lemma ctx_ok_rises: "ctx_ok ctx st \<Longrightarrow> rises (session_id ctx) st st' \<Longrightarrow> ctx_ok ctx st'"
  by (auto simp: ctx_ok_def rises_def dest: label_le_conf intro: order_trans)

lemma ctx_absorb [simp]:
  "session_id (absorb_context l ctx) = session_id ctx" "ctx_label (absorb_context l ctx) = join (ctx_label ctx) l"
  by (simp_all add: session_id_def absorb_context_def ctx_label_def level_def)

lemma ctx_ok_absorb:
  "ctx_ok ctx st \<Longrightarrow> ctx_ok (absorb_context l ctx) (absorb_session l ctx st)"
  using label_absorb[of st ctx l]
  by (auto simp: ctx_ok_def join_max le_max_iff_disj absorb_session_def update_context_label_def session_label_def
      split: option.split)

lemma ctx_ok_same: "ctx_ok ctx st \<Longrightarrow> gs_sessions st' = gs_sessions st \<Longrightarrow> ctx_ok ctx st'"
  by (simp add: ctx_ok_def session_label_def)

lemma complete_result_accounted:
  assumes c: "complete_result cfg ck tool args raw h ctx st = Some (r, st')" and ok: "ctx_ok ctx st"
  shows "accounted cfg (session_id ctx) st st'"
proof -
  obtain base st1 where l: "result_label_for cfg tool args ctx (note_error raw (add_duration ck st)) = (base, st1)"
    by fastforce
  obtain filtered recs st2 where f: "post_filter cfg tool args raw ctx st1 = Some (filtered, recs, st2)"
    using c l by (auto simp: complete_result_def split: option.splits)
  define label where "label = elevated_label base recs"
  define st3 where "st3 = store_result ck tool h filtered label (absorb_session label ctx st2)"
  define ctx1 where "ctx1 = absorb_context label ctx"
  obtain final ctx2 st4 where d: "declassify_result cfg ck tool h filtered recs label ctx1 st3 = (final, ctx2, st4)"
    by (metis prod_cases3)
  obtain st6 where o: "output_gate cfg tool args (mention_variable ck filtered) ctx st6 = (r, st')"
    and st6: "gs_sessions st6 = gs_sessions st4" "gs_witnesses st6 = gs_witnesses st4"
    using c by (auto simp: complete_result_def l f d[unfolded ctx1_def st3_def label_def] Let_def)
  have s2: "gs_sessions st2 = gs_sessions st" "gs_witnesses st2 = gs_witnesses st"
    using result_label_keeps[OF l] post_filter_keeps[OF f] by simp_all
  have "ctx_ok ctx1 (absorb_session label ctx st2)"
    unfolding ctx1_def by (rule ctx_ok_absorb, rule ctx_ok_same[OF ok s2(1)])
  then have ok3: "ctx_ok ctx1 st3" by (rule ctx_ok_same) (simp add: st3_def)
  have "rises (session_id ctx) st2 (absorb_session label ctx st2)" by (rule rises_absorb)
  then have r3: "rises (session_id ctx) st st3"
    by (auto simp: st3_def s2 rises_def session_label_def)
  have "accounted cfg (session_id ctx1) st3 st4"
    using declassify_result_accounted[OF d] ok3 by (simp add: ctx_ok_def)
  then have "accounted cfg (session_id ctx) st3 st4" by (simp add: ctx1_def)
  from accounted_after[OF r3 this] show ?thesis
    by (rule accounted_before) (use output_keeps[OF o] st6 in simp_all)
qed

lemma input_round_rises:
  assumes "input_round cfg ck tool args ir ctx st = Some (r, st')"
  shows "rises (session_id ctx) st st' \<and> gs_values st' = gs_values st"
proof -
  obtain checked recs st1 where f: "filter_input_required cfg ir tool args ctx st = Some (checked, recs, st1)"
    using assms by (auto simp: input_round_def)
  have same: "gs_sessions st1 = gs_sessions st" "gs_witnesses st1 = gs_witnesses st" "gs_values st1 = gs_values st"
    using input_filter_keeps[OF f] by simp_all
  show ?thesis
  proof (cases checked)
    case (Inl b)
    then show ?thesis using assms same by (simp add: input_round_def f rises_same)
  next
    case (Inr ir')
    obtain base st2 where l: "result_label_for cfg tool args ctx (add_duration ck st1) = (base, st2)" by fastforce
    have s2: "gs_sessions st2 = gs_sessions st" "gs_witnesses st2 = gs_witnesses st" "gs_values st2 = gs_values st"
      using result_label_keeps[OF l] same by simp_all
    obtain label where st': "gs_sessions st' = gs_sessions (absorb_session label ctx st2)"
      "gs_witnesses st' = gs_witnesses (absorb_session label ctx st2)" "gs_values st' = gs_values st2"
      using assms by (auto simp: input_round_def f Inr l Let_def absorb_session_def)
    have "rises (session_id ctx) st2 (absorb_session label ctx st2)" by (rule rises_absorb)
    then show ?thesis by (simp add: rises_def st' s2 session_label_def)
  qed
qed

lemma respond_accounted:
  "respond cfg ck tool args h response ctx st = Some (r, st') \<Longrightarrow> ctx_ok ctx st \<Longrightarrow>
     accounted cfg (session_id ctx) st st'"
  by (auto simp: respond_def accounted_def split: tool_response.splits dest!: input_round_rises)
    (auto dest: complete_result_accounted simp: accounted_def)

lemma execute_accounted:
  assumes "execute_tool cfg ck tool args h ctx st = Some (r, st')" and ok: "ctx_ok ctx st"
  shows "accounted cfg (session_id ctx) st st'"
proof (cases "dispatch cfg ck tool args ctx st")
  case (Inl x)
  then show ?thesis using assms dispatch_rises(1)[of cfg ck tool args ctx st]
    by (cases x) (simp add: execute_tool_def accounted_def)
next
  case (Inr x)
  obtain response st1 where x: "x = (response, st1)" by (cases x)
  have r: "rises (session_id ctx) st st1" using dispatch_rises(2) Inr x by metis
  show ?thesis
    by (rule accounted_after[OF r], rule respond_accounted[OF _ ctx_ok_rises[OF ok r]])
      (use assms in \<open>simp add: execute_tool_def Inr x\<close>)
qed

lemma admit_accounted:
  assumes "admit_call cfg ck tool args h ctx st = Some (r, st')" and ok: "ctx_ok ctx st"
  shows "accounted cfg (session_id ctx) st st'"
proof -
  have e: "accounted cfg (session_id ctx) st st'"
    if "execute_tool cfg ck tool a h ctx s = Some (r, st')" "gs_sessions s = gs_sessions st"
      "gs_witnesses s = gs_witnesses st" for a s
    by (rule accounted_after[OF rises_same execute_accounted[OF that(1) ctx_ok_same[OF ok that(2)]]])
      (simp_all add: that)
  show ?thesis
    using assms(1) by (auto simp: admit_call_def Let_def accounted_def rises_same finish_call_def
        split: if_splits prod.splits pre_hook_outcome.splits dest!: e[unfolded accounted_def])
qed

lemma prepare_keeps [simp]:
  "session_id (prepare_context params ctx) = session_id ctx" "ctx_label (prepare_context params ctx) = ctx_label ctx"
  "agent_name (prepare_context params ctx) = agent_name ctx"
  "permission_set (prepare_context params ctx) = permission_set ctx"
  by (simp_all add: prepare_context_def session_id_def ctx_label_def agent_name_def permission_set_def Let_def)

lemma handle_accounted:
  assumes h: "handle_call_tool cfg ck params ctx st = Some (r, st')" and ok: "ctx_ok ctx st"
  shows "accounted cfg (session_id ctx) st st'"
proof (cases "call_allowed cfg ck params ctx st")
  case False
  then have "same_effects st st'" using refused_call[OF _ h] by blast
  then show ?thesis by (simp add: accounted_def same_effects_rises)
next
  case True
  from allowed_call[OF True h] obtain st1 hd and rv :: resolved_args and st2 where "same_effects st st1" and
    a: "admit_call cfg ck (cp_name params) (ra_arguments rv) hd (prepare_context params ctx) st1 = Some (r, st2)"
      "st' = release_permit (prepare_context params ctx) st2" by blast
  have r: "rises (session_id ctx) st st1" using \<open>same_effects st st1\<close> by (rule same_effects_rises)
  have "ctx_ok (prepare_context params ctx) st1" using ctx_ok_rises[OF ok r] by (simp add: ctx_ok_def)
  from admit_accounted[OF a(1) this] have "accounted cfg (session_id ctx) st1 st2" by simp
  from accounted_after[OF r this] show ?thesis by (rule accounted_before) (simp_all add: a(2))
qed

end
