(* ===== verification/GateFrames.thy ===== *)
theory GateFrames
  imports GatewayGates
begin

text \<open>
  What a refused call leaves behind, field by field, and the decision of the gates against the Verus
  model beside the code.
\<close>

section \<open>What the gates leave alone\<close>

definition framed :: "('s \<Rightarrow> bool) \<Rightarrow> 's gate_result \<Rightarrow> bool" where
  "framed R g \<longleftrightarrow> (case g of Pass s \<Rightarrow> R s | Refuse s m \<Rightarrow> R s | Panic \<Rightarrow> True)"

lemma then_framed: "framed R g \<Longrightarrow> (\<And>s. R s \<Longrightarrow> framed R (f s)) \<Longrightarrow> framed R (then_gate g f)"
  by (cases g) (simp_all add: framed_def)

lemma framed_mono: "framed R g \<Longrightarrow> (\<And>s. R s \<Longrightarrow> Q s) \<Longrightarrow> framed Q g"
  by (cases g) (simp_all add: framed_def)

text \<open>Pause switch, limiter, semaphores and grants of the session.\<close>

definition same_controls :: "('w, 'u, 'i, 'c) gw_state \<Rightarrow> ('w, 'u, 'i, 'c) gw_state \<Rightarrow> bool" where
  "same_controls st s \<longleftrightarrow> gs_paused s = gs_paused st \<and> gs_quota s = gs_quota st \<and>
     gs_permits s = gs_permits st \<and> gs_session_perms s = gs_session_perms st"

text \<open>Looking up a grant of the session drops the expired ones.\<close>

definition grants_consulted ::
  "call_clock \<Rightarrow> 'w gw_context \<Rightarrow> string \<Rightarrow> ('w, 'u, 'i, 'c) gw_state \<Rightarrow> ('w, 'u, 'i, 'c) gw_state \<Rightarrow> bool" where
  "grants_consulted ck ctx tool st s \<longleftrightarrow>
     gs_paused s = gs_paused st \<and> gs_quota s = gs_quota st \<and> gs_permits s = gs_permits st \<and>
     gs_session_perms s \<in> {gs_session_perms st,
       fst (store_check_tool (ck_seconds ck) (session_id ctx) tool (gs_session_perms st))}"

lemma same_controls_refl [simp]: "same_controls st st"
  by (simp add: same_controls_def)

lemma consulted_same: "grants_consulted ck ctx tool st s \<Longrightarrow> same_controls s s' \<Longrightarrow> grants_consulted ck ctx tool st s'"
  by (simp add: grants_consulted_def same_controls_def)

lemma accounts_keep_controls [simp]:
  "same_controls st (note_denied ck ctx s) \<longleftrightarrow> same_controls st s"
  "same_controls st (count_denied s) \<longleftrightarrow> same_controls st s"
  "same_controls st (count_dmn_denial s) \<longleftrightarrow> same_controls st s"
  "same_controls st (audit cfg ck ctx tool args r oc d l s) \<longleftrightarrow> same_controls st s"
  "same_controls st (s\<lparr>gs_metrics := m\<rparr>) \<longleftrightarrow> same_controls st s"
  "same_controls st (s\<lparr>gs_values := v\<rparr>) \<longleftrightarrow> same_controls st s"
  by (simp_all add: same_controls_def note_denied_def count_denied_def count_dmn_denial_def audit_def)

lemma policy_gate_frames:
  "framed (same_controls st) (operation_gate cfg ck tool ctx st)"
  "framed (same_controls st) (domain_gate cfg ck tool ctx st)"
  "framed (same_controls st) (cedar_gate cfg ck tool args ctx st)"
  "framed (same_controls st) (opa_gate cfg ck tool args ctx st)"
  "framed (same_controls st) (dmn_gate cfg ck tool args ctx st)"
  "framed (same_controls st) (path_gate cfg ck tool args ctx st)"
  "framed (same_controls st) (ifc_gate cfg ck tool r ctx st)"
  by (auto simp: framed_def operation_gate_def domain_gate_def cedar_gate_def opa_gate_def dmn_gate_def
      path_gate_def ifc_gate_def Let_def
      split: option.split upstream_operation.split policy_decision.split tainted_write_policy.split)

lemma tool_gate_frame: "framed (grants_consulted ck ctx tool st) (tool_gate cfg ck tool args ctx st)"
  by (auto simp: framed_def tool_gate_def grants_consulted_def note_denied_def count_denied_def audit_def
      split: option.split tool_policy.split prod.split)

lemma policy_gates_frame: "framed (grants_consulted ck ctx tool st) (policy_gates cfg ck tool args ctx st)"
proof -
  note later = policy_gate_frames[THEN framed_mono, OF consulted_same]
  show ?thesis unfolding policy_gates_def
    by (intro then_framed tool_gate_frame later) assumption+
qed

lemma checked_call_frame:
  assumes refused: "\<not> (tool_permitted cfg ck tool ctx st \<and> operation_granted cfg tool ctx \<and> domain_granted cfg tool ctx \<and>
      cedar_allows cfg tool args ctx \<and> opa_allows cfg tool args ctx \<and> dmn_allows cfg tool args ctx \<and>
      path_granted cfg tool args ctx \<and> flow_granted cfg tool (snd (snd (resolve_arguments ck args ctx st))) ctx)"
    and c: "checked_call cfg ck tool args ctx st = Some (resp, st')"
  shows "grants_consulted ck ctx tool st st'"
proof -
  note d = policy_decides[of st cfg ck tool ctx args] and f = policy_gates_frame[of ck ctx tool st cfg args]
  show ?thesis
  proof (cases "policy_gates cfg ck tool args ctx st")
    case (Refuse s m)
    then show ?thesis using c f by (simp add: checked_call_def framed_def)
  next
    case (Pass s)
    then have g: "grants_consulted ck ctx tool st s" and v: "gs_values s = gs_values st"
      and flow: "\<not> flow_granted cfg tool (snd (snd (resolve_arguments ck args ctx st))) ctx"
      using f d refused by (auto simp: framed_def decides_def)
    obtain s2 h x where r: "resolve_arguments ck args ctx s = (s2, h, x)" by (metis prod_cases3)
    have "same_controls s s2" using r by (auto simp: resolve_arguments_def split: prod.splits)
    with g have g2: "grants_consulted ck ctx tool st s2" by (rule consulted_same)
    show ?thesis
    proof (cases x)
      case (Inl e)
      then have "st' = count_denied (note_denied ck ctx s2)"
        using c by (simp add: checked_call_def Pass r)
      then show ?thesis using consulted_same[OF g2] by simp
    next
      case (Inr rv)
      have "\<not> flow_granted cfg tool (Inr rv) ctx"
        using flow unfolding resolve_values[OF v, of ck args ctx, symmetric] r Inr by simp
      then obtain s3 m where i: "ifc_gate cfg ck tool rv ctx s2 = Refuse s3 m"
        using flow_decides[of s2 cfg tool rv ctx ck] by (cases "ifc_gate cfg ck tool rv ctx s2") (auto simp: decides_def)
      then have "same_controls s2 s3" using policy_gate_frames(7)[of s2 cfg ck tool rv ctx] by (simp add: framed_def)
      moreover have "st' = s3" using c i Inr by (simp add: checked_call_def Pass r)
      ultimately show ?thesis using consulted_same[OF g2] by simp
    qed
  qed (use c in \<open>simp add: checked_call_def\<close>)
qed

section \<open>A refused call\<close>

text \<open>The permits an agent could still take, were the bound of this call the one its semaphore gets.\<close>

definition permits_left :: "'w gw_context \<Rightarrow> ('w, 'u, 'i, 'c) gw_state \<Rightarrow> string \<Rightarrow> nat option" where
  "permits_left ctx st agent =
     (case hm_get (gs_permits st) agent of
        Some n \<Rightarrow> Some n
      | None \<Rightarrow> if agent = agent_name ctx then ai_max_concurrent (cc_agent (gx_call ctx)) else None)"

text \<open>
  Beyond the counters, the process table and the audit log: the limiter may have been asked, the
  store of the session's variables created (empty), and expired grants of the session dropped.
\<close>

definition only_accounts ::
  "call_clock \<Rightarrow> 'w gw_context \<Rightarrow> string \<Rightarrow> ('w, 'u, 'i, 'c) gw_state \<Rightarrow> ('w, 'u, 'i, 'c) gw_state \<Rightarrow> bool" where
  "only_accounts ck ctx tool st st' \<longleftrightarrow>
     gs_world st' = gs_world st \<and> gs_sessions st' = gs_sessions st \<and> gs_witnesses st' = gs_witnesses st \<and>
     gs_pipelines st' = gs_pipelines st \<and> gs_paused st' = gs_paused st \<and>
     gs_quota st' \<in> {gs_quota st,
       fst (quota_check (ck_instant ck) (agent_name ctx) (permission_set ctx) (gs_quota st))} \<and>
     permits_left ctx st' = permits_left ctx st \<and>
     gs_session_perms st' \<in> {gs_session_perms st,
       fst (store_check_tool (ck_seconds ck) (session_id ctx) tool (gs_session_perms st))} \<and>
     gs_values st' \<in> {gs_values st, fst (vsm_get_or_create (session_id ctx) (gs_values st))}"

definition door_quota :: "call_clock \<Rightarrow> 'w gw_context \<Rightarrow> ('w, 'u, 'i, 'c) gw_state \<Rightarrow> ('w, 'u, 'i, 'c) gw_state \<Rightarrow> bool" where
  "door_quota ck ctx st s \<longleftrightarrow> gs_paused s = gs_paused st \<and> gs_session_perms s = gs_session_perms st \<and>
     gs_quota s \<in> {gs_quota st,
       fst (quota_check (ck_instant ck) (agent_name ctx) (permission_set ctx) (gs_quota st))}"

lemma quota_cases:
  "framed (\<lambda>s. door_quota ck ctx st s \<and> gs_permits s = gs_permits st) (quota_gate ck ctx st)"
  by (auto simp: framed_def quota_gate_def door_quota_def split: prod.split option.split bool.split)

lemma permit_cases:
  "case concurrency_gate ctx st of
     Pass s \<Rightarrow> same_controls (s\<lparr>gs_permits := gs_permits st\<rparr>) st \<and> permits_left ctx (release_permit ctx s) = permits_left ctx st
   | Refuse s m \<Rightarrow> same_controls (s\<lparr>gs_permits := gs_permits st\<rparr>) st \<and> permits_left ctx s = permits_left ctx st
   | Panic \<Rightarrow> False"
  by (auto simp: concurrency_gate_def acquire_permit_def release_permit_def permits_left_def same_controls_def
      Let_def fun_eq_iff split: option.split prod.split bool.split)

lemma door_frame:
  "case door ck ctx st of
     Pass s \<Rightarrow> door_quota ck ctx st s \<and> permits_left ctx (release_permit ctx s) = permits_left ctx st
   | Refuse s m \<Rightarrow> door_quota ck ctx st s \<and> permits_left ctx s = permits_left ctx st
   | Panic \<Rightarrow> True"
proof (cases "pause_gate st")
  case (Pass s)
  then have s: "s = st" by (rule pause_Pass)
  note q = quota_cases[of ck ctx st]
  show ?thesis
  proof (cases "quota_gate ck ctx st")
    case p: (Pass s1)
    then have s1: "door_quota ck ctx st s1" "gs_permits s1 = gs_permits st" using q by (simp_all add: framed_def)
    then have "permits_left ctx s1 = permits_left ctx st" by (simp add: permits_left_def fun_eq_iff cong: option.case_cong)
    moreover have "door_quota ck ctx st s2" if "same_controls (s2\<lparr>gs_permits := gs_permits s1\<rparr>) s1" for s2
      using s1(1) that by (simp add: door_quota_def same_controls_def)
    ultimately show ?thesis using permit_cases[of s1 ctx]
      by (auto simp: door_def Pass s p split: gate_result.splits)
  qed (use q in \<open>auto simp: door_def Pass s framed_def permits_left_def fun_eq_iff cong: option.case_cong\<close>)
qed (auto simp: door_def pause_gate_def door_quota_def split: if_splits)

lemma release_controls [simp]:
  "gs_paused (release_permit ctx st) = gs_paused st" "gs_quota (release_permit ctx st) = gs_quota st"
  "gs_session_perms (release_permit ctx st) = gs_session_perms st"
  by (simp_all add: release_permit_def split: option.split)

lemma permits_left_cong:
  "gs_permits s = gs_permits st \<Longrightarrow> permits_left ctx (release_permit ctx s) = permits_left ctx (release_permit ctx st)"
  by (simp add: permits_left_def release_permit_def fun_eq_iff split: option.split)

lemma resolve_arguments_values:
  "gs_values (fst (resolve_arguments ck args ctx st)) = fst (vsm_get_or_create (session_id ctx) (gs_values st))"
  by (simp add: resolve_arguments_def split: prod.split)

lemma refused_call_frame:
  fixes params :: call_params and ctx0 :: "'w gw_context"
  defines "ctx \<equiv> prepare_context params ctx0"
  assumes na: "\<not> call_allowed cfg ck params ctx0 st"
    and h: "handle_call_tool cfg ck params ctx0 st = Some (resp, st')"
  shows "only_accounts ck ctx (cp_name params) st st'"
proof -
  define s0 where "s0 = st\<lparr>gs_metrics := (gs_metrics st)\<lparr>gm_calls_total := bump (gm_calls_total (gs_metrics st))\<rparr>\<rparr>"
  have s0: "same_controls st s0" "gs_values s0 = gs_values st" "permits_left ctx s0 = permits_left ctx st"
    "tool_permitted cfg ck tool ctx s0 = tool_permitted cfg ck tool ctx st"
    "rate_ok ck ctx s0 = rate_ok ck ctx st" "permit_free ctx s0 = permit_free ctx st" for tool
    by (simp_all add: s0_def same_controls_def permits_left_def fun_eq_iff rate_ok_def permit_free_def
        tool_permitted_def split: option.split)
  have eq: "handle_call_tool cfg ck params ctx0 st =
      (case door ck ctx s0 of Panic \<Rightarrow> None | Refuse st1 m \<Rightarrow> Some (refused m, st1)
       | Pass st1 \<Rightarrow> map_option (\<lambda>(response, st2). (response, release_permit ctx st2))
           (checked_call cfg ck (cp_name params) (call_arguments params) ctx st1))"
    unfolding handle_call_tool_def door_def s0_def ctx_def Let_def by (rule refl)
  have same: "same_effects st st'" and vals: "gs_values st' \<in> {gs_values st, fst (vsm_get_or_create (session_id ctx) (gs_values st))}"
    using refused_call[OF na h] by (simp_all add: resolve_arguments_values ctx_def)
  have rest: "gs_paused st' = gs_paused st \<and>
      gs_quota st' \<in> {gs_quota st,
        fst (quota_check (ck_instant ck) (agent_name ctx) (permission_set ctx) (gs_quota st))} \<and>
      permits_left ctx st' = permits_left ctx st \<and>
      gs_session_perms st' \<in> {gs_session_perms st,
        fst (store_check_tool (ck_seconds ck) (session_id ctx) (cp_name params) (gs_session_perms st))}"
  proof (cases "door ck ctx s0")
    case (Refuse s m)
    then show ?thesis using h eq s0(1,3) door_frame[where ck = ck and ctx = ctx and st = s0]
      by (simp add: door_quota_def same_controls_def)
  next
    case (Pass s)
    then have d: "door_quota ck ctx s0 s" "permits_left ctx (release_permit ctx s) = permits_left ctx s0"
      using door_frame[where ck = ck and ctx = ctx and st = s0] by simp_all
    have keeps: "gs_values s = gs_values st" "\<not> gs_paused st \<and> rate_ok ck ctx st \<and> permit_free ctx st"
      using door_decides[of s0 ck ctx] Pass s0(1,2,5,6) by (auto simp: decides_def same_controls_def)
    have tp: "tool_permitted cfg ck (cp_name params) ctx s = tool_permitted cfg ck (cp_name params) ctx st"
      using tool_permitted_door[OF Pass] s0(4) by simp
    obtain s2 where s2: "checked_call cfg ck (cp_name params) (call_arguments params) ctx s = Some (resp, s2)"
      "st' = release_permit ctx s2"
      using h eq Pass by auto
    have "grants_consulted ck ctx (cp_name params) s s2"
      by (rule checked_call_frame[OF _ s2(1)])
        (use na keeps tp resolve_values[OF keeps(1), of ck "call_arguments params" ctx] in
          \<open>simp add: call_allowed_def Let_def flip: ctx_def\<close>)
    then show ?thesis
      using d s0(1,3) permits_left_cong[of s2 s ctx]
      by (simp add: s2(2) door_quota_def grants_consulted_def same_controls_def)
  qed (use h eq in simp)
  then show ?thesis using same vals by (simp add: only_accounts_def same_effects_def)
qed

section \<open>The answers of the gates\<close>

definition asks_approval :: "string \<Rightarrow> 's gate_result \<Rightarrow> bool" where
  "asks_approval tool g \<longleftrightarrow> (\<exists>s. g = Refuse s (''Approval required: '' @ quoted tool))"

lemma then_asks:
  "asks_approval tool (then_gate g f) \<longleftrightarrow> asks_approval tool g \<or> (\<exists>s. g = Pass s \<and> asks_approval tool (f s))"
  by (cases g) (auto simp: asks_approval_def)

lemma gate_asks:
  "\<not> asks_approval tool (quota_gate ck ctx st)"
  "\<not> asks_approval tool (operation_gate cfg ck tool ctx st)"
  "\<not> asks_approval tool (domain_gate cfg ck tool ctx st)"
  "\<not> asks_approval tool (cedar_gate cfg ck tool args ctx st)"
  "\<not> asks_approval tool (opa_gate cfg ck tool args ctx st)"
  "\<not> asks_approval tool (dmn_gate cfg ck tool args ctx st)"
  "\<not> asks_approval tool (path_gate cfg ck tool args ctx st)"
  "asks_approval tool (tool_gate cfg ck tool args ctx st) \<longleftrightarrow> tool_policy_code cfg ck tool ctx st = 2"
  "asks_approval tool (ifc_gate cfg ck tool r ctx st) \<longleftrightarrow>
     is_write_tool tool (annotations_of cfg tool) \<and> integrity (write_label ctx r) = Untrusted \<and>
     ifc_policy_code cfg ctx = 1"
  by (auto simp: asks_approval_def quota_gate_def operation_gate_def domain_gate_def cedar_gate_def opa_gate_def
      dmn_gate_def path_gate_def tool_gate_def ifc_gate_def tool_policy_code_def ifc_policy_code_def
      denied_message_def Let_def
      split: prod.splits option.splits bool.splits upstream_operation.splits policy_decision.splits
        tool_policy.splits tainted_write_policy.splits if_splits)

lemma passes_iff: "decides st p g \<Longrightarrow> g \<noteq> Panic \<Longrightarrow> (\<exists>s. g = Pass s) \<longleftrightarrow> p"
  by (cases g) (auto simp: decides_def)

lemma policy_asks:
  "asks_approval tool (policy_gates cfg ck tool args ctx st) \<longleftrightarrow> tool_policy_code cfg ck tool ctx st = 2"
  by (auto simp: policy_gates_def then_asks gate_asks)

text \<open>Limiter, policies and information flow, in the order of the code.\<close>

definition decision_gates ::
  "('w, 'u, 'c) gw_config \<Rightarrow> call_clock \<Rightarrow> string \<Rightarrow> json \<Rightarrow> resolved_args \<Rightarrow> 'w gw_context
     \<Rightarrow> ('w, 'u, 'i, 'c) gw_state \<Rightarrow> ('w, 'u, 'i, 'c) gw_state gate_result" where
  "decision_gates cfg ck tool args r ctx st =
     then_gate (then_gate (quota_gate ck ctx st) (policy_gates cfg ck tool args ctx)) (ifc_gate cfg ck tool r ctx)"

text \<open>The policies that the model leaves out.\<close>

definition unmodelled_allow :: "('w, 'u, 'c) gw_config \<Rightarrow> string \<Rightarrow> json \<Rightarrow> 'w gw_context \<Rightarrow> bool" where
  "unmodelled_allow cfg tool args ctx \<longleftrightarrow>
     domain_granted cfg tool ctx \<and> cedar_allows cfg tool args ctx \<and> opa_allows cfg tool args ctx \<and>
     dmn_allows cfg tool args ctx"

lemma quota_Pass_codes:
  assumes "quota_gate ck ctx st = Pass s"
  shows "tool_policy_code cfg ck tool ctx s = tool_policy_code cfg ck tool ctx st" "rate_ok ck ctx st"
  using quota_Pass[OF assms] quota_decides[of st ck ctx] assms
  by (simp_all add: tool_policy_code_def decides_def cong: option.case_cong)

lemma decision_passes:
  "(\<exists>s. decision_gates cfg ck tool args r ctx st = Pass s) \<longleftrightarrow>
     rate_ok ck ctx st \<and> tool_policy_code cfg ck tool ctx st = 0 \<and> operation_granted cfg tool ctx \<and>
     unmodelled_allow cfg tool args ctx \<and> acl_code cfg tool args ctx = 0 \<and> flow_granted cfg tool (Inr r) ctx"
proof (cases "quota_gate ck ctx st")
  case (Pass s)
  note q = quota_Pass_codes[OF Pass]
  have "(\<exists>s'. decision_gates cfg ck tool args r ctx st = Pass s') \<longleftrightarrow>
      (\<exists>s1. policy_gates cfg ck tool args ctx s = Pass s1 \<and> (\<exists>s2. ifc_gate cfg ck tool r ctx s1 = Pass s2))"
    by (auto simp: decision_gates_def then_Pass Pass)
  also have "\<dots> \<longleftrightarrow> (\<exists>s1. policy_gates cfg ck tool args ctx s = Pass s1) \<and> flow_granted cfg tool (Inr r) ctx"
    using passes_iff[OF flow_decides] by (metis no_panic(10))
  also have "\<dots> \<longleftrightarrow> tool_policy_code cfg ck tool ctx st = 0 \<and> operation_granted cfg tool ctx \<and>
      unmodelled_allow cfg tool args ctx \<and> acl_code cfg tool args ctx = 0 \<and> flow_granted cfg tool (Inr r) ctx"
    unfolding passes_iff[OF policy_decides policy_no_panic] unmodelled_allow_def codes(1,3)[symmetric] q(1)
    by blast
  finally show ?thesis using q(2) by blast
qed (use quota_decides[of st ck ctx] in \<open>simp_all add: decision_gates_def decides_def\<close>)

lemma decision_asks:
  "asks_approval tool (decision_gates cfg ck tool args r ctx st) \<longleftrightarrow>
     rate_ok ck ctx st \<and>
     (tool_policy_code cfg ck tool ctx st = 2 \<or>
      tool_policy_code cfg ck tool ctx st = 0 \<and> operation_granted cfg tool ctx \<and>
      unmodelled_allow cfg tool args ctx \<and> acl_code cfg tool args ctx = 0 \<and>
      is_write_tool tool (annotations_of cfg tool) \<and> integrity (write_label ctx r) = Untrusted \<and>
      ifc_policy_code cfg ctx = 1)"
proof (cases "quota_gate ck ctx st")
  case (Pass s)
  note q = quota_Pass_codes[OF Pass]
  have "asks_approval tool (decision_gates cfg ck tool args r ctx st) \<longleftrightarrow>
      tool_policy_code cfg ck tool ctx st = 2 \<or>
      (\<exists>s1. policy_gates cfg ck tool args ctx s = Pass s1) \<and>
      is_write_tool tool (annotations_of cfg tool) \<and> integrity (write_label ctx r) = Untrusted \<and>
      ifc_policy_code cfg ctx = 1"
    by (auto simp: decision_gates_def then_asks policy_asks gate_asks q(1) Pass)
  also have "(\<exists>s1. policy_gates cfg ck tool args ctx s = Pass s1) \<longleftrightarrow>
      tool_policy_code cfg ck tool ctx st = 0 \<and> operation_granted cfg tool ctx \<and>
      unmodelled_allow cfg tool args ctx \<and> acl_code cfg tool args ctx = 0"
    unfolding passes_iff[OF policy_decides policy_no_panic] unmodelled_allow_def codes(1,3)[symmetric] q(1)
    by blast
  finally show ?thesis using q(2) by blast
qed (use quota_decides[of st ck ctx] gate_asks(1)[of tool ck ctx st] in
      \<open>auto simp: decision_gates_def decides_def asks_approval_def\<close>)

section \<open>Properties\<close>

text \<open>
  C2: The gates of a tool call, taken in the order of the code, implement \<open>call_allowed\<close>: an
  allowed call is passed on, with its references resolved, to the hooks and the tool; any other is
  answered with an error, or panics on a poisoned rate limiter.  A call so answered leaves the world
  of the tools, the sessions, the witnesses, the filters, the pause switch and the free permits as
  they were; it may have asked the limiter, dropped expired grants of the session and created the
  empty store of the session's variables, and otherwise touches only counters, the process table
  and the audit log.
\<close>

theorem call_gates_exact:
  "let ctx = prepare_context params ctx0; tool = cp_name params; args = call_arguments params in
   if call_allowed cfg ck params ctx0 st
   then \<exists>st1 h r. same_effects st st1 \<and>
     gs_values st1 = fst (vsm_get_or_create (session_id ctx) (gs_values st)) \<and>
     snd (resolve_arguments ck args ctx st) = (h, Inr r) \<and>
     handle_call_tool cfg ck params ctx0 st =
       map_option (\<lambda>(response, s). (response, release_permit ctx s))
         (admit_call cfg ck tool (ra_arguments r) h ctx st1)
   else handle_call_tool cfg ck params ctx0 st = None \<and> limiter_poisoned ck ctx st \<or>
     (\<exists>m st'. handle_call_tool cfg ck params ctx0 st = Some (refused m, st') \<and>
        only_accounts ck ctx tool st st')"
proof (cases "call_allowed cfg ck params ctx0 st")
  case True
  then show ?thesis
    using call_exact[of cfg ck params ctx0 st] by (auto simp: Let_def resolve_arguments_values)
next
  case False
  then show ?thesis
    using call_exact[of cfg ck params ctx0 st] refused_call_frame[OF False] by (auto simp: Let_def)
qed

text \<open>
  C9: The limiter, the policy gates and the information-flow gate against the Verus model in the same
  file.  They pass a call exactly when the model passes it and the policies the model leaves out
  (domain rules, Cedar, OPA, DMN) let it pass.  They ask for approval exactly when the rate allows
  the call and the model asks for it, on account of the tool's rule, or of the flow with the other
  policies passing: unlike the model the code denies a path whose ACL wants an approval.
\<close>

theorem gates_agree_with_model:
  "let g = decision_gates cfg ck tool args r ctx st; outcome = model_outcome cfg ck tool args ctx st r in
   ((\<exists>s. g = Pass s) \<longleftrightarrow> outcome = 0 \<and> unmodelled_allow cfg tool args ctx) \<and>
   ((\<exists>s. g = Refuse s (''Approval required: '' @ quoted tool)) \<longleftrightarrow>
      outcome = 2 \<and> rate_ok ck ctx st \<and>
      (tool_policy_code cfg ck tool ctx st = 2 \<or>
       acl_code cfg tool args ctx \<noteq> 2 \<and> unmodelled_allow cfg tool args ctx))"
proof -
  have flow: "flow_granted cfg tool (Inr r) ctx \<longleftrightarrow>
      (is_write_tool tool (annotations_of cfg tool) \<longrightarrow> integrity (write_label ctx r) = Untrusted \<longrightarrow>
       ifc_policy_code cfg ctx = 0)"
    by (simp add: flow_granted_def codes(5))
  have zero: "model_outcome cfg ck tool args ctx st r = 0 \<longleftrightarrow>
      tool_policy_code cfg ck tool ctx st = 0 \<and> operation_granted cfg tool ctx \<and> acl_code cfg tool args ctx = 0 \<and>
      flow_granted cfg tool (Inr r) ctx \<and> rate_ok ck ctx st"
    unfolding model_outcome_def pipeline_zero[OF codes(2,4,6)] flow by blast
  have two: "model_outcome cfg ck tool args ctx st r = 2 \<longleftrightarrow>
      tool_policy_code cfg ck tool ctx st = 2 \<or>
      tool_policy_code cfg ck tool ctx st = 0 \<and> operation_granted cfg tool ctx \<and>
      (acl_code cfg tool args ctx = 2 \<or>
       acl_code cfg tool args ctx = 0 \<and> is_write_tool tool (annotations_of cfg tool) \<and>
       integrity (write_label ctx r) = Untrusted \<and> ifc_policy_code cfg ctx = 1)"
    using codes(2)[of cfg ck tool ctx st] codes(4)[of cfg tool args ctx] codes(6)[of cfg ctx]
    by (auto simp: model_outcome_def spec_gate_pipeline_def)
  show ?thesis
    using decision_passes[of cfg ck tool args r ctx st] decision_asks[of tool cfg ck args r ctx st]
    unfolding Let_def asks_approval_def zero two by auto
qed

end
