(* ===== verification/GatewayRuns.thy ===== *)
theory GatewayRuns
  imports GatewayFacts GateFrames
begin

text \<open>
  Calls as a client makes them, with the label that its session persists, and sequences of
  calls of several clients.
\<close>

section \<open>Sequences of calls\<close>

record ('w, 'i) client_call =
  cl_clock :: call_clock
  cl_client :: 'i
  cl_mrtr :: bool
  cl_agent :: "'w agent_identity"
  cl_params :: call_params

definition client_step ::
  "('w, 'u, 'c) gw_config \<Rightarrow> ('w, 'i) client_call \<Rightarrow> ('w, 'u, 'i, 'c) gw_state
     \<Rightarrow> (tool_response \<times> ('w, 'u, 'i, 'c) gw_state) option" where
  "client_step cfg c st = call_tool cfg (cl_clock c) (cl_client c) (cl_mrtr c) (cl_agent c) (cl_params c) st"

fun gateway_run ::
  "('w, 'u, 'c) gw_config \<Rightarrow> ('w, 'i) client_call list \<Rightarrow> ('w, 'u, 'i, 'c) gw_state
     \<Rightarrow> ('w, 'u, 'i, 'c) gw_state option" where
  "gateway_run cfg [] st = Some st"
| "gateway_run cfg (c # cs) st =
     (case client_step cfg c st of None \<Rightarrow> None | Some (response, st') \<Rightarrow> gateway_run cfg cs st')"

lemma session_context_facts [simp]:
  "session_id (session_context agent sid l) = sid" "ctx_label (session_context agent sid l) = l"
  "permission_set (session_context agent sid l) = ai_permissions agent"
  by (simp_all add: session_context_def session_id_def ctx_label_def permission_set_def absorb_context_def
      call_context_new_def level_def new_tracker_def labels.jn_bot)

text \<open>The state and context that a call of \<open>agent\<close> starts from.\<close>

definition opened_session ::
  "call_clock \<Rightarrow> 'i \<Rightarrow> 'w agent_identity \<Rightarrow> ('w, 'u, 'i, 'c) gw_state \<Rightarrow> ('w, 'u, 'i, 'c) gw_state" where
  "opened_session ck client agent st =
     st\<lparr>gs_sessions := ensure_session (ck_epoch ck) (session_id_for agent) agent client (gs_sessions st)\<rparr>"

definition entry_context :: "'w agent_identity \<Rightarrow> ('w, 'u, 'i, 'c) gw_state \<Rightarrow> 'w gw_context" where
  "entry_context agent st = session_context agent (session_id_for agent) (session_label (session_id_for agent) st)"

lemma opened_session_label [simp]: "session_label sid (opened_session ck client agent st) = session_label sid st"
  by (simp add: opened_session_def session_label_def)

lemma opened_session_rises: "rises (session_id_for agent) st (opened_session ck client agent st)"
  unfolding rises_def
  by (auto simp: labels.le_refl)
    (auto simp: opened_session_def ensure_session_def session_get_def session_create_def)

lemma call_tool_handles:
  assumes "call_tool cfg ck client mrtr agent params st = Some (response, st')"
  shows "\<exists>r. handle_call_tool cfg ck params (entry_context agent st) (opened_session ck client agent st) = Some (r, st')"
  using assms by (auto simp: call_tool_def Let_def entry_context_def opened_session_def session_label_def)

lemma entry_ok: "ctx_ok (entry_context agent st) (opened_session ck client agent st)"
  by (simp add: ctx_ok_def entry_context_def opened_session_def ensured del: not_None_eq)
    (simp add: session_label_def)

lemma call_tool_accounted:
  assumes "call_tool cfg ck client mrtr agent params st = Some (response, st')"
  shows "accounted cfg (session_id_for agent) st st'"
proof -
  obtain r where "handle_call_tool cfg ck params (entry_context agent st) (opened_session ck client agent st) = Some (r, st')"
    using call_tool_handles[OF assms] by blast
  from handle_accounted[OF this entry_ok]
  have "accounted cfg (session_id_for agent) (opened_session ck client agent st) st'"
    by (simp add: entry_context_def)
  then show ?thesis by (rule accounted_after[OF opened_session_rises])
qed

lemma accounted_integrity:
  "accounted cfg sid st st' \<Longrightarrow> integrity (session_label s st) \<le> integrity (session_label s st')"
  by (cases "s = sid")
    (auto simp: accounted_def rises_def declassified_def session_label_def context_label_def dest: label_le_integrity)

lemma run_integrity:
  "gateway_run cfg cs st = Some st' \<Longrightarrow> integrity (session_label s st) \<le> integrity (session_label s st')"
proof (induction cs arbitrary: st)
  case (Cons c cs)
  obtain resp st1 where c: "client_step cfg c st = Some (resp, st1)" "gateway_run cfg cs st1 = Some st'"
    using Cons.prems by (auto split: option.splits prod.splits)
  have "integrity (session_label s st) \<le> integrity (session_label s st1)"
    by (rule accounted_integrity[OF call_tool_accounted[OF c(1)[unfolded client_step_def]]])
  then show ?case using Cons.IH[OF c(2)] by simp
qed simp

section \<open>Arguments without references\<close>

fun mentions_variable :: "json \<Rightarrow> bool" and mention_elements :: "json list \<Rightarrow> bool"
  and mention_fields :: "(string \<times> json) list \<Rightarrow> bool" where
  "mentions_variable (JString s) \<longleftrightarrow> contains s VAR_PREFIX"
| "mentions_variable (JArray xs) \<longleftrightarrow> mention_elements xs"
| "mentions_variable (JObject fs) \<longleftrightarrow> mention_fields fs"
| "mentions_variable _ \<longleftrightarrow> False"
| "mention_elements [] \<longleftrightarrow> False"
| "mention_elements (x # xs) \<longleftrightarrow> mentions_variable x \<or> mention_elements xs"
| "mention_fields [] \<longleftrightarrow> False"
| "mention_fields ((k, x) # fs) \<longleftrightarrow> mentions_variable x \<or> mention_fields fs"

lemma resolve_plain:
  "\<not> mentions_variable v \<Longrightarrow> resolve_value get txt v acc = Inr (v, acc)"
  "\<not> mention_elements xs \<Longrightarrow> resolve_elements get txt xs acc = Inr (xs, acc)"
  "\<not> mention_fields fs \<Longrightarrow> resolve_fields get txt fs acc = Inr (fs, acc)"
  by (induction v and xs and fs arbitrary: acc and acc and acc
      rule: mentions_variable_mention_elements_mention_fields.induct)
    (simp_all add: resolve_string_def)

lemma resolve_arguments_plain:
  "\<not> mentions_variable args \<Longrightarrow>
     snd (snd (resolve_arguments ck args ctx st)) =
       Inr \<lparr>ra_arguments = args, ra_effective_label = TRUSTED_PUBLIC, ra_referenced_vars = []\<rparr>"
  by (simp add: resolve_arguments_def resolve_variable_refs_def resolve_plain split: prod.split)

lemma untrusted_write_not_allowed:
  assumes "is_write_tool (cp_name params) (annotations_of cfg (cp_name params))"
    and "integrity (ctx_label ctx) = Untrusted" "\<not> mentions_variable (call_arguments params)"
    and "hm_get (gc_ifc_policies cfg) (permission_set ctx) \<noteq> Some TW_Allow"
  shows "\<not> call_allowed cfg ck params ctx st"
  using assms
  by (simp add: call_allowed_def Let_def flow_granted_def resolve_arguments_plain write_label_def)
    (simp add: ctx_label_def[symmetric])

text \<open>
  C8: What a call does to the labels of the sessions: the other sessions are untouched,
  integrity never recovers, and the label of the client's session only rises,
  unless the call recorded one witness, signed by the configured authority, whose
  confidentiality the session then has.
\<close>

theorem call_labels_accounted:
  assumes "call_tool cfg ck client mrtr agent params st = Some (response, st')"
  shows "let sid = session_id_for agent; old = session_label sid st; new = session_label sid st' in
    (\<forall>s. s \<noteq> sid \<longrightarrow> session_label s st' = session_label s st) \<and> integrity old \<le> integrity new \<and>
    (label_le old new \<and> gs_witnesses st' = gs_witnesses st \<or>
     (\<exists>w auth. gs_witnesses st' = record_witness sid w (gs_witnesses st) \<and> gc_authority cfg = Some auth \<and>
        declassifier w = da_name auth \<and> step_down w \<and> confidentiality new = confidentiality (new_label w) \<and>
        (honest_signer (da_signer auth) \<longrightarrow> witness_verify (gc_encoders cfg) (da_signer auth) w)))"
  using call_tool_accounted[OF assms] accounted_integrity[OF call_tool_accounted[OF assms]]
  by (auto simp: accounted_def rises_def declassified_def session_label_def context_label_def Let_def)

text \<open>
  C3: A session whose label is Untrusted stays so over every sequence of calls of any clients.  Then
  a call that requests a write tool by its name, with arguments that name no variable, is answered
  with an error and leaves the world of the tools, the sessions, the witnesses and the filters as
  they were, unless the policy of the permission set allows tainted writes.  (A misspelt name that
  the router later turns into a write tool is not such a request.)
\<close>

theorem untrusted_session_cannot_write:
  assumes "integrity (session_label (session_id_for agent) st) = Untrusted"
    and "gateway_run cfg calls st = Some st1"
    and "is_write_tool (cp_name params) (annotations_of cfg (cp_name params))"
    and "\<not> mentions_variable (call_arguments params)"
    and "hm_get (gc_ifc_policies cfg) (ai_permissions agent) \<noteq> Some TW_Allow"
    and "call_tool cfg ck client mrtr agent params st1 = Some (response, st2)"
  shows "(\<exists>m. response = refused m) \<and>
    only_accounts ck (prepare_context params (entry_context agent st1)) (cp_name params)
      (opened_session ck client agent st1) st2"
proof -
  have "integrity (session_label (session_id_for agent) st1) = Untrusted"
    using run_integrity[OF assms(2), of "session_id_for agent"] assms(1) by simp
  then have na: "\<not> call_allowed cfg ck params (entry_context agent st1) (opened_session ck client agent st1)"
    using assms(3-5) by (intro untrusted_write_not_allowed) (simp_all add: entry_context_def)
  obtain r where r: "handle_call_tool cfg ck params (entry_context agent st1) (opened_session ck client agent st1) = Some (r, st2)"
    using call_tool_handles[OF assms(6)] by blast
  from refused_call[OF na r] obtain m where m: "r = refused m" by blast
  have "response = refused m"
    using assms(6) r m by (auto simp: call_tool_def Let_def entry_context_def opened_session_def session_label_def refused_def)
  then show ?thesis using refused_call_frame[OF na r] by blast
qed


section \<open>A small gateway\<close>

definition counting :: "string \<Rightarrow> (unit, nat) tool_handler" where
  "counting msg = Handler (\<lambda>args ctx w. (Completed (result_success [TextContent msg]), (fst w, snd w + 1)))"

definition sample_tools :: "(string, (unit, nat) registered_tool) hmap" where
  "sample_tools = register_gateway_tools
     [(''fetch'', \<lparr>rt_annotations = Some \<lparr>read_only_hint = Some True, destructive_hint = None\<rparr>,
        rt_schema_props = None, rt_handler = counting ''page''\<rparr>),
      (''deploy'', \<lparr>rt_annotations = None, rt_schema_props = None, rt_handler = counting ''deployed''\<rparr>)]"

definition sample_gateway :: "(unit, nat, nat) gw_config" where
  "sample_gateway = \<lparr>gc_glob = (\<lambda>_. None), gc_home = None, gc_canonicalize = (\<lambda>_. None),
     gc_json_text = (\<lambda>_. []), gc_json_pretty = (\<lambda>_. []), gc_show_score = show_nat,
     gc_f32 = \<lparr>fl_less = (<), fl_ge = (\<ge>), fl_zero = 0\<rparr>,
     gc_score = \<lparr>so_score = (\<lambda>d m j. 0), so_ge = (\<ge>), so_less = (<), so_zero = 0\<rparr>,
     gc_custom_pii = [], gc_sha = (\<lambda>s. s), gc_encoders = sample_encoders, gc_tools = sample_tools,
     gc_tool_permissions = [], gc_agent_operations = [], gc_tool_operations = [], gc_domain_rules = [],
     gc_tool_classifications = [], gc_path_acls = [], gc_trusted_paths = [],
     gc_ifc_policies = [], gc_hooks = [], gc_cedar = None, gc_cedar_v2 = False, gc_upstream_tools = [],
     gc_upstream_modules = {}, gc_opa = None, gc_dmn = None,
     gc_routing = \<lparr>auto_route_threshold = 0, suggestion_threshold = 0, routing_enabled = False\<rparr>,
     gc_authority = None\<rparr>"

definition sample_agent :: "unit agent_identity" where
  "sample_agent = agent_identity_new ''a'' ''dev''"

text \<open>A session of the agent that has read something untrusted.\<close>

definition sample_gw_state :: "(unit, nat, unit, nat) gw_state" where
  "sample_gw_state = \<lparr>gs_paused = False, gs_quota = quota_new, gs_permits = [], gs_processes = [],
     gs_session_perms = [], gs_values = vsm_new,
     gs_sessions = [(''rmcp:a'', \<lparr>se_id = ''rmcp:a'', se_agent = sample_agent, se_client_info = (),
       se_initialized = True, se_context_label = UNTRUSTED_PUBLIC, se_created_at = 0, se_last_accessed = 0\<rparr>)],
     gs_witnesses = [], gs_pipelines = [], gs_blackbox = None,
     gs_metrics = \<lparr>gm_calls_total = 0, gm_calls_denied = 0, gm_calls_errors = 0, gm_duration_us_sum = 0,
       gm_cedar_denials = 0, gm_dmn_denials = 0, gm_routing_decisions = 0, gm_taint_elevations = 0\<rparr>,
     gs_world = (None, 0)\<rparr>"

definition sample_clock :: call_clock where
  "sample_clock = \<lparr>ck_instant = 0, ck_seconds = 0, ck_epoch = 0, ck_millis = 0, ck_duration_us = 0,
     ck_trace_id = ''t'', ck_var_id = ''v1'', ck_disk_ok = True\<rparr>"

definition sample_params :: "string \<Rightarrow> call_params" where
  "sample_params tool = \<lparr>cp_name = tool, cp_arguments = None, cp_input_responses = None, cp_request_state = None\<rparr>"

lemma sample_simps [simp]:
  "session_id_for sample_agent = ''rmcp:a''" "ai_permissions sample_agent = ''dev''"
  "cp_name (sample_params tool) = tool" "call_arguments (sample_params tool) = JObject []"
  "gc_ifc_policies sample_gateway = []" "gs_quota sample_gw_state = quota_new"
  "gs_world sample_gw_state = (None, 0)" "gs_pipelines sample_gw_state = []"
  "gs_values sample_gw_state = vsm_new"
  "session_label ''rmcp:a'' sample_gw_state = UNTRUSTED_PUBLIC"
  by (simp_all add: session_id_for_def sample_agent_def agent_identity_new_def sample_params_def call_arguments_def
      sample_gateway_def sample_gw_state_def session_label_def context_label_def)

lemma sample_write: "is_write_tool ''deploy'' (annotations_of sample_gateway ''deploy'')"
  by (simp add: annotations_of_def sample_gateway_def sample_tools_def register_gateway_tools_def
      is_write_tool_def obvious_read_words_def contains_def starts_with_def)

lemma limiter_idle: "gs_quota st = quota_new \<Longrightarrow> \<not> limiter_poisoned ck ctx st"
  by (simp add: limiter_poisoned_def quota_check_def quota_new_def)

lemma call_returns:
  "handle_call_tool cfg ck params (entry_context agent st) (opened_session ck client agent st) = Some (r, st') \<Longrightarrow>
     \<exists>response. call_tool cfg ck client mrtr agent params st = Some (response, st') \<and>
       (\<forall>x. r = Completed x \<longrightarrow> response = r)"
  by (auto simp: call_tool_def Let_def entry_context_def opened_session_def session_label_def)

lemma sample_deploy:
  "\<exists>response st'. call_tool sample_gateway sample_clock () False sample_agent (sample_params ''deploy'') sample_gw_state =
     Some (response, st')"
proof -
  let ?ctx = "entry_context sample_agent sample_gw_state"
  let ?st = "opened_session sample_clock () sample_agent sample_gw_state"
  have "\<not> call_allowed sample_gateway sample_clock (sample_params ''deploy'') ?ctx ?st"
    by (rule untrusted_write_not_allowed)
      (simp_all add: sample_write entry_context_def label_consts)
  moreover have "\<not> limiter_poisoned sample_clock (prepare_context (sample_params ''deploy'') ?ctx) ?st"
    by (rule limiter_idle) (simp add: opened_session_def)
  ultimately obtain r st' where
    "handle_call_tool sample_gateway sample_clock (sample_params ''deploy'') ?ctx ?st = Some (r, st')"
    using call_exact[of sample_gateway sample_clock "sample_params ''deploy''" ?ctx ?st] by auto
  from call_returns[OF this] show ?thesis by blast
qed

theorem untrusted_session_cannot_write_witness:
  "\<exists>response st'. call_tool sample_gateway sample_clock () False sample_agent (sample_params ''deploy'') sample_gw_state =
     Some (response, st') \<and> (\<exists>m. response = refused m) \<and> gs_world st' = (None, 0)"
proof -
  obtain response st' where c: "call_tool sample_gateway sample_clock () False sample_agent
      (sample_params ''deploy'') sample_gw_state = Some (response, st')" using sample_deploy by blast
  have "(\<exists>m. response = refused m) \<and>
      only_accounts sample_clock (prepare_context (sample_params ''deploy'') (entry_context sample_agent sample_gw_state))
        (cp_name (sample_params ''deploy'')) (opened_session sample_clock () sample_agent sample_gw_state) st'"
    by (rule untrusted_session_cannot_write[where calls = "[]", OF _ _ _ _ _ c])
      (simp_all add: sample_write label_consts)
  then show ?thesis using c by (auto simp: only_accounts_def opened_session_def)
qed

theorem call_labels_accounted_witness:
  "\<exists>response st'. call_tool sample_gateway sample_clock () False sample_agent (sample_params ''deploy'') sample_gw_state =
     Some (response, st') \<and> integrity (session_label ''rmcp:a'' st') = Untrusted"
proof -
  obtain response st' where c: "call_tool sample_gateway sample_clock () False sample_agent
      (sample_params ''deploy'') sample_gw_state = Some (response, st')" using sample_deploy by blast
  from call_labels_accounted[OF c] have "integrity (session_label ''rmcp:a'' st') = Untrusted"
    by (auto simp: Let_def label_consts)
  then show ?thesis using c by blast
qed

end
