(* ===== verification/GatewayStore.thy ===== *)
theory GatewayStore
  imports GatewayRuns
begin

text \<open>
  The variable that a call stores: what the client saw and nothing else.
\<close>

section \<open>Calls that store nothing\<close>

definition handle_of :: "string \<Rightarrow> ('w, 'u, 'i, 'c) gw_state \<Rightarrow> nat option" where
  "handle_of sid st = hm_get (vsm_stores (gs_values st)) sid"

definition stored_var :: "string \<Rightarrow> string \<Rightarrow> ('w, 'u, 'i, 'c) gw_state \<Rightarrow> content stored_value option" where
  "stored_var sid var st =
     (case handle_of sid st of
        None \<Rightarrow> None
      | Some h \<Rightarrow> hm_get (vs_values (session_store_of (gs_values st) h)) var)"

text \<open>Handles point into the heap.\<close>

definition stores_wf :: "('w, 'u, 'i, 'c) gw_state \<Rightarrow> bool" where
  "stores_wf st \<longleftrightarrow> (\<forall>sid h. handle_of sid st = Some h \<longrightarrow> h < length (vsm_heap (gs_values st)))"

definition stores_nothing ::
  "string \<Rightarrow> string \<Rightarrow> ('w, 'u, 'i, 'c) gw_state \<Rightarrow> ('w, 'u, 'i, 'c) gw_state \<Rightarrow> bool" where
  "stores_nothing sid var st st' \<longleftrightarrow>
     (stores_wf st \<longrightarrow> stores_wf st') \<and> (\<forall>h. handle_of sid st = Some h \<longrightarrow> handle_of sid st' = Some h) \<and>
     (stores_wf st \<longrightarrow> stored_var sid var st = None \<longrightarrow> stored_var sid var st' = None)"

lemma stores_nothing_same: "gs_values st' = gs_values st \<Longrightarrow> stores_nothing sid var st st'"
  by (simp add: stores_nothing_def stores_wf_def handle_of_def stored_var_def split: option.split)

lemma stores_nothing_update [simp]:
  "stores_nothing sid var (st\<lparr>gs_metrics := m\<rparr>) st' = stores_nothing sid var st st'"
  by (simp add: stores_nothing_def stores_wf_def handle_of_def stored_var_def cong: option.case_cong)

lemma stores_nothing_trans:
  "stores_nothing sid var a b \<Longrightarrow> stores_nothing sid var b c \<Longrightarrow> stores_nothing sid var a c"
  by (auto simp: stores_nothing_def)

lemma get_or_create_stores:
  assumes "vsm_get_or_create s (gs_values st) = (vals, h)"
  shows "stores_nothing sid var st (st\<lparr>gs_values := vals\<rparr>) \<and> handle_of s (st\<lparr>gs_values := vals\<rparr>) = Some h"
proof (cases "handle_of s st")
  case (Some k)
  then have "vals = gs_values st" "h = k" using assms by (auto simp: vsm_get_or_create_def handle_of_def)
  then show ?thesis using Some by (simp add: stores_nothing_same)
next
  case None
  define h0 where "h0 = length (vsm_heap (gs_values st))"
  define st' where "st' = st\<lparr>gs_values := vals\<rparr>"
  have v: "vsm_stores (gs_values st') = hm_insert s h0 (vsm_stores (gs_values st))" "h = h0"
    "\<exists>w. vs_values w = [] \<and> vsm_heap (gs_values st') = vsm_heap (gs_values st) @ [w]"
    using assms None by (auto simp: vsm_get_or_create_def handle_of_def Let_def h0_def st'_def vs_with_limits_def)
  have ho: "handle_of i st' = (if i = s then Some h0 else handle_of i st)" for i
    by (simp add: handle_of_def v(1))
  have wf: "stores_wf st \<longrightarrow> stores_wf st'" using v(3) by (auto simp: stores_wf_def ho h0_def less_Suc_eq)
  have "stored_var sid var st' = (if sid = s then None else stored_var sid var st)" if "stores_wf st"
    using v(3) that by (auto simp: stored_var_def ho session_store_of_def h0_def vs_with_limits_def nth_append stores_wf_def
        split: option.split)
  then show ?thesis using wf None v(2) by (auto simp: stores_nothing_def st'_def[symmetric] ho)
qed

lemma with_store_handle [simp]: "handle_of sid (with_store h f st) = handle_of sid st"
  by (simp add: handle_of_def with_store_def)

lemma with_store_wf [simp]: "stores_wf (with_store h f st) = stores_wf st"
  by (simp add: stores_wf_def) (simp add: with_store_def)

lemma with_store_var:
  "stores_wf st \<Longrightarrow> stored_var sid var (with_store h f st) =
     (case handle_of sid st of None \<Rightarrow> None
      | Some k \<Rightarrow> hm_get (vs_values ((if k = h then f else (\<lambda>s. s)) (session_store_of (gs_values st) k))) var)"
  by (auto simp: stored_var_def session_store_of_def stores_wf_def split: option.split)
    (auto simp: with_store_def session_store_of_def)

lemma remove_stores: "stores_nothing sid var st (with_store h (\<lambda>s. fst (vs_remove v s)) st)"
  unfolding stores_nothing_def
  by (auto simp: with_store_var vs_remove_def split: option.split) (auto simp: stored_var_def)

lemma handler_stores:
  "call_handler cfg ck t args ctx st = (r, st') \<Longrightarrow> stores_nothing sid var st st'"
proof -
  assume c: "call_handler cfg ck t args ctx st = (r, st')"
  obtain vals h where v: "vsm_get_or_create (session_id ctx) (gs_values st) = (vals, h)" by fastforce
  note g = conjunct1[OF get_or_create_stores[OF v]]
  have drop: "with_store h (\<lambda>_. fst (vs_remove i (session_store_of (gs_values s) h))) s =
      with_store h (\<lambda>x. fst (vs_remove i x)) s" for i and s :: "('a, 'b, 'c, 'd) gw_state"
    by (simp add: with_store_def)
  show ?thesis
  proof (cases "rt_handler t")
    case (Handler f)
    then show ?thesis using c v by (auto simp: call_handler_def Let_def split: prod.splits intro: stores_nothing_same)
  next
    case VarList
    then show ?thesis using c v g by (auto simp: call_handler_def Let_def)
  next
    case VarInspect
    then have "gs_values st' = vals" using c v
      by (auto simp: call_handler_def var_inspect_def absorb_session_def Let_def split: option.splits prod.splits)
    then have "stores_nothing sid var (st\<lparr>gs_values := vals\<rparr>) st'" by (intro stores_nothing_same) simp
    then show ?thesis using g stores_nothing_trans by blast
  next
    case VarDrop
    define s1 where "s1 = st\<lparr>gs_values := vals\<rparr>"
    have "st' = s1 \<or> (\<exists>i. st' = with_store h (\<lambda>_. fst (vs_remove i (session_store_of (gs_values s1) h))) s1)"
      using c v VarDrop by (auto simp: call_handler_def var_drop_def s1_def Let_def split: option.splits prod.splits)
        (metis fst_conv)+
    then have "st' = s1 \<or> (\<exists>i. st' = with_store h (\<lambda>x. fst (vs_remove i x)) s1)" by (simp add: drop)
    then have "stores_nothing sid var s1 st'" using remove_stores by (auto intro: stores_nothing_same)
    then show ?thesis using g stores_nothing_trans unfolding s1_def by blast
  qed
qed

lemma dispatch_stores:
  "dispatch cfg ck tool args ctx st = Inl (r, st') \<Longrightarrow> stores_nothing sid var st st'"
  "dispatch cfg ck tool args ctx st = Inr (rs, st') \<Longrightarrow> stores_nothing sid var st st'"
  by (auto simp: dispatch_def Let_def split: option.splits list.splits if_splits
      dest!: handler_stores[where sid = sid and var = var] intro: stores_nothing_same
      intro: stores_nothing_trans[OF stores_nothing_same])


section \<open>What is stored\<close>

lemma stored_after_store:
  "stores_wf st \<Longrightarrow> handle_of sid st = Some h \<Longrightarrow>
     stored_var sid (ck_var_id ck) (store_result ck tool h r l st) =
       Some \<lparr>sv_id = ck_var_id ck, sv_content = cr_content r, sv_label = l, sv_source_tool = tool,
         sv_created_at = ck_seconds ck, sv_is_error = is_err r\<rparr>"
  by (simp add: store_result_def with_store_var vs_store_def Let_def)

lemma stored_after_declassify:
  assumes "declassify_result cfg ck tool h r recs label ctx st = (final, ctx', st')"
    and "stores_wf st" "handle_of sid st = Some h" "stored_var sid (ck_var_id ck) st = Some v"
    and "sv_content v = cr_content r" "sv_label v = label"
  shows "stored_var sid (ck_var_id ck) st' = Some (v\<lparr>sv_label := final\<rparr>)"
proof -
  have "gs_values st' = gs_values st \<and> final = label \<or>
      gs_values st' = gs_values (with_store h (\<lambda>vs. fst (vs_update (ck_var_id ck) (cr_content r) final vs)) st)"
    using assms(1)
    by (auto simp: declassify_result_def Let_def with_store_def split: option.splits prod.splits)
  then show ?thesis
  proof
    assume "gs_values st' = gs_values st \<and> final = label"
    then have "stored_var sid (ck_var_id ck) st' = stored_var sid (ck_var_id ck) st"
      by (simp add: stored_var_def handle_of_def cong: option.case_cong)
    then show ?thesis using assms(4,6) \<open>_ \<and> final = label\<close> by simp
  next
    let ?s = "with_store h (\<lambda>vs. fst (vs_update (ck_var_id ck) (cr_content r) final vs)) st"
    assume "gs_values st' = gs_values ?s"
    then have "stored_var sid (ck_var_id ck) st' = stored_var sid (ck_var_id ck) ?s"
      by (simp add: stored_var_def handle_of_def cong: option.case_cong)
    then show ?thesis using assms(2-6) by (simp add: with_store_var) (simp add: stored_var_def vs_update_def)
  qed
qed

text \<open>The answer to a call that stored \<open>v\<close>: its content and a mention of the variable, or the refusal of the output.\<close>

definition answers_with :: "call_clock \<Rightarrow> content stored_value \<Rightarrow> call_tool_result \<Rightarrow> bool" where
  "answers_with ck v r \<longleftrightarrow>
     cr_content r = sv_content v @ [TextContent (''\<newline>---\<newline>_var: '' @ ck_var_id ck @ ''_'')] \<and>
       is_err r = sv_is_error v \<or>
     (\<exists>reason. r = error_msg (''Output blocked by policy: '' @ reason))"

text \<open>A tool that is called under its own name and does not show a variable.\<close>

definition plain_tool :: "('w, 'u, 'c) gw_config \<Rightarrow> string \<Rightarrow> bool" where
  "plain_tool cfg tool \<longleftrightarrow> (case hm_get (gc_tools cfg) tool of Some t \<Rightarrow> rt_handler t \<noteq> VarInspect | None \<Rightarrow> False)"

text \<open>
  The label of the variable against the session: the session absorbs exactly it, or the call was
  declassified and the variable has the label that the recorded witness names.
\<close>

definition labelled_as_absorbed ::
  "('w, 'u, 'c) gw_config \<Rightarrow> string \<Rightarrow> 'w gw_context \<Rightarrow> ('w, 'u, 'i, 'c) gw_state \<Rightarrow> content stored_value
     \<Rightarrow> ('w, 'u, 'i, 'c) gw_state \<Rightarrow> bool" where
  "labelled_as_absorbed cfg tool ctx st v st' \<longleftrightarrow>
     sv_source_tool v = tool \<and> label_le (sv_label v) (session_label (session_id ctx) st') \<and>
     (gs_witnesses st' = gs_witnesses st \<and>
       (plain_tool cfg tool \<longrightarrow>
         session_label (session_id ctx) st' = join (session_label (session_id ctx) st) (sv_label v)) \<or>
      (\<exists>w. gs_witnesses st' = record_witness (session_id ctx) w (gs_witnesses st) \<and> sv_label v = new_label w)) \<and>
     (is_external_read_tool tool \<and> hm_get (gc_trusted_paths cfg) (permission_set ctx) = None \<longrightarrow>
       integrity (sv_label v) = Untrusted)"

text \<open>The label that the call carries is not above the one of its session.\<close>

definition ctx_below :: "'w gw_context \<Rightarrow> ('w, 'u, 'i, 'c) gw_state \<Rightarrow> bool" where
  "ctx_below ctx st \<longleftrightarrow> hm_get (gs_sessions st) (session_id ctx) \<noteq> None \<and>
     label_le (ctx_label ctx) (session_label (session_id ctx) st)"

lemma ctx_below_rises: "ctx_below ctx st \<Longrightarrow> rises (session_id ctx) st st' \<Longrightarrow> ctx_below ctx st'"
  by (auto simp: ctx_below_def rises_def intro: labels.le_trans)

lemma ctx_below_same: "ctx_below ctx st \<Longrightarrow> gs_sessions st' = gs_sessions st \<Longrightarrow> ctx_below ctx st'"
  by (simp add: ctx_below_def session_label_def)

lemma declassify_result_label:
  assumes "declassify_result cfg ck tool h stored recs label ctx st = (final, ctx', st')" and "ctx_below ctx st"
  shows "final = label \<and> gs_sessions st' = gs_sessions st \<and> gs_witnesses st' = gs_witnesses st \<or>
    (\<exists>w. final = new_label w \<and> gs_witnesses st' = record_witness (session_id ctx) w (gs_witnesses st) \<and>
       label_le final (session_label (session_id ctx) st') \<and> integrity final = integrity (ctx_label ctx))"
proof (cases "declassify_to recs = None \<or> gc_authority cfg = None")
  case True
  then show ?thesis using assms(1) by (auto simp: declassify_result_def split: option.splits)
next
  case False
  then obtain c auth where c: "declassify_to recs = Some c" and auth: "gc_authority cfg = Some auth" by auto
  show ?thesis
  proof (cases rule: declassify_cases[of "gc_encoders cfg" "ck_epoch ck" c auth
        "redaction_justification tool recs" "cc_taint (gx_call ctx)"])
    case kept
    then show ?thesis using assms(1) c auth by (simp add: declassify_result_def)
  next
    case (lowered w)
    have st': "gs_sessions st' = fst (declassify_context_label (session_id ctx) c (gs_sessions st))"
      "gs_witnesses st' = record_witness (session_id ctx) w (gs_witnesses st)"
      and final: "final = (ctx_label ctx)\<lparr>confidentiality := c\<rparr>"
      using assms(1) by (auto simp: declassify_result_def c auth lowered(1) audit_def ctx_label_def level_def Let_def)
    have "c < confidentiality (session_label (session_id ctx) st)"
      using lowered(2) assms(2) by (auto simp: ctx_below_def ctx_label_def level_def label_le_def)
    then have "session_label (session_id ctx) st' = (session_label (session_id ctx) st)\<lparr>confidentiality := c\<rparr>"
      using assms(2) by (simp add: session_label_def st' ctx_below_def)
    then show ?thesis
      using assms(2) lowered(5) st'(2)
      by (auto simp: final ctx_below_def label_le_def ctx_label_def level_def intro!: exI[of _ w])
  qed
qed

lemma result_label_external:
  "result_label_for cfg tool args ctx st = (l, st') \<Longrightarrow> is_external_read_tool tool \<Longrightarrow>
     hm_get (gc_trusted_paths cfg) (permission_set ctx) = None \<Longrightarrow> integrity l = Untrusted"
  by (auto simp: result_label_for_def label_consts Let_def split: option.splits if_splits)

lemma complete_result_stores:
  assumes c: "complete_result cfg ck tool args raw h ctx st = Some (r, st')"
    and wf: "stores_wf st" "handle_of (session_id ctx) st = Some h" and below: "ctx_below ctx st"
  shows "\<exists>v. stored_var (session_id ctx) (ck_var_id ck) st' = Some v \<and> answers_with ck v r \<and>
    labelled_as_absorbed cfg tool ctx st v st'"
proof -
  let ?sid = "session_id ctx"
  obtain base st1 where l: "result_label_for cfg tool args ctx (note_error raw (add_duration ck st)) = (base, st1)"
    by fastforce
  obtain filtered recs st2 where f: "post_filter cfg tool args raw ctx st1 = Some (filtered, recs, st2)"
    using c l by (auto simp: complete_result_def split: option.splits)
  define label where "label = elevated_label base recs"
  define st3 where "st3 = store_result ck tool h filtered label (absorb_session label ctx st2)"
  define ctx1 where "ctx1 = absorb_context label ctx"
  obtain final ctx2 st4 where d: "declassify_result cfg ck tool h filtered recs label ctx1 st3 = (final, ctx2, st4)"
    by (metis prod_cases3)
  obtain st6 where o: "output_gate cfg tool args (mention_variable ck filtered) ctx st6 = (r, st')"
    and st6: "gs_values st6 = gs_values st4" "gs_sessions st6 = gs_sessions st4" "gs_witnesses st6 = gs_witnesses st4"
    using c by (auto simp: complete_result_def l f d[unfolded ctx1_def st3_def label_def] Let_def)
  have s2: "gs_sessions st2 = gs_sessions st" "gs_witnesses st2 = gs_witnesses st"
    using result_label_keeps[OF l] post_filter_keeps[OF f] by simp_all
  have same: "gs_values (absorb_session label ctx st2) = gs_values st"
    using result_label_keeps[OF l] post_filter_keeps[OF f] by (simp add: absorb_session_def)
  have wf2: "stores_wf (absorb_session label ctx st2)" "handle_of ?sid (absorb_session label ctx st2) = Some h"
    using wf by (simp_all add: stores_wf_def handle_of_def same)
  have wf3: "stores_wf st3" "handle_of ?sid st3 = Some h"
    using wf2 by (simp_all add: st3_def store_result_def)
  define v where "v = \<lparr>sv_id = ck_var_id ck, sv_content = cr_content filtered, sv_label = label, sv_source_tool = tool,
    sv_created_at = ck_seconds ck, sv_is_error = is_err filtered\<rparr>"
  define fv where "fv = v\<lparr>sv_label := final\<rparr>"
  have "stored_var ?sid (ck_var_id ck) st3 = Some v"
    unfolding st3_def v_def by (rule stored_after_store[OF wf2])
  from stored_after_declassify[OF d wf3 this] have "stored_var ?sid (ck_var_id ck) st4 = Some fv"
    by (simp add: v_def fv_def)
  moreover have "stored_var ?sid (ck_var_id ck) st' = stored_var ?sid (ck_var_id ck) st4"
    using output_keeps[OF o] st6 by (simp add: stored_var_def handle_of_def cong: option.case_cong)
  moreover have "answers_with ck fv r"
    using o by (auto simp: output_gate_def answers_with_def fv_def v_def mention_variable_def is_err_def
        split: option.splits policy_decision.splits)
  moreover have st': "gs_sessions st' = gs_sessions st4" "gs_witnesses st' = gs_witnesses st4"
    using output_keeps[OF o] st6 by simp_all
  have s3: "session_label ?sid st3 = join (session_label ?sid st) label" "gs_witnesses st3 = gs_witnesses st"
    "hm_get (gs_sessions st3) ?sid \<noteq> None"
    using label_absorb[of st2 ctx label] below
    by (auto simp: st3_def s2 session_label_def ctx_below_def absorb_session_def update_context_label_def split: option.split)
  have "label_le (join (ctx_label ctx) label) (join (session_label ?sid st) label)"
    using below by (auto simp: ctx_below_def label_le_def join_max intro: max.coboundedI1)
  then have b3: "ctx_below ctx1 st3" using s3(1,3) by (simp add: ctx_below_def ctx1_def)
  have ext: "integrity label = Untrusted"
    if "is_external_read_tool tool" "hm_get (gc_trusted_paths cfg) (permission_set ctx) = None"
    using result_label_external[OF l that] by (simp add: label_def elevated_label_def)
  have le: "label_le label (ctx_label ctx1)" by (simp add: ctx1_def join_max label_le_def)
  have ext1: "integrity (ctx_label ctx1) = Untrusted" if "integrity label = Untrusted"
    using le that by (cases "integrity (ctx_label ctx1)") (auto simp: label_le_def less_eq_integrity_def)
  from declassify_result_label[OF d b3]
  have "labelled_as_absorbed cfg tool ctx st fv st'"
  proof (elim disjE conjE exE)
    assume k: "final = label" "gs_sessions st4 = gs_sessions st3" "gs_witnesses st4 = gs_witnesses st3"
    then have "session_label ?sid st' = join (session_label ?sid st) label"
      using s3(1) st'(1) by (simp add: session_label_def)
    then show ?thesis
      using ext k(1,3) s3(2) st'(2)
      by (auto simp: labelled_as_absorbed_def fv_def v_def join_max label_le_def)
  next
    fix w
    assume k: "final = new_label w" "gs_witnesses st4 = record_witness (session_id ctx1) w (gs_witnesses st3)"
      "label_le final (session_label (session_id ctx1) st4)" "integrity final = integrity (ctx_label ctx1)"
    have "gs_witnesses st' \<noteq> gs_witnesses st"
      using k(2) s3(2) st'(2) by (auto simp: record_witness_def dest!: arg_cong[where f = length])
    then show ?thesis
      using k ext ext1 s3(2) st'
      by (auto simp: labelled_as_absorbed_def fv_def v_def ctx1_def session_label_def)
  qed
  ultimately show ?thesis by (intro exI[of _ fv]) simp
qed

text \<open>Relative to the state before the handler: a plain tool leaves the sessions to the gateway.\<close>

definition stored_as_answered ::
  "('w, 'u, 'c) gw_config \<Rightarrow> string \<Rightarrow> 'w gw_context \<Rightarrow> call_clock \<Rightarrow> ('w, 'u, 'i, 'c) gw_state
     \<Rightarrow> tool_response \<Rightarrow> ('w, 'u, 'i, 'c) gw_state \<Rightarrow> bool" where
  "stored_as_answered cfg tool ctx ck st response st' \<longleftrightarrow>
     (\<forall>v. stored_var (session_id ctx) (ck_var_id ck) st' = Some v \<longrightarrow>
        (\<exists>r. response = Completed r \<and> answers_with ck v r) \<and> labelled_as_absorbed cfg tool ctx st v st')"

lemma nothing_as_answered:
  "stores_nothing (session_id ctx) (ck_var_id ck) s st' \<Longrightarrow> stores_wf s \<Longrightarrow>
     stored_var (session_id ctx) (ck_var_id ck) s = None \<Longrightarrow> stored_as_answered cfg tool ctx ck st response st'"
  by (simp add: stores_nothing_def stored_as_answered_def)

lemma as_answered_same:
  "gs_values s = gs_values st' \<Longrightarrow> gs_sessions s = gs_sessions st' \<Longrightarrow> gs_witnesses s = gs_witnesses st' \<Longrightarrow>
     stored_as_answered cfg tool ctx ck st r s = stored_as_answered cfg tool ctx ck st r st'"
  by (simp add: stored_as_answered_def stored_var_def handle_of_def labelled_as_absorbed_def session_label_def
      cong: option.case_cong)

lemma as_answered_before:
  "gs_sessions s = gs_sessions st \<Longrightarrow> gs_witnesses s = gs_witnesses st \<Longrightarrow>
     stored_as_answered cfg tool ctx ck s r st' = stored_as_answered cfg tool ctx ck st r st'"
  by (simp add: stored_as_answered_def labelled_as_absorbed_def session_label_def)

lemma as_answered_any:
  assumes "stored_as_answered cfg tool ctx ck s r st'" "\<not> plain_tool cfg tool" "gs_witnesses s = gs_witnesses st"
  shows "stored_as_answered cfg tool ctx ck st r st'"
  using assms by (auto simp: stored_as_answered_def labelled_as_absorbed_def)

lemma respond_stores:
  assumes "respond cfg ck tool args h response ctx st = Some (resp, st')"
    and wf: "stores_wf st" "handle_of (session_id ctx) st = Some h"
      "stored_var (session_id ctx) (ck_var_id ck) st = None" and below: "ctx_below ctx st"
  shows "stored_as_answered cfg tool ctx ck st resp st'"
proof (cases response)
  case (Completed raw)
  then obtain r where "resp = Completed r" "complete_result cfg ck tool args raw h ctx st = Some (r, st')"
    using assms(1) by (auto simp: respond_def)
  then show ?thesis using complete_result_stores[OF _ wf(1,2) below] by (fastforce simp: stored_as_answered_def)
next
  case (InputRequired ir)
  then have i: "input_round cfg ck tool args ir ctx st = Some (resp, st')" using assms(1) by (simp add: respond_def)
  have "gs_values st' = gs_values st" using input_round_rises[OF i] by simp
  then show ?thesis using nothing_as_answered[OF stores_nothing_same wf(1,3)] by simp
qed (use assms in \<open>auto simp: respond_def intro: nothing_as_answered[OF stores_nothing_same wf(1,3)]\<close>)

lemma plain_handler_sessions:
  "rt_handler t \<noteq> VarInspect \<Longrightarrow> call_handler cfg ck t args ctx st = (r, st') \<Longrightarrow> gs_sessions st' = gs_sessions st"
  by (auto simp: call_handler_def Let_def var_drop_def split: prod.splits option.splits tool_handler.splits)

lemma plain_dispatch_sessions:
  "plain_tool cfg tool \<Longrightarrow> dispatch cfg ck tool args ctx st = Inr (rs, st') \<Longrightarrow> gs_sessions st' = gs_sessions st"
  by (auto simp: plain_tool_def dispatch_def plain_handler_sessions split: option.splits)

lemma execute_stores:
  assumes e: "execute_tool cfg ck tool args h ctx st = Some (resp, st')"
    and wf: "stores_wf st" "handle_of (session_id ctx) st = Some h"
      "stored_var (session_id ctx) (ck_var_id ck) st = None" and below: "ctx_below ctx st"
  shows "stored_as_answered cfg tool ctx ck st resp st'"
proof (cases "dispatch cfg ck tool args ctx st")
  case (Inl x)
  then show ?thesis
    using e nothing_as_answered[OF dispatch_stores(1) wf(1,3)] by (cases x) (simp add: execute_tool_def)
next
  case (Inr x)
  obtain response st1 where x: "x = (response, st1)" by (cases x)
  note d = Inr[unfolded x]
  note n = dispatch_stores(2)[OF d, of "session_id ctx" "ck_var_id ck"] and r = dispatch_rises(2)[OF d]
  have "respond cfg ck tool args h response ctx st1 = Some (resp, st')" using e by (simp add: execute_tool_def Inr x)
  then have s: "stored_as_answered cfg tool ctx ck st1 resp st'"
    by (rule respond_stores) (use n wf ctx_below_rises[OF below r] in \<open>auto simp: stores_nothing_def\<close>)
  have w: "gs_witnesses st1 = gs_witnesses st" using r by (simp add: rises_def)
  show ?thesis
  proof (cases "plain_tool cfg tool")
    case True
    then show ?thesis using s as_answered_before[OF plain_dispatch_sessions[OF True d] w] by simp
  next
    case False
    then show ?thesis using as_answered_any[OF s _ w] by blast
  qed
qed

lemma admit_stores:
  fixes st :: "('w, 'u, 'i, 'c) gw_state"
  assumes a: "admit_call cfg ck tool args h ctx st = Some (resp, st')"
    and wf: "stores_wf st" "handle_of (session_id ctx) st = Some h"
      "stored_var (session_id ctx) (ck_var_id ck) st = None" and below: "ctx_below ctx st"
  shows "stored_as_answered cfg tool ctx ck st resp st'"
proof -
  have e: "stored_as_answered cfg tool ctx ck st resp st'"
    if "execute_tool cfg ck tool x h ctx s = Some (resp, st')" "gs_values s = gs_values st"
      "gs_sessions s = gs_sessions st" "gs_witnesses s = gs_witnesses st" for x s
  proof -
    have "stored_as_answered cfg tool ctx ck s resp st'"
    proof (rule execute_stores[OF that(1)])
      show "stores_wf s" "handle_of (session_id ctx) s = Some h" "stored_var (session_id ctx) (ck_var_id ck) s = None"
        using wf that(2) by (simp_all add: stores_wf_def handle_of_def stored_var_def cong: option.case_cong)
    qed (rule ctx_below_same[OF below that(3)])
    then show ?thesis using as_answered_before[OF that(3,4)] by simp
  qed
  have n: "stored_as_answered cfg tool ctx ck st q s" if "gs_values s = gs_values st" for q and s :: "('w, 'u, 'i, 'c) gw_state"
    by (rule nothing_as_answered[OF stores_nothing_same[OF that] wf(1,3)])
  show ?thesis
    using a by (auto simp: admit_call_def Let_def finish_call_def split: if_splits prod.splits pre_hook_outcome.splits
        intro: n dest!: e)
qed

lemma handle_stores:
  assumes h: "handle_call_tool cfg ck params ctx st = Some (resp, st')"
    and wf: "stores_wf st" "stored_var (session_id ctx) (ck_var_id ck) st = None" and below: "ctx_below ctx st"
  shows "stored_as_answered cfg (cp_name params) ctx ck st resp st'"
proof (cases "call_allowed cfg ck params ctx st")
  case True
  let ?ctx = "prepare_context params ctx"
  from allowed_call[OF True h] obtain st1 hd and rv :: resolved_args and st2 where
    r: "snd (resolve_arguments ck (call_arguments params) ?ctx st) = (hd, Inr rv)"
      "gs_values st1 = gs_values (fst (resolve_arguments ck (call_arguments params) ?ctx st))" and
    a: "admit_call cfg ck (cp_name params) (ra_arguments rv) hd ?ctx st1 = Some (resp, st2)"
      "st' = release_permit ?ctx st2" and e: "same_effects st st1" by blast
  obtain vals where g: "vsm_get_or_create (session_id ctx) (gs_values st) = (vals, hd)" "gs_values st1 = vals"
    using r by (auto simp: resolve_arguments_def split: prod.splits)
  note n = get_or_create_stores[OF g(1), where sid = "session_id ctx" and var = "ck_var_id ck"]
  have "stores_wf st1" "handle_of (session_id ?ctx) st1 = Some hd" "stored_var (session_id ?ctx) (ck_var_id ck) st1 = None"
    using n wf by (auto simp: stores_nothing_def stores_wf_def handle_of_def stored_var_def g(2) cong: option.case_cong)
  moreover have "ctx_below ?ctx st1" using below e by (simp add: ctx_below_def same_effects_def session_label_def)
  ultimately have "stored_as_answered cfg (cp_name params) ?ctx ck st1 resp st2" by (rule admit_stores[OF a(1)])
  then have "stored_as_answered cfg (cp_name params) ?ctx ck st resp st'"
    using e as_answered_before[of st1 st] by (simp add: same_effects_def a(2) as_answered_same[of "release_permit ?ctx st2" st2])
  then show ?thesis by (simp add: stored_as_answered_def labelled_as_absorbed_def)
next
  case False
  let ?s = "fst (resolve_arguments ck (call_arguments params) (prepare_context params ctx) st)"
  have n: "stores_nothing (session_id ctx) (ck_var_id ck) st ?s"
    using get_or_create_stores[of "session_id ctx" st] by (auto simp: resolve_arguments_def split: prod.split)
  from refused_call[OF False h] have v: "gs_values st' = gs_values st \<or> gs_values st' = gs_values ?s" by blast
  have "stores_nothing (session_id ctx) (ck_var_id ck) st st'"
    using v
  proof
    assume "gs_values st' = gs_values ?s"
    then show ?thesis using n stores_nothing_trans stores_nothing_same by blast
  qed (rule stores_nothing_same)
  then show ?thesis by (rule nothing_as_answered[OF _ wf])
qed


section \<open>Calls without filters\<close>

definition unfiltered :: "('w, 'u, 'c) gw_config \<Rightarrow> ('w, 'u, 'i, 'c) gw_state \<Rightarrow> bool" where
  "unfiltered cfg st \<longleftrightarrow> gc_hooks cfg = [] \<and> gs_pipelines st = [] \<and> fst (gs_world st) = None"

lemma unfiltered_result:
  "unfiltered cfg st \<Longrightarrow> post_filter cfg tool args raw ctx st = Some (raw, [], st)"
  by (cases "gs_world st") (simp add: unfiltered_def post_filter_def has_hooks_def drain_ledger_def)

lemma unfiltered_complete:
  assumes u: "unfiltered cfg st" and l: "result_label_for cfg tool args ctx (note_error raw (add_duration ck st)) = (base, st1)"
    and wf: "stores_wf st" "handle_of sid st = Some h"
  shows "\<exists>r st'. complete_result cfg ck tool args raw h ctx st = Some (r, st') \<and>
    stored_var sid (ck_var_id ck) st' = Some \<lparr>sv_id = ck_var_id ck, sv_content = cr_content raw, sv_label = base,
      sv_source_tool = tool, sv_created_at = ck_seconds ck, sv_is_error = is_err raw\<rparr>"
proof -
  have u1: "unfiltered cfg st1"
    using u l by (auto simp: unfiltered_def result_label_for_def note_error_def add_duration_def Let_def split: if_splits)
  have same: "gs_values (absorb_session base ctx st1) = gs_values st"
    using result_label_keeps[OF l] by (simp add: absorb_session_def)
  have wf1: "stores_wf (absorb_session base ctx st1)" "handle_of sid (absorb_session base ctx st1) = Some h"
    using wf by (simp_all add: stores_wf_def handle_of_def same)
  define st3 where "st3 = store_result ck tool h raw base (absorb_session base ctx st1)"
  note s3 = stored_after_store[OF wf1, of ck tool raw base, folded st3_def]
  obtain st6 where c: "complete_result cfg ck tool args raw h ctx st =
      Some (output_gate cfg tool args (mention_variable ck raw) ctx st6)" and st6: "gs_values st6 = gs_values st3"
    by (simp add: complete_result_def l unfiltered_result[OF u1] elevated_label_def any_findings_def aggregate_def
        declassify_result_def declassify_to_def st3_def Let_def)
  obtain r st' where o: "output_gate cfg tool args (mention_variable ck raw) ctx st6 = (r, st')" by fastforce
  have "stored_var sid (ck_var_id ck) st' = stored_var sid (ck_var_id ck) st3"
    using output_keeps[OF o] st6 by (simp add: stored_var_def handle_of_def cong: option.case_cong)
  then show ?thesis using c o s3 by auto
qed

text \<open>
  The tool that shows a variable stores its content again, under a fresh name and with the
  label of trusted public data, whatever the label of the variable was.
\<close>

lemma inspection_drops_label:
  assumes u: "unfiltered cfg st" and t: "hm_get (gc_tools cfg) ''navra_var_inspect'' = Some t" "rt_handler t = VarInspect"
    and wf: "stores_wf st" "handle_of (session_id ctx) st = Some h"
    and v: "vs_get (ck_seconds ck) var (session_store_of (gs_values st) h) = Some v"
    and args: "json_get args ''id'' = Some (JString var)"
  shows "\<exists>r st' w. execute_tool cfg ck ''navra_var_inspect'' args h ctx st = Some (Completed r, st') \<and>
    stored_var (session_id ctx) (ck_var_id ck) st' = Some w \<and> sv_content w = sv_content v \<and>
    sv_label w = TRUSTED_PUBLIC"
proof -
  define st1 where "st1 = absorb_session (sv_label v) ctx st"
  have g: "vsm_get_or_create (session_id ctx) (gs_values st) = (gs_values st, h)"
    using wf(2) by (simp add: vsm_get_or_create_def handle_of_def)
  have d: "dispatch cfg ck ''navra_var_inspect'' args ctx st = Inr (Completed (result_success (sv_content v)), st1)"
    by (simp add: dispatch_def t call_handler_def g var_inspect_def args v st1_def Let_def)
  have u1: "unfiltered cfg st1" using u by (simp add: unfiltered_def st1_def absorb_session_def)
  have wf1: "stores_wf st1" "handle_of (session_id ctx) st1 = Some h"
    using wf by (simp_all add: stores_wf_def handle_of_def st1_def absorb_session_def)
  have l: "result_label_for cfg ''navra_var_inspect'' args ctx
      (note_error (result_success (sv_content v)) (add_duration ck st1)) =
    (TRUSTED_PUBLIC, note_error (result_success (sv_content v)) (add_duration ck st1))"
    by (simp add: result_label_for_def is_external_read_tool_def starts_with_def)
  from unfiltered_complete[OF u1 l wf1] show ?thesis
    by (auto simp: execute_tool_def d respond_def result_success_def)
qed


section \<open>Properties\<close>

text \<open>
  C7: A variable that a call brings into the store of its session holds the content of the filtered
  result that the client is answered with, up to the mention of the variable after it (or the
  client is told that the output was blocked), and the name of the called tool.  Its label is at
  most the one the session then has.  Without a declassification a registered tool that is not the
  one showing variables leaves the session with exactly the join of its old label and the
  variable's; with one, the variable has the label that the recorded witness names as new.  What an
  external read tool returns is stored as untrusted where no trusted paths are configured.
\<close>

theorem stored_variable_is_the_answer:
  assumes "call_tool cfg ck client mrtr agent params st = Some (response, st')"
    and "stores_wf st" "stored_var (session_id_for agent) (ck_var_id ck) st = None"
    and "stored_var (session_id_for agent) (ck_var_id ck) st' = Some v"
  shows "let sid = session_id_for agent; tool = cp_name params in
    (\<exists>r. response = Completed r \<and> answers_with ck v r) \<and> sv_source_tool v = tool \<and>
    label_le (sv_label v) (session_label sid st') \<and>
    (gs_witnesses st' = gs_witnesses st \<and>
       (plain_tool cfg tool \<longrightarrow> session_label sid st' = join (session_label sid st) (sv_label v)) \<or>
     (\<exists>w. gs_witnesses st' = record_witness sid w (gs_witnesses st) \<and> sv_label v = new_label w)) \<and>
    (is_external_read_tool tool \<and> hm_get (gc_trusted_paths cfg) (ai_permissions agent) = None \<longrightarrow>
       integrity (sv_label v) = Untrusted)"
proof -
  let ?s = "opened_session ck client agent st" and ?c = "entry_context agent st"
  obtain r where r: "handle_call_tool cfg ck params ?c ?s = Some (r, st')"
    using call_tool_handles[OF assms(1)] by blast
  have "stores_wf ?s" "stored_var (session_id ?c) (ck_var_id ck) ?s = None"
    using assms(2,3)
    by (simp_all add: stores_wf_def stored_var_def handle_of_def opened_session_def entry_context_def cong: option.case_cong)
  moreover have "ctx_below ?c ?s"
    using entry_ok[of agent st ck client] by (simp add: ctx_below_def ctx_ok_def entry_context_def labels.le_refl)
  ultimately have s: "stored_as_answered cfg (cp_name params) ?c ck ?s r st'" by (rule handle_stores[OF r])
  then obtain x where "r = Completed x" "answers_with ck v x"
    using assms(4) by (auto simp: stored_as_answered_def entry_context_def)
  then have "\<exists>r. response = Completed r \<and> answers_with ck v r"
    using assms(1) r by (auto simp: call_tool_def Let_def entry_context_def opened_session_def session_label_def)
  moreover have "gs_witnesses ?s = gs_witnesses st" by (simp add: opened_session_def)
  ultimately show ?thesis
    using s assms(4) by (simp add: stored_as_answered_def labelled_as_absorbed_def entry_context_def Let_def)
qed

lemma sample_fetch:
  "\<exists>response st' v. call_tool sample_gateway sample_clock () False sample_agent (sample_params ''fetch'') sample_gw_state =
     Some (response, st') \<and> stored_var ''rmcp:a'' ''v1'' st' = Some v"
proof -
  let ?ctx = "entry_context sample_agent sample_gw_state"
  let ?pc = "prepare_context (sample_params ''fetch'') ?ctx"
  let ?st = "opened_session sample_clock () sample_agent sample_gw_state"
  have ann: "\<not> is_write_tool ''fetch'' (annotations_of sample_gateway ''fetch'')"
    by (simp add: annotations_of_def sample_gateway_def sample_tools_def register_gateway_tools_def is_write_tool_def)
  have caps: "ai_capabilities (cc_agent (gx_call ?pc)) = None" "ai_max_concurrent (cc_agent (gx_call ?pc)) = None"
    by (simp_all add: prepare_context_def entry_context_def session_context_def absorb_context_def call_context_new_def
        sample_agent_def agent_identity_new_def Let_def)
  have allowed: "call_allowed sample_gateway sample_clock (sample_params ''fetch'') ?ctx ?st"
    by (simp add: call_allowed_def Let_def rate_ok_def permit_free_def tool_permitted_def operation_granted_def
        domain_granted_def cedar_allows_def opa_allows_def dmn_allows_def path_granted_def flow_granted_def
        resolve_arguments_plain ann caps first_arg_def)
      (simp add: sample_gateway_def opened_session_def sample_gw_state_def has_limits_def quota_new_def)
  obtain st1 h and rv :: resolved_args where same: "same_effects ?st st1" and
    res: "snd (resolve_arguments sample_clock (JObject []) ?pc ?st) = (h, Inr rv)"
      "gs_values st1 = gs_values (fst (resolve_arguments sample_clock (JObject []) ?pc ?st))" and
    run: "handle_call_tool sample_gateway sample_clock (sample_params ''fetch'') ?ctx ?st =
       map_option (\<lambda>(response, s). (response, release_permit ?pc s))
         (admit_call sample_gateway sample_clock ''fetch'' (ra_arguments rv) h ?pc st1)"
    using call_exact[of sample_gateway sample_clock "sample_params ''fetch''" ?ctx ?st, unfolded if_P[OF allowed]]
    by auto
  obtain vals where g: "vsm_get_or_create ''rmcp:a'' vsm_new = (vals, h)" "gs_values st1 = vals"
    using res by (auto simp: resolve_arguments_def entry_context_def opened_session_def split: prod.splits)
  define st2 where "st2 = st1\<lparr>gs_processes := record_call (ck_instant sample_clock) (agent_name ?pc) (permission_set ?pc)
      (ai_did (cc_agent (gx_call ?pc))) (agent_ring ?pc) ''fetch'' (gs_processes st1),
      gs_world := (fst (gs_world st1), snd (gs_world st1) + 1)\<rparr>"
  have wf: "stores_wf st2" "handle_of ''rmcp:a'' st2 = Some h"
  proof -
    have "gs_values st2 = \<lparr>vsm_stores = [(''rmcp:a'', 0)], vsm_heap = [vs_with_limits 1000 3600],
        vsm_default_max_entries = 1000, vsm_default_ttl = 3600\<rparr>" "h = 0"
      using g by (auto simp: st2_def vsm_get_or_create_def vsm_new_def vsm_with_limits_def Let_def)
    then show "stores_wf st2" "handle_of ''rmcp:a'' st2 = Some h" by (simp_all add: stores_wf_def handle_of_def)
  qed
  have u: "unfiltered sample_gateway st2"
    using same by (simp add: unfiltered_def st2_def same_effects_def opened_session_def) (simp add: sample_gateway_def)
  obtain base st3 where l: "result_label_for sample_gateway ''fetch'' (ra_arguments rv) ?pc
      (note_error (result_success [TextContent ''page'']) (add_duration sample_clock st2)) = (base, st3)" by fastforce
  have hooks: "\<not> has_hooks (gc_hooks sample_gateway)" by (simp add: has_hooks_def sample_gateway_def)
  have tool: "hm_get (gc_tools sample_gateway) ''fetch'' = Some \<lparr>rt_annotations = Some \<lparr>read_only_hint = Some True,
      destructive_hint = None\<rparr>, rt_schema_props = None, rt_handler = counting ''page''\<rparr>"
    by (simp add: sample_gateway_def sample_tools_def register_gateway_tools_def)
  from unfiltered_complete[OF u l wf] obtain r st' v where
    "complete_result sample_gateway sample_clock ''fetch'' (ra_arguments rv) (result_success [TextContent ''page'']) h ?pc st2 =
       Some (r, st')" "stored_var ''rmcp:a'' ''v1'' st' = Some v"
    by (auto simp: sample_clock_def)
  moreover from this(1) have "admit_call sample_gateway sample_clock ''fetch'' (ra_arguments rv) h ?pc st1 =
      Some (Completed r, st')"
    by (simp add: admit_call_def hooks execute_tool_def dispatch_def tool call_handler_def counting_def respond_def
        Let_def st2_def case_prod_unfold)
  ultimately have done1: "handle_call_tool sample_gateway sample_clock (sample_params ''fetch'') ?ctx ?st =
      Some (Completed r, release_permit ?pc st')" "stored_var ''rmcp:a'' ''v1'' (release_permit ?pc st') = Some v"
    using run by (simp_all add: stored_var_def handle_of_def cong: option.case_cong)
  from call_returns[OF done1(1), of False] done1(2) show ?thesis by blast
qed

lemma sample_stores: "stores_wf sample_gw_state" "stored_var ''rmcp:a'' ''v1'' sample_gw_state = None"
  by (simp_all add: stores_wf_def stored_var_def handle_of_def vsm_new_def vsm_with_limits_def)

theorem stored_variable_is_the_answer_witness:
  "\<exists>response st' v r. call_tool sample_gateway sample_clock () False sample_agent (sample_params ''fetch'') sample_gw_state =
     Some (response, st') \<and> stored_var ''rmcp:a'' ''v1'' st' = Some v \<and> response = Completed r \<and>
     answers_with sample_clock v r \<and> sv_source_tool v = ''fetch''"
proof -
  obtain response st' v where c: "call_tool sample_gateway sample_clock () False sample_agent (sample_params ''fetch'')
      sample_gw_state = Some (response, st')" "stored_var ''rmcp:a'' ''v1'' st' = Some v" using sample_fetch by blast
  have "stored_var (session_id_for sample_agent) (ck_var_id sample_clock) sample_gw_state = None"
    "stored_var (session_id_for sample_agent) (ck_var_id sample_clock) st' = Some v"
    using c(2) sample_stores(2) by (simp_all add: sample_clock_def)
  from stored_variable_is_the_answer[OF c(1) sample_stores(1) this] show ?thesis
    using c by (auto simp: Let_def)
qed

end
