(* ===== verification/GatewayHeap.thy ===== *)
theory GatewayHeap
  imports GatewayStore
begin

text \<open>
  The value stores of all sessions stay well formed: every handle points into the heap, and
  every store is keyed by the identifiers of its values and within its bound.
\<close>

definition heap_wf :: "('w, 'u, 'i, 'c) gw_state \<Rightarrow> bool" where
  "heap_wf st \<longleftrightarrow> stores_wf st \<and> list_all vs_wf (vsm_heap (gs_values st))"

definition keeps_heap :: "('w, 'u, 'i, 'c) gw_state \<Rightarrow> ('w, 'u, 'i, 'c) gw_state \<Rightarrow> bool" where
  "keeps_heap st st' \<longleftrightarrow> heap_wf st \<longrightarrow> heap_wf st'"

lemma keeps_same: "gs_values st' = gs_values st \<Longrightarrow> keeps_heap st st'"
  by (simp add: keeps_heap_def heap_wf_def stores_wf_def handle_of_def)

lemma keeps_trans: "keeps_heap a b \<Longrightarrow> keeps_heap b c \<Longrightarrow> keeps_heap a c"
  by (simp add: keeps_heap_def)

lemma keeps_store:
  assumes "\<And>s. vs_wf s \<Longrightarrow> vs_wf (f s)"
  shows "keeps_heap st (with_store h f st)"
proof -
  have "list_all vs_wf ((vsm_heap (gs_values st))[h := f (vsm_heap (gs_values st) ! h)])"
    if "list_all vs_wf (vsm_heap (gs_values st))"
    using that assms
    by (cases "h < length (vsm_heap (gs_values st))")
      (auto simp: list_all_length nth_list_update)
  then show ?thesis by (simp add: keeps_heap_def heap_wf_def) (simp add: with_store_def session_store_of_def)
qed

lemma keeps_get_or_create:
  assumes "vsm_get_or_create s (gs_values st) = (vals, h)"
  shows "keeps_heap st (st\<lparr>gs_values := vals\<rparr>)"
proof -
  have "list_all vs_wf (vsm_heap vals)" if "list_all vs_wf (vsm_heap (gs_values st))"
    using that assms by (auto simp: vsm_get_or_create_def Let_def vs_wf_def vs_with_limits_def split: option.splits)
  moreover have "stores_wf st \<longrightarrow> stores_wf (st\<lparr>gs_values := vals\<rparr>)"
    using get_or_create_stores[OF assms] by (simp add: stores_nothing_def)
  ultimately show ?thesis by (simp add: keeps_heap_def heap_wf_def)
qed

lemma keeps_handler:
  assumes c: "call_handler cfg ck t args ctx st = (r, st')"
  shows "keeps_heap st st'"
proof -
  obtain vals h where v: "vsm_get_or_create (session_id ctx) (gs_values st) = (vals, h)" by fastforce
  note g = keeps_get_or_create[OF v]
  show ?thesis
  proof (cases "rt_handler t")
    case (Handler f)
    then show ?thesis using c v by (auto simp: call_handler_def Let_def split: prod.splits intro: keeps_same)
  next
    case VarList
    then show ?thesis using c v g by (auto simp: call_handler_def Let_def)
  next
    case VarInspect
    then have "gs_values st' = vals" using c v
      by (auto simp: call_handler_def var_inspect_def absorb_session_def Let_def split: option.splits prod.splits)
    then have "keeps_heap (st\<lparr>gs_values := vals\<rparr>) st'" by (intro keeps_same) simp
    then show ?thesis using g keeps_trans by blast
  next
    case VarDrop
    define s1 where "s1 = st\<lparr>gs_values := vals\<rparr>"
    have "keeps_heap s1 (with_store h (\<lambda>_. fst (vs_remove i (session_store_of (gs_values s1) h))) s1)" for i
    proof -
      have "with_store h (\<lambda>_. fst (vs_remove i (session_store_of (gs_values s1) h))) s1 =
          with_store h (\<lambda>x. fst (vs_remove i x)) s1" by (simp add: with_store_def)
      moreover have "keeps_heap s1 (with_store h (\<lambda>x. fst (vs_remove i x)) s1)"
        by (rule keeps_store) (rule vs_remove_wf)
      ultimately show ?thesis by simp
    qed
    moreover have "st' = s1 \<or> (\<exists>i. st' = with_store h (\<lambda>_. fst (vs_remove i (session_store_of (gs_values s1) h))) s1)"
      using c v VarDrop by (auto simp: call_handler_def var_drop_def s1_def Let_def split: option.splits prod.splits)
        (metis fst_conv)+
    ultimately have "keeps_heap s1 st'" by (auto intro: keeps_same)
    then show ?thesis using g keeps_trans unfolding s1_def by blast
  qed
qed

lemma keeps_update [simp]: "keeps_heap (st\<lparr>gs_metrics := m\<rparr>) st' = keeps_heap st st'"
  by (simp add: keeps_heap_def heap_wf_def stores_wf_def handle_of_def)

lemma keeps_dispatch:
  "dispatch cfg ck tool args ctx st = Inl (r, st') \<Longrightarrow> keeps_heap st st'"
  "dispatch cfg ck tool args ctx st = Inr (rs, st') \<Longrightarrow> keeps_heap st st'"
  by (auto simp: dispatch_def Let_def split: option.splits list.splits if_splits
      dest!: keeps_handler intro: keeps_same)

lemma keeps_declassify:
  "declassify_result cfg ck tool h r recs label ctx st = (final, ctx', st') \<Longrightarrow> keeps_heap st st'"
proof -
  assume d: "declassify_result cfg ck tool h r recs label ctx st = (final, ctx', st')"
  have "gs_values st' = gs_values st \<or>
      (\<exists>l. gs_values st' = gs_values (with_store h (\<lambda>vs. fst (vs_update (ck_var_id ck) (cr_content r) l vs)) st))"
    using d by (auto simp: declassify_result_def Let_def with_store_def split: option.splits prod.splits)
  then show ?thesis
  proof
    assume "\<exists>l. gs_values st' = gs_values (with_store h (\<lambda>vs. fst (vs_update (ck_var_id ck) (cr_content r) l vs)) st)"
    then obtain l where "gs_values st' = gs_values (with_store h (\<lambda>vs. fst (vs_update (ck_var_id ck) (cr_content r) l vs)) st)"
      by blast
    note same = keeps_same[OF this]
    have "keeps_heap st (with_store h (\<lambda>vs. fst (vs_update (ck_var_id ck) (cr_content r) l vs)) st)"
      by (rule keeps_store) (rule vs_update_wf)
    then show ?thesis using same by (rule keeps_trans)
  qed (rule keeps_same)
qed

lemma keeps_complete:
  assumes c: "complete_result cfg ck tool args raw h ctx st = Some (r, st')"
  shows "keeps_heap st st'"
proof -
  obtain base st1 where l: "result_label_for cfg tool args ctx (note_error raw (add_duration ck st)) = (base, st1)"
    by fastforce
  obtain filtered recs st2 where f: "post_filter cfg tool args raw ctx st1 = Some (filtered, recs, st2)"
    using c l by (auto simp: complete_result_def split: option.splits)
  define label where "label = elevated_label base recs"
  define st3 where "st3 = store_result ck tool h filtered label (absorb_session label ctx st2)"
  define ctx1 where "ctx1 = absorb_context label ctx"
  obtain final ctx2 st4 where d: "declassify_result cfg ck tool h filtered recs label ctx1 st3 = (final, ctx2, st4)"
    by (metis prod_cases3)
  obtain st6 where o: "output_gate cfg tool args (mention_variable ck filtered) ctx st6 = (r, st')"
    and st6: "gs_values st6 = gs_values st4"
    using c by (auto simp: complete_result_def l f d[unfolded ctx1_def st3_def label_def] Let_def)
  have "keeps_heap st (absorb_session label ctx st2)"
    using result_label_keeps[OF l] post_filter_keeps[OF f] by (intro keeps_same) (simp add: absorb_session_def)
  moreover have "keeps_heap (absorb_session label ctx st2) st3"
    unfolding st3_def store_result_def by (rule keeps_store) (rule vs_store_wf)
  moreover note keeps_declassify[OF d]
  moreover have "keeps_heap st4 st'" using output_keeps[OF o] st6 by (intro keeps_same) simp
  ultimately show ?thesis by (blast intro: keeps_trans)
qed

lemma keeps_respond: "respond cfg ck tool args h response ctx st = Some (resp, st') \<Longrightarrow> keeps_heap st st'"
  by (auto simp: respond_def split: tool_response.splits dest: keeps_complete input_round_rises intro: keeps_same)

lemma keeps_execute:
  assumes e: "execute_tool cfg ck tool args h ctx st = Some (resp, st')"
  shows "keeps_heap st st'"
proof (cases "dispatch cfg ck tool args ctx st")
  case (Inl x)
  then show ?thesis using e keeps_dispatch(1)[of cfg ck tool args ctx st] by (cases x) (simp add: execute_tool_def)
next
  case (Inr x)
  obtain response st1 where x: "x = (response, st1)" by (cases x)
  have "keeps_heap st st1" by (rule keeps_dispatch(2)[OF Inr[unfolded x]])
  moreover have "keeps_heap st1 st'" using e by (auto simp: execute_tool_def Inr x intro: keeps_respond)
  ultimately show ?thesis by (rule keeps_trans)
qed

lemma keeps_admit:
  assumes "admit_call cfg ck tool args h ctx st = Some (resp, st')"
  shows "keeps_heap st st'"
proof -
  have e: "keeps_heap st st'" if "execute_tool cfg ck tool x h ctx s = Some (resp, st')" "gs_values s = gs_values st" for x s
    by (rule keeps_trans[OF keeps_same keeps_execute[OF that(1)]]) (simp add: that)
  show ?thesis
    using assms by (auto simp: admit_call_def Let_def finish_call_def split: if_splits prod.splits pre_hook_outcome.splits
        intro: keeps_same dest!: e)
qed

lemma keeps_handle:
  assumes h: "handle_call_tool cfg ck params ctx st = Some (resp, st')"
  shows "keeps_heap st st'"
proof -
  let ?s = "fst (resolve_arguments ck (call_arguments params) (prepare_context params ctx) st)"
  have n: "keeps_heap st ?s"
    using keeps_get_or_create[of "session_id ctx" st] by (auto simp: resolve_arguments_def split: prod.split)
  show ?thesis
  proof (cases "call_allowed cfg ck params ctx st")
    case True
    from allowed_call[OF True h] obtain st1 hd and rv :: resolved_args and st2 where
      "gs_values st1 = gs_values ?s"
      "admit_call cfg ck (cp_name params) (ra_arguments rv) hd (prepare_context params ctx) st1 = Some (resp, st2)"
      "st' = release_permit (prepare_context params ctx) st2" by blast
    then have "keeps_heap ?s st1" "keeps_heap st1 st2" "keeps_heap st2 st'"
      by (auto intro: keeps_same keeps_admit)
    then show ?thesis using n keeps_trans by blast
  next
    case False
    from refused_call[OF False h] have "gs_values st' = gs_values st \<or> gs_values st' = gs_values ?s" by blast
    then show ?thesis
      using keeps_trans[OF n keeps_same] keeps_same by blast
  qed
qed

lemma keeps_run: "gateway_run cfg calls st = Some st' \<Longrightarrow> keeps_heap st st'"
proof (induction calls arbitrary: st)
  case (Cons c cs)
  obtain resp st1 where c: "client_step cfg c st = Some (resp, st1)" "gateway_run cfg cs st1 = Some st'"
    using Cons.prems by (auto split: option.splits prod.splits)
  obtain r where "handle_call_tool cfg (cl_clock c) (cl_params c) (entry_context (cl_agent c) st)
      (opened_session (cl_clock c) (cl_client c) (cl_agent c) st) = Some (r, st1)"
    using call_tool_handles[OF c(1)[unfolded client_step_def]] by blast
  note handled = keeps_handle[OF this]
  have "keeps_heap st (opened_session (cl_clock c) (cl_client c) (cl_agent c) st)"
    by (rule keeps_same) (simp add: opened_session_def)
  then have "keeps_heap st st1" using handled by (rule keeps_trans)
  then show ?case using Cons.IH[OF c(2)] keeps_trans by blast
qed (simp add: keeps_heap_def)

text \<open>
  C10: Any sequence of calls leaves the stores of all sessions well formed: every handle points
  into the heap, every value is under its own identifier, once, and no store holds more
  values than its bound.
\<close>

theorem calls_keep_stores_wf:
  assumes "gateway_run cfg calls st = Some st'" "heap_wf st"
    and "handle_of sid st' = Some h"
  shows "h < length (vsm_heap (gs_values st')) \<and> vs_wf (session_store_of (gs_values st') h)"
  using keeps_run[OF assms(1)] assms(2,3)
  by (auto simp: keeps_heap_def heap_wf_def stores_wf_def session_store_of_def list_all_length)

theorem calls_keep_stores_wf_witness:
  "\<exists>st' h. gateway_run sample_gateway [\<lparr>cl_clock = sample_clock, cl_client = (), cl_mrtr = False,
     cl_agent = sample_agent, cl_params = sample_params ''fetch''\<rparr>] sample_gw_state = Some st' \<and>
     handle_of ''rmcp:a'' st' = Some h \<and> vs_wf (session_store_of (gs_values st') h)"
proof -
  obtain response st' v where c: "call_tool sample_gateway sample_clock () False sample_agent (sample_params ''fetch'')
      sample_gw_state = Some (response, st')" "stored_var ''rmcp:a'' ''v1'' st' = Some v" using sample_fetch by blast
  have g: "gateway_run sample_gateway [\<lparr>cl_clock = sample_clock, cl_client = (), cl_mrtr = False,
     cl_agent = sample_agent, cl_params = sample_params ''fetch''\<rparr>] sample_gw_state = Some st'"
    using c(1) by (simp add: client_step_def)
  obtain h where h: "handle_of ''rmcp:a'' st' = Some h" using c(2) by (auto simp: stored_var_def split: option.splits)
  have "heap_wf sample_gw_state" by (simp add: heap_wf_def sample_stores vsm_new_def vsm_with_limits_def)
  from calls_keep_stores_wf[OF g this h] show ?thesis using g h by blast
qed

end
