(* ===== verification/Registry.thy ===== *)
theory Registry
  imports Blackbox SessionPerms ToolAccess Sessions Gateway
begin

text \<open>
  The registries of the gateway that change at run time, from \<open>navra-core/src/server/handlers.rs\<close>:
  the tools, prompts and resources of upstream modules, the negotiation of permissions, and the
  subscriptions of sessions.
\<close>

section \<open>Upstream modules\<close>

text \<open>
  A registry maps names to entries and a module to the names it last announced.  A swap removes
  those and registers the new ones, skipping a name that is taken; \<open>sw_removed\<close> and
  \<open>sw_added\<close> go to the audit log, and a change of the list is announced to the clients.
\<close>

record 'd registry =
  rg_entries :: "(string, 'd) hmap"
  rg_index :: "(string, string list) hmap"

record swap_report =
  sw_removed :: "string list"
  sw_added :: "string list"
  sw_total :: nat
  sw_notify :: bool

definition previous_names :: "string \<Rightarrow> 'd registry \<Rightarrow> string list" where
  "previous_names module r = (case hm_get (rg_index r) module of Some ns \<Rightarrow> ns | None \<Rightarrow> [])"

definition remove_all :: "string list \<Rightarrow> (string, 'd) hmap \<Rightarrow> (string, 'd) hmap" where
  "remove_all names m = fold hm_remove names m"

fun register_new :: "(string \<times> 'd) list \<Rightarrow> (string, 'd) hmap \<Rightarrow> (string, 'd) hmap" where
  "register_new [] m = m"
| "register_new ((name, entry) # rest) m =
     (if hm_get m name \<noteq> None then register_new rest m else register_new rest (hm_insert name entry m))"

definition swap_report_of :: "string list \<Rightarrow> string list \<Rightarrow> swap_report" where
  "swap_report_of previous new_names =
     (let removed = filter (\<lambda>n. n \<notin> set new_names) previous;
          added = filter (\<lambda>n. n \<notin> set previous) new_names
      in \<lparr>sw_removed = removed, sw_added = added, sw_total = length new_names,
          sw_notify = (added \<noteq> [] \<or> removed \<noteq> [])\<rparr>)"

definition swap_entries ::
  "string \<Rightarrow> (string \<times> 'd) list \<Rightarrow> 'd registry \<Rightarrow> 'd registry \<times> swap_report" where
  "swap_entries module entries r =
     (let previous = previous_names module r; new_names = map fst entries in
      (\<lparr>rg_entries = register_new entries (remove_all previous (rg_entries r)),
        rg_index = hm_insert module new_names (rg_index r)\<rparr>,
       swap_report_of previous new_names))"

text \<open>Prompts by name and resources by URI are swapped in the same way.\<close>

definition swap_upstream_prompts ::
  "string \<Rightarrow> (string \<times> 'd) list \<Rightarrow> 'd registry \<Rightarrow> 'd registry \<times> swap_report" where
  "swap_upstream_prompts module prompts r = swap_entries module prompts r"

definition swap_upstream_resources ::
  "string \<Rightarrow> (string \<times> 'd) list \<Rightarrow> 'd registry \<Rightarrow> 'd registry \<times> swap_report" where
  "swap_upstream_resources module resources r = swap_entries module resources r"

text \<open>Tools come with their operations and classifications, which are extended with all the new ones.\<close>

record 'd tool_registry =
  tg_tools :: "'d registry"
  tg_operations :: "(string, upstream_operation) hmap"
  tg_classes :: "(string, resource_class) hmap"

definition extend_map :: "(string \<times> 'v) list \<Rightarrow> (string, 'v) hmap \<Rightarrow> (string, 'v) hmap" where
  "extend_map kvs m = fold (\<lambda>(k, v). hm_insert k v) kvs m"

definition swap_upstream_tools ::
  "string \<Rightarrow> (string \<times> 'd) list \<Rightarrow> (string, upstream_operation) hmap \<Rightarrow> (string, resource_class) hmap
     \<Rightarrow> 'd tool_registry \<Rightarrow> 'd tool_registry \<times> swap_report" where
  "swap_upstream_tools module tools operations classifications t =
     (let previous = previous_names module (tg_tools t);
          (tools', report) = swap_entries module tools (tg_tools t)
      in (\<lparr>tg_tools = tools',
            tg_operations = extend_map operations (remove_all previous (tg_operations t)),
            tg_classes = extend_map classifications (remove_all previous (tg_classes t))\<rparr>,
          report))"

section \<open>Negotiated permissions\<close>

record pending_request =
  pr_session :: string
  pr_agent :: string
  pr_scope :: permission_scope
  pr_duration :: "nat option"

record negotiation =
  ng_pending :: "(string, pending_request) hmap"
  ng_grants :: session_store

datatype negotiation_error = NoPendingRequest string | SelfApproval

record grant_result =
  gr_request_id :: string
  gr_scope :: permission_scope
  gr_expires_at :: "nat option"
  gr_granted_by :: string

definition handle_permission_request ::
  "string \<Rightarrow> permission_scope \<Rightarrow> nat option \<Rightarrow> string \<Rightarrow> string \<Rightarrow> negotiation
     \<Rightarrow> negotiation \<times> (string \<times> string)" where
  "handle_permission_request request_id scope duration session agent n =
     (n\<lparr>ng_pending := hm_insert request_id
          \<lparr>pr_session = session, pr_agent = agent, pr_scope = scope, pr_duration = duration\<rparr> (ng_pending n)\<rparr>,
      (request_id, ''pending''))"

text \<open>The request is taken out before the test; the sum of the times wraps.\<close>

definition handle_permission_grant ::
  "nat \<Rightarrow> string \<Rightarrow> string \<Rightarrow> negotiation \<Rightarrow> negotiation \<times> (negotiation_error + grant_result)" where
  "handle_permission_grant now request_id agent n =
     (case hm_get (ng_pending n) request_id of
        None \<Rightarrow> (n, Inl (NoPendingRequest request_id))
      | Some req \<Rightarrow>
          (let n1 = n\<lparr>ng_pending := hm_remove request_id (ng_pending n)\<rparr> in
           if pr_agent req = agent then (n1, Inl SelfApproval)
           else
             (let expires = map_option (\<lambda>d. wrap_u64 (now + d)) (pr_duration req) in
              (n1\<lparr>ng_grants := store_add_grant (pr_session req) request_id (pr_scope req) expires agent
                    (ng_grants n1)\<rparr>,
               Inr \<lparr>gr_request_id = request_id, gr_scope = pr_scope req, gr_expires_at = expires,
                    gr_granted_by = agent\<rparr>))))"

definition handle_permission_deny ::
  "string \<Rightarrow> negotiation \<Rightarrow> negotiation \<times> (negotiation_error + string)" where
  "handle_permission_deny request_id n =
     (if hm_get (ng_pending n) request_id = None then (n, Inl (NoPendingRequest request_id))
      else (n\<lparr>ng_pending := hm_remove request_id (ng_pending n)\<rparr>, Inr request_id))"

definition handle_permission_list ::
  "nat \<Rightarrow> string \<Rightarrow> negotiation \<Rightarrow> negotiation \<times> dynamic_grant list" where
  "handle_permission_list now session n =
     (let (grants, active) = store_list now session (ng_grants n) in (n\<lparr>ng_grants := grants\<rparr>, active))"

section \<open>Subscriptions\<close>

type_synonym subscriptions = "(string, string set) hmap"

datatype subscription_error = UnknownResource string | NotSubscribed string | NoSubscriptions string

definition handle_resource_subscribe ::
  "'d registry \<Rightarrow> string \<Rightarrow> string \<Rightarrow> subscriptions \<Rightarrow> subscriptions \<times> (subscription_error + unit)" where
  "handle_resource_subscribe resources uri session subs =
     (if hm_get (rg_entries resources) uri = None then (subs, Inl (UnknownResource uri))
      else
        (hm_insert session (insert uri (case hm_get subs session of Some us \<Rightarrow> us | None \<Rightarrow> {})) subs, Inr ()))"

definition handle_resource_unsubscribe ::
  "string \<Rightarrow> string \<Rightarrow> subscriptions \<Rightarrow> subscriptions \<times> (subscription_error + unit)" where
  "handle_resource_unsubscribe uri session subs =
     (case hm_get subs session of
        None \<Rightarrow> (subs, Inl (NoSubscriptions session))
      | Some uris \<Rightarrow>
          if uri \<notin> uris then (subs, Inl (NotSubscribed uri))
          else if uris - {uri} = {} then (hm_remove session subs, Inr ())
          else (hm_insert session (uris - {uri}) subs, Inr ()))"

text \<open>The sessions that are told of an update.\<close>

definition notify_resource_updated :: "string \<Rightarrow> subscriptions \<Rightarrow> string list" where
  "notify_resource_updated uri subs = map fst (filter (\<lambda>(s, uris). uri \<in> uris) subs)"

definition resource_exists :: "'d registry \<Rightarrow> string \<Rightarrow> bool" where
  "resource_exists resources uri \<longleftrightarrow> hm_get (rg_entries resources) uri \<noteq> None"

definition handle_set_log_level :: "'l \<Rightarrow> string \<Rightarrow> (string, 'l) hmap \<Rightarrow> (string, 'l) hmap" where
  "handle_set_log_level lvl session levels = hm_insert session lvl levels"

text \<open>\<open>None\<close> is a broadcast, else the sessions notified; the levels are not compared.\<close>

definition send_log_message :: "(string, 'l) hmap \<Rightarrow> string list option" where
  "send_log_message levels = (if levels = [] then None else Some (map fst levels))"

section \<open>Swaps\<close>

lemma remove_all_get:
  "hm_wf m \<Longrightarrow> hm_get (remove_all names m) k = (if k \<in> set names then None else hm_get m k)"
  by (induction names arbitrary: m) (auto simp: remove_all_def)

lemma register_new_get:
  "hm_get (register_new entries m) k =
     (case hm_get m k of Some d \<Rightarrow> Some d | None \<Rightarrow> map_of entries k)"
  by (induction entries m rule: register_new.induct) (auto split: option.splits)

lemma remove_all_wf: "hm_wf m \<Longrightarrow> hm_wf (remove_all names m)"
  by (induction names arbitrary: m) (simp_all add: remove_all_def)

lemma register_new_wf: "hm_wf m \<Longrightarrow> hm_wf (register_new entries m)"
  by (induction entries m rule: register_new.induct) simp_all

lemma swap_get:
  assumes "hm_wf (rg_entries r)"
  shows "hm_get (rg_entries (fst (swap_entries module entries r))) k =
    (if k \<in> set (previous_names module r) then map_of entries k
     else case hm_get (rg_entries r) k of Some d \<Rightarrow> Some d | None \<Rightarrow> map_of entries k)"
  using assms by (simp add: swap_entries_def Let_def register_new_get remove_all_get split: option.split)

text \<open>
  A swap of a module touches no entry outside the names the module announced before,
  whatever it announces now, and gives every other name it announces the new entry unless the name is taken.
\<close>

theorem swap_keeps_other_entries:
  assumes "hm_wf (rg_entries r)"
  shows "hm_wf (rg_entries (fst (swap_entries module entries r))) \<and>
    (\<forall>k. hm_get (rg_entries (fst (swap_entries module entries r))) k =
       (if k \<notin> set (previous_names module r) \<and> hm_get (rg_entries r) k \<noteq> None then hm_get (rg_entries r) k
        else map_of entries k)) \<and>
    previous_names module (fst (swap_entries module entries r)) = map fst entries \<and>
    (\<forall>m. m \<noteq> module \<longrightarrow> previous_names m (fst (swap_entries module entries r)) = previous_names m r)"
  using assms
  by (auto simp: swap_get split: option.split)
    (simp_all add: swap_entries_def Let_def register_new_wf remove_all_wf previous_names_def)

theorem swap_keeps_other_entries_witness:
  "let r = \<lparr>rg_entries = [(''files_read'', 1::nat), (''web_get'', 2)], rg_index = [(''files'', [''files_read''])]\<rparr>;
       r' = fst (swap_entries ''files'' [(''files_list'', 3), (''web_get'', 4)] r) in
   hm_get (rg_entries r') ''web_get'' = Some 2 \<and> hm_get (rg_entries r') ''files_list'' = Some 3 \<and>
   hm_get (rg_entries r') ''files_read'' = None"
  using swap_keeps_other_entries[of "\<lparr>rg_entries = [(''files_read'', 1::nat), (''web_get'', 2)],
      rg_index = [(''files'', [''files_read''])]\<rparr>" "''files''" "[(''files_list'', 3), (''web_get'', 4)]"]
  by (simp add: Let_def hm_wf_def previous_names_def)

text \<open>
  Two swaps take over the name of another module: the first is refused but puts the name into
  the module's index, and the second removes the entry of the other module and registers its own.
\<close>

lemma two_swaps_take_over:
  assumes "hm_wf (rg_entries r)" and "hm_get (rg_entries r) name = Some victim"
    and "name \<notin> set (previous_names module r)"
  shows "let r1 = fst (swap_entries module [(name, evil)] r); r2 = fst (swap_entries module [(name, evil)] r1) in
    hm_get (rg_entries r1) name = Some victim \<and> hm_get (rg_entries r2) name = Some evil"
proof -
  let ?r1 = "fst (swap_entries module [(name, evil)] r)"
  have p: "previous_names module ?r1 = [name]" and wf: "hm_wf (rg_entries ?r1)"
    using assms(1) by (simp_all add: swap_entries_def Let_def previous_names_def register_new_wf remove_all_wf
        del: register_new.simps)
  show ?thesis using assms by (simp add: Let_def swap_get[OF assms(1)] swap_get[OF wf] p)
qed

text \<open>The operation of a refused tool is overwritten at once: a foreign write tool becomes a read tool.\<close>

lemma refused_tool_reclassified:
  assumes "hm_wf (rg_entries (tg_tools t))" and "hm_get (rg_entries (tg_tools t)) name = Some victim"
    and "name \<notin> set (previous_names module (tg_tools t))"
  shows "let t1 = fst (swap_upstream_tools module [(name, evil)] [(name, UpRead)] [] t) in
    hm_get (rg_entries (tg_tools t1)) name = Some victim \<and> hm_get (tg_operations t1) name = Some UpRead"
proof -
  have "hm_get (rg_entries (fst (swap_entries module [(name, evil)] (tg_tools t)))) name = Some victim"
    using assms by (simp add: swap_get)
  then show ?thesis
    by (simp add: swap_upstream_tools_def extend_map_def Let_def case_prod_unfold)
qed


section \<open>Who granted what\<close>

datatype negotiation_op =
    RequestOp string permission_scope "nat option" string string
  | GrantOp nat string string
  | DenyOp string
  | ListOp nat string

fun negotiation_step :: "negotiation_op \<Rightarrow> negotiation \<Rightarrow> negotiation" where
  "negotiation_step (RequestOp i scope d session agent) n = fst (handle_permission_request i scope d session agent n)"
| "negotiation_step (GrantOp now i agent) n = fst (handle_permission_grant now i agent n)"
| "negotiation_step (DenyOp i) n = fst (handle_permission_deny i n)"
| "negotiation_step (ListOp now session) n = fst (handle_permission_list now session n)"

definition negotiation_run :: "negotiation_op list \<Rightarrow> negotiation" where
  "negotiation_run ops = fold negotiation_step ops \<lparr>ng_pending = [], ng_grants = []\<rparr>"

fun asked_for :: "string \<Rightarrow> pending_request \<Rightarrow> negotiation_op \<Rightarrow> bool" where
  "asked_for i p (RequestOp j scope d session agent) \<longleftrightarrow>
     i = j \<and> p = \<lparr>pr_session = session, pr_agent = agent, pr_scope = scope, pr_duration = d\<rparr>"
| "asked_for i p _ \<longleftrightarrow> False"

text \<open>A request of the history for this scope and session, made by someone else than who granted it.\<close>

fun backs_grant :: "string \<Rightarrow> dynamic_grant \<Rightarrow> negotiation_op \<Rightarrow> bool" where
  "backs_grant s g (RequestOp i scope d session agent) \<longleftrightarrow>
     i = dg_request_id g \<and> scope = dg_scope g \<and> session = s \<and> agent \<noteq> dg_granted_by g"
| "backs_grant s g _ \<longleftrightarrow> False"

definition negotiated :: "negotiation_op list \<Rightarrow> negotiation \<Rightarrow> bool" where
  "negotiated ops n \<longleftrightarrow>
     (\<forall>i p. hm_get (ng_pending n) i = Some p \<longrightarrow> list_ex (asked_for i p) ops) \<and>
     (\<forall>s. \<forall>g\<in>set (session_of (ng_grants n) s). list_ex (backs_grant s g) ops)"

lemma session_of_add [simp]:
  "session_of (store_add_grant s i scope e who m) t =
     (if t = s then session_of m s @ [\<lparr>dg_request_id = i, dg_scope = scope, dg_expires_at = e, dg_granted_by = who\<rparr>]
      else session_of m t)"
  by (simp add: store_add_grant_def with_session_def add_grant_def)

lemma session_of_list: "set (session_of (fst (store_list now s m)) t) \<subseteq> set (session_of m t)"
  by (auto simp: store_list_def with_session_def sp_list_def gc_def Let_def)

lemma negotiated_step:
  assumes "negotiated ops n"
  shows "negotiated (ops @ [a]) (negotiation_step a n)"
proof (cases a)
  case (RequestOp i scope d session agent)
  then show ?thesis using assms by (auto simp: negotiated_def handle_permission_request_def)
next
  case (GrantOp now i agent)
  have supported: "list_ex (backs_grant (pr_session p) \<lparr>dg_request_id = i, dg_scope = pr_scope p, dg_expires_at = e,
      dg_granted_by = agent\<rparr>) ops" if "hm_get (ng_pending n) i = Some p" "pr_agent p \<noteq> agent" for p e
  proof -
    have "list_ex (asked_for i p) ops" using assms that by (auto simp: negotiated_def)
    then obtain b where b: "b \<in> set ops" "asked_for i p b" by (auto simp: list_ex_iff)
    have "backs_grant (pr_session p) \<lparr>dg_request_id = i, dg_scope = pr_scope p, dg_expires_at = e,
      dg_granted_by = agent\<rparr> b" using b(2) that(2) by (cases b) auto
    then show ?thesis using b(1) by (auto simp: list_ex_iff)
  qed
  show ?thesis using assms supported
    by (auto simp: GrantOp negotiated_def handle_permission_grant_def Let_def split: option.split)
next
  case (DenyOp i)
  then show ?thesis using assms by (auto simp: negotiated_def handle_permission_deny_def)
next
  case (ListOp now s)
  then show ?thesis using assms session_of_list[of now s "ng_grants n"]
    by (fastforce simp: negotiated_def handle_permission_list_def Let_def case_prod_unfold)
qed

lemma negotiated_fold: "negotiated pre n \<Longrightarrow> negotiated (pre @ ops) (fold negotiation_step ops n)"
proof (induction ops arbitrary: pre n)
  case (Cons a ops)
  from Cons.IH[OF negotiated_step[OF Cons.prems, of a]] show ?case by simp
qed simp

text \<open>
  C11: Nobody approves for themselves: after any sequence of negotiation messages every grant of a
  session was requested in that sequence, under its identifier, for its scope and its session, by an
  agent other than the one that granted it.
\<close>

theorem grants_are_approved_by_others:
  "list_all (\<lambda>g. list_ex (backs_grant s g) ops) (session_of (ng_grants (negotiation_run ops)) s)"
  using negotiated_fold[of "[]" "\<lparr>ng_pending = [], ng_grants = []\<rparr>" ops]
  by (auto simp: negotiated_def negotiation_run_def session_of_def list_all_iff)

text \<open>A request can be replaced under its identifier: what is granted is the scope of the last one.\<close>

lemma request_replaced:
  "map dg_scope (session_of (ng_grants (negotiation_run
     [RequestOp ''r1'' (ToolAccess ''file_read'') None ''s1'' ''alice'',
      RequestOp ''r1'' (ToolAccess ''shell'') None ''s2'' ''mallory'', GrantOp 0 ''r1'' ''operator''])) ''s2'') =
   [ToolAccess ''shell'']"
  by (simp add: negotiation_run_def handle_permission_request_def handle_permission_grant_def Let_def)
    (simp add: session_of_def)

text \<open>An agent that tries to approve its own request loses it.\<close>

lemma self_approval_drops_request:
  "pr_agent p = agent \<Longrightarrow> hm_get (ng_pending n) i = Some p \<Longrightarrow> hm_wf (ng_pending n) \<Longrightarrow>
     hm_get (ng_pending (fst (handle_permission_grant now i agent n))) i = None"
  by (simp add: handle_permission_grant_def Let_def)

section \<open>Who is told\<close>

definition subscribed :: "subscriptions \<Rightarrow> string \<Rightarrow> string \<Rightarrow> bool" where
  "subscribed subs session uri \<longleftrightarrow> (\<exists>us. hm_get subs session = Some us \<and> uri \<in> us)"

lemma notified_iff:
  "hm_wf subs \<Longrightarrow> session \<in> set (notify_resource_updated uri subs) \<longleftrightarrow> subscribed subs session uri"
  by (force simp: notify_resource_updated_def subscribed_def hm_wf_def)

lemma unsubscribed:
  "hm_wf subs \<Longrightarrow> subscribed (fst (handle_resource_unsubscribe uri session subs)) s u \<longleftrightarrow>
     subscribed subs s u \<and> \<not> (s = session \<and> u = uri)"
  by (auto simp: subscribed_def handle_resource_unsubscribe_def split: option.split)

end
