(* ===== verification/Listings.thy ===== *)
theory Listings
  imports Ssrf SsrfFacts PiiPatterns ToolAccess Authn Sessions GatewayGates Registry
begin

text \<open>
  What the gateway shows: the paged lists of tools, prompts and resources with their filters,
  prompts and resources themselves, the initialisation of sessions and the history of used tools
  (\<open>navra-core/src/server/handlers.rs\<close>, \<open>navra_handler.rs\<close>, paging in
  \<open>navra-protocol/src/mcp.rs\<close>).  Base64 is a pair of functions, handlers are functions of
  a world.
\<close>

section \<open>Paging\<close>

record base64 =
  b64_encode :: "string \<Rightarrow> string"
  b64_decode :: "string \<Rightarrow> string option"

definition DEFAULT_PAGE_SIZE :: nat where
  "DEFAULT_PAGE_SIZE = 100"

definition encode_cursor :: "base64 \<Rightarrow> nat \<Rightarrow> string" where
  "encode_cursor b offset = b64_encode b (show_nat offset)"

text \<open>\<open>None\<close> is no cursor; the number is a \<open>usize\<close>.\<close>

definition decode_offset :: "base64 \<Rightarrow> string option \<Rightarrow> nat option" where
  "decode_offset b cursor =
     (case cursor of
        None \<Rightarrow> Some 0
      | Some c \<Rightarrow> (case b64_decode b c of None \<Rightarrow> None | Some s \<Rightarrow> from_str_radix 64 10 s))"

definition paginate :: "base64 \<Rightarrow> 'd list \<Rightarrow> nat \<Rightarrow> nat \<Rightarrow> 'd list \<times> string option" where
  "paginate b items offset page_size =
     (if offset \<ge> length items then ([], None)
      else
        (let fin = min (offset + page_size) (length items)
         in (take (fin - offset) (drop offset items),
             if fin < length items then Some (encode_cursor b fin) else None)))"

definition page_of :: "base64 \<Rightarrow> 'd list \<Rightarrow> string option \<Rightarrow> 'd list \<times> string option" where
  "page_of b visible cursor =
     paginate b visible (case decode_offset b cursor of Some n \<Rightarrow> n | None \<Rightarrow> 0) DEFAULT_PAGE_SIZE"

section \<open>Tools\<close>

record 'd tool_definition =
  tf_name :: string
  tf_annotations :: "tool_annotations option"
  tf_rest :: 'd

type_synonym ('w, 'd) tool_filter = "'d tool_definition list \<Rightarrow> 'w call_context \<Rightarrow> 'd tool_definition list"

record ('w, 'd) listing_config =
  lc_glob :: glob_engine
  lc_base64 :: base64
  lc_tool_disclosure :: "(string, tool_disclosure) hmap"
  lc_hide_denied :: bool
  lc_tool_permissions :: "(string, tool_permissions) hmap"
  lc_upstream_modules :: "string set"
  lc_dynamic_filters :: "('w, 'd) tool_filter list"
  lc_domain_rules :: "(string, domain_rules) hmap"
  lc_read_clearances :: "(string, read_clearance) hmap"

definition tool_denied_by_rules :: "('w, 'd) listing_config \<Rightarrow> string \<Rightarrow> string \<Rightarrow> bool" where
  "tool_denied_by_rules lc set_name tool_name =
     (case hm_get (lc_tool_permissions lc) set_name of
        Some tp \<Rightarrow> tool_check (lc_glob lc) tp tool_name = ToolDeny
      | None \<Rightarrow> False)"

definition disclosed_tools ::
  "('w, 'd) listing_config \<Rightarrow> 'w agent_identity \<Rightarrow> 'd tool_definition list \<Rightarrow> 'd tool_definition list" where
  "disclosed_tools lc agent all_tools =
     (let visible = (case hm_get (lc_tool_disclosure lc) (ai_permissions agent) of
                       Some disclosure \<Rightarrow> disclosure_filter (lc_glob lc) tf_name disclosure all_tools
                     | None \<Rightarrow> all_tools)
      in if lc_hide_denied lc
         then filter (\<lambda>t. \<not> tool_denied_by_rules lc (ai_permissions agent) (tf_name t)) visible
         else visible)"

definition handle_list_tools ::
  "('w, 'd) listing_config \<Rightarrow> 'w agent_identity \<Rightarrow> 'd tool_definition list \<Rightarrow> string option
     \<Rightarrow> 'd tool_definition list \<times> string option" where
  "handle_list_tools lc agent all_tools cursor =
     page_of (lc_base64 lc) (disclosed_tools lc agent all_tools) cursor"

definition module_of :: "string \<Rightarrow> string" where
  "module_of name = hd (split_on (CHR ''_'') name)"

definition in_allowed_upstream :: "('w, 'd) listing_config \<Rightarrow> 'w agent_identity \<Rightarrow> 'd tool_definition \<Rightarrow> bool" where
  "in_allowed_upstream lc agent t \<longleftrightarrow>
     module_of (tf_name t) \<notin> lc_upstream_modules lc \<or> module_of (tf_name t) \<in> set (ai_allowed_upstreams agent)"

definition handle_list_tools_dynamic ::
  "('w, 'd) listing_config \<Rightarrow> 'w agent_identity \<Rightarrow> 'd tool_definition list \<Rightarrow> string option
     \<Rightarrow> 'w call_context \<Rightarrow> 'd tool_definition list \<times> string option" where
  "handle_list_tools_dynamic lc agent all_tools cursor ctx =
     (let visible = disclosed_tools lc agent all_tools;
          scoped = (if ai_allowed_upstreams agent \<noteq> [] then filter (in_allowed_upstream lc agent) visible
                    else visible)
      in page_of (lc_base64 lc) (fold (\<lambda>f v. f v ctx) (lc_dynamic_filters lc) scoped) cursor)"

text \<open>The filters that come with the gateway.\<close>

definition ifc_tool_filter :: "('w, 'd) tool_filter" where
  "ifc_tool_filter tools ctx =
     (if integrity (level (cc_taint ctx)) = Untrusted
      then filter (\<lambda>t. \<not> is_write_tool (tf_name t) (tf_annotations t)) tools
      else tools)"

record usage_tracker =
  ut_history :: "(string, string set list) hmap"
  ut_window :: nat

definition usage_tracker_new :: "nat \<Rightarrow> usage_tracker" where
  "usage_tracker_new window = \<lparr>ut_history = [], ut_window = window\<rparr>"

definition record_session_end :: "string \<Rightarrow> string set \<Rightarrow> usage_tracker \<Rightarrow> usage_tracker" where
  "record_session_end agent used t =
     (let sessions = (case hm_get (ut_history t) agent of Some ss \<Rightarrow> ss | None \<Rightarrow> []) @ [used]
      in t\<lparr>ut_history := hm_insert agent (drop (length sessions - ut_window t) sessions) (ut_history t)\<rparr>)"

definition has_enough_history :: "usage_tracker \<Rightarrow> string \<Rightarrow> bool" where
  "has_enough_history t agent =
     (case hm_get (ut_history t) agent of Some ss \<Rightarrow> length ss \<ge> ut_window t | None \<Rightarrow> False)"

definition unused_tools_from :: "usage_tracker \<Rightarrow> string \<Rightarrow> string list \<Rightarrow> string set" where
  "unused_tools_from t agent all_tool_names =
     (case hm_get (ut_history t) agent of
        None \<Rightarrow> {}
      | Some ss \<Rightarrow>
          if length ss < ut_window t then {}
          else set (filter (\<lambda>n. n \<notin> \<Union> (set ss)) all_tool_names))"

definition usage_pruning_filter :: "usage_tracker \<Rightarrow> ('w, 'd) tool_filter" where
  "usage_pruning_filter tracker tools ctx =
     (let agent = ai_name (cc_agent ctx) in
      if \<not> has_enough_history tracker agent then tools
      else
        (let unused = unused_tools_from tracker agent (map tf_name tools)
         in if unused = {} then tools else filter (\<lambda>t. tf_name t \<notin> unused) tools))"

section \<open>Prompts and resources\<close>

definition class_denied :: "('w, 'd) listing_config \<Rightarrow> 'w agent_identity \<Rightarrow> resource_class \<Rightarrow> bool" where
  "class_denied lc agent class =
     (case hm_get (lc_domain_rules lc) (ai_permissions agent) of
        Some rules \<Rightarrow> domain_check rules class = DomainDeny
      | None \<Rightarrow> False)"

definition handle_list_prompts ::
  "('w, 'd) listing_config \<Rightarrow> 'w agent_identity \<Rightarrow> 'p list \<Rightarrow> string option \<Rightarrow> 'p list \<times> string option" where
  "handle_list_prompts lc agent all_prompts cursor =
     page_of (lc_base64 lc) (if class_denied lc agent classify_prompt then [] else all_prompts) cursor"

text \<open>A prompt or resource handler maps its arguments, the context and the world to a result.\<close>

type_synonym ('a, 'w, 'u, 'r) entry_handler = "'a \<Rightarrow> 'w call_context \<Rightarrow> 'u \<Rightarrow> 'r \<times> 'u"

definition string_arguments :: "(string \<times> json) list option \<Rightarrow> (string, string) hmap" where
  "string_arguments args =
     List.map_filter (\<lambda>(k, v). map_option (\<lambda>s. (k, s)) (json_str v)) (case args of Some m \<Rightarrow> m | None \<Rightarrow> [])"

definition handle_get_prompt ::
  "('w, 'd) listing_config \<Rightarrow> (string, ((string, string) hmap, 'w, 'u, 'r) entry_handler) hmap \<Rightarrow> string
     \<Rightarrow> (string \<times> json) list option \<Rightarrow> 'w agent_identity \<Rightarrow> string \<Rightarrow> 'u \<Rightarrow> (string + 'r) \<times> 'u" where
  "handle_get_prompt lc prompts name args agent session u =
     (if class_denied lc agent classify_prompt then
        (Inl (''Permission denied: prompt '' @ quoted name @ '' blocked by domain rules for '' @
              quoted (ai_permissions agent)), u)
      else
        (case hm_get prompts name of
           None \<Rightarrow> (Inl (''Unknown prompt: '' @ name), u)
         | Some h \<Rightarrow>
             (case h (string_arguments args) (call_context_new agent session) u of (r, u') \<Rightarrow> (Inr r, u'))))"

definition resource_confidentiality :: "string \<Rightarrow> confidentiality" where
  "resource_confidentiality uri =
     (if starts_with uri ''navra://audit'' \<or>
         starts_with uri ''navra://proc'' \<and> (contains uri ''/taint'' \<or> contains uri ''/capabilities'')
      then Sensitive else Public)"

definition agent_can_see_resource :: "('w, 'd) listing_config \<Rightarrow> 'w agent_identity \<Rightarrow> string \<Rightarrow> bool" where
  "agent_can_see_resource lc agent uri =
     (if (case ai_capabilities agent of
            Some caps \<Rightarrow> rc_tools caps \<noteq> [] \<and> \<not> list_ex (\<lambda>pat. glob_accepts (lc_glob lc) pat uri) (rc_tools caps)
          | None \<Rightarrow> False) then False
      else
        (case hm_get (lc_read_clearances lc) (ai_permissions agent) of
           Some clearance \<Rightarrow> \<not> clearance_level clearance < resource_confidentiality uri
         | None \<Rightarrow> True))"

definition handle_list_resources ::
  "('w, 'd) listing_config \<Rightarrow> ('r \<Rightarrow> string) \<Rightarrow> 'w agent_identity \<Rightarrow> 'r list \<Rightarrow> string option
     \<Rightarrow> 'r list \<times> string option" where
  "handle_list_resources lc uri_of agent all_resources cursor =
     (if class_denied lc agent classify_resource then ([], None)
      else page_of (lc_base64 lc) (filter (\<lambda>r. agent_can_see_resource lc agent (uri_of r)) all_resources) cursor)"

definition handle_list_resource_templates ::
  "('w, 'd) listing_config \<Rightarrow> ('r \<Rightarrow> string) \<Rightarrow> 'w agent_identity \<Rightarrow> 'r list \<Rightarrow> string option
     \<Rightarrow> 'r list \<times> string option" where
  "handle_list_resource_templates lc template_of agent all_templates cursor =
     (if class_denied lc agent classify_resource then ([], None)
      else page_of (lc_base64 lc) (filter (\<lambda>t. agent_can_see_resource lc agent (template_of t)) all_templates) cursor)"

text \<open>The parts of a template after a brace; a part whose rest is empty ends the match.\<close>

fun match_parts :: "string list \<Rightarrow> string \<Rightarrow> bool" where
  "match_parts [] remaining \<longleftrightarrow> remaining = []"
| "match_parts (part # parts) remaining \<longleftrightarrow>
     (case split_once (CHR ''}'') part of
        None \<Rightarrow> False
      | Some (_, rest) \<Rightarrow>
          if rest = [] then remaining \<noteq> [] \<and> CHR ''/'' \<notin> set remaining
          else
            (case find_str remaining rest of
               None \<Rightarrow> False
             | Some pos \<Rightarrow>
                 if pos = 0 \<or> CHR ''/'' \<in> set (take pos remaining) then False
                 else match_parts parts (drop (pos + length rest) remaining)))"

definition matches_uri_template :: "string \<Rightarrow> string \<Rightarrow> bool" where
  "matches_uri_template template uri =
     (case split_on (CHR ''{'') template of
        [] \<Rightarrow> template = uri
      | first # parts \<Rightarrow> starts_with uri first \<and> match_parts parts (drop (length first) uri))"

definition handle_read_resource ::
  "('w, 'd) listing_config \<Rightarrow> (string, (string, 'w, 'u, 'r) entry_handler) hmap
     \<Rightarrow> (string \<times> (string, 'w, 'u, 'r) entry_handler) list \<Rightarrow> string \<Rightarrow> 'w agent_identity \<Rightarrow> string
     \<Rightarrow> 'u \<Rightarrow> (string + 'r) \<times> 'u" where
  "handle_read_resource lc resources templates uri agent session u =
     (if class_denied lc agent classify_resource then
        (Inl (''Permission denied: resource '' @ quoted uri @ '' blocked by domain rules for '' @
              quoted (ai_permissions agent)), u)
      else
        (let ctx = call_context_new agent session;
             found = (case hm_get resources uri of
                        Some h \<Rightarrow> Some (uri, h)
                      | None \<Rightarrow> List.find (\<lambda>(template, _). matches_uri_template template uri) templates)
         in case found of
              None \<Rightarrow> (Inl (''Unknown resource: '' @ uri), u)
            | Some (seen, h) \<Rightarrow>
                if \<not> agent_can_see_resource lc agent seen then (Inl ''Permission denied'', u)
                else (case h uri ctx u of (r, u') \<Rightarrow> (Inr r, u'))))"

section \<open>Initialisation\<close>

text \<open>
  \<open>handle_initialize\<close> under a fresh identifier, with the cap on the sessions, and the
  \<open>initialize\<close> of a client, which first removes the session its tool calls use.
\<close>

record init_config =
  in_ttl :: nat
  in_max_sessions :: nat

definition handle_initialize ::
  "init_config \<Rightarrow> int \<Rightarrow> string \<Rightarrow> string \<Rightarrow> 'i \<Rightarrow> 'a \<Rightarrow> ('a, 'i) sessions \<Rightarrow> ('a, 'i) sessions \<times> (string + string)" where
  "handle_initialize cfg now fresh client_name client agent m =
     (if client_name = [] then (m, Inl ''Missing client_info.name'')
      else
        (let m1 = session_expire now (in_ttl cfg) m in
         if session_count m1 \<ge> in_max_sessions cfg
         then (m1, Inl (''Session limit reached ('' @ show_nat (in_max_sessions cfg) @
                        ''). Close existing sessions first.''))
         else
           (session_create \<lparr>se_id = fresh, se_agent = agent, se_client_info = client, se_initialized = True,
              se_context_label = TRUSTED_PUBLIC, se_created_at = now, se_last_accessed = now\<rparr> m1,
            Inr fresh)))"

definition initialize ::
  "init_config \<Rightarrow> int \<Rightarrow> string \<Rightarrow> string \<Rightarrow> 'i \<Rightarrow> 'w agent_identity \<Rightarrow> ('w agent_identity, 'i) sessions
     \<Rightarrow> ('w agent_identity, 'i) sessions \<times> (string + string)" where
  "initialize cfg now fresh client_name client agent m =
     handle_initialize cfg now fresh client_name client agent (fst (session_remove (session_id_for agent) m))"


section \<open>Following the cursors\<close>

text \<open>
  What a client collects that asks on with each cursor until there is none, and how many requests
  it took; \<open>None\<close> when it still has a cursor after \<open>fuel\<close> requests.
\<close>

fun collect_pages :: "base64 \<Rightarrow> 'd list \<Rightarrow> nat \<Rightarrow> string option \<Rightarrow> ('d list \<times> nat) option" where
  "collect_pages b visible 0 cursor = None"
| "collect_pages b visible (Suc fuel) cursor =
     (case page_of b visible cursor of
        (page, None) \<Rightarrow> Some (page, 1)
      | (page, Some next_cursor) \<Rightarrow>
          map_option (\<lambda>(rest, n). (page @ rest, Suc n)) (collect_pages b visible fuel (Some next_cursor)))"

text \<open>The pages of a list: one for each started hundred, and one for the empty list.\<close>

definition pages_of :: "nat \<Rightarrow> nat" where
  "pages_of n = max 1 ((n + DEFAULT_PAGE_SIZE - 1) div DEFAULT_PAGE_SIZE)"

lemma pages_of_step:
  assumes "DEFAULT_PAGE_SIZE < n"
  shows "pages_of n = Suc (pages_of (n - DEFAULT_PAGE_SIZE))"
proof -
  have "n + DEFAULT_PAGE_SIZE - 1 = DEFAULT_PAGE_SIZE + (n - 1)" "(n - 1) div DEFAULT_PAGE_SIZE \<noteq> 0"
    "n - DEFAULT_PAGE_SIZE + DEFAULT_PAGE_SIZE - 1 = n - 1"
    using assms by (simp_all add: DEFAULT_PAGE_SIZE_def div_eq_0_iff)
  then show ?thesis by (simp add: pages_of_def DEFAULT_PAGE_SIZE_def)
qed

lemma pages_of_one:
  assumes "n \<le> DEFAULT_PAGE_SIZE"
  shows "pages_of n = 1"
proof -
  have "(n + DEFAULT_PAGE_SIZE - 1) div DEFAULT_PAGE_SIZE < 2"
    by (rule less_mult_imp_div_less) (use assms in \<open>simp add: DEFAULT_PAGE_SIZE_def\<close>)
  then show ?thesis by (simp add: pages_of_def)
qed

definition base64_law :: "base64 \<Rightarrow> bool" where
  "base64_law b \<longleftrightarrow> (\<forall>s. b64_decode b (b64_encode b s) = Some s)"

lemma parse_show_nat:
  assumes "n < 2 ^ 64"
  shows "from_str_radix 64 10 (show_nat n) = Some n"
proof -
  have d: "list_all is_ascii_digit (show_nat n)" by (rule show_nat_all_digits)
  have "show_nat n \<noteq> []" by (subst show_nat.simps) simp
  moreover have "hd (show_nat n) \<noteq> CHR ''+''"
    using d \<open>show_nat n \<noteq> []\<close> by (cases "show_nat n") (auto simp: is_ascii_digit_def)
  ultimately show ?thesis
    using assms digits_value_decimal[OF d, of 0] by (simp add: from_str_radix_def show_nat_number)
qed

lemma cursor_read:
  "base64_law b \<Longrightarrow> n < 2 ^ 64 \<Longrightarrow> decode_offset b (Some (encode_cursor b n)) = Some n"
  by (simp add: decode_offset_def encode_cursor_def base64_law_def parse_show_nat)

lemma collect_from:
  assumes b: "base64_law b" and small: "length visible < 2 ^ 64"
    and "decode_offset b cursor = Some n"
  shows "collect_pages b visible fuel cursor =
    (if pages_of (length visible - n) \<le> fuel then Some (drop n visible, pages_of (length visible - n)) else None)"
  using assms(3)
proof (induction fuel arbitrary: n cursor)
  case 0
  then show ?case by (simp add: pages_of_def)
next
  case (Suc fuel)
  show ?case
  proof (cases "n + DEFAULT_PAGE_SIZE < length visible")
    case False
    then have "pages_of (length visible - n) = 1" by (simp add: pages_of_one)
    then show ?thesis using Suc.prems(1) False by (simp add: page_of_def paginate_def Let_def)
  next
    case True
    let ?m = "n + DEFAULT_PAGE_SIZE"
    have "page_of b visible cursor = (take DEFAULT_PAGE_SIZE (drop n visible), Some (encode_cursor b ?m))"
      using True Suc.prems(1) by (simp add: page_of_def paginate_def Let_def)
    moreover have "decode_offset b (Some (encode_cursor b ?m)) = Some ?m"
      using True small by (intro cursor_read[OF b]) simp
    moreover have "pages_of (length visible - n) = Suc (pages_of (length visible - ?m))"
      using True pages_of_step[of "length visible - n"] by (simp add: less_diff_conv)
    moreover have "take DEFAULT_PAGE_SIZE (drop n visible) @ drop ?m visible = drop n visible"
      by (metis append_take_drop_id drop_drop add.commute)
    ultimately show ?thesis using Suc.IH[of "Some (encode_cursor b ?m)" ?m] by simp
  qed
qed

text \<open>
  C12: A client that follows the cursors of a list until there is none sees every visible entry,
  once and in order, with exactly one request per started page (one for the empty list), for a
  lossless Base64 and lists shorter than \<open>2 ^ 64\<close>; with fewer requests it still holds a cursor.
\<close>

theorem pages_cover_list:
  assumes "base64_law b" "length visible < 2 ^ 64"
  shows "collect_pages b visible requests None =
    (if pages_of (length visible) \<le> requests then Some (visible, pages_of (length visible)) else None)"
  using collect_from[OF assms, of None 0 requests] by (simp add: decode_offset_def)

definition plain_base64 :: base64 where
  "plain_base64 = \<lparr>b64_encode = (\<lambda>s. s), b64_decode = Some\<rparr>"

theorem pages_cover_list_witness:
  "collect_pages plain_base64 [0..<200::nat] 7 None = Some ([0..<200], 2)"
  using pages_cover_list[of plain_base64 "[0..<200::nat]" 7]
  by (simp add: base64_law_def plain_base64_def pages_of_def DEFAULT_PAGE_SIZE_def del: upt_Suc upt_rec_numeral)

section \<open>Lists and calls\<close>

text \<open>
  A statically denied tool is neither shown nor callable, for an agent without a capability token;
  with a token only the patterns of the token count.
\<close>

lemma denied_tool_hidden:
  "lc_hide_denied lc \<Longrightarrow> tool_denied_by_rules lc (ai_permissions agent) name \<Longrightarrow>
     \<forall>t\<in>set (disclosed_tools lc agent tools). tf_name t \<noteq> name"
  by (auto simp: disclosed_tools_def Let_def)

lemma denied_tool_refused:
  assumes "tool_denied_by_rules lc (permission_set ctx) tool"
    and "lc_glob lc = gc_glob cfg" "lc_tool_permissions lc = gc_tool_permissions cfg"
  shows "tool_permitted cfg ck tool ctx st \<longleftrightarrow>
    (\<exists>caps. ai_capabilities (cc_agent (gx_call ctx)) = Some caps \<and>
       list_ex (\<lambda>pat. glob_accepts (gc_glob cfg) pat tool) (rc_tools caps))"
  using assms by (auto simp: tool_denied_by_rules_def tool_permitted_def split: option.splits)

text \<open>A template with two placeholders side by side ignores whatever follows the first.\<close>

lemma adjacent_placeholders_ignore_rest: "matches_uri_template ''doc://{a}{b}/meta'' ''doc://x''"
  by (simp add: matches_uri_template_def starts_with_def)

text \<open>The first occurrence of a separator is taken, even where only a later one leads to a match.\<close>

lemma separator_not_retried: "\<not> matches_uri_template ''doc://{name}.md'' ''doc://a.md.md''"
  by (simp add: matches_uri_template_def starts_with_def)

text \<open>Initialising again gives the client a clean label.\<close>

lemma initialize_clears_label:
  assumes "hm_wf m"
  shows "context_label (session_id_for agent) (fst (initialize cfg now fresh client_name client agent m)) = TRUSTED_PUBLIC"
proof -
  let ?s = "session_id_for agent"
  have none: "hm_get (hm_remove ?s m) ?s = None" using assms by simp
  have "hm_get (session_expire now t (hm_remove ?s m)) ?s = None" for t
    using none assms by (simp add: session_expire_def hm_get_retain)
  then show ?thesis using none
    by (simp add: initialize_def handle_initialize_def session_remove_def session_create_def context_label_def Let_def)
qed

end
