(* ===== verification/TextOps.thy ===== *)
theory TextOps
  imports Truncate ValueStore
begin

text \<open>
  String operations of Rust's standard library that the hooks, the agent loop and the retrieval
  code share: slices that panic inside a character, the last occurrence of a pattern and lines.
\<close>

section \<open>Slices\<close>

text \<open>\<open>&s[..i]\<close>, \<open>&s[i..]\<close> and \<open>&s[i..j]\<close>: \<open>None\<close> is the panic.\<close>

definition slice_to :: "string \<Rightarrow> nat \<Rightarrow> string option" where
  "slice_to s i = (if is_char_boundary s i then Some (take i s) else None)"

definition slice_from :: "string \<Rightarrow> nat \<Rightarrow> string option" where
  "slice_from s i = (if is_char_boundary s i then Some (drop i s) else None)"

definition slice_between :: "string \<Rightarrow> nat \<Rightarrow> nat \<Rightarrow> string option" where
  "slice_between s i j =
     (if i \<le> j \<and> is_char_boundary s i \<and> is_char_boundary s j then Some (take (j - i) (drop i s)) else None)"

text \<open>\<open>rfind\<close> of a pattern that is not empty.\<close>

fun rfind_from :: "string \<Rightarrow> string \<Rightarrow> nat \<Rightarrow> nat option" where
  "rfind_from s p 0 = (if starts_with s p then Some 0 else None)"
| "rfind_from s p (Suc i) = (if starts_with (drop (Suc i) s) p then Some (Suc i) else rfind_from s p i)"

definition rfind_str :: "string \<Rightarrow> string \<Rightarrow> nat option" where
  "rfind_str s p = rfind_from s p (length s)"

text \<open>\<open>str::lines\<close>: no line after a final newline, and a carriage return before one is dropped.\<close>

definition strip_cr :: "string \<Rightarrow> string" where
  "strip_cr s = (if s \<noteq> [] \<and> last s = CHR 0x0D then butlast s else s)"

definition str_lines :: "string \<Rightarrow> string list" where
  "str_lines s =
     (let parts = split_on CHR 0x0A s
      in map strip_cr (if last parts = [] then butlast parts else parts))"

definition newline :: string where "newline = [CHR 0x0A]"

section \<open>Facts\<close>

lemma rfind_from_Some: "rfind_from s p n = Some i \<Longrightarrow> i \<le> n \<and> starts_with (drop i s) p"
  by (induction s p n rule: rfind_from.induct) (auto split: if_splits)

lemma rfind_str_Some:
  assumes "rfind_str s p = Some i"
  shows "i + length p \<le> length s \<or> p = []" "take (length p) (drop i s) = p"
proof -
  have *: "i \<le> length s" "starts_with (drop i s) p"
    using rfind_from_Some assms by (auto simp: rfind_str_def)
  then show "take (length p) (drop i s) = p" by (simp add: starts_with_def)
  then have "length p \<le> length (drop i s)" by (metis length_take min.cobounded1)
  then show "i + length p \<le> length s \<or> p = []" using *(1) by auto
qed

lemma rfind_from_last: "rfind_from s p n = Some i \<Longrightarrow> i < j \<Longrightarrow> j \<le> n \<Longrightarrow> \<not> starts_with (drop j s) p"
  by (induction s p n rule: rfind_from.induct) (auto split: if_splits simp: le_Suc_eq)

lemma boundary_ends [simp]: "is_char_boundary s 0" "is_char_boundary s (length s)"
  by (simp_all add: is_char_boundary_def)

lemma boundary_le: "is_char_boundary s i \<Longrightarrow> i \<le> length s"
  by (auto simp: is_char_boundary_def)

lemma slice_to_Some: "slice_to s i = Some t \<longleftrightarrow> is_char_boundary s i \<and> t = take i s"
  by (auto simp: slice_to_def)

lemma slice_from_Some: "slice_from s i = Some t \<longleftrightarrow> is_char_boundary s i \<and> t = drop i s"
  by (auto simp: slice_from_def)

text \<open>After an ASCII byte a character starts, when the text is UTF-8.\<close>

definition is_ascii_byte :: "char \<Rightarrow> bool" where
  "is_ascii_byte c \<longleftrightarrow> byte_of c < 128"

lemma utf8_starts: "utf8 s \<Longrightarrow> s \<noteq> [] \<Longrightarrow> \<not> continuation (hd s)"
  by (cases rule: utf8.cases) (auto dest: trail_lead)

lemma boundary_after_ascii:
  assumes "utf8 s" "i < length s" "is_ascii_byte (s ! i)"
  shows "is_char_boundary s (Suc i)"
proof -
  have "is_char_boundary s i" using assms(2,3) by (auto simp: is_char_boundary_def continuation_def is_ascii_byte_def)
  then have "utf8 (s ! i # drop (Suc i) s)" using utf8_boundary_split[OF assms(1)] assms(2)
    by (simp add: Cons_nth_drop_Suc)
  then have "utf8 (drop (Suc i) s)"
    using assms(3) by (auto elim!: utf8_Cons simp: trail_def is_ascii_byte_def Let_def)
  then show ?thesis using assms(2) utf8_starts[of "drop (Suc i) s"]
    by (cases "Suc i = length s") (auto simp: is_char_boundary_def hd_drop_conv_nth)
qed

end
