(* ===== verification/ContextBudget.thy ===== *)
theory ContextBudget
  imports TextOps
begin

text \<open>
  The token budget of an agent's context, \<open>navra-cognitive/src/budget.rs\<close>: estimates, the split of
  the budget, truncation to a budget, compaction of turns and the policy that times it.  The
  products with 0.6, 0.8 and 3.5 are taken in \<open>f64\<close>, which is exact enough below
  \<open>2 ^ 32\<close> to give the integer quotients written here.
\<close>

section \<open>Estimates and budgets\<close>

definition u32_max :: nat where "u32_max = 2 ^ 32 - 1"

definition estimate_tokens :: "string \<Rightarrow> nat" where
  "estimate_tokens t = min ((2 * length t + 6) div 7) u32_max"

record context_budget =
  cb_total :: nat
  cb_system_prompt :: nat
  cb_output_reserve :: nat

definition budget_new :: "nat \<Rightarrow> context_budget" where
  "budget_new total_tokens =
     \<lparr>cb_total = total_tokens, cb_system_prompt = 0, cb_output_reserve = total_tokens div 5\<rparr>"

definition set_system_prompt :: "string \<Rightarrow> context_budget \<Rightarrow> context_budget" where
  "set_system_prompt prompt b = b\<lparr>cb_system_prompt := estimate_tokens prompt\<rparr>"

definition budget_available :: "context_budget \<Rightarrow> nat" where
  "budget_available b = cb_total b - cb_system_prompt b - cb_output_reserve b"

definition budget_split :: "context_budget \<Rightarrow> nat \<times> nat" where
  "budget_split b =
     (let avail = budget_available b; history = 3 * avail div 5 in (history, avail - history))"

definition needs_compaction :: "context_budget \<Rightarrow> nat \<Rightarrow> bool" where
  "needs_compaction b current \<longleftrightarrow> current > 4 * cb_total b div 5"

section \<open>Truncation\<close>

definition utf8_em_dash :: string where "utf8_em_dash = [CHR 0xE2, CHR 0x80, CHR 0x94]"

definition truncation_notice :: "nat \<Rightarrow> string" where
  "truncation_notice remaining =
     newline @ ''[truncated '' @ utf8_em_dash @ '' '' @ show_nat remaining @ '' more chars]''"

definition sentence_cut :: "string \<Rightarrow> nat option" where
  "sentence_cut slice =
     (case rfind_str slice ''. '' of
        Some p \<Rightarrow> Some p
      | None \<Rightarrow> (case rfind_str slice (''.'' @ newline) of Some p \<Rightarrow> Some p | None \<Rightarrow> rfind_str slice newline))"

text \<open>\<open>None\<close> is a slice inside a character.\<close>

definition truncate_to_budget :: "string \<Rightarrow> nat \<Rightarrow> string option" where
  "truncate_to_budget t max_tokens =
     (if estimate_tokens t \<le> max_tokens then Some t
      else
        (let target_chars = 7 * max_tokens div 2 in
         if target_chars < 50 then Some []
         else
           (let cut_at = target_chars - 40 in
            case slice_to t (min cut_at (length t)) of
              None \<Rightarrow> None
            | Some slice \<Rightarrow>
                (let cut_point = (case sentence_cut slice of Some p \<Rightarrow> p + 1 | None \<Rightarrow> cut_at) in
                 map_option (\<lambda>kept. kept @ truncation_notice (length t - cut_point)) (slice_to t cut_point)))))"

section \<open>Compaction\<close>

datatype compaction_strategy = KeepLastN nat | Summary | DiscardAll

definition summary_line :: "nat \<Rightarrow> string \<Rightarrow> string" where
  "summary_line i turn =
     (let first_line = (case str_lines turn of l # _ \<Rightarrow> l | [] \<Rightarrow> ''(empty)'');
          shortened = (if length first_line > 100 then truncate_str first_line 97 @ ''...'' else first_line)
      in ''  '' @ show_nat (i + 1) @ '': '' @ shortened)"

definition compact_history :: "string list \<Rightarrow> nat \<Rightarrow> string list" where
  "compact_history turns keep_recent =
     (if length turns \<le> keep_recent then turns
      else
        (let split = length turns - keep_recent
         in (''[Prior conversation summary ('' @ show_nat split @ '' turns)]'' @ newline @
             join_with newline (map (\<lambda>(i, t). summary_line i t) (enumerate 0 (take split turns))))
            # drop split turns))"

definition apply_compaction :: "string list \<Rightarrow> compaction_strategy \<Rightarrow> nat \<Rightarrow> string list" where
  "apply_compaction turns strategy keep_recent =
     (if turns = [] then []
      else
        (case strategy of
           KeepLastN n \<Rightarrow> drop (length turns - min n (length turns)) turns
         | Summary \<Rightarrow> compact_history turns keep_recent
         | DiscardAll \<Rightarrow> [last turns]))"

definition recommended_strategy :: "string \<Rightarrow> compaction_strategy" where
  "recommended_strategy family =
     (let f = to_lowercase family in
      if f = ''granite'' \<or> f = ''qwen'' then KeepLastN 5
      else if f = ''gemma'' then Summary
      else if f = ''claude'' \<or> f = ''gpt'' then KeepLastN 10
      else Summary)"

datatype flow_phase = NodeBoundary | ActiveDerivation | NodeCompleted | TrajectoryConvergence | Stuck

definition should_compact :: "bool \<Rightarrow> flow_phase \<Rightarrow> context_budget \<Rightarrow> nat \<Rightarrow> bool" where
  "should_compact enabled phase budget current \<longleftrightarrow>
     enabled \<and> needs_compaction budget current \<and>
     (phase = NodeCompleted \<or> phase = NodeBoundary \<or> phase = TrajectoryConvergence)"

section \<open>The budget is kept\<close>

lemma budget_split_sum: "fst (budget_split b) + snd (budget_split b) = budget_available b"
  by (simp add: budget_split_def Let_def)

lemma sentence_cut_Some:
  assumes "sentence_cut s = Some p"
  shows "p < length s" "is_ascii_byte (s ! p)"
proof -
  have *: "q < length s \<and> s ! q = c" if r: "rfind_str s (c # cs) = Some q" for c cs q
  proof -
    have "q + length (c # cs) \<le> length s" "take (length (c # cs)) (drop q s) = c # cs"
      using rfind_str_Some[OF r] by simp_all
    moreover have "drop q s = s ! q # drop (Suc q) s" using calculation(1) by (simp add: Cons_nth_drop_Suc)
    ultimately show ?thesis by simp
  qed
  have "rfind_str s (CHR ''.'' # '' '') = Some p \<or> rfind_str s (CHR ''.'' # newline) = Some p \<or>
      rfind_str s (CHR 0x0A # []) = Some p"
    using assms by (auto simp: sentence_cut_def newline_def split: option.splits)
  then have "p < length s \<and> (s ! p = CHR ''.'' \<or> s ! p = CHR 0x0A)" using * by blast
  then show "p < length s" "is_ascii_byte (s ! p)" by (auto simp: is_ascii_byte_def byte_of_def)
qed

lemma show_nat_length: "n < 10 ^ k \<Longrightarrow> 0 < k \<Longrightarrow> length (show_nat n) \<le> k"
proof (induction k arbitrary: n)
  case (Suc k)
  show ?case
  proof (cases "n < 10")
    case True
    then show ?thesis by (subst show_nat.simps) simp
  next
    case False
    then have "0 < k" using Suc.prems by (cases k) auto
    then have "length (show_nat (n div 10)) \<le> k" using Suc by (simp add: less_mult_imp_div_less mult.commute)
    then show ?thesis using False by (subst show_nat.simps) simp
  qed
qed simp

text \<open>
  What is left of a text is a prefix of it with the notice, within the budget as it is
  estimated, for texts below \<open>10 ^ 12\<close> bytes.
\<close>

theorem truncation_within_budget:
  assumes "truncate_to_budget t m = Some t'" "length t < 10 ^ 12"
  shows "estimate_tokens t' \<le> m \<and> (t' = t \<or> t' = [] \<or> (\<exists>i. t' = take i t @ truncation_notice (length t - i)))"
proof (cases "estimate_tokens t \<le> m \<or> 7 * m div 2 < 50")
  case True
  then show ?thesis using assms by (auto simp: truncate_to_budget_def estimate_tokens_def split: if_splits)
next
  case False
  let ?cut = "7 * m div 2 - 40"
  obtain slice where s: "slice = take (min ?cut (length t)) t"
      "map_option (\<lambda>kept. kept @ truncation_notice (length t - (case sentence_cut slice of Some p \<Rightarrow> p + 1 | None \<Rightarrow> ?cut)))
        (slice_to t (case sentence_cut slice of Some p \<Rightarrow> p + 1 | None \<Rightarrow> ?cut)) = Some t'"
    using assms(1) False by (simp add: truncate_to_budget_def Let_def slice_to_Some split: option.splits)
  define i where "i = (case sentence_cut slice of Some p \<Rightarrow> p + 1 | None \<Rightarrow> ?cut)"
  have t': "t' = take i t @ truncation_notice (length t - i)"
    using s(2) unfolding i_def[symmetric] by (auto simp: slice_to_Some)
  have "length slice \<le> ?cut" by (simp add: s(1))
  then have "i \<le> ?cut" using sentence_cut_Some(1)[of slice]
    by (cases "sentence_cut slice") (fastforce simp: i_def)+
  moreover have "length (show_nat (length t - i)) \<le> 12" by (rule show_nat_length) (use assms(2) in auto)
  moreover have "length (truncation_notice (length t - i)) = 28 + length (show_nat (length t - i))"
    by (simp add: truncation_notice_def newline_def utf8_em_dash_def)
  moreover have "length t' \<le> i + length (truncation_notice (length t - i))" by (simp add: t')
  moreover have "50 \<le> 7 * m div 2" using False by simp
  ultimately have "length t' \<le> 7 * m div 2" by linarith
  then have "estimate_tokens t' \<le> m" by (auto simp: estimate_tokens_def)
  then show ?thesis using t' by blast
qed

lemma truncate_panics_iff:
  assumes "utf8 t"
  shows "truncate_to_budget t m = None \<longleftrightarrow> estimate_tokens t > m \<and> 50 \<le> 7 * m div 2 \<and>
    \<not> is_char_boundary t (min (7 * m div 2 - 40) (length t))"
proof -
  have "is_char_boundary t (p + 1)" if "sentence_cut (take k t) = Some p" for p k
    using boundary_after_ascii[OF assms, of p] sentence_cut_Some[OF that] by simp
  moreover have "7 * m div 2 - 40 \<le> length t" if "\<not> estimate_tokens t \<le> m"
    using that by (auto simp: estimate_tokens_def)
  ultimately show ?thesis
    by (auto simp: truncate_to_budget_def Let_def slice_to_def min_def split: option.splits if_splits)
qed

text \<open>A text of two-byte characters makes the truncation panic.\<close>

definition e_acute :: string where "e_acute = [CHR 0xC3, CHR 0xA9]"

lemma truncation_panics: "truncate_to_budget (CHR ''a'' # concat (replicate 40 e_acute)) 16 = None"
proof -
  let ?t = "CHR ''a'' # concat (replicate 40 e_acute)"
  have len: "length ?t = 81" by (simp add: length_concat sum_list_replicate e_acute_def)
  have "?t ! 16 = CHR 0xA9" by code_simp
  then have "continuation (?t ! 16)" by (simp add: continuation_def byte_of_def)
  then have "\<not> is_char_boundary ?t 16" using len by (simp add: is_char_boundary_def del: length_Cons)
  then show ?thesis using len
    by (simp add: truncate_to_budget_def estimate_tokens_def u32_max_def slice_to_def del: length_Cons concat.simps)
qed

end
