(* ===== verification/AgentItems.thy ===== *)
theory AgentItems
  imports ContextBudget ToolTypes
begin

text \<open>
  The conversation of an agent: the items of \<open>navra-responses/src/item.rs\<close> and \<open>content.rs\<close>, and the
  helpers of \<open>navra-agent/src/tool_loop/config.rs\<close> that estimate, compact, compress and repair them.
  \<open>f32\<close> arithmetic is a record of operations.
\<close>

section \<open>Floats\<close>

record 'f float_ops =
  fo_of_nat :: "nat \<Rightarrow> 'f"
  fo_ratio :: "nat \<Rightarrow> nat \<Rightarrow> 'f"
  fo_add :: "'f \<Rightarrow> 'f \<Rightarrow> 'f"
  fo_sub :: "'f \<Rightarrow> 'f \<Rightarrow> 'f"
  fo_mul :: "'f \<Rightarrow> 'f \<Rightarrow> 'f"
  fo_div :: "'f \<Rightarrow> 'f \<Rightarrow> 'f"
  fo_sqrt :: "'f \<Rightarrow> 'f"
  fo_max :: "'f \<Rightarrow> 'f \<Rightarrow> 'f"
  fo_less :: "'f \<Rightarrow> 'f \<Rightarrow> bool"
  fo_ge :: "'f \<Rightarrow> 'f \<Rightarrow> bool"
  fo_eq :: "'f \<Rightarrow> 'f \<Rightarrow> bool"
  fo_to_u32 :: "'f \<Rightarrow> nat"

definition fo_zero :: "'f float_ops \<Rightarrow> 'f" where "fo_zero fo = fo_of_nat fo 0"
definition fo_one :: "'f float_ops \<Rightarrow> 'f" where "fo_one fo = fo_of_nat fo 1"

definition dot_product :: "'f float_ops \<Rightarrow> 'f list \<Rightarrow> 'f list \<Rightarrow> 'f" where
  "dot_product fo a b = fold (\<lambda>(x, y) acc. fo_add fo acc (fo_mul fo x y)) (zip a b) (fo_zero fo)"

text \<open>The norms are taken over the common length.\<close>

definition cosine_similarity :: "'f float_ops \<Rightarrow> 'f list \<Rightarrow> 'f list \<Rightarrow> 'f" where
  "cosine_similarity fo a b =
     (let n = min (length a) (length b);
          denom = fo_mul fo (fo_sqrt fo (dot_product fo (take n a) (take n a)))
                            (fo_sqrt fo (dot_product fo (take n b) (take n b)))
      in if fo_eq fo denom (fo_zero fo) then fo_zero fo else fo_div fo (dot_product fo a b) denom)"

text \<open>A stable sort by falling score; scores that do not compare are equal.\<close>

fun insert_scored :: "'f float_ops \<Rightarrow> nat \<times> 'f \<times> string \<Rightarrow> (nat \<times> 'f \<times> string) list \<Rightarrow> (nat \<times> 'f \<times> string) list" where
  "insert_scored fo x [] = [x]"
| "insert_scored fo x (y # ys) =
     (if fo_less fo (fst (snd x)) (fst (snd y)) then y # insert_scored fo x ys else x # y # ys)"

definition sort_scored :: "'f float_ops \<Rightarrow> (nat \<times> 'f \<times> string) list \<Rightarrow> (nat \<times> 'f \<times> string) list" where
  "sort_scored fo xs = foldr (insert_scored fo) xs []"

section \<open>Items\<close>

datatype item_status = ItemInProgress | ItemCompleted | ItemIncomplete

datatype message_role = UserRole | AssistantRole | SystemRole | DeveloperRole

datatype input_part = InputTextPart string | OtherInputPart json

datatype output_part = OutputTextPart string | RefusalPart string

datatype message_content = PlainText string | InputParts "input_part list" | OutputParts "output_part list"

record message_item =
  mi_id :: "string option"
  mi_role :: message_role
  mi_content :: message_content
  mi_status :: "item_status option"

record function_call =
  fn_id :: "string option"
  fn_call_id :: string
  fn_name :: string
  fn_arguments :: string
  fn_status :: "item_status option"

datatype call_output = OutputOfText string | OutputOfParts "input_part list"

record function_output =
  ro_id :: "string option"
  ro_call_id :: string
  ro_output :: call_output
  ro_status :: "item_status option"

datatype input_item =
    InMessage message_item
  | InCall function_call
  | InOutput function_output
  | InReasoning json
  | InReference string

datatype output_item = OutMessage message_item | OutCall function_call | OutReasoning json

definition text_message :: "message_role \<Rightarrow> string \<Rightarrow> input_item" where
  "text_message role t = InMessage \<lparr>mi_id = None, mi_role = role, mi_content = PlainText t, mi_status = None\<rparr>"

definition user_item :: "string \<Rightarrow> input_item" where "user_item t = text_message UserRole t"
definition system_item :: "string \<Rightarrow> input_item" where "system_item t = text_message SystemRole t"

fun output_part_text :: "output_part \<Rightarrow> string" where
  "output_part_text (OutputTextPart t) = t"
| "output_part_text (RefusalPart r) = r"

fun content_text :: "message_content \<Rightarrow> string" where
  "content_text (PlainText s) = s"
| "content_text (InputParts ps) = concat (map (\<lambda>p. case p of InputTextPart t \<Rightarrow> t | _ \<Rightarrow> []) ps)"
| "content_text (OutputParts ps) = concat (map output_part_text ps)"

fun output_item_text :: "output_item \<Rightarrow> string option" where
  "output_item_text (OutMessage m) = Some (content_text (mi_content m))"
| "output_item_text _ = None"

record token_usage =
  us_input :: nat
  us_output :: nat

record model_response =
  mr_output :: "output_item list"
  mr_usage :: "token_usage option"

definition response_text :: "model_response \<Rightarrow> string option" where
  "response_text r = (case List.map_filter output_item_text (mr_output r) of t # _ \<Rightarrow> Some t | [] \<Rightarrow> None)"

definition response_calls :: "model_response \<Rightarrow> function_call list" where
  "response_calls r = List.map_filter (\<lambda>i. case i of OutCall c \<Rightarrow> Some c | _ \<Rightarrow> None) (mr_output r)"

text \<open>The call and the answer as they are replayed to the model.\<close>

definition replay_call :: "function_call \<Rightarrow> input_item" where
  "replay_call c = InCall (c\<lparr>fn_status := Some ItemCompleted\<rparr>)"

definition answer_call :: "function_call \<Rightarrow> string \<Rightarrow> input_item" where
  "answer_call c t =
     InOutput \<lparr>ro_id = None, ro_call_id = fn_call_id c, ro_output = OutputOfText t, ro_status = Some ItemCompleted\<rparr>"

section \<open>Estimate and compaction\<close>

fun item_tokens :: "input_item \<Rightarrow> nat" where
  "item_tokens (InOutput out) = (case ro_output out of OutputOfText t \<Rightarrow> estimate_tokens t | _ \<Rightarrow> 50)"
| "item_tokens (InCall c) = wrap_u32 (estimate_tokens (fn_arguments c) + 20)"
| "item_tokens (InMessage m) = (case mi_content m of PlainText t \<Rightarrow> estimate_tokens t | _ \<Rightarrow> 50)"
| "item_tokens _ = 50"

definition estimate_input_tokens :: "input_item list \<Rightarrow> nat" where
  "estimate_input_tokens items = fold (\<lambda>i n. wrap_u32 (n + item_tokens i)) items 0"

definition output_ids :: "input_item list \<Rightarrow> string list" where
  "output_ids items = List.map_filter (\<lambda>i. case i of InOutput out \<Rightarrow> Some (ro_call_id out) | _ \<Rightarrow> None) items"

definition call_ids :: "input_item list \<Rightarrow> string list" where
  "call_ids items = List.map_filter (\<lambda>i. case i of InCall c \<Rightarrow> Some (fn_call_id c) | _ \<Rightarrow> None) items"

fun survives :: "string set \<Rightarrow> input_item \<Rightarrow> bool" where
  "survives drops (InCall c) \<longleftrightarrow> fn_call_id c \<notin> drops"
| "survives drops (InOutput out) \<longleftrightarrow> ro_call_id out \<notin> drops"
| "survives drops _ \<longleftrightarrow> True"

definition compact_conversation :: "nat \<Rightarrow> input_item list \<Rightarrow> input_item list" where
  "compact_conversation keep_recent items =
     (if length items \<le> keep_recent + 2 then items
      else
        (let compact_end = length items - keep_recent;
             drops = set (output_ids (drop 1 (take compact_end items)))
         in if drops = {} then items
            else filter (survives drops) (take compact_end items) @ drop compact_end items))"

section \<open>Reasoning and refusals\<close>

definition truncate_reasoning :: "string \<Rightarrow> nat \<Rightarrow> string" where
  "truncate_reasoning t max_tokens =
     (if length t \<le> max_tokens * 4 then t
      else
        (let truncated = truncate_str t (max_tokens * 4);
             e = (case rfind_str truncated '' '' of Some i \<Rightarrow> i | None \<Rightarrow> length truncated)
         in take e t @ newline @ newline @ ''[reasoning truncated at '' @ show_nat max_tokens @ '' tokens '' @
            utf8_em_dash @ '' continue with action]''))"

definition apostrophe :: string where "apostrophe = [CHR 0x27]"

definition REFUSAL_PATTERNS :: "string list" where
  "REFUSAL_PATTERNS =
     [''i cannot'', ''i can'' @ apostrophe @ ''t'', ''i'' @ apostrophe @ ''m unable to'', ''i am unable to'',
      ''i'' @ apostrophe @ ''m not able to'', ''as an ai'', ''i must decline'', ''i cannot assist with'']"

definition detect_model_refusal :: "model_response \<Rightarrow> bool" where
  "detect_model_refusal r =
     (case response_text r of
        None \<Rightarrow> False
      | Some t \<Rightarrow> t \<noteq> [] \<and> length t < 500 \<and> has_any (to_lowercase t) REFUSAL_PATTERNS)"

definition extract_text :: "call_tool_result \<Rightarrow> string" where
  "extract_text r = (if is_err r then ''Error: '' else []) @ concat (List.map_filter as_text (cr_content r))"

section \<open>Repair of arguments\<close>

text \<open>The two regular expressions are functions; \<open>None\<close> is a slice inside a character.\<close>

record json_repair =
  jp_parse :: "string \<Rightarrow> json option"
  jp_trailing_commas :: "string \<Rightarrow> string"
  jp_unquoted_keys :: "string \<Rightarrow> string"

fun unfence :: "bool \<Rightarrow> string list \<Rightarrow> string list" where
  "unfence in_fence [] = []"
| "unfence in_fence (l # ls) =
     (if starts_with (trim_ws l) ''```'' then unfence (\<not> in_fence) ls
      else if in_fence \<or> trim_ws l \<noteq> [] then l # unfence in_fence ls
      else unfence in_fence ls)"

definition count_char :: "char \<Rightarrow> string \<Rightarrow> nat" where
  "count_char c s = length (filter ((=) c) s)"

definition close_brackets :: "string \<Rightarrow> string" where
  "close_brackets t =
     t @ replicate (count_char (CHR ''['') t - count_char (CHR '']'') t) (CHR '']'')
       @ replicate (count_char (CHR ''{'') t - count_char (CHR ''}'') t) (CHR ''}'')"

definition repair_json :: "json_repair \<Rightarrow> string \<Rightarrow> (string + json) option" where
  "repair_json jp input =
     (case jp_parse jp input of
        Some v \<Rightarrow> Some (Inr v)
      | None \<Rightarrow>
          (let fenced = contains input ''```'';
               t1 = (if fenced then join_with newline (unfence False (str_lines input)) else input)
           in case (if fenced then jp_parse jp t1 else None) of
                Some v \<Rightarrow> Some (Inr v)
              | None \<Rightarrow>
                  (let t2 = jp_trailing_commas jp t1 in
                   case jp_parse jp t2 of
                     Some v \<Rightarrow> Some (Inr v)
                   | None \<Rightarrow>
                       (let t3 = jp_unquoted_keys jp t2 in
                        case jp_parse jp t3 of
                          Some v \<Rightarrow> Some (Inr v)
                        | None \<Rightarrow>
                            (case jp_parse jp (close_brackets t3) of
                               Some v \<Rightarrow> Some (Inr v)
                             | None \<Rightarrow>
                                 map_option (\<lambda>p. Inl (''Could not parse or repair JSON: '' @ p))
                                   (slice_to input (min (length input) 200)))))))"

section \<open>Compression of tool output\<close>

fun split_blank_lines :: "string \<Rightarrow> string list" where
  "split_blank_lines [] = [[]]"
| "split_blank_lines [c] = [[c]]"
| "split_blank_lines (a # b # cs) =
     (if a = CHR 0x0A \<and> b = CHR 0x0A then [] # split_blank_lines cs
      else (case split_blank_lines (b # cs) of p # ps \<Rightarrow> (a # p) # ps | [] \<Rightarrow> [[a]]))"

text \<open>Start and end of every line, without the line break.\<close>

fun line_spans :: "nat \<Rightarrow> string list \<Rightarrow> (nat \<times> nat) list" where
  "line_spans pos [] = []"
| "line_spans pos (p # ps) = (pos, pos + length (strip_cr p)) # line_spans (pos + length p + 1) ps"

definition lines_with_spans :: "string \<Rightarrow> (nat \<times> nat) list" where
  "lines_with_spans s =
     (let parts = split_on CHR 0x0A s in line_spans 0 (if last parts = [] then butlast parts else parts))"

definition split_paragraphs :: "string \<Rightarrow> string list" where
  "split_paragraphs t =
     (let paragraphs = filter (\<lambda>p. p \<noteq> []) (map trim_ws (split_blank_lines t)) in
      if length paragraphs \<ge> 3 then paragraphs
      else
        (let spans = lines_with_spans t; n = length spans in
         if n \<le> 10 then [t]
         else map (\<lambda>k. let a = fst (spans ! (10 * k)); b = snd (spans ! min (10 * k + 9) (n - 1))
                        in take (b - a) (drop a t)) [0..<(n + 9) div 10]))"

definition effective_token_limit :: "'f float_ops \<Rightarrow> nat \<Rightarrow> 'f \<Rightarrow> 'f \<Rightarrow> nat" where
  "effective_token_limit fo max_tokens fill start =
     (if fo_less fo fill start then max_tokens
      else
        (let pressure = fo_div fo (fo_sub fo fill start) (fo_sub fo (fo_one fo) start);
             scale = fo_sub fo (fo_one fo) (fo_mul fo pressure (fo_ratio fo 3 4))
         in fo_to_u32 fo (fo_max fo (fo_mul fo (fo_of_nat fo max_tokens) scale) (fo_of_nat fo 256))))"

fun select_paragraphs :: "nat \<Rightarrow> nat \<Rightarrow> (nat \<times> 'f \<times> string) list \<Rightarrow> (nat \<times> string) list" where
  "select_paragraphs max_tokens tokens_so_far [] = []"
| "select_paragraphs max_tokens tokens_so_far ((i, score, para) # rest) =
     (if wrap_u32 (wrap_u32 (tokens_so_far + estimate_tokens para) + 20) > max_tokens
      then select_paragraphs max_tokens tokens_so_far rest
      else (i, para) # select_paragraphs max_tokens (wrap_u32 (tokens_so_far + estimate_tokens para)) rest)"

definition join_selected :: "(nat \<times> string) list \<Rightarrow> nat \<Rightarrow> string" where
  "join_selected selected paragraph_count =
     join_with (newline @ newline) (map snd (sort_key fst selected)) @ newline @ newline @ ''[extracted '' @
     show_nat (length selected) @ ''/'' @ show_nat paragraph_count @ '' paragraphs by relevance]''"

end
