(* ===== verification/AgentActions.thy ===== *)
theory AgentActions
  imports TextOps
begin

text \<open>
  What an agent's tool loop keeps of its calls: the typed actions of \<open>navra-agent/src/action.rs\<close>,
  the execution blocks of \<open>block.rs\<close>, the signals of \<open>signal.rs\<close> and the token quotas of \<open>quota.rs\<close>.
\<close>

section \<open>Actions\<close>

datatype agent_action =
    FileRead string
  | FileWrite string
  | FileEdit string
  | FileDelete string
  | FileSearch string
  | GitStatus string
  | GitDiff string
  | GitCommit string string
  | RagSearch string
  | MemoryStore string
  | MemoryQuery string
  | TeamCreate string
  | TeamMessage string string
  | FlowStart string
  | McpToolCall string
  | UnknownAction string

datatype risk_level = NoRisk | LowRisk | MediumRisk | HighRisk | CriticalRisk

definition str_field :: "json \<Rightarrow> string \<Rightarrow> string" where
  "str_field args key = (case Option.bind (json_get args key) json_str of Some s \<Rightarrow> s | None \<Rightarrow> [])"

definition known_prefix :: "string \<Rightarrow> bool" where
  "known_prefix tool \<longleftrightarrow>
     list_ex (starts_with tool) [''file_'', ''git_'', ''rag_'', ''memory_'', ''team_'', ''flow_'']"

definition classify_action :: "string \<Rightarrow> json \<Rightarrow> agent_action" where
  "classify_action tool args =
     (if tool = ''file_read'' then FileRead (str_field args ''path'')
      else if tool = ''file_write'' then FileWrite (str_field args ''path'')
      else if tool = ''file_edit'' then FileEdit (str_field args ''path'')
      else if tool = ''file_delete'' then FileDelete (str_field args ''path'')
      else if tool = ''file_search'' \<or> tool = ''file_find'' then FileSearch (str_field args ''query'')
      else if tool = ''git_status'' then GitStatus (str_field args ''repo'')
      else if tool = ''git_diff'' then GitDiff (str_field args ''repo'')
      else if tool = ''git_commit'' then GitCommit (str_field args ''repo'') (str_field args ''message'')
      else if tool = ''rag_search'' \<or> tool = ''rag_query'' then RagSearch (str_field args ''query'')
      else if tool = ''memory_store'' then MemoryStore (str_field args ''kind'')
      else if tool = ''memory_query'' \<or> tool = ''memory_search'' then MemoryQuery (str_field args ''query'')
      else if tool = ''team_create'' then TeamCreate (str_field args ''name'')
      else if tool = ''team_message'' \<or> tool = ''team_send''
        then TeamMessage (str_field args ''team'') (str_field args ''target'')
      else if tool = ''flow_start'' \<or> tool = ''flow_run'' then FlowStart (str_field args ''flow'')
      else if known_prefix tool then McpToolCall tool
      else UnknownAction tool)"

fun is_read_only :: "agent_action \<Rightarrow> bool" where
  "is_read_only (FileRead _) = True"
| "is_read_only (FileSearch _) = True"
| "is_read_only (GitStatus _) = True"
| "is_read_only (GitDiff _) = True"
| "is_read_only (RagSearch _) = True"
| "is_read_only (MemoryQuery _) = True"
| "is_read_only _ = False"

fun risk_of :: "agent_action \<Rightarrow> risk_level" where
  "risk_of (FileRead _) = NoRisk"
| "risk_of (GitStatus _) = NoRisk"
| "risk_of (GitDiff _) = NoRisk"
| "risk_of (FileSearch _) = LowRisk"
| "risk_of (RagSearch _) = LowRisk"
| "risk_of (MemoryQuery _) = LowRisk"
| "risk_of (FileWrite _) = MediumRisk"
| "risk_of (FileEdit _) = MediumRisk"
| "risk_of (MemoryStore _) = MediumRisk"
| "risk_of (FileDelete _) = HighRisk"
| "risk_of (GitCommit _ _) = HighRisk"
| "risk_of (TeamCreate _) = CriticalRisk"
| "risk_of (TeamMessage _ _) = CriticalRisk"
| "risk_of (FlowStart _) = CriticalRisk"
| "risk_of (McpToolCall _) = MediumRisk"
| "risk_of (UnknownAction _) = MediumRisk"

fun user_friendly_name :: "agent_action \<Rightarrow> string" where
  "user_friendly_name (FileRead path) = ''Read file: '' @ path"
| "user_friendly_name (FileWrite path) = ''Write file: '' @ path"
| "user_friendly_name (FileEdit path) = ''Edit file: '' @ path"
| "user_friendly_name (FileDelete path) = ''Delete file: '' @ path"
| "user_friendly_name (FileSearch query) = ''Search files: '' @ query"
| "user_friendly_name (GitStatus repo) = ''Git status: '' @ repo"
| "user_friendly_name (GitDiff repo) = ''Git diff: '' @ repo"
| "user_friendly_name (GitCommit repo message) = ''Git commit in '' @ repo @ '': '' @ message"
| "user_friendly_name (RagSearch query) = ''RAG search: '' @ query"
| "user_friendly_name (MemoryStore kind) = ''Store memory: '' @ kind"
| "user_friendly_name (MemoryQuery query) = ''Query memory: '' @ query"
| "user_friendly_name (TeamCreate name) = ''Create team: '' @ name"
| "user_friendly_name (TeamMessage team target) = ''Message '' @ target @ '' in '' @ team"
| "user_friendly_name (FlowStart flow) = ''Start flow: '' @ flow"
| "user_friendly_name (McpToolCall tool) = ''MCP tool: '' @ tool"
| "user_friendly_name (UnknownAction tool) = ''Unknown tool: '' @ tool"

fun tool_call_parts :: "agent_action \<Rightarrow> (string \<times> json) option" where
  "tool_call_parts (FileRead path) = Some (''file_read'', JObject [(''path'', JString path)])"
| "tool_call_parts (FileWrite path) = Some (''file_write'', JObject [(''path'', JString path)])"
| "tool_call_parts (FileEdit path) = Some (''file_edit'', JObject [(''path'', JString path)])"
| "tool_call_parts (FileDelete path) = Some (''file_delete'', JObject [(''path'', JString path)])"
| "tool_call_parts (FileSearch query) = Some (''file_search'', JObject [(''query'', JString query)])"
| "tool_call_parts (GitStatus repo) = Some (''git_status'', JObject [(''repo'', JString repo)])"
| "tool_call_parts (GitDiff repo) = Some (''git_diff'', JObject [(''repo'', JString repo)])"
| "tool_call_parts (GitCommit repo message) =
     Some (''git_commit'', JObject [(''message'', JString message), (''repo'', JString repo)])"
| "tool_call_parts (RagSearch query) = Some (''rag_search'', JObject [(''query'', JString query)])"
| "tool_call_parts (MemoryStore kind) = Some (''memory_store'', JObject [(''kind'', JString kind)])"
| "tool_call_parts (MemoryQuery query) = Some (''memory_query'', JObject [(''query'', JString query)])"
| "tool_call_parts (McpToolCall tool) = Some (tool, JObject [])"
| "tool_call_parts (UnknownAction tool) = Some (tool, JObject [])"
| "tool_call_parts _ = None"

record action_record =
  ar_action :: agent_action
  ar_success :: bool
  ar_duration_ms :: nat
  ar_output_preview :: string

section \<open>Blocks\<close>

datatype block_status = BlockPending | BlockRunning | BlockCompleted | BlockFailed | BlockCancelled

record tool_block =
  tb_id :: string
  tb_tool :: string
  tb_arguments :: json
  tb_status :: block_status
  tb_started_at :: instant
  tb_duration_ms :: "nat option"
  tb_preview :: "string option"
  tb_is_error :: bool

definition block_new :: "string \<Rightarrow> instant \<Rightarrow> string \<Rightarrow> json \<Rightarrow> tool_block" where
  "block_new fresh now tool args =
     \<lparr>tb_id = fresh, tb_tool = tool, tb_arguments = args, tb_status = BlockRunning, tb_started_at = now,
      tb_duration_ms = None, tb_preview = None, tb_is_error = False\<rparr>"

definition as_millis :: "nat \<Rightarrow> nat" where
  "as_millis d = d div 10 ^ 6"

definition utf8_ellipsis :: string where "utf8_ellipsis = [CHR 0xE2, CHR 0x80, CHR 0xA6]"

text \<open>\<open>None\<close> is a cut inside a character.\<close>

definition block_truncate :: "string \<Rightarrow> nat \<Rightarrow> string option" where
  "block_truncate s max_len =
     (if length s \<le> max_len then Some s else map_option (\<lambda>t. t @ utf8_ellipsis) (slice_to s max_len))"

definition block_complete :: "instant \<Rightarrow> string \<Rightarrow> bool \<Rightarrow> tool_block \<Rightarrow> tool_block option" where
  "block_complete now result is_error b =
     map_option (\<lambda>preview. b\<lparr>tb_duration_ms := Some (wrap_u64 (as_millis (now - tb_started_at b))),
         tb_is_error := is_error, tb_status := (if is_error then BlockFailed else BlockCompleted),
         tb_preview := Some preview\<rparr>)
       (block_truncate result 200)"

definition block_cancel :: "instant \<Rightarrow> tool_block \<Rightarrow> tool_block" where
  "block_cancel now b =
     b\<lparr>tb_duration_ms := Some (wrap_u64 (as_millis (now - tb_started_at b))), tb_status := BlockCancelled\<rparr>"

section \<open>Signals\<close>

datatype agent_signal = NoSignal | Interrupt | Terminate | Pause | Resume

section \<open>Token quotas\<close>

record token_quota =
  tq_max_tokens :: nat
  tq_window_secs :: nat

record agent_usage =
  au_tokens_used :: nat
  au_window_start :: instant

record quota_tracker =
  qt_quotas :: "(string, token_quota) hmap"
  qt_usage :: "(string, agent_usage) hmap"

datatype quota_status = WithinBudget | Exceeded nat

definition tracker_new :: quota_tracker where
  "tracker_new = \<lparr>qt_quotas = [], qt_usage = []\<rparr>"

definition set_quota :: "string \<Rightarrow> token_quota \<Rightarrow> quota_tracker \<Rightarrow> quota_tracker" where
  "set_quota agent q t = t\<lparr>qt_quotas := hm_insert agent q (qt_quotas t)\<rparr>"

definition record_usage :: "instant \<Rightarrow> string \<Rightarrow> nat \<Rightarrow> quota_tracker \<Rightarrow> quota_tracker" where
  "record_usage now agent tokens t =
     (let entry = (case hm_get (qt_usage t) agent of
                     Some u \<Rightarrow> u | None \<Rightarrow> \<lparr>au_tokens_used = 0, au_window_start = now\<rparr>);
          window = (case hm_get (qt_quotas t) agent of Some q \<Rightarrow> tq_window_secs q | None \<Rightarrow> 300);
          fresh = (if as_secs (now - au_window_start entry) > window
                   then \<lparr>au_tokens_used = 0, au_window_start = now\<rparr> else entry)
      in t\<lparr>qt_usage := hm_insert agent
             (fresh\<lparr>au_tokens_used := wrap_u64 (au_tokens_used fresh + tokens)\<rparr>) (qt_usage t)\<rparr>)"

definition tracker_check :: "instant \<Rightarrow> string \<Rightarrow> quota_tracker \<Rightarrow> quota_status" where
  "tracker_check now agent t =
     (case (hm_get (qt_quotas t) agent, hm_get (qt_usage t) agent) of
        (Some q, Some u) \<Rightarrow>
          if as_secs (now - au_window_start u) > tq_window_secs q then WithinBudget
          else if au_tokens_used u > tq_max_tokens q then Exceeded (au_tokens_used u - tq_max_tokens q)
          else WithinBudget
      | _ \<Rightarrow> WithinBudget)"

definition tracker_usage :: "string \<Rightarrow> quota_tracker \<Rightarrow> nat" where
  "tracker_usage agent t = (case hm_get (qt_usage t) agent of Some u \<Rightarrow> au_tokens_used u | None \<Rightarrow> 0)"

section \<open>Facts\<close>

lemma read_only_iff_low_risk: "is_read_only a \<longleftrightarrow> risk_of a = NoRisk \<or> risk_of a = LowRisk"
  by (cases a) simp_all

lemma block_complete_panics: "block_complete now result e b = None \<longleftrightarrow> block_truncate result 200 = None"
  by (simp add: block_complete_def)

text \<open>Recording within the window adds up; the status tells by how much the quota is exceeded.\<close>

lemma usage_adds:
  assumes "hm_get (qt_quotas t) agent = Some q" "hm_get (qt_usage t) agent = Some u"
    "as_secs (now - au_window_start u) \<le> tq_window_secs q" "au_tokens_used u + tokens < 2 ^ 64"
  shows "tracker_usage agent (record_usage now agent tokens t) = tracker_usage agent t + tokens \<and>
    tracker_check now agent (record_usage now agent tokens t) =
      (if au_tokens_used u + tokens > tq_max_tokens q then Exceeded (au_tokens_used u + tokens - tq_max_tokens q)
       else WithinBudget)"
proof -
  have "wrap_u64 (au_tokens_used u + tokens) = au_tokens_used u + tokens" using assms(4) by (simp add: wrap_u64_def)
  then show ?thesis using assms by (simp add: tracker_usage_def record_usage_def tracker_check_def Let_def)
qed

end
