(* ===== verification/AgentLoop.thy ===== *)
theory AgentLoop
  imports AgentItems AgentActions Hooks Safety
begin

text \<open>
  The tool-use loop of an agent, \<open>run_tool_loop\<close> of \<open>navra-agent/src/tool_loop/mod.rs\<close> with its
  configuration in \<open>config.rs\<close>.  The model, the tools, the retriever, the embedding model, the
  signals, the clock and the audit sink are functions of a world state; regular expressions, JSON
  and the hash of the loop detector are functions.  Writing the trace file is output and not modelled.

  A round ends the run, with a result, an error or a panic, or leaves the state of the next one.
\<close>

section \<open>Configuration and environment\<close>

datatype agent_error =
    UpstreamError string
  | ModelError string
  | IfcViolation string
  | MaxIterations nat
  | ConfigError string
  | OtherError string

record agent_tool =
  at_name :: string
  at_description :: "string option"
  at_parameters :: json

datatype tool_choice = ChooseNone | ChooseRequired | ChooseAuto

record 'f model_request =
  rq_input :: "input_item list"
  rq_tools :: "agent_tool list"
  rq_tool_choice :: tool_choice
  rq_max_output_tokens :: "nat option"
  rq_temperature :: "'f option"
  rq_output_schema :: "json option"

record model_call_context =
  mx_run_id :: string
  mx_iteration :: nat
  mx_tokens_consumed :: nat
  mx_token_budget :: nat

record 'f loop_config =
  tl_max_iterations :: nat
  tl_system_prompt :: "string option"
  tl_temperature :: "'f option"
  tl_max_tokens :: "nat option"
  tl_allowed_tools :: "string list option"
  tl_output_schema :: "json option"
  tl_non_progress :: "string list option"
  tl_force_iterations :: "nat option"
  tl_max_reasoning :: "nat option"
  tl_repair :: bool
  tl_max_tokens_per_run :: nat
  tl_window :: nat
  tl_max_output_tokens :: "nat option"
  tl_compression_start :: "'f option"
  tl_keep_recent :: "nat option"
  tl_compaction_trigger :: "'f option"
  tl_policy :: "bool option"
  tl_loop_threshold :: nat
  tl_phases :: "(nat \<times> nat \<times> 'f) list"

type_synonym 'u signal_source = "('u \<Rightarrow> agent_signal \<times> 'u) \<times> ('u \<Rightarrow> 'u)"

type_synonym 'u phase_cell = "('u \<Rightarrow> flow_phase) \<times> (flow_phase \<Rightarrow> 'u \<Rightarrow> 'u)"

record ('u, 'f, 'c) agent_env =
  en_floats :: "'f float_ops"
  en_repair :: json_repair
  en_json_text :: "json \<Rightarrow> string"
  en_digest :: "string \<Rightarrow> string"
  en_debug :: "output_item \<Rightarrow> string"
  en_list_tools :: "'u \<Rightarrow> (agent_error + agent_tool list) \<times> 'u"
  en_call_tool :: "string \<Rightarrow> json \<Rightarrow> 'u \<Rightarrow> (agent_error + call_tool_result) \<times> 'u"
  en_taint :: "'u \<Rightarrow> data_label"
  en_respond :: "'f model_request \<Rightarrow> 'u \<Rightarrow> (agent_error + model_response) \<times> 'u"
  en_fallback :: "('f model_request \<Rightarrow> 'u \<Rightarrow> (agent_error + model_response) \<times> 'u) option"
  en_hooks :: "('u, model_call_context, 'f model_request, model_response) model_hook list option"
  en_retrieve :: "(string \<Rightarrow> nat \<Rightarrow> 'u \<Rightarrow> string \<times> 'u) option"
  en_embed :: "(string \<Rightarrow> 'u \<Rightarrow> (agent_error + 'f list) \<times> 'u) option"
  en_signal :: "'u signal_source option"
  en_phase :: "'u phase_cell option"
  en_now :: "'u \<Rightarrow> instant \<times> 'u"
  en_fresh :: "'u \<Rightarrow> string \<times> 'u"
  en_log_tool :: "(string \<Rightarrow> nat \<Rightarrow> string \<Rightarrow> string \<Rightarrow> string \<Rightarrow> nat \<Rightarrow> 'u \<Rightarrow> 'u) option"
  en_log_model :: "(string \<Rightarrow> nat \<Rightarrow> nat \<Rightarrow> nat \<Rightarrow> string \<Rightarrow> 'u \<Rightarrow> 'u) option"
  en_filter_ops :: "'c f32_ops"
  en_custom_pii :: "string list"

record ('u, 'c) loop_state =
  ls_input :: "input_item list"
  ls_total_input :: nat
  ls_total_output :: nat
  ls_progress :: nat
  ls_empty_retries :: nat
  ls_prev_outputs :: "string list"
  ls_actions :: "action_record list"
  ls_blocks :: "tool_block list"
  ls_detector :: "(string, nat) hmap"
  ls_saved :: nat
  ls_exhausted :: bool
  ls_consumed :: nat
  ls_timestamps :: "instant list"
  ls_pii :: "'c filter_pipeline option"
  ls_world :: 'u

record tool_loop_result =
  lr_run_id :: string
  lr_response :: string
  lr_iterations :: nat
  lr_input_tokens :: nat
  lr_output_tokens :: nat
  lr_taint :: data_label
  lr_actions :: "action_record list"
  lr_blocks :: "tool_block list"
  lr_saved :: nat
  lr_interrupted :: bool

datatype loop_outcome = Returned tool_loop_result | Failed agent_error | LoopPanic

type_synonym ('u, 'c, 'a) attempt = "(loop_outcome \<times> ('u, 'c) loop_state) + 'a"

definition and_then :: "'e + 'a \<Rightarrow> ('a \<Rightarrow> 'e + 'b) \<Rightarrow> 'e + 'b" where
  "and_then m f = (case m of Inl e \<Rightarrow> Inl e | Inr a \<Rightarrow> f a)"

text \<open>A function of the world run in the state.\<close>

definition in_world :: "('u \<Rightarrow> 'a \<times> 'u) \<Rightarrow> ('u, 'c) loop_state \<Rightarrow> 'a \<times> ('u, 'c) loop_state" where
  "in_world f st = (case f (ls_world st) of (a, w) \<Rightarrow> (a, st\<lparr>ls_world := w\<rparr>))"

definition effective_max_tool_output :: "'f loop_config \<Rightarrow> nat" where
  "effective_max_tool_output cfg =
     (case tl_max_output_tokens cfg of Some n \<Rightarrow> n | None \<Rightarrow> max 512 (min (tl_window cfg div 20) 16384))"

definition effective_keep_recent :: "'f loop_config \<Rightarrow> nat" where
  "effective_keep_recent cfg =
     (case tl_keep_recent cfg of Some n \<Rightarrow> n | None \<Rightarrow> max 4 (min (tl_window cfg div 16000) 20))"

definition effective_compaction_trigger :: "'f float_ops \<Rightarrow> 'f loop_config \<Rightarrow> 'f" where
  "effective_compaction_trigger fo cfg =
     (case tl_compaction_trigger cfg of Some r \<Rightarrow> r | None \<Rightarrow> fo_ratio fo 3 5)"

definition phase_temperature :: "(nat \<times> nat \<times> 'f) list \<Rightarrow> nat \<Rightarrow> 'f option" where
  "phase_temperature phases iteration =
     map_option (\<lambda>(_, _, t). t) (List.find (\<lambda>(a, b, _). a \<le> iteration \<and> iteration < b) phases)"

definition loop_result :: "('u, 'f, 'c) agent_env \<Rightarrow> string \<Rightarrow> string \<Rightarrow> bool \<Rightarrow> ('u, 'c) loop_state \<Rightarrow> tool_loop_result" where
  "loop_result env run_id response interrupted st =
     \<lparr>lr_run_id = run_id, lr_response = response, lr_iterations = ls_progress st,
      lr_input_tokens = ls_total_input st, lr_output_tokens = ls_total_output st,
      lr_taint = en_taint env (ls_world st), lr_actions = ls_actions st, lr_blocks = ls_blocks st,
      lr_saved = ls_saved st, lr_interrupted = interrupted\<rparr>"

definition push_item :: "input_item \<Rightarrow> ('u, 'c) loop_state \<Rightarrow> ('u, 'c) loop_state" where
  "push_item i st = st\<lparr>ls_input := ls_input st @ [i]\<rparr>"

section \<open>Before the model call\<close>

definition stopped_text :: "string \<Rightarrow> nat \<Rightarrow> string" where
  "stopped_text how iterations =
     (if iterations > 0 then ''['' @ how @ '' after '' @ show_nat iterations @ '' iterations]''
      else ''['' @ how @ '' before first iteration]'')"

definition check_signal ::
  "('u, 'f, 'c) agent_env \<Rightarrow> string \<Rightarrow> ('u, 'c) loop_state \<Rightarrow> ('u, 'c, ('u, 'c) loop_state) attempt" where
  "check_signal env run_id st =
     (case en_signal env of
        None \<Rightarrow> Inr st
      | Some (check, wait_for_resume) \<Rightarrow>
          (case in_world check st of
             (sig, st1) \<Rightarrow>
               (case sig of
                  Interrupt \<Rightarrow>
                    Inl (Returned (loop_result env run_id (stopped_text ''interrupted'' (ls_progress st1)) True st1), st1)
                | Terminate \<Rightarrow>
                    Inl (Returned (loop_result env run_id (stopped_text ''terminated'' (ls_progress st1)) True st1), st1)
                | Pause \<Rightarrow> Inr (st1\<lparr>ls_world := wait_for_resume (ls_world st1)\<rparr>)
                | _ \<Rightarrow> Inr st1)))"

definition SYNTHESIS_PROMPT :: string where
  "SYNTHESIS_PROMPT =
     ''You have used all available iterations. Summarize your findings so far based on the work you have '' @
     ''already done. Do not call any more tools '' @ utf8_em_dash @
     '' produce your best answer with the information you have.''"

definition check_budget ::
  "'f loop_config \<Rightarrow> ('u, 'c) loop_state \<Rightarrow> ('u, 'c, ('u, 'c) loop_state) attempt" where
  "check_budget cfg st =
     (if ls_progress st \<ge> tl_max_iterations cfg then
        (if ls_exhausted st then Inl (Failed (MaxIterations (tl_max_iterations cfg)), st)
         else Inr (push_item (user_item SYNTHESIS_PROMPT) (st\<lparr>ls_exhausted := True\<rparr>)))
      else Inr st)"

definition retrieve_context ::
  "('u, 'f, 'c) agent_env \<Rightarrow> 'f loop_config \<Rightarrow> string \<Rightarrow> ('u, 'c) loop_state \<Rightarrow> ('u, 'c) loop_state" where
  "retrieve_context env cfg prompt st =
     (case en_retrieve env of
        None \<Rightarrow> st
      | Some retrieve \<Rightarrow>
          (let estimated = max (ls_total_input st) (length prompt div 4);
               room = (tl_window cfg - estimated) div 3
           in if room > 100 then
                (case in_world (retrieve prompt room) st of
                   (context, st1) \<Rightarrow>
                     if context \<noteq> [] then push_item (system_item (''[Retrieved context]'' @ newline @ context)) st1
                     else st1)
              else st))"

definition build_request ::
  "'f loop_config \<Rightarrow> agent_tool list \<Rightarrow> ('u, 'c) loop_state \<Rightarrow> 'f model_request" where
  "build_request cfg tools st =
     \<lparr>rq_input = ls_input st,
      rq_tools = (if ls_exhausted st then [] else tools),
      rq_tool_choice =
        (if ls_exhausted st then ChooseNone
         else if (case tl_force_iterations cfg of Some n \<Rightarrow> ls_progress st < n | None \<Rightarrow> False) then ChooseRequired
         else ChooseAuto),
      rq_max_output_tokens = tl_max_tokens cfg,
      rq_temperature =
        (case phase_temperature (tl_phases cfg) (ls_progress st) of Some t \<Rightarrow> Some t | None \<Rightarrow> tl_temperature cfg),
      rq_output_schema = tl_output_schema cfg\<rparr>"

section \<open>The model call\<close>

definition model_context :: "'f loop_config \<Rightarrow> string \<Rightarrow> ('u, 'c) loop_state \<Rightarrow> model_call_context" where
  "model_context cfg run_id st =
     \<lparr>mx_run_id = run_id, mx_iteration = ls_progress st, mx_tokens_consumed = ls_consumed st,
      mx_token_budget = tl_max_tokens_per_run cfg\<rparr>"

definition respond_with ::
  "('f model_request \<Rightarrow> 'u \<Rightarrow> (agent_error + model_response) \<times> 'u) \<Rightarrow> 'f model_request
     \<Rightarrow> ('u, 'c) loop_state \<Rightarrow> ('u, 'c, model_response \<times> ('u, 'c) loop_state) attempt" where
  "respond_with respond_fn request st =
     (case in_world (respond_fn request) st of
        (Inl e, st1) \<Rightarrow> Inl (Failed e, st1)
      | (Inr response, st1) \<Rightarrow> Inr (response, st1))"

definition pre_model ::
  "('u, 'f, 'c) agent_env \<Rightarrow> model_call_context \<Rightarrow> 'f model_request \<Rightarrow> ('u, 'c) loop_state
     \<Rightarrow> ('u, 'c, 'f model_request \<times> ('u, 'c) loop_state) attempt" where
  "pre_model env mctx request st =
     (case en_hooks env of
        None \<Rightarrow> Inr (request, st)
      | Some hooks \<Rightarrow>
          (case in_world (run_pre_model hooks request mctx) st of
             (ProceedModel rq, st1) \<Rightarrow> Inr (rq, st1)
           | (BlockedModel reason, st1) \<Rightarrow>
               Inl (Failed (OtherError (''Model call blocked by hook: '' @ reason)), st1)))"

definition post_model ::
  "('u, 'f, 'c) agent_env \<Rightarrow> model_call_context \<Rightarrow> 'f model_request \<Rightarrow> model_response \<Rightarrow> ('u, 'c) loop_state
     \<Rightarrow> ('u, 'c, model_response \<times> ('u, 'c) loop_state) attempt" where
  "post_model env mctx request response st =
     (case en_hooks env of
        None \<Rightarrow> Inr (response, st)
      | Some hooks \<Rightarrow>
          (case in_world (run_post_model hooks request response mctx) st of
             (AcceptModel r, st1) \<Rightarrow> Inr (r, st1)
           | (RetriedModel rq, st1) \<Rightarrow> respond_with (en_respond env) rq st1
           | (BlockedResponse reason, st1) \<Rightarrow>
               Inl (Failed (OtherError (''Model response blocked by hook: '' @ reason)), st1)))"

text \<open>
  When the fallback model is asked, the conversation has already been taken out of the request.
\<close>

definition ask_fallback ::
  "('u, 'f, 'c) agent_env \<Rightarrow> 'f model_request \<Rightarrow> model_response \<Rightarrow> ('u, 'c) loop_state
     \<Rightarrow> ('u, 'c, model_response \<times> ('u, 'c) loop_state) attempt" where
  "ask_fallback env request response st =
     (if detect_model_refusal response then
        (case en_fallback env of
           None \<Rightarrow> Inr (response, st)
         | Some fallback \<Rightarrow>
             and_then (respond_with fallback (request\<lparr>rq_input := []\<rparr>) st) (\<lambda>(other, st1).
               Inr (if detect_model_refusal other then response else other, st1)))
      else Inr (response, st))"

definition model_turn ::
  "('u, 'f, 'c) agent_env \<Rightarrow> 'f loop_config \<Rightarrow> string \<Rightarrow> agent_tool list \<Rightarrow> ('u, 'c) loop_state
     \<Rightarrow> ('u, 'c, model_response \<times> ('u, 'c) loop_state) attempt" where
  "model_turn env cfg run_id tools st =
     (let mctx = model_context cfg run_id st in
      and_then (pre_model env mctx (build_request cfg tools st) st) (\<lambda>(request, st1).
      and_then (respond_with (en_respond env) request st1) (\<lambda>(response, st2).
      and_then (post_model env mctx request response st2) (\<lambda>(accepted, st3).
        ask_fallback env request accepted (st3\<lparr>ls_input := rq_input request\<rparr>)))))"

section \<open>After the model call\<close>

definition response_kind :: "model_response \<Rightarrow> string" where
  "response_kind r =
     (if response_calls r \<noteq> [] then ''tool_calls'' else if response_text r \<noteq> None then ''text'' else ''empty'')"

definition over_budget_text :: "nat \<Rightarrow> nat \<Rightarrow> string" where
  "over_budget_text consumed limit =
     ''Agent stopped: token budget exceeded ('' @ show_nat consumed @ '' tokens consumed, limit '' @ show_nat limit @ '')''"

definition account_usage ::
  "('u, 'f, 'c) agent_env \<Rightarrow> 'f loop_config \<Rightarrow> string \<Rightarrow> model_response \<Rightarrow> ('u, 'c) loop_state
     \<Rightarrow> ('u, 'c, ('u, 'c) loop_state) attempt" where
  "account_usage env cfg run_id response st =
     (case mr_usage response of
        None \<Rightarrow> Inr st
      | Some u \<Rightarrow>
          (let consumed = wrap_u64 (ls_consumed st + wrap_u32 (us_input u + us_output u));
               w = (case en_log_model env of
                      None \<Rightarrow> ls_world st
                    | Some log \<Rightarrow> log run_id (ls_progress st) (us_input u) (us_output u) (response_kind response) (ls_world st));
               st1 = st\<lparr>ls_total_input := wrap_u32 (ls_total_input st + us_input u),
                        ls_total_output := wrap_u32 (ls_total_output st + us_output u),
                        ls_consumed := consumed, ls_world := w\<rparr>
           in if consumed > tl_max_tokens_per_run cfg then
                Inl (Returned (loop_result env run_id
                  (case response_text response of
                     Some t \<Rightarrow> t | None \<Rightarrow> over_budget_text consumed (tl_max_tokens_per_run cfg)) False st1), st1)
              else Inr st1))"

definition note_reasoning :: "'f loop_config \<Rightarrow> model_response \<Rightarrow> ('u, 'c) loop_state \<Rightarrow> ('u, 'c) loop_state" where
  "note_reasoning cfg response st =
     (case (tl_max_reasoning cfg, response_text response) of
        (Some max_tokens, Some t) \<Rightarrow>
          if length t > max_tokens * 4 then push_item (user_item (truncate_reasoning t max_tokens)) st else st
      | _ \<Rightarrow> st)"

definition REPETITION_THRESHOLD :: nat where "REPETITION_THRESHOLD = 5"

definition is_status_poll :: "model_response \<Rightarrow> bool" where
  "is_status_poll r \<longleftrightarrow>
     list_ex (\<lambda>c. fn_name c = ''flow_status'' \<or> fn_name c = ''team_status'') (response_calls r)"

fun item_fingerprint :: "('u, 'f, 'c) agent_env \<Rightarrow> output_item \<Rightarrow> string" where
  "item_fingerprint env (OutCall c) = ''fc:'' @ fn_name c @ '':'' @ fn_arguments c"
| "item_fingerprint env (OutMessage m) = ''msg:'' @ en_debug env (OutMessage m)"
| "item_fingerprint env (OutReasoning r) = ''other:'' @ en_debug env (OutReasoning r)"

definition repeats :: "string list \<Rightarrow> bool" where
  "repeats outputs \<longleftrightarrow>
     length outputs \<ge> REPETITION_THRESHOLD \<and>
     (let recent = drop (length outputs - REPETITION_THRESHOLD) outputs in list_all (\<lambda>x. x = hd recent) recent)"

definition check_repetition ::
  "('u, 'f, 'c) agent_env \<Rightarrow> model_response \<Rightarrow> ('u, 'c) loop_state \<Rightarrow> ('u, 'c, ('u, 'c) loop_state) attempt" where
  "check_repetition env response st =
     (if is_status_poll response then Inr st
      else
        (let outputs = ls_prev_outputs st @ [join_with ''|'' (map (item_fingerprint env) (mr_output response))];
             st1 = st\<lparr>ls_prev_outputs := outputs\<rparr>
         in if repeats outputs
            then Inl (Failed (OtherError (''Repetition loop detected: model produced identical output '' @
                        show_nat REPETITION_THRESHOLD @ '' times in a row'')), st1)
            else Inr st1))"

text \<open>The filter is left out when it blocks.\<close>

definition filter_pii ::
  "('u, 'f, 'c) agent_env \<Rightarrow> string \<Rightarrow> ('u, 'c) loop_state \<Rightarrow> (string \<times> ('u, 'c) loop_state) option" where
  "filter_pii env t st =
     (case ls_pii st of
        None \<Rightarrow> Some (t, st)
      | Some p \<Rightarrow>
          map_option (\<lambda>(p', r). (case r of Inr filtered \<Rightarrow> filtered | Inl _ \<Rightarrow> t, st\<lparr>ls_pii := Some p'\<rparr>))
            (process_outbound (en_filter_ops env) (en_custom_pii env) t
               \<lparr>fc_agent_name = ''agent'', fc_operation = ''model_response'', fc_path = None\<rparr> p))"

definition REPORT_PROMPT :: string where
  "REPORT_PROMPT = ''Synthesize your findings into a final report. Do not call any more tools.''"

definition final_answer ::
  "('u, 'f, 'c) agent_env \<Rightarrow> string \<Rightarrow> model_response \<Rightarrow> ('u, 'c) loop_state
     \<Rightarrow> ('u, 'c, ('u, 'c) loop_state) attempt" where
  "final_answer env run_id response st =
     (let t = (case response_text response of Some t \<Rightarrow> t | None \<Rightarrow> []) in
      if trim_ws t = [] \<and> ls_progress st > 0 \<and> ls_empty_retries st = 0 then
        Inr (push_item (user_item REPORT_PROMPT) (st\<lparr>ls_empty_retries := 1\<rparr>))
      else
        (case filter_pii env t st of
           None \<Rightarrow> Inl (LoopPanic, st)
         | Some (filtered, st1) \<Rightarrow> Inl (Returned (loop_result env run_id filtered False st1), st1)))"

section \<open>Compression\<close>

fun score_paragraphs ::
  "'f float_ops \<Rightarrow> (string \<Rightarrow> 'u \<Rightarrow> (agent_error + 'f list) \<times> 'u) \<Rightarrow> 'f list \<Rightarrow> nat \<Rightarrow> string list \<Rightarrow> 'u
     \<Rightarrow> (nat \<times> 'f \<times> string) list \<times> 'u" where
  "score_paragraphs fo embed_fn query i [] w = ([], w)"
| "score_paragraphs fo embed_fn query i (p # ps) w =
     (case embed_fn (truncate_str p 1024) w of
        (r, w1) \<Rightarrow>
          (case score_paragraphs fo embed_fn query (i + 1) ps w1 of
             (rest, w2) \<Rightarrow>
               ((i, (case r of Inr e \<Rightarrow> cosine_similarity fo query e | Inl _ \<Rightarrow> fo_zero fo), p) # rest, w2)))"

text \<open>\<open>Inl\<close> is an error of the embedding model; \<open>None\<close> a panic of a cut.\<close>

definition compress_extractive ::
  "'f float_ops \<Rightarrow> (string \<Rightarrow> 'u \<Rightarrow> (agent_error + 'f list) \<times> 'u) \<Rightarrow> string \<Rightarrow> string \<Rightarrow> nat \<Rightarrow> 'u
     \<Rightarrow> (agent_error + string) option \<times> 'u" where
  "compress_extractive fo embed_fn t query max_tokens w =
     (let paragraphs = split_paragraphs t in
      if length paragraphs \<le> 1 then (map_option Inr (truncate_to_budget t max_tokens), w)
      else
        (case embed_fn (truncate_str query 512) w of
           (Inl e, w1) \<Rightarrow> (Some (Inl e), w1)
         | (Inr q, w1) \<Rightarrow>
             (case score_paragraphs fo embed_fn q 0 paragraphs w1 of
                (scored, w2) \<Rightarrow>
                  (let ranked = sort_scored fo scored; selected = select_paragraphs max_tokens 0 ranked in
                   case (selected, ranked) of
                     ([], (_, _, best) # _) \<Rightarrow> (map_option Inr (truncate_to_budget best max_tokens), w2)
                   | _ \<Rightarrow> (Some (Inr (join_selected selected (length paragraphs))), w2)))))"

definition compress_tool_output ::
  "('u, 'f, 'c) agent_env \<Rightarrow> string \<Rightarrow> nat \<Rightarrow> 'f \<Rightarrow> 'f \<Rightarrow> string option \<Rightarrow> 'u \<Rightarrow> string option \<times> 'u" where
  "compress_tool_output env t max_tokens fill start query w =
     (let limit = effective_token_limit (en_floats env) max_tokens fill start in
      if estimate_tokens t \<le> limit then (Some t, w)
      else
        (case (en_embed env, query) of
           (Some embed_fn, Some q) \<Rightarrow>
             (case compress_extractive (en_floats env) embed_fn t q limit w of
                (Some (Inr c), w1) \<Rightarrow> (Some c, w1)
              | (Some (Inl e), w1) \<Rightarrow> (truncate_to_budget t limit, w1)
              | (None, w1) \<Rightarrow> (None, w1))
         | _ \<Rightarrow> (truncate_to_budget t limit, w)))"

definition fill_ratio :: "'f float_ops \<Rightarrow> 'f loop_config \<Rightarrow> ('u, 'c) loop_state \<Rightarrow> 'f" where
  "fill_ratio fo cfg st =
     (if tl_window cfg > 0 then fo_div fo (fo_of_nat fo (ls_total_input st)) (fo_of_nat fo (tl_window cfg))
      else fo_zero fo)"

definition compress_result ::
  "('u, 'f, 'c) agent_env \<Rightarrow> 'f loop_config \<Rightarrow> string \<Rightarrow> ('u, 'c) loop_state
     \<Rightarrow> ('u, 'c, string \<times> ('u, 'c) loop_state) attempt" where
  "compress_result env cfg raw st =
     (case tl_compression_start cfg of
        None \<Rightarrow> Inr (raw, st)
      | Some start \<Rightarrow>
          (let fill = fill_ratio (en_floats env) cfg st in
           if fo_ge (en_floats env) fill start then
             (case in_world (compress_tool_output env raw (effective_max_tool_output cfg) fill start (tl_system_prompt cfg)) st of
                (None, st1) \<Rightarrow> Inl (LoopPanic, st1)
              | (Some c, st1) \<Rightarrow> Inr (c, st1\<lparr>ls_saved := ls_saved st1 + (length raw - length c)\<rparr>))
           else Inr (raw, st)))"

section \<open>Tool calls\<close>

definition detector_record ::
  "('u, 'f, 'c) agent_env \<Rightarrow> nat \<Rightarrow> string \<Rightarrow> json \<Rightarrow> (string, nat) hmap \<Rightarrow> (string, nat) hmap \<times> string option" where
  "detector_record env threshold tool args counts =
     (if threshold = 0 then (counts, None)
      else
        (let key = tool @ '':'' @ en_digest env (en_json_text env args);
             n = (case hm_get counts key of Some n \<Rightarrow> n | None \<Rightarrow> 0) + 1
         in (hm_insert key n counts,
             if n = threshold then
               Some (''You have called '' @ tool @ '' on the same target '' @ show_nat n @
                     '' times. Reconsider your approach '' @ utf8_em_dash @ '' try a different tool or strategy.'')
             else if n = threshold + 2 then
               Some (''WARNING: '' @ tool @ '' called '' @ show_nat n @
                     '' times on same target. You must use a different approach.'')
             else None)))"

text \<open>A block for a call that was not made.\<close>

definition failed_block ::
  "('u, 'f, 'c) agent_env \<Rightarrow> string \<Rightarrow> json \<Rightarrow> string \<Rightarrow> ('u, 'c) loop_state
     \<Rightarrow> ('u, 'c, ('u, 'c) loop_state) attempt" where
  "failed_block env tool args message st =
     (case in_world (en_fresh env) st of
        (i, st1) \<Rightarrow>
          (case in_world (en_now env) st1 of
             (start, st2) \<Rightarrow>
               (case in_world (en_now env) st2 of
                  (fin, st3) \<Rightarrow>
                    (case block_complete fin message True (block_new i start tool args) of
                       None \<Rightarrow> Inl (LoopPanic, st3)
                     | Some b \<Rightarrow> Inr (st3\<lparr>ls_blocks := ls_blocks st3 @ [b]\<rparr>)))))"

definition unknown_tool_text :: "string \<Rightarrow> string list \<Rightarrow> string" where
  "unknown_tool_text tool names =
     ''Unknown tool '' @ apostrophe @ tool @ apostrophe @ ''. Available tools: '' @ join_with '', '' names"

definition parse_or_empty :: "('u, 'f, 'c) agent_env \<Rightarrow> string \<Rightarrow> json" where
  "parse_or_empty env s = (case jp_parse (en_repair env) s of Some v \<Rightarrow> v | None \<Rightarrow> JObject [])"

fun take_chars :: "nat \<Rightarrow> string \<Rightarrow> string" where
  "take_chars n [] = []"
| "take_chars n (c # cs) =
     (if continuation c then c # take_chars n cs
      else (case n of 0 \<Rightarrow> [] | Suc k \<Rightarrow> c # take_chars k cs))"

text \<open>The run and the round of a call go into the log.\<close>

definition log_call ::
  "('u, 'f, 'c) agent_env \<Rightarrow> string \<times> nat \<Rightarrow> function_call \<Rightarrow> string \<Rightarrow> nat \<Rightarrow> ('u, 'c) loop_state \<Rightarrow> ('u, 'c) loop_state" where
  "log_call env tag call raw duration st =
     (case en_log_tool env of
        None \<Rightarrow> st
      | Some log \<Rightarrow>
          st\<lparr>ls_world := log (fst tag) (snd tag) (fn_name call) (fn_arguments call)
               (if length raw > 4096 then truncate_str raw 4096 @ utf8_ellipsis else raw) duration (ls_world st)\<rparr>)"

definition warn_loop ::
  "('u, 'f, 'c) agent_env \<Rightarrow> string option \<Rightarrow> ('u, 'c) loop_state \<Rightarrow> ('u, 'c) loop_state" where
  "warn_loop env warning st =
     (case warning of
        None \<Rightarrow> st
      | Some message \<Rightarrow>
          push_item (system_item message)
            (case en_phase env of
               None \<Rightarrow> st
             | Some (_, set_phase) \<Rightarrow> st\<lparr>ls_world := set_phase TrajectoryConvergence (ls_world st)\<rparr>))"

text \<open>The call of a known tool with its parsed arguments.\<close>

definition make_call ::
  "('u, 'f, 'c) agent_env \<Rightarrow> 'f loop_config \<Rightarrow> string \<times> nat \<Rightarrow> function_call \<Rightarrow> json \<Rightarrow> ('u, 'c) loop_state
     \<Rightarrow> ('u, 'c, ('u, 'c) loop_state) attempt" where
  "make_call env cfg tag call args st0 =
     (case detector_record env (tl_loop_threshold cfg) (fn_name call) args (ls_detector st0) of
        (counts, warning) \<Rightarrow>
     (case in_world (en_fresh env) (st0\<lparr>ls_detector := counts\<rparr>) of
        (i, st1) \<Rightarrow>
     (case in_world (en_now env) st1 of
        (start, st2) \<Rightarrow>
     (case in_world (en_call_tool env (fn_name call) args) st2 of
        (Inl e, st3) \<Rightarrow> Inl (Failed e, st3)
      | (Inr result, st3) \<Rightarrow>
          (let raw = extract_text result in
           case in_world (en_now env) st3 of
             (fin, st4) \<Rightarrow>
               (case block_complete fin raw (is_err result) (block_new i start (fn_name call) args) of
                  None \<Rightarrow> Inl (LoopPanic, st4)
                | Some b \<Rightarrow>
                    (let duration = (case tb_duration_ms b of Some d \<Rightarrow> d | None \<Rightarrow> 0) in
                     and_then (compress_result env cfg raw
                         (log_call env tag call raw duration (st4\<lparr>ls_blocks := ls_blocks st4 @ [b]\<rparr>)))
                       (\<lambda>(shown, st5).
                          (let st6 = warn_loop env warning (push_item (answer_call call shown)
                                 (st5\<lparr>ls_actions := ls_actions st5 @
                                    [\<lparr>ar_action = classify_action (fn_name call) args,
                                      ar_success = (\<not> is_err result), ar_duration_ms = duration,
                                      ar_output_preview = take_chars 200 shown\<rparr>]\<rparr>))
                           in case in_world (en_now env) st6 of
                                (now, st7) \<Rightarrow> Inr (st7\<lparr>ls_timestamps := ls_timestamps st7 @ [now]\<rparr>))))))))))"

definition execute_call ::
  "('u, 'f, 'c) agent_env \<Rightarrow> 'f loop_config \<Rightarrow> string \<times> nat \<Rightarrow> string list \<Rightarrow> function_call \<Rightarrow> ('u, 'c) loop_state
     \<Rightarrow> ('u, 'c, ('u, 'c) loop_state) attempt" where
  "execute_call env cfg tag names call st =
     (if fn_name call \<notin> set names then
        (let message = unknown_tool_text (fn_name call) names in
         and_then (failed_block env (fn_name call) (parse_or_empty env (fn_arguments call)) message st)
           (\<lambda>st1. Inr (push_item (answer_call call message) (push_item (replay_call call) st1))))
      else
        (let st1 = push_item (replay_call call) st in
         if tl_repair cfg then
           (case repair_json (en_repair env) (fn_arguments call) of
              None \<Rightarrow> Inl (LoopPanic, st1)
            | Some (Inl e) \<Rightarrow>
                (let message = ''Error: malformed JSON arguments '' @ utf8_em_dash @ '' '' @ e in
                 and_then (failed_block env (fn_name call) (JObject []) message st1)
                   (\<lambda>st2. Inr (push_item (answer_call call message) st2)))
            | Some (Inr args) \<Rightarrow> make_call env cfg tag call args st1)
         else make_call env cfg tag call (parse_or_empty env (fn_arguments call)) st1))"

fun execute_calls ::
  "('u, 'f, 'c) agent_env \<Rightarrow> 'f loop_config \<Rightarrow> string \<times> nat \<Rightarrow> string list \<Rightarrow> function_call list \<Rightarrow> ('u, 'c) loop_state
     \<Rightarrow> ('u, 'c, ('u, 'c) loop_state) attempt" where
  "execute_calls env cfg tag names [] st = Inr st"
| "execute_calls env cfg tag names (c # cs) st =
     and_then (execute_call env cfg tag names c st) (execute_calls env cfg tag names cs)"

text \<open>A round of calls that only observe does not count; too many calls in 30 seconds are only logged.\<close>

definition count_round :: "'f loop_config \<Rightarrow> function_call list \<Rightarrow> ('u, 'c) loop_state \<Rightarrow> ('u, 'c) loop_state" where
  "count_round cfg calls st =
     (if (case tl_non_progress cfg of Some npt \<Rightarrow> list_all (\<lambda>c. fn_name c \<in> set npt) calls | None \<Rightarrow> False)
      then st else st\<lparr>ls_progress := ls_progress st + 1\<rparr>)"

definition forget_old_calls :: "('u, 'f, 'c) agent_env \<Rightarrow> ('u, 'c) loop_state \<Rightarrow> ('u, 'c) loop_state" where
  "forget_old_calls env st =
     (case in_world (en_now env) st of
        (now, st1) \<Rightarrow> st1\<lparr>ls_timestamps := filter (\<lambda>ts. now - ts < 30 * 10 ^ 9) (ls_timestamps st1)\<rparr>)"

definition compact_if_due ::
  "('u, 'f, 'c) agent_env \<Rightarrow> 'f loop_config \<Rightarrow> ('u, 'c) loop_state \<Rightarrow> ('u, 'c) loop_state" where
  "compact_if_due env cfg st =
     (let est = estimate_input_tokens (ls_input st); fo = en_floats env;
          due = (case (tl_policy cfg, en_phase env) of
                   (Some enabled, Some (phase, _)) \<Rightarrow>
                     should_compact enabled (phase (ls_world st)) (budget_new (tl_window cfg)) est
                 | _ \<Rightarrow>
                     est > fo_to_u32 fo (fo_mul fo (fo_of_nat fo (tl_window cfg)) (effective_compaction_trigger fo cfg)))
      in if due then st\<lparr>ls_input := compact_conversation (effective_keep_recent cfg) (ls_input st)\<rparr> else st)"

section \<open>The loop\<close>

definition loop_round ::
  "('u, 'f, 'c) agent_env \<Rightarrow> 'f loop_config \<Rightarrow> string \<Rightarrow> string \<Rightarrow> agent_tool list \<Rightarrow> ('u, 'c) loop_state
     \<Rightarrow> ('u, 'c, ('u, 'c) loop_state) attempt" where
  "loop_round env cfg prompt run_id tools st =
     and_then (check_signal env run_id st) (\<lambda>st1.
     and_then (check_budget cfg st1) (\<lambda>st2.
     and_then (model_turn env cfg run_id tools (retrieve_context env cfg prompt st2)) (\<lambda>(response, st3).
     and_then (account_usage env cfg run_id response st3) (\<lambda>st4.
     and_then (check_repetition env response (note_reasoning cfg response st4)) (\<lambda>st5.
       (let calls = response_calls response in
        if calls = [] then final_answer env run_id response st5
        else
          and_then (execute_calls env cfg (run_id, ls_progress st5) (map at_name tools) calls
                      (forget_old_calls env (count_round cfg calls st5)))
            (\<lambda>st6. Inr (compact_if_due env cfg st6))))))))"

partial_function (option) run_rounds ::
  "('u, 'f, 'c) agent_env \<Rightarrow> 'f loop_config \<Rightarrow> string \<Rightarrow> string \<Rightarrow> agent_tool list \<Rightarrow> ('u, 'c) loop_state
     \<Rightarrow> (loop_outcome \<times> ('u, 'c) loop_state) option" where
  "run_rounds env cfg prompt run_id tools st =
     (case loop_round env cfg prompt run_id tools st of
        Inl final \<Rightarrow> Some final
      | Inr st1 \<Rightarrow> run_rounds env cfg prompt run_id tools st1)"

definition initial_state :: "'f loop_config \<Rightarrow> string \<Rightarrow> 'c filter_pipeline option \<Rightarrow> 'u \<Rightarrow> ('u, 'c) loop_state" where
  "initial_state cfg prompt pii w =
     \<lparr>ls_input = (case tl_system_prompt cfg of Some s \<Rightarrow> [system_item s] | None \<Rightarrow> []) @ [user_item prompt],
      ls_total_input = 0, ls_total_output = 0, ls_progress = 0, ls_empty_retries = 0, ls_prev_outputs = [],
      ls_actions = [], ls_blocks = [], ls_detector = [], ls_saved = 0, ls_exhausted = False, ls_consumed = 0,
      ls_timestamps = [], ls_pii = pii, ls_world = w\<rparr>"

definition visible_tools :: "'f loop_config \<Rightarrow> agent_tool list \<Rightarrow> agent_tool list" where
  "visible_tools cfg tools =
     filter (\<lambda>t. case tl_allowed_tools cfg of None \<Rightarrow> True | Some allowed \<Rightarrow> at_name t \<in> set allowed) tools"

definition run_tool_loop ::
  "('u, 'f, 'c) agent_env \<Rightarrow> 'f loop_config \<Rightarrow> string \<Rightarrow> string \<Rightarrow> 'c filter_pipeline option \<Rightarrow> 'u
     \<Rightarrow> (loop_outcome \<times> ('u, 'c) loop_state) option" where
  "run_tool_loop env cfg prompt run_id pii w =
     (case en_list_tools env w of
        (Inl e, w1) \<Rightarrow> Some (Failed e, initial_state cfg prompt pii w1)
      | (Inr tools, w1) \<Rightarrow>
          run_rounds env cfg prompt run_id (visible_tools cfg tools) (initial_state cfg prompt pii w1))"

end
