(* ===== verification/AgentLoopFacts.thy ===== *)
theory AgentLoopFacts
  imports AgentLoop
begin

text \<open>
  Proofs about the tool loop: it returns when every round counts, it calls only the tools
  it was allowed, and the conversation it sends keeps calls and answers together.
\<close>

section \<open>Attempts\<close>

definition attempt_ok :: "('s \<Rightarrow> bool) \<Rightarrow> ('a \<Rightarrow> bool) \<Rightarrow> (loop_outcome \<times> 's) + 'a \<Rightarrow> bool" where
  "attempt_ok P Q m \<longleftrightarrow> (case m of Inl (_, s) \<Rightarrow> P s | Inr a \<Rightarrow> Q a)"

lemma attempt_ok_simps [simp]:
  "attempt_ok P Q (Inl (out, s)) = P s"
  "attempt_ok P Q (Inr a) = Q a"
  by (simp_all add: attempt_ok_def)

lemma attempt_then:
  assumes "attempt_ok P Q m" "\<And>a. Q a \<Longrightarrow> attempt_ok P R (f a)"
  shows "attempt_ok P R (and_then m f)"
  using assms by (cases m) (auto simp: and_then_def)

lemma attempt_mono: "attempt_ok P Q m \<Longrightarrow> (\<And>s. P s \<Longrightarrow> P' s) \<Longrightarrow> (\<And>a. Q a \<Longrightarrow> Q' a) \<Longrightarrow> attempt_ok P' Q' m"
  by (auto simp: attempt_ok_def split: sum.splits)

lemma attempt_Inr: "m = Inr a \<Longrightarrow> attempt_ok P Q m \<Longrightarrow> Q a"
  by simp

section \<open>What the environment keeps\<close>

text \<open>Every function of the environment keeps \<open>I\<close>; calls of tools need to only where \<open>A\<close> admits the tool.\<close>

definition keeps_world :: "('u \<Rightarrow> bool) \<Rightarrow> ('u \<Rightarrow> 'a \<times> 'u) \<Rightarrow> bool" where
  "keeps_world I f \<longleftrightarrow> (\<forall>w. I w \<longrightarrow> I (snd (f w)))"

definition env_keeps :: "('u, 'f, 'c) agent_env \<Rightarrow> (string \<Rightarrow> bool) \<Rightarrow> ('u \<Rightarrow> bool) \<Rightarrow> bool" where
  "env_keeps env A I \<longleftrightarrow>
     keeps_world I (en_list_tools env) \<and>
     (\<forall>tool args. A tool \<longrightarrow> keeps_world I (en_call_tool env tool args)) \<and>
     (\<forall>rq. keeps_world I (en_respond env rq)) \<and>
     (\<forall>f rq. en_fallback env = Some f \<longrightarrow> keeps_world I (f rq)) \<and>
     (\<forall>hs. en_hooks env = Some hs \<longrightarrow> (\<forall>h\<in>set hs.
        (\<forall>q c. keeps_world I (mh_pre h q c)) \<and> (\<forall>q a c. keeps_world I (mh_post h q a c)))) \<and>
     (\<forall>r q n. en_retrieve env = Some r \<longrightarrow> keeps_world I (r q n)) \<and>
     (\<forall>e t. en_embed env = Some e \<longrightarrow> keeps_world I (e t)) \<and>
     (\<forall>c wait. en_signal env = Some (c, wait) \<longrightarrow> keeps_world I c \<and> (\<forall>w. I w \<longrightarrow> I (wait w))) \<and>
     (\<forall>g s. en_phase env = Some (g, s) \<longrightarrow> (\<forall>p w. I w \<longrightarrow> I (s p w))) \<and>
     keeps_world I (en_now env) \<and> keeps_world I (en_fresh env) \<and>
     (\<forall>l a b c d e f w. en_log_tool env = Some l \<longrightarrow> I w \<longrightarrow> I (l a b c d e f w)) \<and>
     (\<forall>l a b c d e w. en_log_model env = Some l \<longrightarrow> I w \<longrightarrow> I (l a b c d e w))"

lemma keeps_worldI: "(\<And>w a w'. I w \<Longrightarrow> f w = (a, w') \<Longrightarrow> I w') \<Longrightarrow> keeps_world I f"
  by (metis keeps_world_def prod.collapse)

lemma keeps_worldD: "keeps_world I f \<Longrightarrow> f w = (a, w') \<Longrightarrow> I w \<Longrightarrow> I w'"
  by (metis keeps_world_def snd_conv)

lemma env_keeps_True [simp]: "env_keeps env A (\<lambda>_. True)"
  by (simp add: env_keeps_def keeps_world_def)

lemma in_world_keeps: "keeps_world I f \<Longrightarrow> in_world f st = (a, st') \<Longrightarrow> I (ls_world st) \<longrightarrow> I (ls_world st')"
  by (auto simp: in_world_def keeps_world_def split: prod.splits dest!: spec[where x = "ls_world st"])

lemma in_world_frame: "in_world f st = (a, st') \<Longrightarrow> \<exists>w. st' = st\<lparr>ls_world := w\<rparr>"
  by (auto simp: in_world_def split: prod.splits)

section \<open>The frame of the parts\<close>

text \<open>
  \<open>moves I xs st st'\<close>: the world still satisfies \<open>I\<close>, the items \<open>xs\<close> were appended and
  the counters that end the loop are the same.
\<close>

definition moves :: "('u \<Rightarrow> bool) \<Rightarrow> input_item list \<Rightarrow> ('u, 'c) loop_state \<Rightarrow> ('u, 'c) loop_state \<Rightarrow> bool" where
  "moves I xs st st' \<longleftrightarrow>
     (I (ls_world st) \<longrightarrow> I (ls_world st')) \<and> ls_input st' = ls_input st @ xs \<and>
     ls_progress st' = ls_progress st \<and> ls_empty_retries st' = ls_empty_retries st \<and>
     ls_exhausted st' = ls_exhausted st"

definition keeps :: "('u \<Rightarrow> bool) \<Rightarrow> ('u, 'c) loop_state \<Rightarrow> ('u, 'c) loop_state \<Rightarrow> bool" where
  "keeps I st st' \<longleftrightarrow> (I (ls_world st) \<longrightarrow> I (ls_world st'))"

lemma moves_refl [simp]: "moves I [] st st"
  by (simp add: moves_def)

lemma moves_trans: "moves I xs a b \<Longrightarrow> moves I ys b c \<Longrightarrow> moves I (xs @ ys) a c"
  by (auto simp: moves_def)

lemma moves_keeps: "moves I xs st st' \<Longrightarrow> keeps I st st'"
  by (simp add: moves_def keeps_def)

lemma kept_trans [trans]: "keeps I a b \<Longrightarrow> keeps I b c \<Longrightarrow> keeps I a c"
  by (auto simp: keeps_def)

lemma moves_world: "keeps_world I f \<Longrightarrow> in_world f st = (a, st') \<Longrightarrow> moves I [] st st'"
  using in_world_keeps[of I f st a st'] in_world_frame[of f st a st'] by (auto simp: moves_def)

lemma moves_push: "moves I xs st st' \<Longrightarrow> moves I (xs @ [i]) st (push_item i st')"
  by (auto simp: moves_def push_item_def)

lemma moves_update [simp]:
  "moves I xs st (st'\<lparr>ls_blocks := b\<rparr>) = moves I xs st st'"
  "moves I xs st (st'\<lparr>ls_actions := acts\<rparr>) = moves I xs st st'"
  "moves I xs st (st'\<lparr>ls_detector := d\<rparr>) = moves I xs st st'"
  "moves I xs st (st'\<lparr>ls_saved := n\<rparr>) = moves I xs st st'"
  "moves I xs st (st'\<lparr>ls_timestamps := ts\<rparr>) = moves I xs st st'"
  "moves I xs st (st'\<lparr>ls_prev_outputs := os\<rparr>) = moves I xs st st'"
  "moves I xs st (st'\<lparr>ls_pii := p\<rparr>) = moves I xs st st'"
  "moves I xs st (st'\<lparr>ls_total_input := n\<rparr>) = moves I xs st st'"
  "moves I xs st (st'\<lparr>ls_total_output := n\<rparr>) = moves I xs st st'"
  "moves I xs st (st'\<lparr>ls_consumed := n\<rparr>) = moves I xs st st'"
  by (simp_all add: moves_def)

text \<open>Calls and answers stand together.\<close>

fun answered :: "input_item list \<Rightarrow> bool" where
  "answered [] \<longleftrightarrow> True"
| "answered (InCall c # InOutput out # xs) \<longleftrightarrow> ro_call_id out = fn_call_id c \<and> answered xs"
| "answered (InCall c # xs) \<longleftrightarrow> False"
| "answered (InOutput out # xs) \<longleftrightarrow> False"
| "answered (x # xs) \<longleftrightarrow> answered xs"

lemma answered_append: "answered xs \<Longrightarrow> answered (xs @ ys) = answered ys"
  by (induction xs rule: answered.induct) auto

lemma ids_append [simp]:
  "call_ids (xs @ ys) = call_ids xs @ call_ids ys" "output_ids (xs @ ys) = output_ids xs @ output_ids ys"
  by (simp_all add: call_ids_def output_ids_def map_filter_def)

lemma ids_Cons [simp]:
  "call_ids (InCall c # xs) = fn_call_id c # call_ids xs" "output_ids (InCall c # xs) = output_ids xs"
  "call_ids (InOutput out # xs) = call_ids xs" "output_ids (InOutput out # xs) = ro_call_id out # output_ids xs"
  "call_ids (InMessage m # xs) = call_ids xs" "output_ids (InMessage m # xs) = output_ids xs"
  "call_ids (InReasoning r # xs) = call_ids xs" "output_ids (InReasoning r # xs) = output_ids xs"
  "call_ids (InReference ref # xs) = call_ids xs" "output_ids (InReference ref # xs) = output_ids xs"
  "call_ids [] = []" "output_ids [] = []"
  by (simp_all add: call_ids_def output_ids_def map_filter_def)

lemma answered_ids: "answered xs \<Longrightarrow> output_ids xs = call_ids xs"
  by (induction xs rule: answered.induct) auto

text \<open>\<open>adds I ids\<close>: the items appended are messages and answered calls with the ids \<open>ids\<close>.\<close>

definition adds :: "('u \<Rightarrow> bool) \<Rightarrow> string list \<Rightarrow> ('u, 'c) loop_state \<Rightarrow> ('u, 'c) loop_state \<Rightarrow> bool" where
  "adds I ids st st' \<longleftrightarrow> (\<exists>xs. moves I xs st st' \<and> answered xs \<and> call_ids xs = ids)"

lemma adds_refl [simp]: "adds I [] st st"
  unfolding adds_def by (rule exI[of _ "[]"]) simp

lemma adds_trans: "adds I a st st1 \<Longrightarrow> adds I b st1 st2 \<Longrightarrow> adds I (a @ b) st st2"
  unfolding adds_def by (metis moves_trans answered_append ids_append(1))

lemma adds_then: "adds I ids st st1 \<Longrightarrow> adds I [] st1 st2 \<Longrightarrow> adds I ids st st2"
  using adds_trans by fastforce

lemma moves_adds: "moves I [] st st' \<Longrightarrow> adds I [] st st'"
  unfolding adds_def by (rule exI[of _ "[]"]) simp

lemma adds_keeps: "adds I ids st st' \<Longrightarrow> keeps I st st'"
  by (auto simp: adds_def moves_keeps)

lemma message_item [simp]:
  "answered (user_item t # xs) = answered xs" "call_ids (user_item t # xs) = call_ids xs"
  "answered (system_item t # xs) = answered xs" "call_ids (system_item t # xs) = call_ids xs"
  by (simp_all add: user_item_def system_item_def text_message_def)

lemma adds_message:
  assumes "moves I [] st st'"
  shows "adds I [] st (push_item (user_item t) st')" "adds I [] st (push_item (system_item t) st')"
  unfolding adds_def using moves_push[OF assms, of "user_item t"] moves_push[OF assms, of "system_item t"]
  by (auto intro: exI[of _ "[user_item t]"] exI[of _ "[system_item t]"])

lemma moves_append: "moves I xs a b \<Longrightarrow> moves I [] b c \<Longrightarrow> moves I xs a c"
  using moves_trans by fastforce

text \<open>An attempt that ends keeps the world, one that goes on also appends the items.\<close>

abbreviation goes :: "('u \<Rightarrow> bool) \<Rightarrow> input_item list \<Rightarrow> ('u, 'c) loop_state \<Rightarrow> ('u, 'c, ('u, 'c) loop_state) attempt \<Rightarrow> bool" where
  "goes I xs st \<equiv> attempt_ok (keeps I st) (moves I xs st)"

lemma signal_goes:
  assumes "env_keeps env A I"
  shows "goes I [] st (check_signal env run_id st)"
proof (cases "en_signal env")
  case (Some s)
  obtain check wait where s: "s = (check, wait)" by (cases s)
  obtain sig st1 where w: "in_world check st = (sig, st1)" by (cases "in_world check st")
  have m: "moves I [] st st1" using moves_world[OF _ w, of I] assms Some s by (auto simp: env_keeps_def)
  moreover have "moves I [] st (st1\<lparr>ls_world := wait (ls_world st1)\<rparr>)"
    using m assms Some s by (auto simp: env_keeps_def moves_def)
  ultimately show ?thesis using Some s w by (cases sig) (simp_all add: check_signal_def moves_keeps)
qed (simp add: check_signal_def)

lemma retrieve_adds:
  assumes "env_keeps env A I"
  shows "adds I [] st (retrieve_context env cfg prompt st)"
proof (cases "retrieve_context env cfg prompt st = st")
  case False
  then obtain retrieve n where r: "en_retrieve env = Some retrieve"
    and n: "retrieve_context env cfg prompt st = (case in_world (retrieve prompt n) st of
        (found, st1) \<Rightarrow> if found \<noteq> [] then push_item (system_item (''[Retrieved context]'' @ newline @ found)) st1
          else st1)"
    by (auto simp: retrieve_context_def Let_def split: option.splits if_splits)
  obtain found st1 where w: "in_world (retrieve prompt n) st = (found, st1)" by (cases "in_world (retrieve prompt n) st")
  have "moves I [] st st1" using moves_world[OF _ w, of I] assms r by (auto simp: env_keeps_def)
  then show ?thesis using n w by (simp add: adds_message moves_adds)
qed simp

section \<open>The parts of a round\<close>

text \<open>An attempt that ends keeps the world, one that goes on has added answered calls with these ids.\<close>

abbreviation extends :: "('u \<Rightarrow> bool) \<Rightarrow> string list \<Rightarrow> ('u, 'c) loop_state \<Rightarrow> ('u, 'c, ('u, 'c) loop_state) attempt \<Rightarrow> bool" where
  "extends I ids st \<equiv> attempt_ok (keeps I st) (adds I ids st)"

lemma keeps_refl [simp]: "keeps I st st"
  by (simp add: keeps_def)

lemma extends_then:
  assumes "extends I a st m" "\<And>st1. adds I a st st1 \<Longrightarrow> extends I b st1 (f st1)"
  shows "extends I (a @ b) st (and_then m f)"
proof (rule attempt_then[OF assms(1)])
  fix st1
  assume a: "adds I a st st1"
  show "attempt_ok (keeps I st) (adds I (a @ b) st) (f st1)"
    by (rule attempt_mono[OF assms(2)[OF a]]) (blast intro: adds_trans[OF a] kept_trans[OF adds_keeps[OF a]])+
qed

lemma signal_adds:
  assumes "env_keeps env A I"
  shows "extends I [] st (check_signal env run_id st)"
  by (rule attempt_mono[OF signal_goes[OF assms]]) (auto intro: moves_adds)

lemma account_adds:
  assumes "env_keeps env A I"
  shows "extends I [] st (account_usage env cfg run_id response st)"
proof (cases "mr_usage response")
  case (Some u)
  define w where "w = (case en_log_model env of None \<Rightarrow> ls_world st
    | Some log \<Rightarrow> log run_id (ls_progress st) (us_input u) (us_output u) (response_kind response) (ls_world st))"
  have "moves I [] st (st\<lparr>ls_world := w\<rparr>)"
    using assms by (auto simp: moves_def w_def env_keeps_def split: option.splits)
  moreover from this have "keeps I st (st\<lparr>ls_world := w\<rparr>)" by (rule moves_keeps)
  ultimately show ?thesis
    using Some by (auto simp: account_usage_def Let_def w_def[symmetric] keeps_def moves_def intro!: moves_adds)
qed (simp add: account_usage_def)

lemma note_adds: "adds I [] st (note_reasoning cfg response st)"
  by (auto simp: note_reasoning_def adds_message split: option.splits)

lemma repetition_adds: "extends I [] st (check_repetition env response st)"
  by (auto simp: check_repetition_def Let_def keeps_def moves_def intro!: moves_adds)

lemma filter_pii_world: "filter_pii env t st = Some (x, st1) \<Longrightarrow> ls_world st1 = ls_world st"
  by (auto simp: filter_pii_def split: option.splits)

text \<open>A run that answers goes on at most once, when it has not asked for a report before.\<close>

lemma answer_goes:
  "attempt_ok (keeps I st) (\<lambda>st'. ls_empty_retries st = 0 \<and> adds I [] (st\<lparr>ls_empty_retries := 1\<rparr>) st')
     (final_answer env run_id response st)"
  by (auto simp: final_answer_def Let_def keeps_def adds_message dest!: filter_pii_world split: option.split)

lemma budget_goes:
  "attempt_ok (keeps I st)
     (\<lambda>st'. (ls_progress st < tl_max_iterations cfg \<and> st' = st) \<or>
            (\<not> ls_exhausted st \<and> adds I [] (st\<lparr>ls_exhausted := True\<rparr>) st'))
     (check_budget cfg st)"
  by (auto simp: check_budget_def adds_message)

section \<open>Tool calls\<close>

lemma score_keeps:
  assumes e: "\<And>t. keeps_world I (embed_fn t)"
  shows "keeps_world I (score_paragraphs fo embed_fn q i ps)"
proof (induction ps arbitrary: i)
  case (Cons p ps)
  show ?case
    by (rule keeps_worldI) (auto split: prod.splits dest: keeps_worldD[OF e] keeps_worldD[OF Cons])
qed (simp add: keeps_world_def)

lemma extractive_keeps:
  assumes e: "\<And>t. keeps_world I (embed_fn t)"
  shows "keeps_world I (compress_extractive fo embed_fn t q n)"
proof (rule keeps_worldI)
  fix w r w'
  assume w: "I w" and c: "compress_extractive fo embed_fn t q n w = (r, w')"
  obtain x w1 where 1: "embed_fn (truncate_str q 512) w = (x, w1)" by fastforce
  have w1: "I w1" using keeps_worldD[OF e 1 w] .
  show "I w'"
  proof (cases x)
    case (Inr v)
    obtain ss w2 where 2: "score_paragraphs fo embed_fn v 0 (split_paragraphs t) w1 = (ss, w2)" by fastforce
    have w2: "I w2" using keeps_worldD[OF score_keeps[OF e] 2 w1] .
    have "w' = w \<or> w' = w2"
      using c 1 2 Inr by (simp add: compress_extractive_def Let_def split: if_splits list.splits prod.splits)
    then show ?thesis using w w2 by blast
  qed (use c 1 w w1 in \<open>auto simp: compress_extractive_def Let_def split: if_splits\<close>)
qed

lemma compress_keeps:
  assumes "env_keeps env A I"
  shows "keeps_world I (compress_tool_output env t n fill start q)"
proof (rule keeps_worldI)
  fix w r w'
  assume w: "I w" and c: "compress_tool_output env t n fill start q w = (r, w')"
  show "I w'"
  proof (cases "\<exists>embed_fn. en_embed env = Some embed_fn")
    case True
    then obtain embed_fn where em: "en_embed env = Some embed_fn" by blast
    then have "\<And>t. keeps_world I (embed_fn t)" using assms by (auto simp: env_keeps_def)
    note x = keeps_worldD[OF extractive_keeps[OF this] _ w]
    show ?thesis
      using c w em by (auto simp: compress_tool_output_def Let_def dest: x split: if_splits option.splits sum.splits prod.splits)
  qed (use c w in \<open>auto simp: compress_tool_output_def Let_def split: if_splits option.splits\<close>)
qed

lemma compress_moves:
  assumes "env_keeps env A I"
  shows "attempt_ok (keeps I st) (\<lambda>(shown, st'). moves I [] st st') (compress_result env cfg raw st)"
proof (cases "tl_compression_start cfg")
  case (Some start)
  obtain r st1 where 1: "in_world (compress_tool_output env raw (effective_max_tool_output cfg)
      (fill_ratio (en_floats env) cfg st) start (tl_system_prompt cfg)) st = (r, st1)" by fastforce
  have "moves I [] st st1" by (rule moves_world[OF compress_keeps[OF assms] 1])
  then show ?thesis using Some 1 by (auto simp: compress_result_def Let_def moves_keeps split: option.split)
qed (simp add: compress_result_def)

text \<open>A call that is not made leaves a block.\<close>

lemma failed_moves:
  assumes "env_keeps env A I"
  shows "attempt_ok (keeps I st) (moves I [] st) (failed_block env tool args message st)"
proof -
  obtain i st1 where 1: "in_world (en_fresh env) st = (i, st1)" by fastforce
  obtain start st2 where 2: "in_world (en_now env) st1 = (start, st2)" by fastforce
  obtain fin st3 where 3: "in_world (en_now env) st2 = (fin, st3)" by fastforce
  have "keeps_world I (en_fresh env)" "keeps_world I (en_now env)" using assms by (simp_all add: env_keeps_def)
  then have "moves I [] st st3"
    using moves_append moves_world[OF _ 1] moves_world[OF _ 2] moves_world[OF _ 3] by metis
  then show ?thesis by (auto simp: failed_block_def 1 2 3 moves_keeps split: option.split)
qed

text \<open>
  A call that is made appends its answer; \<open>A\<close> admits the tool.  The answer follows the call's copy.
\<close>

lemma warn_moves:
  assumes "env_keeps env A I"
  shows "\<exists>xs. moves I xs st (warn_loop env warning st) \<and> answered xs \<and> call_ids xs = []"
proof (cases warning)
  case (Some message)
  have "moves I [] st (case en_phase env of None \<Rightarrow> st
      | Some (_, set_phase) \<Rightarrow> st\<lparr>ls_world := set_phase TrajectoryConvergence (ls_world st)\<rparr>)"
    using assms by (auto simp: env_keeps_def moves_def split: option.split)
  from moves_push[OF this, of "system_item message"] show ?thesis
    using Some by (intro exI[of _ "[system_item message]"]) (simp add: warn_loop_def)
qed (auto simp: warn_loop_def intro: exI[of _ "[]"])

lemma log_call_moves:
  assumes "env_keeps env A I"
  shows "moves I [] st (log_call env tag call raw duration st)"
  using assms by (auto simp: log_call_def env_keeps_def moves_def split: option.split)

definition answers :: "('u \<Rightarrow> bool) \<Rightarrow> function_call \<Rightarrow> ('u, 'c) loop_state \<Rightarrow> ('u, 'c) loop_state \<Rightarrow> bool" where
  "answers I call st st' \<longleftrightarrow>
     (\<exists>xs shown. moves I (answer_call call shown # xs) st st' \<and> answered xs \<and> call_ids xs = [])"

lemma answers_tail:
  assumes k: "env_keeps env A I" and m: "moves I [] st st1"
    and w: "in_world (en_now env) (warn_loop env warning (push_item (answer_call call shown) (st1\<lparr>ls_actions := acts\<rparr>)))
      = (now, st2)"
  shows "answers I call st (st2\<lparr>ls_timestamps := ts\<rparr>)"
proof -
  let ?st = "push_item (answer_call call shown) (st1\<lparr>ls_actions := acts\<rparr>)"
  have p: "moves I [answer_call call shown] st ?st"
    using moves_push[of I "[]" st "st1\<lparr>ls_actions := acts\<rparr>" "answer_call call shown"] m by simp
  obtain xs where x: "moves I xs ?st (warn_loop env warning ?st)" "answered xs" "call_ids xs = []"
    using warn_moves[OF k] by blast
  have "keeps_world I (en_now env)" using k by (simp add: env_keeps_def)
  from moves_append[OF moves_trans[OF p x(1)] moves_world[OF this w]]
  show ?thesis using x(2,3) by (auto simp: answers_def)
qed

lemma make_call_answers:
  assumes k: "env_keeps env A I" and a: "A (fn_name call)"
  shows "attempt_ok (keeps I st) (answers I call st) (make_call env cfg tag call args st)"
proof -
  have kf: "keeps_world I (en_fresh env)" and kn: "keeps_world I (en_now env)"
    and kc: "keeps_world I (en_call_tool env (fn_name call) args)" using k a by (auto simp: env_keeps_def)
  obtain counts warning where 0: "detector_record env (tl_loop_threshold cfg) (fn_name call) args (ls_detector st)
      = (counts, warning)" by fastforce
  obtain i st1 where 1: "in_world (en_fresh env) (st\<lparr>ls_detector := counts\<rparr>) = (i, st1)" by fastforce
  obtain start st2 where 2: "in_world (en_now env) st1 = (start, st2)" by fastforce
  obtain r st3 where 3: "in_world (en_call_tool env (fn_name call) args) st2 = (r, st3)" by fastforce
  obtain fin st4 where 4: "in_world (en_now env) st3 = (fin, st4)" by fastforce
  have m0: "moves I [] st (st\<lparr>ls_detector := counts\<rparr>)" by simp
  have m3: "moves I [] st st3"
    by (rule moves_append[OF moves_append[OF moves_append[OF m0 moves_world[OF kf 1]] moves_world[OF kn 2]]
          moves_world[OF kc 3]])
  have m4: "moves I [] st st4" by (rule moves_append[OF m3 moves_world[OF kn 4]])
  show ?thesis
  proof (cases r)
    case (Inl e)
    then show ?thesis using m3 by (simp add: make_call_def 0 1 2 3 moves_keeps)
  next
    case (Inr result)
    show ?thesis
    proof (cases "block_complete fin (extract_text result) (is_err result) (block_new i start (fn_name call) args)")
      case None
      then show ?thesis using m4 Inr by (simp add: make_call_def 0 1 2 3 4 Let_def moves_keeps)
    next
      case (Some b)
      define d where "d = (case tb_duration_ms b of Some d \<Rightarrow> d | None \<Rightarrow> 0)"
      define st5 where "st5 = log_call env tag call (extract_text result) d (st4\<lparr>ls_blocks := ls_blocks st4 @ [b]\<rparr>)"
      have m5: "moves I [] st st5"
        unfolding st5_def by (rule moves_append[OF _ log_call_moves[OF k]]) (use m4 in simp)
      have "attempt_ok (keeps I st) (answers I call st)
        (and_then (compress_result env cfg (extract_text result) st5) (\<lambda>(shown, st6).
           let st7 = warn_loop env warning (push_item (answer_call call shown)
                (st6\<lparr>ls_actions := ls_actions st6 @
                   [\<lparr>ar_action = classify_action (fn_name call) args, ar_success = (\<not> is_err result),
                     ar_duration_ms = d, ar_output_preview = take_chars 200 shown\<rparr>]\<rparr>))
           in case in_world (en_now env) st7 of
                (now, st8) \<Rightarrow> Inr (st8\<lparr>ls_timestamps := ls_timestamps st8 @ [now]\<rparr>)))"
      proof (rule attempt_then[where Q = "\<lambda>(shown, st6). moves I [] st st6"])
        show "attempt_ok (keeps I st) (\<lambda>(shown, st6). moves I [] st st6) (compress_result env cfg (extract_text result) st5)"
          by (rule attempt_mono[OF compress_moves[OF k]])
             (auto intro: kept_trans[OF moves_keeps[OF m5]] moves_append[OF m5])
      qed (auto simp: Let_def split: prod.split intro: answers_tail[OF k])
      then show ?thesis
        using Some Inr by (simp add: make_call_def 0 1 2 3 4 Let_def d_def st5_def)
    qed
  qed
qed

lemma replay_ids [simp]: "call_ids (replay_call c # xs) = fn_call_id c # call_ids xs"
  by (simp add: replay_call_def)

lemma answered_pair [simp]:
  "answered (replay_call c # answer_call c shown # xs) = answered xs"
  "call_ids (answer_call c shown # xs) = call_ids xs"
  by (simp_all add: replay_call_def answer_call_def)

lemma answers_adds:
  assumes "moves I [replay_call call] st st1" "answers I call st1 st2"
  shows "adds I [fn_call_id call] st st2"
proof -
  obtain xs shown where x: "moves I (answer_call call shown # xs) st1 st2" "answered xs" "call_ids xs = []"
    using assms(2) by (auto simp: answers_def)
  show ?thesis using moves_trans[OF assms(1) x(1)] x(2,3)
    unfolding adds_def by (auto intro!: exI[of _ "replay_call call # answer_call call shown # xs"])
qed

lemma execute_call_adds:
  assumes k: "env_keeps env A I" and a: "\<And>n. n \<in> set names \<Longrightarrow> A n"
  shows "extends I [fn_call_id call] st (execute_call env cfg tag names call st)"
proof (cases "fn_name call \<in> set names")
  case False
  show ?thesis
    unfolding execute_call_def using False
    by (auto simp: Let_def adds_def push_item_def moves_def
        intro!: attempt_then[OF failed_moves[OF k]] exI[of _ "[replay_call call, answer_call call x]" for x])
next
  case True
  let ?st = "push_item (replay_call call) st"
  have r: "moves I [replay_call call] st ?st" using moves_push[OF moves_refl, of I "replay_call call" st] by simp
  have made: "extends I [fn_call_id call] st (make_call env cfg tag call args ?st)" for args
    by (rule attempt_mono[OF make_call_answers[OF k a[OF True]]])
       (auto intro: kept_trans[OF moves_keeps[OF r]] answers_adds[OF r])
  have bad: "extends I [fn_call_id call] st
      (and_then (failed_block env tool args message ?st) (\<lambda>st2. Inr (push_item (answer_call call message) st2)))"
    for tool args message
  proof (rule attempt_then)
    show "attempt_ok (keeps I st) (moves I [] ?st) (failed_block env tool args message ?st)"
      by (rule attempt_mono[OF failed_moves[OF k]]) (auto intro: kept_trans[OF moves_keeps[OF r]])
    fix st2
    assume "moves I [] ?st st2"
    from answers_adds[OF r, of "push_item (answer_call call message) st2"] moves_push[OF this, of "answer_call call message"]
    show "extends I [fn_call_id call] st (Inr (push_item (answer_call call message) st2))"
      by (force simp: answers_def)
  qed
  show ?thesis
    unfolding execute_call_def using True made bad moves_keeps[OF r] by (auto simp: Let_def split: option.split sum.split)
qed

lemma execute_calls_adds:
  assumes k: "env_keeps env A I" and a: "\<And>n. n \<in> set names \<Longrightarrow> A n"
  shows "extends I (map fn_call_id calls) st (execute_calls env cfg tag names calls st)"
proof (induction calls arbitrary: st)
  case (Cons c cs)
  have "extends I [fn_call_id c] st (execute_call env cfg tag names c st)"
    by (rule execute_call_adds[OF k a])
  from extends_then[OF this Cons] show ?case by simp
qed simp

end
