(* ===== verification/AgentLoopRuns.thy ===== *)
theory AgentLoopRuns
  imports AgentLoopFacts
begin

text \<open>
  Rounds and runs of the tool loop: what one round does to the counters that end the loop, that the
  loop returns, what it may call, and that the conversation it sends is well formed.
\<close>

section \<open>The model's turn\<close>

text \<open>As \<open>moves\<close>, but the conversation may be another: a hook can rewrite the request.\<close>

definition turns :: "('u \<Rightarrow> bool) \<Rightarrow> ('u, 'c) loop_state \<Rightarrow> ('u, 'c) loop_state \<Rightarrow> bool" where
  "turns I st st' \<longleftrightarrow> moves I [] st (st'\<lparr>ls_input := ls_input st\<rparr>)"

lemma turns_moves: "moves I xs st st' \<Longrightarrow> turns I st st'"
  by (simp add: turns_def moves_def)

lemma turns_adds: "adds I ids st st' \<Longrightarrow> turns I st st'"
  by (auto simp: adds_def turns_moves)

lemma turns_trans: "turns I a b \<Longrightarrow> turns I b c \<Longrightarrow> turns I a c"
  by (simp add: turns_def moves_def)

lemma turns_keeps: "turns I st st' \<Longrightarrow> keeps I st st'"
  by (simp add: turns_def moves_def keeps_def)

lemma turns_input [simp]: "turns I st (st'\<lparr>ls_input := xs\<rparr>) = turns I st st'"
  by (simp add: turns_def moves_def)

lemma turns_refl [simp]: "turns I st st"
  by (simp add: turns_def moves_def)

lemma respond_moves:
  assumes "keeps_world I (f rq)"
  shows "attempt_ok (keeps I st) (\<lambda>(r, st'). moves I [] st st') (respond_with f rq st)"
proof -
  obtain r st1 where 1: "in_world (f rq) st = (r, st1)" by fastforce
  have "moves I [] st st1" by (rule moves_world[OF assms 1])
  then show ?thesis by (simp add: respond_with_def 1 moves_keeps split: sum.split)
qed

lemma pre_keeps:
  assumes "\<And>h q c. h \<in> set hs \<Longrightarrow> keeps_world I (mh_pre h q c)"
  shows "keeps_world I (run_pre_model hs rq c)"
  using assms
proof (induction hs arbitrary: rq)
  case (Cons h hs)
  have h: "keeps_world I (mh_pre h rq c)" and hs: "\<And>rq. keeps_world I (run_pre_model hs rq c)" using Cons by auto
  show ?case
    by (rule keeps_worldI)
       (auto split: prod.splits option.splits pre_model_decision.splits dest: keeps_worldD[OF h] keeps_worldD[OF hs])
qed (simp add: keeps_world_def)

lemma post_keeps:
  assumes "\<And>h q a c. h \<in> set hs \<Longrightarrow> keeps_world I (mh_post h q a c)"
  shows "keeps_world I (post_model_loop hs rq r c)"
  using assms
proof (induction hs arbitrary: r)
  case (Cons h hs)
  have h: "keeps_world I (mh_post h rq r c)" and hs: "\<And>r. keeps_world I (post_model_loop hs rq r c)" using Cons by auto
  show ?case
    by (rule keeps_worldI)
       (auto split: prod.splits option.splits post_model_decision.splits dest: keeps_worldD[OF h] keeps_worldD[OF hs])
qed (simp add: keeps_world_def)

lemma pre_model_moves:
  assumes "env_keeps env A I"
  shows "attempt_ok (keeps I st) (\<lambda>(rq, st'). moves I [] st st') (pre_model env c rq st)"
proof (cases "en_hooks env")
  case (Some hs)
  obtain r st1 where 1: "in_world (run_pre_model hs rq c) st = (r, st1)" by fastforce
  have "moves I [] st st1"
    by (rule moves_world[OF pre_keeps 1]) (use assms Some in \<open>auto simp: env_keeps_def\<close>)
  then show ?thesis using Some by (simp add: pre_model_def 1 moves_keeps split: pre_model_outcome.split)
qed (simp add: pre_model_def)

lemma post_model_moves:
  assumes "env_keeps env A I"
  shows "attempt_ok (keeps I st) (\<lambda>(r, st'). moves I [] st st') (post_model env c rq response st)"
proof (cases "en_hooks env")
  case (Some hs)
  obtain r st1 where 1: "in_world (run_post_model hs rq response c) st = (r, st1)" by fastforce
  have m: "moves I [] st st1"
    by (rule moves_world[OF _ 1, unfolded run_post_model_def], rule post_keeps)
       (use assms Some in \<open>auto simp: env_keeps_def\<close>)
  have "attempt_ok (keeps I st) (\<lambda>(r, st'). moves I [] st st') (respond_with (en_respond env) q st1)" for q
    by (rule attempt_mono[OF respond_moves]) (use assms in \<open>auto simp: env_keeps_def intro: kept_trans[OF moves_keeps[OF m]] moves_append[OF m]\<close>)
  then show ?thesis using m Some by (simp add: post_model_def 1 moves_keeps split: post_model_outcome.split)
qed (simp add: post_model_def)

lemma fallback_moves:
  assumes "env_keeps env A I"
  shows "attempt_ok (keeps I st) (\<lambda>(r, st'). moves I [] st st') (ask_fallback env rq response st)"
proof -
  have "attempt_ok (keeps I st) (\<lambda>(r, st'). moves I [] st st')
      (and_then (respond_with f q st) (\<lambda>(other, st1). Inr (if detect_model_refusal other then response else other, st1)))"
    if "en_fallback env = Some f" for f q
    by (rule attempt_then[OF respond_moves]) (use assms that in \<open>auto simp: env_keeps_def\<close>)
  then show ?thesis by (auto simp: ask_fallback_def split: option.split)
qed

lemma chain_moves:
  assumes "attempt_ok (keeps I a) (\<lambda>(x, b). turns I a b) m"
    and "\<And>x b. turns I a b \<Longrightarrow> attempt_ok (keeps I b) (\<lambda>(y, c). turns I b c) (f (x, b))"
  shows "attempt_ok (keeps I a) (\<lambda>(y, c). turns I a c) (and_then m f)"
proof (rule attempt_then[OF assms(1)], clarify)
  fix x b
  assume t: "turns I a b"
  show "attempt_ok (keeps I a) (\<lambda>(y, c). turns I a c) (f (x, b))"
    by (rule attempt_mono[OF assms(2)[OF t]]) (auto intro: kept_trans[OF turns_keeps[OF t]] turns_trans[OF t])
qed

lemma moves_turns: "attempt_ok P (\<lambda>(r, st'). moves I xs st st') m \<Longrightarrow> attempt_ok P (\<lambda>(r, st'). turns I st st') m"
  by (erule attempt_mono) (auto intro: turns_moves)

lemma model_turn_turns:
  assumes k: "env_keeps env A I"
  shows "attempt_ok (keeps I st) (\<lambda>(r, st'). turns I st st') (model_turn env cfg run_id tools st)"
proof -
  have r: "keeps_world I (en_respond env q)" for q using k by (simp add: env_keeps_def)
  have f: "attempt_ok (keeps I b) (\<lambda>(r, st'). turns I b st') (ask_fallback env q x (b\<lparr>ls_input := xs\<rparr>))" for q x xs b
    by (rule attempt_mono[OF fallback_moves[OF k]]) (auto simp: keeps_def turns_def moves_def)
  show ?thesis
    unfolding model_turn_def Let_def
    by (rule chain_moves, rule moves_turns[OF pre_model_moves[OF k]], clarsimp,
        rule chain_moves, rule moves_turns[OF respond_moves[OF r]], clarsimp,
        rule chain_moves, rule moves_turns[OF post_model_moves[OF k]], clarsimp, rule f)
qed

section \<open>A round\<close>

text \<open>
  After the budget check: the run had an iteration left, or it has just been told to conclude.
\<close>

definition budgeted :: "('u \<Rightarrow> bool) \<Rightarrow> nat \<Rightarrow> ('u, 'c) loop_state \<Rightarrow> ('u, 'c) loop_state \<Rightarrow> bool" where
  "budgeted I n st st' \<longleftrightarrow>
     keeps I st st' \<and> ls_progress st' = ls_progress st \<and> ls_empty_retries st' = ls_empty_retries st \<and>
     (ls_progress st < n \<and> ls_exhausted st' = ls_exhausted st \<or> \<not> ls_exhausted st \<and> ls_exhausted st')"

definition rounds_left :: "nat \<Rightarrow> ('u, 'c) loop_state \<Rightarrow> nat" where
  "rounds_left n st =
     (n - ls_progress st) + (if ls_exhausted st then 0 else 1) + (1 - ls_empty_retries st)"

lemma budgeted_turns: "budgeted I n st st1 \<Longrightarrow> turns I st1 st2 \<Longrightarrow> budgeted I n st st2"
  unfolding budgeted_def turns_def moves_def keeps_def by (elim conjE, intro conjI) auto

lemma budgeted_keeps: "budgeted I n st st1 \<Longrightarrow> keeps I st st1"
  by (simp add: budgeted_def)

lemma check_budget_goes:
  assumes "turns I st st1"
  shows "attempt_ok (keeps I st) (budgeted I (tl_max_iterations cfg) st) (check_budget cfg st1)"
  using assms by (auto simp: check_budget_def budgeted_def turns_def moves_def keeps_def push_item_def)

text \<open>Every round that counts brings the end nearer.\<close>

definition counting :: "'f loop_config \<Rightarrow> bool" where
  "counting cfg \<longleftrightarrow> (case tl_non_progress cfg of None \<Rightarrow> True | Some tools \<Rightarrow> tools = [])"

lemma forget_turns:
  assumes "env_keeps env A I"
  shows "turns I st (forget_old_calls env st)"
proof -
  obtain now st1 where 1: "in_world (en_now env) st = (now, st1)" by fastforce
  have "keeps_world I (en_now env)" using assms by (simp add: env_keeps_def)
  from moves_world[OF this 1] show ?thesis by (auto simp: forget_old_calls_def 1 intro!: turns_moves)
qed

lemma compact_turns: "turns I st (compact_if_due env cfg st)"
  by (simp add: compact_if_due_def Let_def)

lemma executed_closer:
  assumes "budgeted I n st st1" "turns I (count_round cfg calls st1) st2" "calls \<noteq> []" "n = tl_max_iterations cfg"
  shows "keeps I st st2 \<and> (counting cfg \<longrightarrow> rounds_left n st2 < rounds_left n st)"
  using assms
  by (cases calls)
    (auto simp: budgeted_def keeps_def turns_def moves_def rounds_left_def count_round_def counting_def split: option.splits if_splits)

lemma answered_closer:
  assumes "budgeted I n st st1" "ls_empty_retries st1 = 0" "adds I [] (st1\<lparr>ls_empty_retries := 1\<rparr>) st2"
  shows "keeps I st st2 \<and> rounds_left n st2 < rounds_left n st"
  using assms by (auto simp: budgeted_def keeps_def adds_def moves_def rounds_left_def)

definition last_part ::
  "('u, 'f, 'c) agent_env \<Rightarrow> 'f loop_config \<Rightarrow> string \<Rightarrow> agent_tool list \<Rightarrow> model_response \<Rightarrow> ('u, 'c) loop_state
     \<Rightarrow> ('u, 'c, ('u, 'c) loop_state) attempt" where
  "last_part env cfg run_id tools r st =
     (if response_calls r = [] then final_answer env run_id r st
      else and_then (execute_calls env cfg (run_id, ls_progress st) (map at_name tools) (response_calls r)
                        (forget_old_calls env (count_round cfg (response_calls r) st)))
              (\<lambda>st6. Inr (compact_if_due env cfg st6)))"

lemma loop_round_parts:
  "loop_round env cfg prompt run_id tools st =
     and_then (check_signal env run_id st) (\<lambda>st1.
     and_then (check_budget cfg st1) (\<lambda>st2.
     and_then (model_turn env cfg run_id tools (retrieve_context env cfg prompt st2)) (\<lambda>(response, st3).
     and_then (account_usage env cfg run_id response st3) (\<lambda>st4.
     and_then (check_repetition env response (note_reasoning cfg response st4))
       (last_part env cfg run_id tools response)))))"
  unfolding loop_round_def last_part_def[abs_def] Let_def by (rule refl)

abbreviation closer :: "('u \<Rightarrow> bool) \<Rightarrow> 'f loop_config \<Rightarrow> ('u, 'c) loop_state \<Rightarrow> ('u, 'c) loop_state \<Rightarrow> bool" where
  "closer I cfg st st' \<equiv> keeps I st st' \<and>
     (counting cfg \<longrightarrow> rounds_left (tl_max_iterations cfg) st' < rounds_left (tl_max_iterations cfg) st)"

lemma last_part_goes:
  assumes k: "env_keeps env A I" and a: "\<And>t. t \<in> set tools \<Longrightarrow> A (at_name t)"
    and b: "budgeted I (tl_max_iterations cfg) st st5"
  shows "attempt_ok (keeps I st) (closer I cfg st) (last_part env cfg run_id tools r st5)"
proof (cases "response_calls r = []")
  case True
  have "attempt_ok (keeps I st) (closer I cfg st) (final_answer env run_id r st5)"
    by (rule attempt_mono[OF answer_goes]) (auto intro: kept_trans[OF budgeted_keeps[OF b]] dest: answered_closer[OF b])
  then show ?thesis using True by (simp add: last_part_def)
next
  case False
  let ?st = "count_round cfg (response_calls r) st5"
  have c: "keeps I st ?st" using budgeted_keeps[OF b] by (auto simp: keeps_def count_round_def)
  have t: "turns I ?st (forget_old_calls env ?st)" by (rule forget_turns[OF k])
  have "attempt_ok (keeps I st) (turns I ?st) (execute_calls env cfg (run_id, ls_progress st5) (map at_name tools)
      (response_calls r) (forget_old_calls env ?st))"
    by (rule attempt_mono[OF execute_calls_adds[OF k]])
       (use a in \<open>auto intro: kept_trans[OF c] kept_trans[OF turns_keeps[OF t]] turns_trans[OF t] turns_adds\<close>)
  from attempt_then[OF this, of "closer I cfg st" "\<lambda>st6. Inr (compact_if_due env cfg st6)"] show ?thesis
    using False executed_closer[OF b turns_trans[OF _ compact_turns] False refl] by (auto simp: last_part_def)
qed

text \<open>The proof follows the round: at each step the state is one the budget check admitted.\<close>

lemma round_goes:
  assumes k: "env_keeps env A I" and a: "\<And>t. t \<in> set tools \<Longrightarrow> A (at_name t)"
  shows "attempt_ok (keeps I st) (closer I cfg st) (loop_round env cfg prompt run_id tools st)"
  unfolding loop_round_parts
proof (rule attempt_then[where Q = "turns I st"])
  let ?n = "tl_max_iterations cfg" and ?P = "keeps I st"
  have lift: "attempt_ok ?P (budgeted I ?n st) m" if "budgeted I ?n st st1" "extends I ids st1 m" for st1 ids m
    by (rule attempt_mono[OF that(2)])
       (auto intro: kept_trans[OF budgeted_keeps[OF that(1)]] budgeted_turns[OF that(1)] turns_adds)
  show "attempt_ok ?P (turns I st) (check_signal env run_id st)"
    by (rule attempt_mono[OF signal_adds[OF k]]) (auto intro: turns_adds)
  fix st1
  assume "turns I st st1"
  then show "attempt_ok ?P (closer I cfg st) (and_then (check_budget cfg st1) (\<lambda>st2.
     and_then (model_turn env cfg run_id tools (retrieve_context env cfg prompt st2)) (\<lambda>(response, st3).
     and_then (account_usage env cfg run_id response st3) (\<lambda>st4.
     and_then (check_repetition env response (note_reasoning cfg response st4))
       (last_part env cfg run_id tools response)))))"
  proof (rule attempt_then[OF check_budget_goes])
    fix st2
    let ?st = "retrieve_context env cfg prompt st2"
    assume "budgeted I ?n st st2"
    from budgeted_turns[OF this turns_adds[OF retrieve_adds[OF k]]] have b: "budgeted I ?n st ?st" .
    have "attempt_ok ?P (\<lambda>(r, st3). budgeted I ?n st st3) (model_turn env cfg run_id tools ?st)"
      by (rule attempt_mono[OF model_turn_turns[OF k]])
         (auto intro: kept_trans[OF budgeted_keeps[OF b]] budgeted_turns[OF b])
    then show "attempt_ok ?P (closer I cfg st) (and_then (model_turn env cfg run_id tools ?st)
     (\<lambda>(response, st3). and_then (account_usage env cfg run_id response st3) (\<lambda>st4.
     and_then (check_repetition env response (note_reasoning cfg response st4))
       (last_part env cfg run_id tools response))))"
      by (rule attempt_then)
         (auto intro!: attempt_then[OF lift[OF _ account_adds[OF k]]] attempt_then[OF lift[OF _ repetition_adds]]
            last_part_goes[OF k a] budgeted_turns[OF _ turns_adds[OF note_adds]])
  qed
qed

section \<open>Runs\<close>

text \<open>The state after \<open>k\<close> rounds, or how the run ended before.\<close>

fun after_rounds ::
  "('u, 'f, 'c) agent_env \<Rightarrow> 'f loop_config \<Rightarrow> string \<Rightarrow> string \<Rightarrow> agent_tool list \<Rightarrow> nat \<Rightarrow> ('u, 'c) loop_state
     \<Rightarrow> ('u, 'c, ('u, 'c) loop_state) attempt" where
  "after_rounds env cfg prompt run_id tools 0 st = Inr st"
| "after_rounds env cfg prompt run_id tools (Suc k) st =
     and_then (loop_round env cfg prompt run_id tools st) (after_rounds env cfg prompt run_id tools k)"

definition tool_loop_after ::
  "('u, 'f, 'c) agent_env \<Rightarrow> 'f loop_config \<Rightarrow> string \<Rightarrow> string \<Rightarrow> 'c filter_pipeline option \<Rightarrow> 'u \<Rightarrow> nat
     \<Rightarrow> ('u, 'c, ('u, 'c) loop_state) attempt" where
  "tool_loop_after env cfg prompt run_id pii w k =
     (case en_list_tools env w of
        (Inl e, w1) \<Rightarrow> Inl (Failed e, initial_state cfg prompt pii w1)
      | (Inr tools, w1) \<Rightarrow>
          after_rounds env cfg prompt run_id (visible_tools cfg tools) k (initial_state cfg prompt pii w1))"

lemma rounds_end: "after_rounds env cfg prompt run_id tools k st = Inl final
    \<Longrightarrow> run_rounds env cfg prompt run_id tools st = Some final"
proof (induction k arbitrary: st)
  case (Suc k)
  then show ?case
    by (cases "loop_round env cfg prompt run_id tools st") (auto simp: and_then_def run_rounds.simps[of env cfg prompt run_id tools st])
qed simp

lemma run_ends: "tool_loop_after env cfg prompt run_id pii w k = Inl final
    \<Longrightarrow> run_tool_loop env cfg prompt run_id pii w = Some final"
  by (auto simp: tool_loop_after_def run_tool_loop_def rounds_end split: prod.splits sum.splits)

lemma rounds_of_run:
  assumes "run_rounds env cfg prompt run_id tools st = Some final"
  shows "\<exists>k. after_rounds env cfg prompt run_id tools k st = Inl final"
proof -
  have "\<exists>k. after_rounds e c p i t k s = Inl r" if "run_rounds e c p i t s = Some r" for e c p i t s r
  proof (rule run_rounds.raw_induct[OF _ that])
    fix rounds e c p i t s r
    assume IH: "\<And>e c p i t s r. rounds e c p i t s = Some r \<Longrightarrow> \<exists>k. after_rounds e c p i t k s = Inl r"
      and 1: "(case loop_round e c p i t s of Inl final \<Rightarrow> Some final | Inr st1 \<Rightarrow> rounds e c p i t st1) = Some r"
    show "\<exists>k. after_rounds e c p i t k s = Inl r"
    proof (cases "loop_round e c p i t s")
      case (Inl final)
      then have "after_rounds e c p i t (Suc 0) s = Inl r" using 1 by (simp add: and_then_def)
      then show ?thesis by blast
    next
      case (Inr s1)
      then obtain k where "after_rounds e c p i t k s1 = Inl r" using 1 IH by fastforce
      then have "after_rounds e c p i t (Suc k) s = Inl r" using Inr by (simp add: and_then_def)
      then show ?thesis by blast
    qed
  qed
  then show ?thesis using assms .
qed

lemma run_after: "run_tool_loop env cfg prompt run_id pii w = Some final
    \<longleftrightarrow> (\<exists>k. tool_loop_after env cfg prompt run_id pii w k = Inl final)"
  by (auto simp: run_ends dest!: rounds_of_run)
     (auto simp: run_tool_loop_def tool_loop_after_def split: prod.splits sum.splits dest: rounds_of_run)

lemma rounds_closer:
  assumes k: "env_keeps env A I" and a: "\<And>t. t \<in> set tools \<Longrightarrow> A (at_name t)"
  shows "attempt_ok (keeps I st)
     (\<lambda>st'. keeps I st st' \<and>
        (counting cfg \<longrightarrow> rounds_left (tl_max_iterations cfg) st' + n \<le> rounds_left (tl_max_iterations cfg) st))
     (after_rounds env cfg prompt run_id tools n st)"
proof (induction n arbitrary: st)
  case (Suc n)
  show ?case
  proof (simp, rule attempt_then[OF round_goes[OF k a]], assumption)
    fix st1
    assume c: "closer I cfg st st1"
    show "attempt_ok (keeps I st) (\<lambda>st'. keeps I st st' \<and>
        (counting cfg \<longrightarrow> Suc (rounds_left (tl_max_iterations cfg) st' + n) \<le> rounds_left (tl_max_iterations cfg) st))
       (after_rounds env cfg prompt run_id tools n st1)"
      by (rule attempt_mono[OF Suc]) (use c in \<open>auto intro: kept_trans\<close>)
  qed
qed simp

text \<open>Rounds before the end: two more than the iterations allow, and the one that ends the run.\<close>

lemma initial_left: "rounds_left n (initial_state cfg prompt pii w) = n + 2"
  by (simp add: rounds_left_def initial_state_def)

section \<open>Calls and answers stay together\<close>

lemma answered_filter: "answered xs \<Longrightarrow> answered (filter (survives D) xs)"
  by (induction xs rule: answered.induct) auto

lemma ids_filter:
  "call_ids (filter (survives D) xs) = filter (\<lambda>i. i \<notin> D) (call_ids xs)"
proof (induction xs)
  case (Cons x xs)
  then show ?case by (cases x) simp_all
qed simp

lemma survives_drops:
  assumes "x \<in> set xs" "set (call_ids xs) \<inter> D = {}" "set (output_ids xs) \<inter> D = {}"
  shows "survives D x"
  using assms
proof (induction xs)
  case (Cons y ys)
  then show ?case by (cases y) auto
qed simp

lemma output_ids_drop: "set (output_ids (drop n xs)) \<subseteq> set (output_ids xs)"
  using ids_append(2)[of "take n xs" "drop n xs"] by (metis append_take_drop_id set_append sup_ge2)

lemma answered_prefix: "answered (xs @ ys) \<Longrightarrow> set (output_ids xs) \<subseteq> set (call_ids xs)"
  by (induction xs rule: answered.induct) auto

text \<open>Distinct ids: compaction drops whole pairs.\<close>

lemma compaction_answered:
  assumes a: "answered xs" and d: "distinct (call_ids xs)"
  shows "answered (compact_conversation k xs) \<and> distinct (call_ids (compact_conversation k xs)) \<and>
     set (call_ids (compact_conversation k xs)) \<subseteq> set (call_ids xs)"
proof -
  define e where "e = length xs - k"
  define D where "D = set (output_ids (drop 1 (take e xs)))"
  have D: "D \<subseteq> set (output_ids (take e xs))" "D \<subseteq> set (call_ids (take e xs))"
    using output_ids_drop answered_prefix[of "take e xs" "drop e xs"] a unfolding D_def by fastforce+
  have o: "output_ids (take e xs) @ output_ids (drop e xs) = call_ids xs"
    using answered_ids[OF a] ids_append(2)[of "take e xs" "drop e xs"] by simp
  have c: "call_ids (take e xs) @ call_ids (drop e xs) = call_ids xs"
    using ids_append(1)[of "take e xs" "drop e xs"] by simp
  have "set (call_ids (drop e xs)) \<inter> D = {}" using D(2) d c by (metis disjoint_iff distinct_append subsetD)
  moreover have "set (output_ids (drop e xs)) \<inter> D = {}" using D(1) d o by (metis disjoint_iff distinct_append subsetD)
  ultimately have "filter (survives D) (drop e xs) = drop e xs" using survives_drops by (metis filter_True)
  then have f: "filter (survives D) (take e xs) @ drop e xs = filter (survives D) xs"
    using filter_append[of "survives D" "take e xs" "drop e xs"] by simp
  have "compact_conversation k xs = xs \<or> compact_conversation k xs = filter (survives D) xs"
    unfolding compact_conversation_def Let_def e_def[symmetric] D_def[symmetric] f by simp
  then show ?thesis using a d by (auto simp: answered_filter ids_filter)
qed

text \<open>
  \<open>orderly issued ids st\<close>: calls and answers stand together, and their ids and the ids \<open>ids\<close> about to be
  called are distinct and were issued by the model.
\<close>

definition orderly :: "('u \<Rightarrow> string set) \<Rightarrow> string list \<Rightarrow> ('u, 'c) loop_state \<Rightarrow> bool" where
  "orderly issued ids st \<longleftrightarrow>
     answered (ls_input st) \<and> distinct (call_ids (ls_input st) @ ids) \<and>
     set (call_ids (ls_input st) @ ids) \<subseteq> issued (ls_world st)"

lemma orderly_adds:
  assumes "orderly issued (ids @ later) st" "adds (\<lambda>w. set (call_ids (ls_input st) @ ids @ later) \<subseteq> issued w) ids st st'"
  shows "orderly issued later st'"
  using assms by (auto simp: orderly_def adds_def moves_def answered_append)

lemma orderly_step:
  assumes "orderly issued (ids @ later) st" "\<And>S. extends (\<lambda>w. S \<subseteq> issued w) ids st m"
  shows "attempt_ok (\<lambda>_. True) (orderly issued later) m"
  by (rule attempt_mono[OF assms(2)]) (auto intro: orderly_adds[OF assms(1)])

text \<open>
  A model that numbers its calls: each answer's ids are distinct, new, and then issued.  A hook that
  keeps the order: a rewritten conversation is as well formed and a rewritten answer calls under some
  of the same ids.
\<close>

abbreviation answer_ids :: "model_response \<Rightarrow> string list" where
  "answer_ids r \<equiv> map fn_call_id (response_calls r)"

definition fresh_model ::
  "('u \<Rightarrow> string set) \<Rightarrow> ('f model_request \<Rightarrow> 'u \<Rightarrow> (agent_error + model_response) \<times> 'u) \<Rightarrow> bool" where
  "fresh_model issued respond_fn \<longleftrightarrow>
     (\<forall>rq w r w'. respond_fn rq w = (Inr r, w') \<longrightarrow>
        distinct (answer_ids r) \<and> set (answer_ids r) \<inter> issued w = {} \<and> set (answer_ids r) \<subseteq> issued w')"

definition well_formed :: "input_item list \<Rightarrow> bool" where
  "well_formed xs \<longleftrightarrow> answered xs \<and> distinct (call_ids xs)"

definition orderly_hook :: "('u, 'x, 'f model_request, model_response) model_hook \<Rightarrow> bool" where
  "orderly_hook h \<longleftrightarrow>
     (\<forall>q c w new w'. mh_pre h q c w = (Some (ModifyRequest new), w') \<longrightarrow> well_formed (rq_input q) \<longrightarrow>
        well_formed (rq_input new) \<and> set (call_ids (rq_input new)) \<subseteq> set (call_ids (rq_input q))) \<and>
     (\<forall>q r c w new w'. mh_post h q r c w = (Some (ModifyResponse new), w') \<longrightarrow> distinct (answer_ids r) \<longrightarrow>
        distinct (answer_ids new) \<and> set (answer_ids new) \<subseteq> set (answer_ids r))"

definition fresh_ids :: "('u, 'f, 'c) agent_env \<Rightarrow> ('u \<Rightarrow> string set) \<Rightarrow> bool" where
  "fresh_ids env issued \<longleftrightarrow>
     fresh_model issued (en_respond env) \<and> pred_option (fresh_model issued) (en_fallback env) \<and>
     pred_option (list_all orderly_hook) (en_hooks env)"

lemma pre_hooks_orderly:
  "run_pre_model hs rq c w = (ProceedModel q, w') \<Longrightarrow> list_all orderly_hook hs \<Longrightarrow> well_formed (rq_input rq) \<Longrightarrow>
     well_formed (rq_input q) \<and> set (call_ids (rq_input q)) \<subseteq> set (call_ids (rq_input rq))"
proof (induction hs arbitrary: rq w)
  case (Cons h hs)
  obtain d w1 where d: "mh_pre h rq c w = (d, w1)" by fastforce
  have hs: "list_all orderly_hook hs" using Cons.prems(2) by simp
  have "orderly_hook h" using Cons.prems(2) by simp
  note h = this[unfolded orderly_hook_def, THEN conjunct1, rule_format]
  show ?case
  proof (cases "\<exists>n. d = Some (ModifyRequest n)")
    case True
    then obtain n where n: "d = Some (ModifyRequest n)" by blast
    then have r: "run_pre_model hs n c w1 = (ProceedModel q, w')" using Cons.prems(1) d by simp
    have new: "well_formed (rq_input n) \<and> set (call_ids (rq_input n)) \<subseteq> set (call_ids (rq_input rq))"
      using h[OF d[unfolded n] Cons.prems(3)] .
    from Cons.IH[OF r hs conjunct1[OF new]] new show ?thesis by (meson subset_trans)
  next
    case False
    then have "run_pre_model hs rq c w1 = (ProceedModel q, w')"
      using Cons.prems(1) d by (auto split: option.splits pre_model_decision.splits)
    from Cons.IH[OF this hs Cons.prems(3)] show ?thesis .
  qed
qed simp

lemma post_hooks_orderly:
  "post_model_loop hs rq r c w = (AcceptModel a, w') \<Longrightarrow> list_all orderly_hook hs \<Longrightarrow> distinct (answer_ids r) \<Longrightarrow>
     distinct (answer_ids a) \<and> set (answer_ids a) \<subseteq> set (answer_ids r)"
proof (induction hs arbitrary: r w)
  case (Cons h hs)
  obtain d w1 where d: "mh_post h rq r c w = (d, w1)" by fastforce
  have hs: "list_all orderly_hook hs" using Cons.prems(2) by simp
  have "orderly_hook h" using Cons.prems(2) by simp
  note h = this[unfolded orderly_hook_def, THEN conjunct2, rule_format]
  show ?case
  proof (cases "\<exists>n. d = Some (ModifyResponse n)")
    case True
    then obtain n where n: "d = Some (ModifyResponse n)" by blast
    then have "post_model_loop hs rq n c w1 = (AcceptModel a, w')" using Cons.prems(1) d by simp
    from Cons.IH[OF this hs] h[OF d[unfolded n] Cons.prems(3)] show ?thesis by (meson subset_trans)
  next
    case False
    then have "post_model_loop hs rq r c w1 = (AcceptModel a, w')"
      using Cons.prems(1) d by (auto split: option.splits post_model_decision.splits)
    from Cons.IH[OF this hs Cons.prems(3)] show ?thesis .
  qed
qed simp

text \<open>The ids of an answer are new against the ids \<open>J\<close> of the conversation, and issued.\<close>

definition new_answer :: "('u \<Rightarrow> string set) \<Rightarrow> string set \<Rightarrow> model_response \<Rightarrow> 'u \<Rightarrow> bool" where
  "new_answer issued J r w \<longleftrightarrow>
     distinct (answer_ids r) \<and> set (answer_ids r) \<inter> J = {} \<and> J \<union> set (answer_ids r) \<subseteq> issued w"

abbreviation answers_anew ::
  "('u \<Rightarrow> string set) \<Rightarrow> string set \<Rightarrow> input_item list \<Rightarrow> ('u, 'c, model_response \<times> ('u, 'c) loop_state) attempt \<Rightarrow> bool"
where
  "answers_anew issued J xs m \<equiv>
     attempt_ok (\<lambda>_. True) (\<lambda>(r, st'). new_answer issued J r (ls_world st') \<and> ls_input st' = xs) m"

lemma respond_anew:
  assumes f: "fresh_model issued f" and k: "\<And>S q. keeps_world (\<lambda>w. S \<subseteq> issued w) (f q)"
    and J: "J \<subseteq> issued (ls_world st)"
  shows "answers_anew issued J (ls_input st) (respond_with f q st)"
proof -
  obtain x w where 1: "f q (ls_world st) = (x, w)" by fastforce
  have "J \<subseteq> issued w" using keeps_worldD[OF k 1] J by blast
  then show ?thesis using f 1 J
    by (cases x) (fastforce simp: respond_with_def in_world_def new_answer_def fresh_model_def)+
qed

lemma fallback_anew:
  assumes k: "\<And>S. env_keeps env (\<lambda>_. True) (\<lambda>w. S \<subseteq> issued w)" and f: "fresh_ids env issued"
    and r: "new_answer issued J r (ls_world st)"
  shows "answers_anew issued J (ls_input st) (ask_fallback env q r st)"
proof -
  have "answers_anew issued J (ls_input st)
      (and_then (respond_with g q' st) (\<lambda>(other, st1). Inr (if detect_model_refusal other then r else other, st1)))"
    if g: "en_fallback env = Some g" for g q'
  proof -
    obtain x w where 1: "g q' (ls_world st) = (x, w)" by fastforce
    have kg: "keeps_world (\<lambda>w. S \<subseteq> issued w) (g q)" for S q using k g by (simp add: env_keeps_def)
    have "issued (ls_world st) \<subseteq> issued w" using keeps_worldD[OF kg 1] by blast
    then have old: "new_answer issued J r w" using r by (auto simp: new_answer_def)
    have "answers_anew issued J (ls_input st) (respond_with g q' st)"
      by (rule respond_anew) (use f g kg r in \<open>auto simp: fresh_ids_def new_answer_def\<close>)
    then show ?thesis using old by (cases x) (auto simp: respond_with_def in_world_def 1 and_then_def)
  qed
  then show ?thesis using r by (auto simp: ask_fallback_def split: option.split)
qed

lemma post_anew:
  assumes k: "\<And>S. env_keeps env (\<lambda>_. True) (\<lambda>w. S \<subseteq> issued w)" and f: "fresh_ids env issued"
    and r: "new_answer issued J r (ls_world st)"
  shows "answers_anew issued J (ls_input st) (post_model env c rq r st)"
proof (cases "en_hooks env")
  case (Some hs)
  obtain x w where 1: "run_post_model hs rq r c (ls_world st) = (x, w)" by fastforce
  have "keeps_world (\<lambda>w. issued (ls_world st) \<subseteq> issued w) (post_model_loop (rev hs) rq r c)"
    by (rule post_keeps) (use k Some in \<open>auto simp: env_keeps_def\<close>)
  from keeps_worldD[OF this 1[unfolded run_post_model_def]] have mono: "issued (ls_world st) \<subseteq> issued w" by blast
  have hs: "list_all orderly_hook (rev hs)" using f Some by (simp add: fresh_ids_def)
  have "new_answer issued J a w" if "x = AcceptModel a" for a
    using post_hooks_orderly[OF 1[unfolded run_post_model_def that] hs] r mono unfolding new_answer_def by blast
  moreover have "answers_anew issued J (ls_input st) (respond_with (en_respond env) q (st\<lparr>ls_world := w\<rparr>))" for q
    using respond_anew[of issued "en_respond env" J "st\<lparr>ls_world := w\<rparr>" q] f k r mono
    by (auto simp: fresh_ids_def env_keeps_def new_answer_def)
  ultimately show ?thesis
    by (auto simp: post_model_def Some in_world_def 1 split: post_model_outcome.split)
qed (use r in \<open>simp add: post_model_def\<close>)

lemma model_orderly:
  fixes env :: "('u, 'f, 'c) agent_env"
  assumes k: "\<And>S. env_keeps env (\<lambda>_. True) (\<lambda>w. S \<subseteq> issued w)" and f: "fresh_ids env issued"
    and b: "orderly issued [] st"
  shows "attempt_ok (\<lambda>_. True) (\<lambda>(r, st'). orderly issued (answer_ids r) st')
     (model_turn env cfg run_id tools st)"
proof -
  let ?J = "set (call_ids (ls_input st))"
  have J: "?J \<subseteq> issued (ls_world st)" and wf: "well_formed (ls_input st)"
    using b by (simp_all add: orderly_def well_formed_def)
  have pre: "attempt_ok (\<lambda>_. True) (\<lambda>(q, st'). ?J \<subseteq> issued (ls_world st') \<and> well_formed (rq_input q) \<and>
      set (call_ids (rq_input q)) \<subseteq> ?J) (pre_model env c (build_request cfg tools st) st)" for c
  proof (cases "en_hooks env")
    case (Some hs)
    obtain x w where 1: "run_pre_model hs (build_request cfg tools st) c (ls_world st) = (x, w)" by fastforce
    have "keeps_world (\<lambda>w. ?J \<subseteq> issued w) (run_pre_model hs (build_request cfg tools st) c)"
      by (rule pre_keeps) (use k Some in \<open>auto simp: env_keeps_def\<close>)
    from keeps_worldD[OF this 1 J] have "?J \<subseteq> issued w" .
    moreover have "list_all orderly_hook hs" using f Some by (simp add: fresh_ids_def)
    ultimately show ?thesis using pre_hooks_orderly[of hs "build_request cfg tools st" c "ls_world st" _ w] 1 wf
      by (auto simp: pre_model_def Some in_world_def build_request_def split: pre_model_outcome.split)
  qed (use J wf in \<open>simp add: pre_model_def build_request_def\<close>)
  have done_turn: "attempt_ok (\<lambda>_. True) (\<lambda>(r, st'). orderly issued (answer_ids r) st') m"
    if m: "answers_anew issued ?J (rq_input q) m" and q: "well_formed (rq_input q)" "set (call_ids (rq_input q)) \<subseteq> ?J"
    for m :: "('u, 'c, model_response \<times> ('u, 'c) loop_state) attempt" and q :: "'f model_request"
  proof (rule attempt_mono[OF m], simp, clarify)
    fix r :: model_response and s :: "('u, 'c) loop_state"
    assume r: "new_answer issued ?J r (ls_world s)" and i: "ls_input s = rq_input q"
    then have "set (answer_ids r) \<inter> set (call_ids (rq_input q)) = {}"
      "set (call_ids (rq_input q)) \<union> set (answer_ids r) \<subseteq> issued (ls_world s)"
      using q(2) unfolding new_answer_def by blast+
    then show "orderly issued (answer_ids r) s"
      using r i q(1) by (auto simp: orderly_def well_formed_def new_answer_def)
  qed
  have fm: "fresh_model issued (en_respond env)" and km: "keeps_world (\<lambda>w. S \<subseteq> issued w) (en_respond env q)" for S q
    using f k by (auto simp: fresh_ids_def env_keeps_def)
  show ?thesis
    unfolding model_turn_def Let_def
  proof (rule attempt_then[OF pre], clarify)
    fix q :: "'f model_request" and st1 :: "('u, 'c) loop_state"
    assume q: "?J \<subseteq> issued (ls_world st1)" "well_formed (rq_input q)" "set (call_ids (rq_input q)) \<subseteq> ?J"
    show "attempt_ok (\<lambda>_. True) (\<lambda>(r, st'). orderly issued (answer_ids r) st')
       (and_then (respond_with (en_respond env) q st1) (\<lambda>(response, st2).
        and_then (post_model env (model_context cfg run_id st) q response st2) (\<lambda>(accepted, st3).
          ask_fallback env q accepted (st3\<lparr>ls_input := rq_input q\<rparr>))))"
    proof (rule attempt_then[OF respond_anew[OF fm km q(1)]], clarify)
      fix r2 and st2 :: "('u, 'c) loop_state"
      assume "new_answer issued ?J r2 (ls_world st2)"
      then show "attempt_ok (\<lambda>_. True) (\<lambda>(r, st'). orderly issued (answer_ids r) st')
         (and_then (post_model env (model_context cfg run_id st) q r2 st2) (\<lambda>(accepted, st3).
            ask_fallback env q accepted (st3\<lparr>ls_input := rq_input q\<rparr>)))"
      proof (rule attempt_then[OF post_anew[OF k f]], clarify)
        fix r3 and st3 :: "('u, 'c) loop_state"
        assume "new_answer issued ?J r3 (ls_world st3)"
        then have "answers_anew issued ?J (rq_input q) (ask_fallback env q r3 (st3\<lparr>ls_input := rq_input q\<rparr>))"
          using fallback_anew[OF k f, of ?J r3 "st3\<lparr>ls_input := rq_input q\<rparr>" q] by simp
        then show "attempt_ok (\<lambda>_. True) (\<lambda>(r, st'). orderly issued (answer_ids r) st')
            (ask_fallback env q r3 (st3\<lparr>ls_input := rq_input q\<rparr>))"
          by (rule done_turn[OF _ q(2,3)])
      qed
    qed
  qed
qed

lemma orderly_input [simp]:
  "orderly issued ids (st\<lparr>ls_exhausted := b\<rparr>) = orderly issued ids st"
  "orderly issued ids (st\<lparr>ls_empty_retries := n\<rparr>) = orderly issued ids st"
  "orderly issued ids (count_round cfg calls st) = orderly issued ids st"
  by (simp_all add: orderly_def count_round_def)

lemma orderly_message [intro]: "orderly issued ids st \<Longrightarrow> orderly issued ids (push_item (user_item t) st)"
  by (simp add: orderly_def push_item_def answered_append)

lemma orderly_keep: "orderly issued ids s \<Longrightarrow> (\<And>S. adds (\<lambda>w. S \<subseteq> issued w) [] s s') \<Longrightarrow> orderly issued ids s'"
  by (rule orderly_adds[of issued "[]", unfolded append_Nil])

lemma forget_adds:
  assumes "env_keeps env A I"
  shows "adds I [] st (forget_old_calls env st)"
proof -
  obtain now st1 where 1: "in_world (en_now env) st = (now, st1)" by fastforce
  have "keeps_world I (en_now env)" using assms by (simp add: env_keeps_def)
  from moves_world[OF this 1] show ?thesis by (auto simp: forget_old_calls_def 1 intro!: moves_adds)
qed

lemma compact_orderly: "orderly issued [] st \<Longrightarrow> orderly issued [] (compact_if_due env cfg st)"
  using compaction_answered[of "ls_input st" "effective_keep_recent cfg"] by (auto simp: compact_if_due_def Let_def orderly_def)

lemma last_part_orderly:
  assumes k: "\<And>S. env_keeps env (\<lambda>_. True) (\<lambda>w. S \<subseteq> issued w)"
    and b: "orderly issued (map fn_call_id (response_calls r)) st"
  shows "attempt_ok (\<lambda>_. True) (orderly issued []) (last_part env cfg run_id tools r st)"
proof (cases "response_calls r = []")
  case True
  then have e: "orderly issued [] (st\<lparr>ls_empty_retries := 1\<rparr>)" using b by simp
  let ?I = "\<lambda>w. set (call_ids (ls_input (st\<lparr>ls_empty_retries := 1\<rparr>)) @ []) \<subseteq> issued w"
  have "attempt_ok (\<lambda>_. True) (orderly issued []) (final_answer env run_id r st)"
    by (rule attempt_mono[OF answer_goes[where I = ?I]]) (auto intro: orderly_adds[of issued "[]", unfolded append_Nil, OF e])
  then show ?thesis using True by (simp add: last_part_def)
next
  case False
  let ?ids = "map fn_call_id (response_calls r)" and ?st = "count_round cfg (response_calls r) st"
  have "orderly issued ?ids (forget_old_calls env ?st)"
    by (rule orderly_keep[OF _ forget_adds[OF k]]) (use b in simp)
  then have "attempt_ok (\<lambda>_. True) (orderly issued []) (execute_calls env cfg (run_id, ls_progress st)
      (map at_name tools) (response_calls r) (forget_old_calls env ?st))"
    by (intro orderly_step[where ids = ?ids and later = "[]"]) (simp, rule execute_calls_adds[OF k], simp)
  then show ?thesis using False by (auto simp: last_part_def intro!: attempt_then compact_orderly)
qed

lemma round_orderly:
  assumes k: "\<And>S. env_keeps env (\<lambda>_. True) (\<lambda>w. S \<subseteq> issued w)" and f: "fresh_ids env issued"
    and b: "orderly issued [] st"
  shows "attempt_ok (\<lambda>_. True) (orderly issued []) (loop_round env cfg prompt run_id tools st)"
proof -
  have step: "orderly issued ids s \<Longrightarrow> (\<And>S. extends (\<lambda>w. S \<subseteq> issued w) [] s m)
      \<Longrightarrow> attempt_ok (\<lambda>_. True) (orderly issued ids) m" for ids s m
    using orderly_step[of issued "[]" ids s m] by simp
  have budget: "attempt_ok (\<lambda>_. True) (orderly issued []) (check_budget cfg s)" if "orderly issued [] s" for s
    using that by (auto simp: check_budget_def)
  show ?thesis
    unfolding loop_round_parts
    by (rule attempt_then[OF step[OF b signal_adds[OF k]]], rule attempt_then[OF budget], assumption,
        rule attempt_then[OF model_orderly[OF k f orderly_keep[OF _ retrieve_adds[OF k]]]], assumption, clarify,
        rule attempt_then[OF step[OF _ account_adds[OF k]]], assumption,
        rule attempt_then[OF step[OF orderly_keep[OF _ note_adds] repetition_adds]], assumption,
        rule last_part_orderly[OF k])
qed

lemma rounds_orderly:
  assumes "\<And>S. env_keeps env (\<lambda>_. True) (\<lambda>w. S \<subseteq> issued w)" "fresh_ids env issued"
    "orderly issued [] st"
  shows "attempt_ok (\<lambda>_. True) (orderly issued []) (after_rounds env cfg prompt run_id tools k st)"
  using assms(3)
  by (induction k arbitrary: st) (auto intro: attempt_then round_orderly[OF assms(1,2)])

text \<open>
  C5: When every round counts (no tools are exempt from the iteration budget), the tool loop returns,
  and within three rounds more than the iterations it was given: one round after the budget is spent to
  conclude, and one to report when an answer was empty.
\<close>

theorem tool_loop_returns:
  assumes "tl_non_progress cfg = None \<or> tl_non_progress cfg = Some []"
  shows "\<exists>k \<le> tl_max_iterations cfg + 3. \<exists>final.
           tool_loop_after env cfg prompt run_id pii w k = Inl final \<and>
           run_tool_loop env cfg prompt run_id pii w = Some final"
proof -
  let ?k = "tl_max_iterations cfg + 3"
  have c: "counting cfg" using assms by (auto simp: counting_def)
  have "\<exists>final. tool_loop_after env cfg prompt run_id pii w ?k = Inl final"
  proof (cases "fst (en_list_tools env w)")
    case (Inr tools)
    have "attempt_ok (keeps (\<lambda>_. True) (initial_state cfg prompt pii (snd (en_list_tools env w)))) (\<lambda>st'. False)
      (after_rounds env cfg prompt run_id (visible_tools cfg tools) ?k (initial_state cfg prompt pii (snd (en_list_tools env w))))"
      by (rule attempt_mono[OF rounds_closer[where A = "\<lambda>_. True" and cfg = cfg]]) (use c in \<open>auto simp: initial_left\<close>)
    then show ?thesis using Inr
      by (auto simp: tool_loop_after_def attempt_ok_def split: prod.splits sum.splits)
  qed (auto simp: tool_loop_after_def split: prod.splits)
  then obtain final where "tool_loop_after env cfg prompt run_id pii w ?k = Inl final" by blast
  then show ?thesis using run_ends by (intro exI[of _ ?k] conjI order_refl exI[of _ final])
qed

text \<open>
  C4: An agent with a list of allowed tools calls no other tool.  Whatever condition on the world \<open>I\<close> the
  rest of the environment keeps (the model, the fallback model, hooks, retrieval, signals, logs), and calls of
  the allowed tools keep, holds at the end of the run and after any number of rounds: whatever
  the tool list offers, the model asks for and whichever way a round ends.
\<close>

theorem only_allowed_tools_called:
  assumes "tl_allowed_tools cfg = Some allowed" "env_keeps env (\<lambda>tool. tool \<in> set allowed) I" "I w"
  shows "attempt_ok (\<lambda>st. I (ls_world st)) (\<lambda>st. I (ls_world st)) (tool_loop_after env cfg prompt run_id pii w k)"
proof -
  obtain r w1 where l: "en_list_tools env w = (r, w1)" by fastforce
  have w1: "I w1" using assms l keeps_worldD[of I "en_list_tools env" w r w1] by (auto simp: env_keeps_def)
  have "attempt_ok (\<lambda>st. I (ls_world st)) (\<lambda>st. I (ls_world st))
     (after_rounds env cfg prompt run_id (visible_tools cfg tools) k (initial_state cfg prompt pii w1))" for tools
    by (rule attempt_mono[OF rounds_closer[OF assms(2), where cfg = cfg]])
       (use w1 assms(1) in \<open>auto simp: keeps_def initial_state_def visible_tools_def\<close>)
  then show ?thesis using w1 by (simp add: tool_loop_after_def l initial_state_def split: sum.split)
qed

text \<open>
  C6: The conversation of an agent is well formed at the start of every round: each call in it is
  followed at once by its answer, every answer belongs to the call before it, and no id occurs
  twice.  This goes through unknown tools, arguments that do not parse, loop warnings, synthesis
  prompts, retried and fallback answers, and compaction, which drops calls only together with their
  answers.  It supposes that the model and the fallback model number their calls afresh (\<open>issued\<close> are
  the ids given out, which nothing in the environment takes back), that a hook which rewrites the
  request leaves a well-formed conversation without new ids, and that a hook which rewrites an
  answer calls under some of its ids.
\<close>

theorem conversation_well_formed:
  assumes "\<And>S. env_keeps env (\<lambda>_. True) (\<lambda>w. S \<subseteq> issued w)"
    and "fresh_model issued (en_respond env)" "pred_option (fresh_model issued) (en_fallback env)"
    and "pred_option (list_all orderly_hook) (en_hooks env)"
    and "tool_loop_after env cfg prompt run_id pii w k = Inr st"
  shows "answered (ls_input st) \<and> distinct (call_ids (ls_input st))"
proof -
  have f: "fresh_ids env issued" using assms(2-4) by (simp add: fresh_ids_def)
  obtain tools w1 where l: "en_list_tools env w = (Inr tools, w1)"
    and r: "after_rounds env cfg prompt run_id (visible_tools cfg tools) k (initial_state cfg prompt pii w1) = Inr st"
    using assms(5) by (auto simp: tool_loop_after_def split: prod.splits sum.splits)
  have "orderly issued [] (initial_state cfg prompt pii w1)"
    by (simp add: orderly_def initial_state_def split: option.split)
  from rounds_orderly[OF assms(1) f this, of cfg prompt run_id "visible_tools cfg tools" k]
  show ?thesis using r by (simp add: orderly_def)
qed

end
