(* ===== verification/AgentLoopDemo.thy ===== *)
theory AgentLoopDemo
  imports AgentLoopRuns
begin

text \<open>
  A small environment for the tool loop: a world that counts the model's turns and records the tools called, and
  a model that asks for the tools a script names.
\<close>

definition demo_floats :: "nat float_ops" where
  "demo_floats = \<lparr>fo_of_nat = \<lambda>n. n, fo_ratio = (div), fo_add = (+), fo_sub = (-), fo_mul = (*), fo_div = (div),
     fo_sqrt = \<lambda>n. n, fo_max = max, fo_less = (<), fo_ge = (\<ge>), fo_eq = (=), fo_to_u32 = \<lambda>n. n\<rparr>"

type_synonym demo_world = "nat \<times> string list"

text \<open>The model's turn \<open>n\<close> calls the tool \<open>script n\<close>, or answers.\<close>

definition demo_respond ::
  "(nat \<Rightarrow> string option) \<Rightarrow> nat model_request \<Rightarrow> demo_world \<Rightarrow> (agent_error + model_response) \<times> demo_world" where
  "demo_respond script rq w =
     (Inr \<lparr>mr_output =
        [case script (fst w) of
           Some tool \<Rightarrow> OutCall \<lparr>fn_id = None, fn_call_id = replicate (fst w) CHR ''x'', fn_name = tool,
                                 fn_arguments = ''{}'', fn_status = None\<rparr>
         | None \<Rightarrow> OutMessage \<lparr>mi_id = None, mi_role = AssistantRole, mi_content = PlainText ''finished'',
                                 mi_status = None\<rparr>],
        mr_usage = None\<rparr>, (fst w + 1, snd w))"

definition demo_tool :: "string \<Rightarrow> agent_tool" where
  "demo_tool name = \<lparr>at_name = name, at_description = None, at_parameters = JNull\<rparr>"

definition demo_call :: "string \<Rightarrow> json \<Rightarrow> demo_world \<Rightarrow> (agent_error + call_tool_result) \<times> demo_world" where
  "demo_call tool args w = (Inr (result_success [TextContent ''ok'']), (fst w, snd w @ [tool]))"

definition demo_env :: "(nat \<Rightarrow> string option) \<Rightarrow> (demo_world, nat, nat) agent_env" where
  "demo_env script =
     \<lparr>en_floats = demo_floats,
      en_repair = \<lparr>jp_parse = \<lambda>_. Some (JObject []), jp_trailing_commas = \<lambda>s. s, jp_unquoted_keys = \<lambda>s. s\<rparr>,
      en_json_text = \<lambda>_. ''{}'', en_digest = \<lambda>s. s, en_debug = \<lambda>_. [],
      en_list_tools = \<lambda>w. (Inr (map demo_tool [''read'', ''shell'', ''flow_status'']), w),
      en_call_tool = demo_call, en_taint = \<lambda>_. TRUSTED_PUBLIC, en_respond = demo_respond script,
      en_fallback = None, en_hooks = None, en_retrieve = None, en_embed = None, en_signal = None, en_phase = None,
      en_now = \<lambda>w. (0, w), en_fresh = \<lambda>w. ([], w), en_log_tool = None, en_log_model = None,
      en_filter_ops = \<lparr>fl_less = (<), fl_ge = (\<ge>), fl_zero = 0\<rparr>, en_custom_pii = []\<rparr>"

definition demo_config :: "string list option \<Rightarrow> string list option \<Rightarrow> nat loop_config" where
  "demo_config allowed polling =
     \<lparr>tl_max_iterations = 3, tl_system_prompt = None, tl_temperature = None, tl_max_tokens = None,
      tl_allowed_tools = allowed, tl_output_schema = None, tl_non_progress = polling, tl_force_iterations = None,
      tl_max_reasoning = None, tl_repair = False, tl_max_tokens_per_run = 1000, tl_window = 8192,
      tl_max_output_tokens = None, tl_compression_start = None, tl_keep_recent = None, tl_compaction_trigger = None,
      tl_policy = None, tl_loop_threshold = 0, tl_phases = []\<rparr>"

lemma demo_keeps:
  assumes "\<And>n calls. I (n, calls) \<Longrightarrow> I (Suc n, calls)" "\<And>n calls tool. A tool \<Longrightarrow> I (n, calls) \<Longrightarrow> I (n, calls @ [tool])"
  shows "env_keeps (demo_env script) A I"
  using assms by (auto simp: env_keeps_def keeps_world_def demo_env_def demo_respond_def demo_call_def)

lemma tool_loop_returns_witness:
  "\<exists>k \<le> 6. \<exists>final.
     tool_loop_after (demo_env (\<lambda>_. Some ''read'')) (demo_config None None) ''go'' ''run'' None (0, []) k = Inl final \<and>
     run_tool_loop (demo_env (\<lambda>_. Some ''read'')) (demo_config None None) ''go'' ''run'' None (0, []) = Some final"
proof -
  have "tl_non_progress (demo_config None None) = None \<or> tl_non_progress (demo_config None None) = Some []"
    by (simp add: demo_config_def)
  from tool_loop_returns[OF this, of "demo_env (\<lambda>_. Some ''read'')" "''go''" "''run''" None "(0, [])"]
  show ?thesis by (simp add: demo_config_def)
qed

lemma only_allowed_tools_called_witness:
  "attempt_ok (\<lambda>st. set (snd (ls_world st)) \<subseteq> {''read''}) (\<lambda>st. set (snd (ls_world st)) \<subseteq> {''read''})
     (tool_loop_after (demo_env (\<lambda>n. Some (if n = 1 then ''shell'' else ''read''))) (demo_config (Some [''read'']) None)
        ''go'' ''run'' None (0, []) 3)"
proof -
  have "tl_allowed_tools (demo_config (Some [''read'']) None) = Some [''read'']" by (simp add: demo_config_def)
  from only_allowed_tools_called[OF this demo_keeps, of "\<lambda>w. set (snd w) \<subseteq> {''read''}" "(0, [])"] show ?thesis by simp
qed

lemmas round_defs = loop_round_def and_then_def check_signal_def check_budget_def model_turn_def pre_model_def
  post_model_def ask_fallback_def respond_with_def in_world_def account_usage_def note_reasoning_def
  check_repetition_def is_status_poll_def response_calls_def map_filter_simps retrieve_context_def build_request_def
  Let_def count_round_def forget_old_calls_def execute_call_def make_call_def detector_record_def parse_or_empty_def
  compress_result_def log_call_def warn_loop_def push_item_def
  extract_text_def is_err_def result_success_def repeats_def REPETITION_THRESHOLD_def
  detect_model_refusal_def response_text_def

lemmas demo_defs = demo_env_def demo_config_def demo_respond_def demo_call_def demo_tool_def

lemma one_round:
  "\<exists>st. tool_loop_after (demo_env (\<lambda>_. Some ''read'')) (demo_config None None) ''go'' ''run'' None (0, []) 1 = Inr st"
  by (simp add: tool_loop_after_def demo_defs round_defs initial_state_def visible_tools_def block_complete_def block_truncate_def)

text \<open>A model that only polls is asked for ever.\<close>

lemma polling_round:
  assumes "ls_progress st = 0"
  shows "\<exists>st'. loop_round (demo_env (\<lambda>_. Some ''flow_status'')) (demo_config None (Some [''flow_status''])) ''go'' ''run''
     (map demo_tool [''read'', ''shell'', ''flow_status'']) st = Inr st' \<and> ls_progress st' = 0"
  using assms by (simp add: demo_defs round_defs compact_if_due_def block_complete_def block_truncate_def)

lemma polling_rounds:
  assumes "ls_progress st = 0"
  shows "\<exists>st'. after_rounds (demo_env (\<lambda>_. Some ''flow_status'')) (demo_config None (Some [''flow_status''])) ''go''
     ''run'' (map demo_tool [''read'', ''shell'', ''flow_status'']) k st = Inr st'"
  using assms
proof (induction k arbitrary: st)
  case (Suc k)
  from polling_round[OF Suc.prems] obtain st1 where
    "loop_round (demo_env (\<lambda>_. Some ''flow_status'')) (demo_config None (Some [''flow_status''])) ''go'' ''run''
       (map demo_tool [''read'', ''shell'', ''flow_status'']) st = Inr st1" "ls_progress st1 = 0" by blast
  then show ?case using Suc.IH[of st1] by (simp add: and_then_def)
qed simp

lemma polling_never_returns:
  "run_tool_loop (demo_env (\<lambda>_. Some ''flow_status'')) (demo_config None (Some [''flow_status''])) ''go'' ''run'' None
     (0, []) = None"
proof (rule ccontr)
  let ?env = "demo_env (\<lambda>_. Some ''flow_status'')" and ?cfg = "demo_config None (Some [''flow_status''])"
    and ?tools = "map demo_tool [''read'', ''shell'', ''flow_status'']"
  define st0 where "st0 = initial_state ?cfg ''go'' (None :: nat filter_pipeline option) (0 :: nat, [] :: string list)"
  have v: "visible_tools ?cfg tools = tools" for tools by (simp add: visible_tools_def demo_config_def)
  have l: "en_list_tools ?env (0, []) = (Inr ?tools, (0, []))" by (simp add: demo_env_def)
  have r: "run_tool_loop ?env ?cfg ''go'' ''run'' None (0, []) = run_rounds ?env ?cfg ''go'' ''run'' ?tools st0"
    unfolding run_tool_loop_def l by (simp only: prod.case sum.case v st0_def)
  assume "run_tool_loop ?env ?cfg ''go'' ''run'' None (0, []) \<noteq> None"
  then obtain k final where "after_rounds ?env ?cfg ''go'' ''run'' ?tools k st0 = Inl final"
    unfolding r using rounds_of_run by blast
  moreover have "ls_progress st0 = 0" by (simp add: st0_def initial_state_def)
  ultimately show False using polling_rounds[of st0 k] by (metis sum.distinct(1))
qed

text \<open>Two calls with one id: compaction keeps an answer without its call.\<close>

lemma compaction_orphans:
  "answered xs \<and> \<not> answered (compact_conversation 1 xs)"
  if "c = \<lparr>fn_id = None, fn_call_id = ''call_0'', fn_name = ''read'', fn_arguments = ''{}'', fn_status = None\<rparr>"
    "xs = [user_item ''go'', replay_call c, answer_call c ''a'', replay_call c, answer_call c ''b'']"
  using that by (simp add: compact_conversation_def user_item_def text_message_def replay_call_def answer_call_def)

definition demo_ids :: "demo_world \<Rightarrow> string set" where
  "demo_ids w = (\<lambda>i. replicate i CHR ''x'') ` {..<fst w}"

lemma conversation_well_formed_witness:
  "\<exists>st. tool_loop_after (demo_env (\<lambda>_. Some ''read'')) (demo_config None None) ''go'' ''run'' None (0, []) 1 = Inr st \<and>
     answered (ls_input st) \<and> distinct (call_ids (ls_input st))"
proof -
  let ?env = "demo_env (\<lambda>_. Some ''read'')"
  have k: "env_keeps ?env (\<lambda>_. True) (\<lambda>w. S \<subseteq> demo_ids w)" for S
    by (rule demo_keeps) (auto simp: demo_ids_def)
  have f: "fresh_model demo_ids (en_respond ?env)" "pred_option (fresh_model demo_ids) (en_fallback ?env)"
    "pred_option (list_all orderly_hook) (en_hooks ?env)"
    by (auto simp: fresh_model_def demo_env_def demo_respond_def response_calls_def map_filter_simps demo_ids_def
        dest: arg_cong[of _ _ length])
  obtain st where st: "tool_loop_after ?env (demo_config None None) ''go'' ''run'' None (0, []) 1 = Inr st"
    using one_round by blast
  from conversation_well_formed[OF k f st] st show ?thesis by blast
qed

end
