(* ===== verification/Spec2Isabelle.thy ===== *)
theory Spec2Isabelle
  imports Labels Paths Taint ValueStore Authn PathAcl ToolAccess RiskRings Quota Approval SessionPerms ProcessTable FlowDag Mailbox Blackboard FlowControl FlowTrace Dominator ExecOutcome Blackbox Routing ToolTypes Hooks Sessions SsrfFacts PiiPatterns GatewayStore GatewayHeap GateFrames Listings AgentLoopDemo
begin

text \<open>
  navra is a gateway between AI agents and tools, an agent SDK and a flow engine, in one
  Rust workspace.  This development models the logic that makes it safe: who an agent is,
  what it may call and touch, which data labels it accumulates, what is recorded, and how
  a flow of several agents is scheduled and checked.

  How the parts interact.  A request authenticates (\<open>Authn\<close>, with the tokens of
  \<open>Capability\<close>), joins a session (\<open>Sessions\<close>), and its tool call passes the rate limit
  (\<open>Quota\<close>), the tool policy (\<open>ToolAccess\<close>), the path permissions (\<open>PathAcl\<close> on the
  normalised paths of \<open>Paths\<close>, with \<open>SessionPerms\<close> for grants made at run time), human
  approval (\<open>Approval\<close>) and the hooks (\<open>Hooks\<close>).  Labels (\<open>Labels\<close>) flow from results into
  the taint of the session (\<open>Taint\<close>) and into the stored values that later calls refer to
  (\<open>ValueStore\<close>).  The trust of an agent rises and falls (\<open>RiskRings\<close>), its process entry
  counts its calls (\<open>ProcessTable\<close>), and every call ends in the audit log (\<open>Blackbox\<close>).
  \<open>Gateway\<close> and \<open>GatewayCall\<close> compose all of these into the tool call of the server, with the
  content filters of \<open>Safety\<close> between the answer of a tool and the client; \<open>Registry\<close> and
  \<open>Listings\<close> are what else the server answers.
  A flow is a graph of tasks (\<open>FlowDag\<close>) that the executor runs (\<open>FlowExec\<close>); agents talk
  through mailboxes (\<open>Mailbox\<close>) and a blackboard (\<open>Blackboard\<close>); traces of past runs
  yield validators (\<open>FlowTrace\<close>, \<open>Dominator\<close>).  Each agent is a tool loop (\<open>AgentLoop\<close>): it asks
  its model, carries out the calls it makes and keeps the conversation within its budgets.

  Theories and sources.
  \<^item> \<open>Prelude\<close>: byte strings, hash maps as association lists, saturating and wrapping
    arithmetic.  \<open>Interfaces\<close>: the contracts shared by several components, as locales.
  \<^item> \<open>Labels\<close>: \<open>navra-protocol/src/label.rs\<close>.  The derived orders, \<open>join\<close>, the flow checks.
  \<^item> \<open>Paths\<close>, \<open>PathAcl\<close>: \<open>navra-auth/src/permissions/acl.rs\<close>.  \<open>normalize_path\<close>, the ACL
    checks, ring inheritance, the capability fallback.
  \<^item> \<open>Taint\<close>: \<open>navra-auth/src/ifc/mod.rs\<close> and \<open>witness.rs\<close>.  \<open>ValueStore\<close>:
    \<open>ifc/value_store.rs\<close>, with the recursive resolution of \<open>var://\<close> references.
  \<^item> \<open>SandboxProfile\<close>, \<open>Capability\<close>, \<open>Authn\<close>: \<open>navra-auth/src/auth/\<close>.
  \<^item> \<open>ToolAccess\<close>: \<open>permissions/resource_class.rs\<close>, \<open>domain_rules.rs\<close>, \<open>tool_rules.rs\<close>,
    \<open>disclosure.rs\<close>.  \<open>RiskRings\<close>: \<open>risk_tier.rs\<close>, \<open>trust_score.rs\<close>, \<open>execution_ring.rs\<close>.
  \<^item> \<open>Quota\<close>, \<open>Approval\<close>, \<open>SessionPerms\<close>, \<open>ProcessTable\<close>: \<open>quota.rs\<close>,
    \<open>permissions/approval.rs\<close>, \<open>permissions/session.rs\<close>, \<open>process.rs\<close>.
  \<^item> \<open>FlowErrors\<close>, \<open>FlowDag\<close>, \<open>FlowControl\<close>, \<open>FlowExec\<close>: \<open>navra-flow/src/error.rs\<close>,
    \<open>dag.rs\<close> and \<open>task.rs\<close>, \<open>backedge.rs\<close> and \<open>recovery.rs\<close>, \<open>executor.rs\<close>.
    \<open>ExecFacts\<close> and \<open>ExecOutcome\<close> hold the proofs about the executor.
  \<^item> \<open>Truncate\<close>: \<open>truncate_str\<close> of \<open>navra-protocol\<close>.  \<open>Verification\<close>:
    \<open>navra-flow/src/verification.rs\<close> and \<open>validation/mandate.rs\<close>.
  \<^item> \<open>Mailbox\<close>, \<open>Blackboard\<close>, \<open>FlowTrace\<close>, \<open>Dominator\<close>: \<open>navra-flow/src/mailbox.rs\<close> and
    \<open>mesh.rs\<close>, \<open>blackboard.rs\<close>, \<open>validation/trace.rs\<close> and \<open>pta.rs\<close>, \<open>validation/dominator.rs\<close>.
  \<^item> \<open>Blackbox\<close>, \<open>Routing\<close>, \<open>ToolTypes\<close>, \<open>Sessions\<close>: \<open>navra-core/src/blackbox.rs\<close>,
    \<open>server/routing.rs\<close>, parts of \<open>server/handlers.rs\<close>, \<open>session.rs\<close>.  \<open>Hooks\<close>:
    \<open>navra-safety-hooks/src/hooks/pipeline.rs\<close>.
  \<^item> \<open>Safety\<close>, \<open>Pseudonym\<close>, \<open>Ssrf\<close>, \<open>PiiPatterns\<close>: \<open>navra-safety/src/lib.rs\<close>, \<open>pseudonym.rs\<close>,
    \<open>ssrf.rs\<close>, \<open>regex.rs\<close>; \<open>SsrfFacts\<close> holds the proofs about addresses.
  \<^item> \<open>Gateway\<close>, \<open>GatewayCall\<close>: the state and the gates, then the dispatch, the filtering, the labels
    and the records of \<open>handle_call_tool\<close> (\<open>navra-core/src/server/handlers.rs\<close>), the tools of the
    gateway itself (\<open>builder.rs\<close>) and its entry (\<open>navra_handler.rs\<close>).  \<open>GatewayGates\<close> states when a
    call is allowed and splits the gates, \<open>GateFrames\<close> says what a refused call may touch and how the
    gates relate to the Verus model in the same file; \<open>GatewayFacts\<close>, \<open>GatewayRuns\<close>,
    \<open>GatewayStore\<close>, \<open>GatewayHeap\<close> hold what is proved of whole calls and of runs of calls.
  \<^item> \<open>Registry\<close>, \<open>Listings\<close>: the upstream registries, permission negotiation and
    subscriptions; the paged lists, prompts, resources and initialisation of the same file, with
    the paging of \<open>navra-protocol/src/mcp.rs\<close>.
  \<^item> \<open>TextOps\<close>: slices and lines of UTF-8 strings.  \<open>ContextBudget\<close>: \<open>navra-cognitive/src/budget.rs\<close>.
    \<open>AgentActions\<close>: \<open>navra-agent/src/action.rs\<close>, \<open>block.rs\<close>, \<open>signal.rs\<close> and \<open>quota.rs\<close>.
    \<open>AgentItems\<close>: the items of \<open>navra-responses/src/\<close> and the helpers of
    \<open>navra-agent/src/tool_loop/config.rs\<close>.  \<open>AgentLoop\<close>: \<open>run_tool_loop\<close> of \<open>tool_loop/mod.rs\<close>, whose
    parts between two comments are a definition each; \<open>AgentLoopFacts\<close>, \<open>AgentLoopRuns\<close>: its proofs,
    \<open>AgentLoopDemo\<close>: an environment on which they are evaluated.

  How state and operations correspond.  A struct is a record and an enum a datatype, with a
  prefix on the fields where names repeat; a method with \<open>&mut self\<close>, or one that locks
  a mutex, returns the updated record.  A \<open>Result\<close> is a sum whose left side is the error, an
  early return is a branch, and a panic that can happen is \<open>None\<close>.  Strings are the
  bytes of their UTF-8 form; lowercase and whitespace operations are those of ASCII.  A \<open>HashMap\<close> is
  an association list with distinct keys whose order stands for the unspecified iteration
  order.  Integers are \<open>nat\<close> or \<open>int\<close> with the wrap or the saturation of the source written
  out.  Time is a parameter of the operations that read the clock.

  What the lemmas show.
  \<^item> Labels and taint: the product label is a lattice; in every session integrity never
    recovers, and the signed records account for the confidentiality from its old value to its new
    one.  Resolution of variables is substitution: it reads the variables named, and reports them
    with the join of their labels.
  \<^item> Access: the decisions of the tool policy, the path check and the approval store are
    characterised exactly; rights shrink along delegations, paths and tools up to the validator's
    covering test; along privilege rings operations shrink and denials spread, while allow patterns
    stay each set's own.  Normalised paths name the place the path walks to, when no \<open>..\<close> climbs
    above the start; above the root they lose it (\<open>Paths.climbing_loses_root\<close>).
  \<^item> Tokens: decoding inverts encoding and an accepted token was signed, unexpired and not
    revoked.
  \<^item> Limits: the token bucket, the trust score, back-edges and truncation keep their bounds.
  \<^item> Flows: construction accepts exactly the acyclic graphs over known tasks that list no dependency
    twice; the executor returns on every input, and without back-edges and checkpoint the tasks
    skipped at the end are exactly the dependents of the failed ones; mailboxes lose and invent
    nothing, and queue nothing above the clearance its target has at that time; for traces with a
    common start the milestones are exactly the unavoidable nodes.
  \<^item> Records: recordings append the rows of the insertions that succeed, and the log verifies
    when all do; two logs that verify, of one length and one last hash, agree in every covered field
    without a bar or exhibit a collision of the hash.

  \<^item> Content: a text that is declared declassified holds markers and the bytes outside every
    finding, pseudonyms can be reversed, internal addresses are flagged in the usual encodings
    (but for a decimal number below a million).
  \<^item> The gateway: a call is let through exactly when every gate admits it, and otherwise changes
    only the limiter, expired grants, an empty variable store, counters and records; a session that
    holds untrusted data stays so, and its calls that request a write tool by name are refused; the
    labels of the sessions move only as recorded; what is stored for later references is the
    filtered answer under the label the session absorbed or the witness names; nobody approves a
    permission for themselves.  The lists of the gateway are paged without gaps, in one request per
    started page.
  \<^item> The tool loop: it calls allowed tools only, returns within three rounds more than its
    budget when every round counts, and keeps each call of the conversation next to its answer, with
    hooks and a fallback model that respect call ids.

  Loops and fuel.  Only \<open>collect_pages\<close>, a client that follows cursors, takes a bound, the
  requests it may make; it gives \<open>None\<close> when it still holds a cursor after them, and the theorem says
  for which bounds it does not.  The rounds of
  an agent are \<open>partial_function\<close>, since an agent that only polls is never stopped; \<open>after_rounds\<close>
  counts them, and the two agree on how a run ends.  Structural loops are \<open>fun\<close>; the work lists of
  \<open>topological_sort\<close>, \<open>all_dependents\<close>, \<open>extract_dominators\<close> and the rounds of \<open>exec_run\<close> are
  \<open>while_option\<close>, so that a loop that does not end is \<open>None\<close>, and each is proved to
  return: the tasks not yet visited, the tasks not yet finished together with the
  firings left to the back-edges, and the shrinking dominator sets are the measures.

  Parameters.  Signatures, hashes, CBOR and JSON serialisation, base64, the glob engine,
  floating-point scores, the clock and fresh identifiers, agents, models and retrieval, hooks and
  filters, the regular expressions, the handlers of tools, prompts and resources and the Cedar, OPA
  and DMN engines are arguments of the definitions that use them.  A theorem that needs a law of one of them states it as a
  hypothesis, with a witness at a concrete instance.

  Not modelled: HTTP, WebSocket and stdio transports, SQLite text queries, process
  and container management, model inference and retrieval, user interfaces, and the
  interleavings of threads except for the trust score: a tool call of the gateway is one step.  They are input and output or
  third-party code; the functions listed above are the decisions they carry out.
\<close>

end
